(* ===== verification/Prelude.thy ===== *)
theory Prelude
  imports Main "HOL-Library.Word" "HOL-Library.Multiset" "HOL-Library.Char_ord"
    "HOL-Library.List_Lexorder" "HOL-Library.Sublist"
begin

text \<open>
  Shared vocabulary of the development: the Go machine types as the model sees them, results of
  fallible functions, indexing that can fail, and the generic lemmas on lists and arithmetic that the
  component theories use.

  \<^item> \<open>int64\<close> and \<open>int\<close> (64 bits on every supported platform) are mathematical integers with
    the two's complement reduction \<open>i64\<close> written out at every operation that can overflow.
  \<^item> \<open>byte\<close> is \<open>8 word\<close>; a Go string is a \<open>string\<close>, one \<open>char\<close> per byte.
  \<^item> A function that returns \<open>(T, error)\<close> returns a sum, \<open>Inl\<close> the error; an index or slice
    expression that panics out of range is an \<open>option\<close>, \<open>None\<close> the panic.
\<close>

named_theorems i64_simps \<open>reductions that disappear when a value is in the 64-bit range\<close>
named_theorems go_defs \<open>definitions of the small Go run-time operations\<close>

type_synonym byte = "8 word"
type_synonym bytes = "8 word list"

section \<open>64-bit signed integers\<close>

definition i64 :: "int \<Rightarrow> int" where
  "i64 x = (x + 2 ^ 63) mod 2 ^ 64 - 2 ^ 63"

definition in_i64 :: "int \<Rightarrow> bool" where
  "in_i64 x \<longleftrightarrow> - (2 ^ 63) \<le> x \<and> x < 2 ^ 63"

lemma i64_id [i64_simps]: "in_i64 x \<Longrightarrow> i64 x = x"
  by (simp add: i64_def in_i64_def)

lemma in_i64_i64 [simp]: "in_i64 (i64 x)"
proof -
  have "0 \<le> (x + 2 ^ 63) mod 2 ^ 64" and "(x + 2 ^ 63) mod 2 ^ 64 < (2 ^ 64 :: int)"
    by simp_all
  then show ?thesis by (simp add: i64_def in_i64_def)
qed

lemma in_i64_between: "in_i64 a \<Longrightarrow> in_i64 c \<Longrightarrow> a \<le> b \<Longrightarrow> b \<le> c \<Longrightarrow> in_i64 b"
  by (simp add: in_i64_def)

lemma in_i64_0 [simp]: "in_i64 0"
  by (simp add: in_i64_def)

section \<open>Indexing that can panic\<close>

definition nth_opt :: "'a list \<Rightarrow> nat \<Rightarrow> 'a option" where
  "nth_opt xs i = (if i < length xs then Some (xs ! i) else None)"

lemma nth_opt_Some [simp]: "i < length xs \<Longrightarrow> nth_opt xs i = Some (xs ! i)"
  by (simp add: nth_opt_def)

lemma nth_opt_None [simp]: "nth_opt xs i = None \<longleftrightarrow> length xs \<le> i"
  by (simp add: nth_opt_def)

section \<open>Multisets of list elements\<close>

lemma subset_add_mset_notin:
  assumes "mset xs \<subseteq># add_mset x M" "x \<notin> set xs"
  shows "mset xs \<subseteq># M"
proof (rule mset_subset_eqI)
  fix a
  have "count (mset xs) a \<le> count (add_mset x M) a" using assms(1) by (rule mset_subset_eq_count)
  moreover have "count (mset xs) x = 0" using assms(2) by (simp add: count_eq_zero_iff)
  ultimately show "count (mset xs) a \<le> count M a" by (cases "a = x") (simp_all del: count_mset_0_iff)
qed

lemma subset_add_mset_remove1:
  assumes "mset xs \<subseteq># add_mset x M"
  shows "mset (remove1 x xs) \<subseteq># M"
  using assms by (simp add: subset_eq_diff_conv)

section \<open>Strings as byte sequences\<close>

text \<open>The conversions \<open>[]byte(s)\<close> and \<open>string(b)\<close>.\<close>

definition byte_of_char :: "char \<Rightarrow> byte" where
  "byte_of_char c = of_nat (of_char c :: nat)"

definition char_of_byte :: "byte \<Rightarrow> char" where
  "char_of_byte w = char_of (unat w)"

definition bytes_of :: "string \<Rightarrow> bytes" where
  "bytes_of s = map byte_of_char s"

definition string_of :: "bytes \<Rightarrow> string" where
  "string_of b = map char_of_byte b"

lemma unat_byte_less [simp]: "unat (w :: byte) < 256"
  using unsigned_less [of w, where ?'a = nat] by simp

lemma byte_of_char_of_byte [simp]: "byte_of_char (char_of_byte w) = w"
  by (simp add: byte_of_char_def char_of_byte_def)

lemma char_of_byte_of_char [simp]: "char_of_byte (byte_of_char c) = c"
  by (simp add: byte_of_char_def char_of_byte_def unat_of_nat)

lemma bytes_of_string_of [simp]: "bytes_of (string_of b) = b"
  by (simp add: bytes_of_def string_of_def comp_def)

lemma string_of_bytes_of [simp]: "string_of (bytes_of s) = s"
  by (simp add: bytes_of_def string_of_def comp_def)

lemma length_bytes_of [simp]: "length (bytes_of s) = length s"
  by (simp add: bytes_of_def)

lemma length_string_of [simp]: "length (string_of b) = length b"
  by (simp add: string_of_def)

section \<open>Encodings\<close>

text \<open>
  The contract of an encoder and its decoder on the values the encoder is meant for. Every interpretation
  gives injectivity and the exact set of decodable encodings.
\<close>

locale round_trip =
  fixes encode :: "'a \<Rightarrow> 'b" and decode :: "'b \<Rightarrow> 'a option" and valid :: "'a \<Rightarrow> bool"
  assumes decode_encode: "valid x \<Longrightarrow> decode (encode x) = Some x"
begin

lemma encode_inj: "valid x \<Longrightarrow> valid y \<Longrightarrow> encode x = encode y \<Longrightarrow> x = y"
  by (metis decode_encode option.inject)

lemma decode_unique: "valid x \<Longrightarrow> valid y \<Longrightarrow> decode (encode x) = Some y \<longleftrightarrow> x = y"
  by (simp add: decode_encode)

lemma encode_list_inj:
  "\<forall>x \<in> set xs. valid x \<Longrightarrow> \<forall>y \<in> set ys. valid y \<Longrightarrow> map encode xs = map encode ys \<Longrightarrow> xs = ys"
proof (induction xs arbitrary: ys)
  case (Cons x xs)
  then obtain z zs where ys: "ys = z # zs" by (cases ys) auto
  with Cons.prems have "x = z" by (intro encode_inj) simp_all
  moreover have "xs = zs" using Cons.prems ys by (intro Cons.IH) simp_all
  ultimately show ?case using ys by simp
qed simp

end

end
