(* ===== verification/CoinSelect.thy ===== *)
theory CoinSelect
  imports Prelude
begin

text \<open>
  Coin selection (\<open>coinselect/coinselect.go\<close>): the branch-and-bound search with its explicit
  selection stack, the closest-match and accumulator strategies, the tiered fallback, the
  confirmed-first policy, the fee estimates and the shuffled draw.

  Every \<open>int64\<close> operation is reduced by \<open>i64\<close>; an index expression out of range is a panic
  (\<open>None\<close>).
\<close>

section \<open>Data\<close>

record utxo =
  TxID :: string
  Vout :: "32 word"
  Amount :: int
  EffectiveAmount :: int
  Fee :: int
  Height :: int

record selection_result =
  UTXOs :: "utxo list"
  Total :: int
  Effective :: int
  Waste :: int
  ExactMatch :: bool
  Tries :: nat

record selector =
  Target :: int
  CostOfChange :: int
  MaxTries :: int

definition MaximumTries :: nat where
  "MaximumTries = 100000"

definition DefaultInputSize :: int where
  "DefaultInputSize = 148"

definition empty_result :: selection_result where
  "empty_result = \<lparr>UTXOs = [], Total = 0, Effective = 0, Waste = 0, ExactMatch = False, Tries = 0\<rparr>"

definition NewSelector :: "int \<Rightarrow> int \<Rightarrow> selector" where
  "NewSelector t c = \<lparr>Target = t, CostOfChange = c, MaxTries = int MaximumTries\<rparr>"

definition IsConfirmed :: "utxo \<Rightarrow> bool" where
  "IsConfirmed u \<longleftrightarrow> Height u > 0"

definition IsEffectivelyZero :: "utxo \<Rightarrow> bool" where
  "IsEffectivelyZero u \<longleftrightarrow> EffectiveAmount u \<le> 0"

text \<open>The \<open>for\<close> loops that add a field of every element to an \<open>int64\<close> accumulator.\<close>

fun sum_i64 :: "(utxo \<Rightarrow> int) \<Rightarrow> int \<Rightarrow> utxo list \<Rightarrow> int" where
  "sum_i64 f acc [] = acc"
| "sum_i64 f acc (u # us) = sum_i64 f (i64 (acc + f u)) us"

definition Available :: "utxo list \<Rightarrow> int" where
  "Available us = sum_i64 EffectiveAmount 0 us"

text \<open>\<open>sort.SliceStable\<close> by descending effective amount.\<close>

definition sort_desc :: "utxo list \<Rightarrow> utxo list" where
  "sort_desc us = sort_key (\<lambda>u. - EffectiveAmount u) us"

section \<open>Branch and bound\<close>

record bnb_state =
  currentValue :: int
  currentAvailable :: int
  currentSelection :: "bool list"
  bestWaste :: int
  bestSelection :: "bool list"

datatype bnb_outcome = Next bnb_state | Break bnb_state | Panic

text \<open>The inner loop that pops the unselected entries off the selection stack.\<close>

function pop_unselected :: "utxo list \<Rightarrow> bool list \<Rightarrow> int \<Rightarrow> (bool list \<times> int) option" where
  "pop_unselected fs sel av =
     (if sel \<noteq> [] \<and> \<not> last sel then
        (case nth_opt fs (length sel - 1) of
           None \<Rightarrow> None
         | Some u \<Rightarrow> pop_unselected fs (butlast sel) (i64 (av + EffectiveAmount u)))
      else Some (sel, av))"
  by pat_completeness auto
termination
  by (relation "measure (\<lambda>(fs, sel, av). length sel)") auto

declare pop_unselected.simps [simp del]

text \<open>One iteration of the search loop.\<close>

definition bnb_record :: "selector \<Rightarrow> bnb_state \<Rightarrow> bnb_state" where
  "bnb_record s st =
     (let newWaste = i64 (currentValue st - Target s) in
      if newWaste \<le> bestWaste st
      then st\<lparr>bestWaste := newWaste, bestSelection := currentSelection st\<rparr>
      else st)"

definition bnb_backtrack :: "utxo list \<Rightarrow> bnb_state \<Rightarrow> bnb_outcome" where
  "bnb_backtrack fs st =
     (case pop_unselected fs (currentSelection st) (currentAvailable st) of
        None \<Rightarrow> Panic
      | Some (sel, av) \<Rightarrow>
          (if sel = [] then Break (st\<lparr>currentSelection := [], currentAvailable := av\<rparr>)
           else (case nth_opt fs (length sel - 1) of
                   None \<Rightarrow> Panic
                 | Some u \<Rightarrow> Next (st\<lparr>currentSelection := sel[length sel - 1 := False],
                                     currentAvailable := av,
                                     currentValue := i64 (currentValue st - EffectiveAmount u)\<rparr>))))"

definition bnb_descend :: "utxo list \<Rightarrow> bnb_state \<Rightarrow> bnb_outcome" where
  "bnb_descend fs st =
     (let sel = currentSelection st; idx = length sel in
      case nth_opt fs idx of
        None \<Rightarrow> Panic
      | Some u \<Rightarrow>
          (let av = i64 (currentAvailable st - EffectiveAmount u) in
           if idx > 0 \<and> \<not> sel ! (idx - 1) \<and>
              EffectiveAmount u = EffectiveAmount (fs ! (idx - 1)) \<and> Fee u = Fee (fs ! (idx - 1))
           then Next (st\<lparr>currentSelection := sel @ [False], currentAvailable := av\<rparr>)
           else Next (st\<lparr>currentSelection := sel @ [True], currentAvailable := av,
                         currentValue := i64 (currentValue st + EffectiveAmount u)\<rparr>)))"

definition bnb_step :: "selector \<Rightarrow> utxo list \<Rightarrow> bnb_state \<Rightarrow> bnb_outcome" where
  "bnb_step s fs st =
     (let backtrack = (i64 (currentValue st + currentAvailable st) < Target s \<or>
                       currentValue st > i64 (Target s + CostOfChange s)) in
      if backtrack then bnb_backtrack fs st
      else if currentValue st \<ge> Target s then bnb_backtrack fs (bnb_record s st)
      else bnb_descend fs st)"

text \<open>
  The loop \<open>for tries < maxTries\<close>: the first argument is the number of iterations left, so the
  recursion is the code's own bound and not an artificial fuel. The result carries whether the loop
  was left by \<open>break\<close> (the search space is exhausted) or by the bound.
\<close>

fun bnb_loop :: "nat \<Rightarrow> nat \<Rightarrow> selector \<Rightarrow> utxo list \<Rightarrow> bnb_state \<Rightarrow> (bnb_state \<times> nat \<times> bool) option" where
  "bnb_loop 0 tries s fs st = Some (st, tries, False)"
| "bnb_loop (Suc n) tries s fs st =
     (case bnb_step s fs st of
        Next st' \<Rightarrow> bnb_loop n (Suc tries) s fs st'
      | Break st' \<Rightarrow> Some (st', Suc tries, True)
      | Panic \<Rightarrow> None)"

definition bnb_maxTries :: "selector \<Rightarrow> nat" where
  "bnb_maxTries s = (if MaxTries s \<le> 0 then MaximumTries else nat (MaxTries s))"

definition bnb_filtered :: "utxo list \<Rightarrow> utxo list" where
  "bnb_filtered us = sort_desc (filter (\<lambda>u. \<not> IsEffectivelyZero u) us)"

definition bnb_init :: "selector \<Rightarrow> utxo list \<Rightarrow> bnb_state" where
  "bnb_init s fs = \<lparr>currentValue = 0, currentAvailable = Available fs, currentSelection = [],
                    bestWaste = CostOfChange s, bestSelection = []\<rparr>"

fun picked :: "bool list \<Rightarrow> utxo list \<Rightarrow> utxo list" where
  "picked (b # bs) (u # us) = (if b then u # picked bs us else picked bs us)"
| "picked _ _ = []"

definition BranchAndBound :: "selector \<Rightarrow> utxo list \<Rightarrow> selection_result option" where
  "BranchAndBound s us =
     (let fs = bnb_filtered us in
      if fs = [] then Some empty_result
      else if Target s > Available fs then Some empty_result
      else (case bnb_loop (bnb_maxTries s) 0 s fs (bnb_init s fs) of
              None \<Rightarrow> None
            | Some (st, tries, _) \<Rightarrow>
                (if bestSelection st = [] then Some empty_result
                 else (let sel = picked (bestSelection st) fs in
                       Some \<lparr>UTXOs = sel, Total = sum_i64 Amount 0 sel,
                             Effective = sum_i64 EffectiveAmount 0 sel, Waste = bestWaste st,
                             ExactMatch = True, Tries = tries\<rparr>))))"

section \<open>The other strategies\<close>

text \<open>
  The scan of \<open>ClosestMatch\<close>: \<open>found\<close>, \<open>smallestChange\<close> and \<open>bestMatch\<close> are one optional
  pair.
\<close>

fun closest_loop :: "int \<Rightarrow> (int \<times> utxo) option \<Rightarrow> utxo list \<Rightarrow> (int \<times> utxo) option" where
  "closest_loop t best [] = best"
| "closest_loop t best (u # us) =
     (if EffectiveAmount u < t then closest_loop t best us
      else (let change = i64 (EffectiveAmount u - t) in
            case best of
              None \<Rightarrow> closest_loop t (Some (change, u)) us
            | Some (smallest, _) \<Rightarrow>
                (if change < smallest then closest_loop t (Some (change, u)) us
                 else closest_loop t best us)))"

definition ClosestMatch :: "selector \<Rightarrow> utxo list \<Rightarrow> selection_result" where
  "ClosestMatch s us =
     (case closest_loop (i64 (Target s + CostOfChange s)) None us of
        None \<Rightarrow> empty_result
      | Some (_, u) \<Rightarrow> empty_result\<lparr>UTXOs := [u], Total := Amount u, Effective := EffectiveAmount u,
                                      Waste := i64 (EffectiveAmount u - Target s)\<rparr>)"

text \<open>The greedy loop: the picked outputs in order and the running total, with its \<open>break\<close>.\<close>

fun accumulate :: "int \<Rightarrow> int \<Rightarrow> utxo list \<Rightarrow> utxo list \<times> int" where
  "accumulate t tot [] = ([], tot)"
| "accumulate t tot (u # us) =
     (if IsEffectivelyZero u then accumulate t tot us
      else (let tot' = i64 (tot + EffectiveAmount u) in
            if tot' \<ge> t then ([u], tot')
            else (let (sel, final) = accumulate t tot' us in (u # sel, final))))"

definition Accumulator :: "selector \<Rightarrow> utxo list \<Rightarrow> selection_result" where
  "Accumulator s us =
     (let (sel, tot) = accumulate (Target s) 0 (sort_desc us) in
      if tot < Target s then empty_result
      else empty_result\<lparr>UTXOs := sel, Effective := tot, Waste := i64 (tot - Target s),
                        Total := sum_i64 Amount 0 sel\<rparr>)"

definition Standard :: "selector \<Rightarrow> utxo list \<Rightarrow> selection_result option" where
  "Standard s us =
     (case BranchAndBound s us of
        None \<Rightarrow> None
      | Some r \<Rightarrow>
          (if UTXOs r \<noteq> [] then Some r
           else (let c = ClosestMatch s us in
                 if UTXOs c \<noteq> [] then Some c else Some (Accumulator s us))))"

definition Select :: "selector \<Rightarrow> utxo list \<Rightarrow> utxo list option" where
  "Select s us = map_option UTXOs (Standard s us)"

definition PreferConfirmed :: "selector \<Rightarrow> utxo list \<Rightarrow> selection_result option" where
  "PreferConfirmed s us =
     (let confirmed = filter IsConfirmed us in
      if confirmed = [] then Standard s us
      else (case Standard s confirmed of
              None \<Rightarrow> None
            | Some r \<Rightarrow> (if UTXOs r = [] then Standard s us else Some r)))"

section \<open>Fees\<close>

definition EstimateFee :: "int \<Rightarrow> int \<Rightarrow> int" where
  "EstimateFee inputSize feePerByte = i64 (inputSize * feePerByte)"

definition EstimateFeeP2PKH :: "int \<Rightarrow> int" where
  "EstimateFeeP2PKH feePerByte = EstimateFee DefaultInputSize feePerByte"

definition Estimate :: "utxo list \<Rightarrow> int \<Rightarrow> utxo list" where
  "Estimate us feePerByte =
     map (\<lambda>u. let fee = EstimateFeeP2PKH feePerByte in
               u\<lparr>Fee := fee, EffectiveAmount := i64 (Amount u - fee)\<rparr>) us"

section \<open>The shuffled draw\<close>

text \<open>
  \<open>randomDraw\<close> shuffles with the Fisher-Yates loop; \<open>intn n\<close> is what \<open>rand.Intn(n)\<close> returned in
  the one call the loop makes with that argument.
\<close>

fun shuffle :: "(nat \<Rightarrow> nat) \<Rightarrow> nat \<Rightarrow> 'a list \<Rightarrow> 'a list" where
  "shuffle intn 0 xs = xs"
| "shuffle intn (Suc i) xs =
     (let j = intn (Suc (Suc i)) in
      shuffle intn i (xs[Suc i := xs ! j, j := xs ! Suc i]))"

fun draw_loop :: "int \<Rightarrow> int \<Rightarrow> selection_result \<Rightarrow> int \<Rightarrow> utxo list \<Rightarrow> selection_result" where
  "draw_loop t target r tot [] = empty_result"
| "draw_loop t target r tot (u # us) =
     (let r' = r\<lparr>UTXOs := UTXOs r @ [u], Total := i64 (Total r + Amount u),
                 Effective := i64 (Effective r + EffectiveAmount u)\<rparr>;
          tot' = i64 (tot + EffectiveAmount u)
      in if tot' \<ge> t then r'\<lparr>Waste := i64 (tot' - target)\<rparr>
         else draw_loop t target r' tot' us)"

definition randomDraw :: "(nat \<Rightarrow> nat) \<Rightarrow> utxo list \<Rightarrow> int \<Rightarrow> int \<Rightarrow> selection_result" where
  "randomDraw intn us target costOfChange =
     (if us = [] then empty_result
      else draw_loop (i64 (target + costOfChange)) target empty_result 0
             (shuffle intn (length us - 1) us))"

section \<open>Sums, positions and the no-overflow condition\<close>

lemma empty_result_simps [simp]:
  "UTXOs empty_result = []" "Total empty_result = 0" "Effective empty_result = 0"
  "Waste empty_result = 0" "ExactMatch empty_result = False" "Tries empty_result = 0"
  by (simp_all add: empty_result_def)

abbreviation esum :: "utxo list \<Rightarrow> int" where
  "esum us \<equiv> sum_list (map EffectiveAmount us)"

abbreviation positive :: "utxo list \<Rightarrow> utxo list" where
  "positive us \<equiv> filter (\<lambda>u. \<not> IsEffectivelyZero u) us"

text \<open>
  What keeps every \<open>int64\<close> operation exact: a positive target, a non-negative cost of change, and
  sums below \<open>2^63\<close>. The whole money supply is about \<open>2^57\<close> satoshis.
\<close>

definition fits :: "selector \<Rightarrow> utxo list \<Rightarrow> bool" where
  "fits s us \<longleftrightarrow> 0 < Target s \<and> 0 \<le> CostOfChange s \<and> Target s + CostOfChange s < 2 ^ 63 \<and>
                esum (positive us) < 2 ^ 63"

lemma fits_i64_target [i64_simps]: "fits s us \<Longrightarrow> i64 (Target s + CostOfChange s) = Target s + CostOfChange s"
  by (simp add: fits_def i64_id in_i64_def)

lemma esum_nonneg: "\<forall>u \<in> set us. 0 < EffectiveAmount u \<Longrightarrow> 0 \<le> esum us"
  by (induction us) auto

lemma esum_eq_0: "\<forall>u \<in> set us. 0 < EffectiveAmount u \<Longrightarrow> esum us = 0 \<longleftrightarrow> us = []"
  by (induction us) (auto dest: esum_nonneg)

lemma sum_i64_exact:
  assumes "\<forall>u \<in> set us. 0 \<le> f u" "0 \<le> acc" "acc + sum_list (map f us) < 2 ^ 63"
  shows "sum_i64 f acc us = acc + sum_list (map f us)"
  using assms
proof (induction us arbitrary: acc)
  case (Cons u us)
  have "0 \<le> sum_list (map f us)" using Cons.prems(1) by (intro sum_list_nonneg) auto
  then have "i64 (acc + f u) = acc + f u"
    using Cons.prems by (intro i64_id) (auto simp: in_i64_def)
  then show ?case using Cons.prems Cons.IH [of "acc + f u"] by simp
qed simp

lemma set_sort_desc [simp]: "set (sort_desc us) = set us"
  by (simp add: sort_desc_def)

lemma mset_sort_desc [simp]: "mset (sort_desc us) = mset us"
  by (simp add: sort_desc_def)

lemma esum_mset: "mset xs = mset ys \<Longrightarrow> esum xs = esum ys"
  by (metis mset_map sum_mset_sum_list)

lemma bnb_filtered_pos: "u \<in> set (bnb_filtered us) \<Longrightarrow> 0 < EffectiveAmount u"
  by (auto simp: bnb_filtered_def IsEffectivelyZero_def)

lemma esum_bnb_filtered: "esum (bnb_filtered us) = esum (positive us)"
  by (rule esum_mset) (simp add: bnb_filtered_def)

lemma picked_append: "picked (xs @ ys) us = picked xs us @ picked ys (drop (length xs) us)"
proof (induction xs arbitrary: us)
  case (Cons x xs)
  show ?case by (cases us) (auto simp: Cons.IH)
qed simp

lemma picked_Nil [simp]: "picked bs [] = []"
  by (cases bs) auto

lemma set_picked: "set (picked bs us) \<subseteq> set us"
  by (induction bs us rule: picked.induct) auto

lemma mset_picked: "mset (picked bs us) \<subseteq># mset us"
  by (induction bs us rule: picked.induct) (auto intro: subset_mset.order_trans)

lemma picked_replicate_False [simp]: "picked (replicate m False) us = []"
proof (induction m arbitrary: us)
  case (Suc m)
  then show ?case by (cases us) auto
qed simp

lemma esum_picked_bounds:
  assumes "\<forall>u \<in> set us. 0 < EffectiveAmount u"
  shows "0 \<le> esum (picked bs us)" and "esum (picked bs us) \<le> esum us"
  using assms by (induction bs us rule: picked.induct) (auto dest: esum_nonneg)

lemma esum_snoc:
  "length sel < length us \<Longrightarrow>
   esum (picked (sel @ [b]) us) = esum (picked sel us) + (if b then EffectiveAmount (us ! length sel) else 0)"
  by (auto simp: picked_append Cons_nth_drop_Suc [symmetric])

lemma esum_drop:
  "k < length us \<Longrightarrow> esum (drop k us) = EffectiveAmount (us ! k) + esum (drop (Suc k) us)"
  by (simp add: Cons_nth_drop_Suc [symmetric])

section \<open>The search invariant\<close>

text \<open>
  The arithmetic condition on the filtered list and the invariant of the loop: the stack never
  outgrows the list, \<open>currentValue\<close> is the value of the selected prefix, \<open>currentAvailable\<close> the
  value of the rest, and a recorded selection is within the window with its exact waste.
\<close>

definition bnb_ok :: "selector \<Rightarrow> utxo list \<Rightarrow> bool" where
  "bnb_ok s fs \<longleftrightarrow> 0 < Target s \<and> 0 \<le> CostOfChange s \<and> Target s + CostOfChange s < 2 ^ 63 \<and>
                  (\<forall>u \<in> set fs. 0 < EffectiveAmount u) \<and> esum fs < 2 ^ 63"

definition in_window :: "selector \<Rightarrow> int \<Rightarrow> bool" where
  "in_window s v \<longleftrightarrow> Target s \<le> v \<and> v \<le> Target s + CostOfChange s"

definition stack_inv :: "utxo list \<Rightarrow> bnb_state \<Rightarrow> bool" where
  "stack_inv fs st \<longleftrightarrow>
     length (currentSelection st) \<le> length fs \<and>
     currentValue st = esum (picked (currentSelection st) fs) \<and>
     currentAvailable st = esum (drop (length (currentSelection st)) fs)"

definition best_inv :: "selector \<Rightarrow> utxo list \<Rightarrow> bnb_state \<Rightarrow> bool" where
  "best_inv s fs st \<longleftrightarrow>
     (if bestSelection st = [] then bestWaste st = CostOfChange s
      else length (bestSelection st) \<le> length fs \<and>
           in_window s (esum (picked (bestSelection st) fs)) \<and>
           bestWaste st = esum (picked (bestSelection st) fs) - Target s)"

lemma fits_bnb_ok: "fits s us \<Longrightarrow> bnb_ok s (bnb_filtered us)"
  by (auto simp: fits_def bnb_ok_def esum_bnb_filtered bnb_filtered_pos)

lemma esum_picked_drop:
  assumes "\<forall>u \<in> set fs. 0 < EffectiveAmount u"
  shows "esum (picked sel fs) + esum (drop (length sel) fs) \<le> esum fs"
  using assms
proof (induction sel fs rule: picked.induct)
  case (1 b bs u us)
  then show ?case by auto
qed auto

lemma stack_inv_bounds:
  assumes "bnb_ok s fs" "stack_inv fs st"
  shows "0 \<le> currentValue st" "0 \<le> currentAvailable st" "currentValue st + currentAvailable st \<le> esum fs"
    "currentValue st + currentAvailable st < 2 ^ 63"
proof -
  have pos: "\<forall>u \<in> set fs. 0 < EffectiveAmount u" and lt: "esum fs < 2 ^ 63"
    using assms(1) by (auto simp: bnb_ok_def)
  show "0 \<le> currentValue st"
    using assms(2) esum_picked_bounds(1) [OF pos] by (simp add: stack_inv_def)
  have "\<forall>u \<in> set (drop k fs). 0 < EffectiveAmount u" for k
    using pos by (auto dest: in_set_dropD)
  then show "0 \<le> currentAvailable st"
    using assms(2) esum_nonneg by (simp add: stack_inv_def)
  show le: "currentValue st + currentAvailable st \<le> esum fs"
    using assms(2) esum_picked_drop [OF pos] by (simp add: stack_inv_def)
  with lt show "currentValue st + currentAvailable st < 2 ^ 63" by linarith
qed

text \<open>Popping keeps a prefix whose last entry is selected, and the rest of the stack was unselected.\<close>

lemma pop_unselected_spec:
  assumes "\<forall>u \<in> set fs. 0 < EffectiveAmount u" "esum fs < 2 ^ 63"
    and "length sel \<le> length fs" "av = esum (drop (length sel) fs)"
  shows "\<exists>sel' m. pop_unselected fs sel av = Some (sel', esum (drop (length sel') fs)) \<and>
           sel = sel' @ replicate m False \<and> (sel' = [] \<or> last sel')"
  using assms(3,4)
proof (induction sel arbitrary: av rule: rev_induct)
  case Nil
  then show ?case by (simp add: pop_unselected.simps)
next
  case (snoc b sel)
  have k: "length sel < length fs" using snoc.prems(1) by simp
  have "esum (drop (length sel) fs) < 2 ^ 63" "0 \<le> esum (drop (length sel) fs)"
  proof -
    have "\<forall>u \<in> set (drop (length sel) fs). 0 < EffectiveAmount u"
      using assms(1) by (auto dest: in_set_dropD)
    then show "0 \<le> esum (drop (length sel) fs)" by (rule esum_nonneg)
    show "esum (drop (length sel) fs) < 2 ^ 63"
      using esum_picked_drop [OF assms(1), of "replicate (length sel) False"] assms(2) by simp
  qed
  then have wrap: "i64 (av + EffectiveAmount (fs ! length sel)) = esum (drop (length sel) fs)"
    using k snoc.prems(2) by (simp add: esum_drop [of "length sel"] i64_id in_i64_def algebra_simps)
  show ?case
  proof (cases b)
    case True
    then show ?thesis
      using snoc.prems(2) by (intro exI [of _ "sel @ [b]"] exI [of _ 0]) (simp add: pop_unselected.simps)
  next
    case False
    obtain sel' m where ih: "pop_unselected fs sel (esum (drop (length sel) fs)) =
        Some (sel', esum (drop (length sel') fs))" "sel = sel' @ replicate m False" "sel' = [] \<or> last sel'"
      using snoc.IH [OF less_imp_le [OF k] refl] by blast
    have "pop_unselected fs (sel @ [b]) av = pop_unselected fs sel (esum (drop (length sel) fs))"
      using False k wrap by (subst pop_unselected.simps) simp
    with ih False show ?thesis
      by (intro exI [of _ sel'] exI [of _ "Suc m"]) (simp add: replicate_append_same)
  qed
qed

lemma bnb_backtrack_cases:
  assumes ok: "bnb_ok s fs" and inv: "stack_inv fs st"
  obtains (exhausted) m st' where "currentSelection st = replicate m False"
      "bnb_backtrack fs st = Break st'"
      "bestSelection st' = bestSelection st" "bestWaste st' = bestWaste st"
  | (sibling) p m st' where "currentSelection st = p @ True # replicate m False"
      "bnb_backtrack fs st = Next st'" "currentSelection st' = p @ [False]" "stack_inv fs st'"
      "bestSelection st' = bestSelection st" "bestWaste st' = bestWaste st"
proof -
  have pos: "\<forall>u \<in> set fs. 0 < EffectiveAmount u" and lt: "esum fs < 2 ^ 63"
    using ok by (auto simp: bnb_ok_def)
  obtain sel m where pop: "pop_unselected fs (currentSelection st) (currentAvailable st) =
      Some (sel, esum (drop (length sel) fs))"
    and sel: "currentSelection st = sel @ replicate m False" and last: "sel = [] \<or> last sel"
    using pop_unselected_spec [OF pos lt] inv unfolding stack_inv_def by blast
  show ?thesis
  proof (cases "sel = []")
    case True
    then show ?thesis using exhausted pop sel by (simp add: bnb_backtrack_def)
  next
    case False
    with last obtain p where p: "sel = p @ [True]" by (cases sel rule: rev_cases) auto
    have k: "length p < length fs" using inv p sel by (simp add: stack_inv_def)
    have val: "currentValue st = esum (picked p fs) + EffectiveAmount (fs ! length p)"
      using inv p sel by (simp add: stack_inv_def picked_append Cons_nth_drop_Suc [OF k, symmetric])
    have "0 \<le> esum (picked p fs)" "esum (picked p fs) \<le> esum fs"
      using esum_picked_bounds [OF pos] by auto
    then have w: "i64 (currentValue st - EffectiveAmount (fs ! length p)) = esum (picked p fs)"
      using val lt by (simp add: i64_id in_i64_def)
    let ?st = "st\<lparr>currentSelection := p @ [False], currentAvailable := esum (drop (Suc (length p)) fs),
                 currentValue := esum (picked p fs)\<rparr>"
    have "bnb_backtrack fs st = Next ?st"
      using pop p k w by (simp add: bnb_backtrack_def)
    moreover have "stack_inv fs ?st"
      using k esum_snoc [OF k, of False] by (simp add: stack_inv_def)
    ultimately show ?thesis using sibling [of p m ?st] sel p by simp
  qed
qed

lemma bnb_descend_cases:
  assumes ok: "bnb_ok s fs" and inv: "stack_inv fs st" and room: "length (currentSelection st) < length fs"
  obtains (duplicate) p st' where "currentSelection st = p @ [False]"
      "EffectiveAmount (fs ! Suc (length p)) = EffectiveAmount (fs ! length p)"
      "bnb_descend fs st = Next st'" "currentSelection st' = currentSelection st @ [False]"
      "stack_inv fs st'" "bestSelection st' = bestSelection st" "bestWaste st' = bestWaste st"
  | (take_it) st' where
      "bnb_descend fs st = Next st'" "currentSelection st' = currentSelection st @ [True]"
      "stack_inv fs st'" "bestSelection st' = bestSelection st" "bestWaste st' = bestWaste st"
proof -
  let ?sel = "currentSelection st" and ?k = "length (currentSelection st)"
  let ?av = "esum (drop (Suc ?k) fs)"
  let ?F = "st\<lparr>currentSelection := ?sel @ [False], currentAvailable := ?av\<rparr>"
  let ?T = "st\<lparr>currentSelection := ?sel @ [True], currentAvailable := ?av,
              currentValue := currentValue st + EffectiveAmount (fs ! ?k)\<rparr>"
  let ?dup = "0 < ?k \<and> \<not> ?sel ! (?k - 1) \<and> EffectiveAmount (fs ! ?k) = EffectiveAmount (fs ! (?k - 1)) \<and>
              Fee (fs ! ?k) = Fee (fs ! (?k - 1))"
  have av: "currentAvailable st = EffectiveAmount (fs ! ?k) + ?av"
    using inv esum_drop [OF room] by (simp add: stack_inv_def)
  have pos: "0 < EffectiveAmount (fs ! ?k)" using ok room by (simp add: bnb_ok_def)
  have "\<forall>u \<in> set (drop (Suc ?k) fs). 0 < EffectiveAmount u"
    using ok by (auto simp: bnb_ok_def dest: in_set_dropD)
  then have nn: "0 \<le> ?av" by (rule esum_nonneg)
  have w: "i64 (currentAvailable st - EffectiveAmount (fs ! ?k)) = ?av"
    "i64 (currentValue st + EffectiveAmount (fs ! ?k)) = currentValue st + EffectiveAmount (fs ! ?k)"
    using stack_inv_bounds [OF ok inv] av pos nn by (auto simp: i64_id in_i64_def)
  have step: "bnb_descend fs st = Next (if ?dup then ?F else ?T)"
    using room w by (simp add: bnb_descend_def Let_def)
  have invs: "stack_inv fs ?F" "stack_inv fs ?T"
    using inv room esum_snoc [OF room, of False] esum_snoc [OF room, of True] by (simp_all add: stack_inv_def)
  show ?thesis
  proof (cases ?dup)
    case True
    then obtain p where p: "?sel = p @ [False]" by (cases ?sel rule: rev_cases) auto
    show ?thesis using duplicate [of p ?F] p True step invs by (simp add: nth_append)
  next
    case False
    then have "bnb_descend fs st = Next ?T" by (subst step) (simp only: if_False)
    then show ?thesis using invs by (intro take_it [of ?T]) simp_all
  qed
qed

section \<open>Soundness of the search\<close>

lemma best_inv_record:
  assumes ok: "bnb_ok s fs" and inv: "stack_inv fs st" and best: "best_inv s fs st"
    and win: "in_window s (currentValue st)"
  shows "best_inv s fs (bnb_record s st)" "bestSelection (bnb_record s st) \<noteq> []"
    "bestWaste (bnb_record s st) \<le> currentValue st - Target s" "stack_inv fs (bnb_record s st)"
    "currentSelection (bnb_record s st) = currentSelection st"
proof -
  have w: "i64 (currentValue st - Target s) = currentValue st - Target s"
    using win ok by (auto simp: i64_id in_i64_def in_window_def bnb_ok_def)
  have ne: "currentSelection st \<noteq> []"
    using inv win ok by (auto simp: stack_inv_def in_window_def bnb_ok_def)
  show "best_inv s fs (bnb_record s st)" "bestSelection (bnb_record s st) \<noteq> []"
    "bestWaste (bnb_record s st) \<le> currentValue st - Target s" "stack_inv fs (bnb_record s st)"
    "currentSelection (bnb_record s st) = currentSelection st"
    using w ne win inv best
    by (auto simp: bnb_record_def Let_def best_inv_def stack_inv_def in_window_def split: if_splits)
qed

text \<open>The three branches of an iteration, with the arithmetic already exact.\<close>

lemma bnb_step_cases:
  assumes ok: "bnb_ok s fs" and inv: "stack_inv fs st"
  obtains (prune_low) "currentValue st + currentAvailable st < Target s" "bnb_step s fs st = bnb_backtrack fs st"
  | (prune_high) "Target s + CostOfChange s < currentValue st" "bnb_step s fs st = bnb_backtrack fs st"
  | (hit) "in_window s (currentValue st)" "bnb_step s fs st = bnb_backtrack fs (bnb_record s st)"
  | (descend) "currentValue st < Target s" "length (currentSelection st) < length fs"
      "bnb_step s fs st = bnb_descend fs st"
proof -
  have w: "i64 (currentValue st + currentAvailable st) = currentValue st + currentAvailable st"
    "i64 (Target s + CostOfChange s) = Target s + CostOfChange s"
    using stack_inv_bounds [OF ok inv] ok by (auto simp: i64_id in_i64_def bnb_ok_def)
  consider "currentValue st + currentAvailable st < Target s"
    | "Target s + CostOfChange s < currentValue st"
    | "in_window s (currentValue st)" "\<not> currentValue st + currentAvailable st < Target s"
    | "currentValue st < Target s" "\<not> currentValue st + currentAvailable st < Target s"
      "\<not> Target s + CostOfChange s < currentValue st"
    by (force simp: in_window_def)
  then show ?thesis
  proof cases
    case 4
    then have "0 < currentAvailable st" by linarith
    then have "length (currentSelection st) < length fs"
      using inv by (cases "length (currentSelection st) < length fs") (auto simp: stack_inv_def)
    with 4 w show ?thesis by (intro descend) (simp_all add: bnb_step_def Let_def)
  qed (use w prune_low prune_high hit in \<open>auto simp: bnb_step_def Let_def in_window_def\<close>)
qed

lemma bnb_step_best_inv:
  assumes ok: "bnb_ok s fs" and inv: "stack_inv fs st" and best: "best_inv s fs st"
  shows "(\<exists>st'. bnb_step s fs st = Next st' \<and> stack_inv fs st' \<and> best_inv s fs st') \<or>
         (\<exists>st'. bnb_step s fs st = Break st' \<and> best_inv s fs st')"
proof -
  have bk: "(\<exists>st'. bnb_backtrack fs st1 = Next st' \<and> stack_inv fs st' \<and> best_inv s fs st') \<or>
         (\<exists>st'. bnb_backtrack fs st1 = Break st' \<and> best_inv s fs st')"
    if "stack_inv fs st1" "best_inv s fs st1" for st1
    using ok that(1) by (cases rule: bnb_backtrack_cases) (use that(2) in \<open>auto simp: best_inv_def\<close>)
  show ?thesis
    using ok inv
  proof (cases rule: bnb_step_cases)
    case hit
    then show ?thesis using bk best_inv_record [OF ok inv best hit(1)] by simp
  next
    case descend
    from ok inv descend(2) show ?thesis
      by (cases rule: bnb_descend_cases) (use best descend(3) in \<open>auto simp: best_inv_def\<close>)
  qed (use bk [OF inv best] in \<open>simp_all\<close>)
qed

lemma bnb_loop_best_inv:
  assumes "bnb_ok s fs" "stack_inv fs st" "best_inv s fs st"
  shows "\<exists>st' t b. bnb_loop n tries s fs st = Some (st', t, b) \<and> best_inv s fs st'"
  using assms(2,3)
proof (induction n arbitrary: tries st)
  case (Suc n)
  from bnb_step_best_inv [OF assms(1) Suc.prems] show ?case
    using Suc.IH by fastforce
qed (simp, blast)

lemma bnb_init_inv:
  assumes "bnb_ok s fs"
  shows "stack_inv fs (bnb_init s fs)" "best_inv s fs (bnb_init s fs)"
proof -
  have "Available fs = esum fs"
    unfolding Available_def using assms
    by (subst sum_i64_exact) (auto simp: bnb_ok_def intro: less_imp_le)
  then show "stack_inv fs (bnb_init s fs)" "best_inv s fs (bnb_init s fs)"
    by (simp_all add: stack_inv_def best_inv_def bnb_init_def)
qed

lemma BranchAndBound_cases:
  assumes "fits s us"
  obtains (poor) "BranchAndBound s us = Some empty_result" "esum (positive us) < Target s"
  | (searched) st t b where
      "bnb_loop (bnb_maxTries s) 0 s (bnb_filtered us) (bnb_init s (bnb_filtered us)) = Some (st, t, b)"
      "best_inv s (bnb_filtered us) st" "Target s \<le> esum (positive us)"
      "BranchAndBound s us = Some (if bestSelection st = [] then empty_result
         else \<lparr>UTXOs = picked (bestSelection st) (bnb_filtered us),
               Total = sum_i64 Amount 0 (picked (bestSelection st) (bnb_filtered us)),
               Effective = esum (picked (bestSelection st) (bnb_filtered us)), Waste = bestWaste st,
               ExactMatch = True, Tries = t\<rparr>)"
proof -
  let ?fs = "bnb_filtered us"
  have ok: "bnb_ok s ?fs" using assms by (rule fits_bnb_ok)
  have av: "Available ?fs = esum (positive us)"
    using bnb_init_inv(1) [OF ok] by (simp add: stack_inv_def bnb_init_def esum_bnb_filtered)
  have pos: "0 < Target s" using assms by (simp add: fits_def)
  show ?thesis
  proof (cases "Target s > esum (positive us)")
    case True
    then show ?thesis using poor av by (simp add: BranchAndBound_def Let_def)
  next
    case False
    then have ne: "?fs \<noteq> []" using pos esum_bnb_filtered [of us] by auto
    obtain st t b where loop: "bnb_loop (bnb_maxTries s) 0 s ?fs (bnb_init s ?fs) = Some (st, t, b)"
      and best: "best_inv s ?fs st"
      using bnb_loop_best_inv [OF ok bnb_init_inv [OF ok]] by blast
    have "sum_i64 EffectiveAmount 0 (picked bs ?fs) = esum (picked bs ?fs)" for bs
    proof (subst sum_i64_exact)
      show "\<forall>u \<in> set (picked bs ?fs). 0 \<le> EffectiveAmount u"
        using set_picked [of bs ?fs] by (auto dest!: bnb_filtered_pos)
      show "0 + esum (picked bs ?fs) < 2 ^ 63"
        using esum_picked_bounds(2) [of ?fs bs] ok by (auto simp: bnb_ok_def)
    qed simp_all
    then show ?thesis
      using searched [OF loop best] ne False av loop by (simp add: BranchAndBound_def Let_def)
  qed
qed

lemma mset_picked_filtered: "mset (picked bs (bnb_filtered us)) \<subseteq># mset us"
proof -
  have "mset (picked bs (bnb_filtered us)) \<subseteq># mset (bnb_filtered us)" by (rule mset_picked)
  also have "\<dots> \<subseteq># mset us" by (simp add: bnb_filtered_def)
  finally show ?thesis .
qed

text \<open>
  What a strategy promises: the picked outputs come from the pool, they cover the target, and the
  reported effective value and waste are exact. An empty result promises nothing.
\<close>

definition covers :: "selector \<Rightarrow> utxo list \<Rightarrow> selection_result \<Rightarrow> bool" where
  "covers s us r \<longleftrightarrow> mset (UTXOs r) \<subseteq># mset us \<and> Effective r = esum (UTXOs r) \<and>
                    Target s \<le> Effective r \<and> Waste r = Effective r - Target s"

text \<open>
  Branch and bound never panics (no index expression of the search leaves the filtered list) and
  always returns; a non-empty result takes outputs of the pool, its effective value lies between the
  target and the target plus the cost of change, and the waste it reports is exactly the overshoot.
\<close>

theorem BranchAndBound_sound:
  assumes "fits s us"
  shows "\<exists>r. BranchAndBound s us = Some r \<and>
    (UTXOs r \<noteq> [] \<longrightarrow> covers s us r \<and> in_window s (Effective r) \<and> ExactMatch r)"
  using assms
proof (cases rule: BranchAndBound_cases)
  case poor
  then show ?thesis by simp
next
  case (searched st t b)
  then show ?thesis
    by (auto simp: covers_def best_inv_def in_window_def mset_picked_filtered)
qed

definition sample :: "int \<Rightarrow> int \<Rightarrow> utxo" where
  "sample v h = \<lparr>TxID = ''aa'', Vout = 0, Amount = v, EffectiveAmount = v, Fee = 0, Height = h\<rparr>"

theorem BranchAndBound_sound_witness:
  "\<exists>r. BranchAndBound (NewSelector 6 0) [sample 5 1, sample 4 0, sample 2 0] = Some r \<and>
    (UTXOs r \<noteq> [] \<longrightarrow> covers (NewSelector 6 0) [sample 5 1, sample 4 0, sample 2 0] r \<and>
       in_window (NewSelector 6 0) (Effective r) \<and> ExactMatch r)"
  by (rule BranchAndBound_sound) (simp add: fits_def NewSelector_def sample_def IsEffectivelyZero_def)

end
