(* ===== verification/CoinSelect_Search.thy ===== *)
theory CoinSelect_Search
  imports CoinSelect
begin

text \<open>
  Completeness of the branch-and-bound search of \<open>coinselect/coinselect.go\<close>: the selection stack
  enumerates the subsets in lexicographic order (selected before unselected), what is pruned or
  skipped as a duplicate is dominated, and the whole tree is searched within \<open>2^(n+1) - 1\<close>
  iterations.
\<close>

section \<open>The part of the search space that is still ahead\<close>

text \<open>
  \<open>pending sel bs\<close>: the full selection \<open>bs\<close> extends the stack \<open>sel\<close> or comes after it.
\<close>

fun pending :: "bool list \<Rightarrow> bool list \<Rightarrow> bool" where
  "pending [] bs = True"
| "pending (b # sel) (c # bs) = (if b = c then pending sel bs else b)"
| "pending (b # sel) [] = False"

definition extends :: "bool list \<Rightarrow> bool list \<Rightarrow> bool" where
  "extends sel bs \<longleftrightarrow> take (length sel) bs = sel"

lemma extends_simps [simp]:
  "extends [] bs" "extends (b # sel) (c # bs) \<longleftrightarrow> b = c \<and> extends sel bs" "\<not> extends (b # sel) []"
  by (auto simp: extends_def)

lemma pending_True:
  "length sel < length bs \<Longrightarrow> pending (sel @ [True]) bs \<longleftrightarrow> pending sel bs"
proof (induction sel bs rule: pending.induct)
  case (1 bs)
  then show ?case by (cases bs) auto
qed auto

lemma pending_False:
  "length sel < length bs \<Longrightarrow>
   pending sel bs \<Longrightarrow> pending (sel @ [False]) bs \<or> extends (sel @ [True]) bs"
proof (induction sel bs rule: pending.induct)
  case (1 bs)
  then show ?case by (cases bs) auto
qed (auto split: if_splits)

lemma pending_replicate_False:
  "m \<le> length bs \<Longrightarrow> pending (replicate m False) bs \<Longrightarrow> extends (replicate m False) bs"
proof (induction m arbitrary: bs)
  case (Suc m)
  then show ?case by (cases bs) (auto split: if_splits)
qed simp

lemma pending_sibling:
  "length p + Suc m \<le> length bs \<Longrightarrow> pending (p @ True # replicate m False) bs \<Longrightarrow>
   pending (p @ [False]) bs \<or> extends (p @ True # replicate m False) bs"
proof (induction p bs rule: pending.induct)
  case (1 bs)
  then show ?case
    by (cases bs) (auto split: if_splits dest: pending_replicate_False)
qed (auto split: if_splits)

text \<open>Swapping a skipped output with its selected twin gives an earlier subset of equal value.\<close>

lemma swap_twin:
  assumes "length bs = length fs" "extends (p @ [False, True]) bs"
    and "EffectiveAmount (fs ! Suc (length p)) = EffectiveAmount (fs ! length p)"
  shows "\<exists>bs'. length bs' = length fs \<and> \<not> pending (p @ [False]) bs' \<and>
           esum (picked bs' fs) = esum (picked bs fs)"
proof -
  define q where "q = drop (length p + 2) bs"
  have bs: "bs = p @ [False, True] @ q"
    using assms(2) unfolding extends_def q_def
    by (metis add_2_eq_Suc' append.assoc append_take_drop_id length_Cons length_append list.size(3)
        add_Suc_right add.right_neutral)
  let ?bs = "p @ [True, False] @ q"
  have len: "Suc (length p) < length fs" using assms(1) bs by auto
  have d: "drop (length p) fs = fs ! length p # fs ! Suc (length p) # drop (Suc (Suc (length p))) fs"
    using len by (simp add: Cons_nth_drop_Suc)
  have "esum (picked ?bs fs) = esum (picked bs fs)"
    using assms(3) by (simp add: bs picked_append d)
  moreover have "\<not> pending (p @ [False]) ?bs" by (induction p) auto
  moreover have "length ?bs = length fs" using assms(1) bs by simp
  ultimately show ?thesis by blast
qed

section \<open>Every subset is ahead or dominated\<close>

definition feasible :: "selector \<Rightarrow> utxo list \<Rightarrow> bool list \<Rightarrow> bool" where
  "feasible s fs bs \<longleftrightarrow> length bs = length fs \<and> in_window s (esum (picked bs fs))"

definition dominated :: "selector \<Rightarrow> utxo list \<Rightarrow> bnb_state \<Rightarrow> bool list \<Rightarrow> bool" where
  "dominated s fs st bs \<longleftrightarrow> bestSelection st \<noteq> [] \<and> bestWaste st \<le> esum (picked bs fs) - Target s"

definition search_inv :: "selector \<Rightarrow> utxo list \<Rightarrow> bnb_state \<Rightarrow> bool" where
  "search_inv s fs st \<longleftrightarrow>
     (\<forall>bs. feasible s fs bs \<longrightarrow> pending (currentSelection st) bs \<or> dominated s fs st bs)"

lemma extends_value:
  assumes "\<forall>u \<in> set fs. 0 < EffectiveAmount u" "extends sel bs"
  shows "esum (picked sel fs) \<le> esum (picked bs fs)"
    "esum (picked bs fs) \<le> esum (picked sel fs) + esum (drop (length sel) fs)"
proof -
  obtain q where q: "bs = sel @ q"
    using assms(2) unfolding extends_def by (metis append_take_drop_id)
  have "\<forall>u \<in> set (drop (length sel) fs). 0 < EffectiveAmount u"
    using assms(1) by (auto dest: in_set_dropD)
  from esum_picked_bounds [OF this, of q] q
  show "esum (picked sel fs) \<le> esum (picked bs fs)"
    "esum (picked bs fs) \<le> esum (picked sel fs) + esum (drop (length sel) fs)"
    by (simp_all add: picked_append)
qed

text \<open>Leaving the subtree of the stack is safe when all its full selections are infeasible or dominated.\<close>

lemma bnb_backtrack_search_inv:
  assumes ok: "bnb_ok s fs" and inv: "stack_inv fs st" and srch: "search_inv s fs st"
    and dead: "\<And>bs. feasible s fs bs \<Longrightarrow> extends (currentSelection st) bs \<Longrightarrow> dominated s fs st bs"
  shows "(\<exists>st'. bnb_backtrack fs st = Next st' \<and> stack_inv fs st' \<and> search_inv s fs st') \<or>
         (\<exists>st'. bnb_backtrack fs st = Break st' \<and> (\<forall>bs. feasible s fs bs \<longrightarrow> dominated s fs st' bs))"
  using ok inv
proof (cases rule: bnb_backtrack_cases)
  case (exhausted m st')
  have "dominated s fs st bs" if f: "feasible s fs bs" for bs
  proof -
    have "m \<le> length bs"
      using inv exhausted(1) f by (simp add: stack_inv_def feasible_def)
    then show ?thesis
      using srch f dead [OF f] exhausted(1) pending_replicate_False
      unfolding search_inv_def by metis
  qed
  with exhausted show ?thesis by (auto simp: dominated_def)
next
  case (sibling p m st')
  have "pending (p @ [False]) bs \<or> dominated s fs st bs" if f: "feasible s fs bs" for bs
  proof -
    have "length p + Suc m \<le> length bs"
      using inv sibling(1) f by (simp add: stack_inv_def feasible_def)
    then show ?thesis
      using srch f dead [OF f] sibling(1) pending_sibling
      unfolding search_inv_def by metis
  qed
  with sibling show ?thesis by (auto simp: search_inv_def dominated_def)
qed

lemma bnb_descend_search_inv:
  assumes ok: "bnb_ok s fs" and inv: "stack_inv fs st" and srch: "search_inv s fs st"
    and room: "length (currentSelection st) < length fs"
  shows "\<exists>st'. bnb_descend fs st = Next st' \<and> stack_inv fs st' \<and> search_inv s fs st'"
  using ok inv room
proof (cases rule: bnb_descend_cases)
  case (duplicate p st')
  have "pending (currentSelection st @ [False]) bs \<or> dominated s fs st bs" if f: "feasible s fs bs" for bs
  proof (cases "extends (currentSelection st @ [True]) bs")
    case True
    obtain bs' where bs': "length bs' = length fs" "\<not> pending (p @ [False]) bs'"
        "esum (picked bs' fs) = esum (picked bs fs)"
      using swap_twin [of bs fs p] True duplicate(1,2) f by (auto simp: feasible_def)
    then have "feasible s fs bs'" using f by (simp add: feasible_def)
    then have "dominated s fs st bs'"
      using srch bs'(2) duplicate(1) by (auto simp: search_inv_def)
    then show ?thesis using bs'(3) by (simp add: dominated_def)
  next
    case False
    then show ?thesis
      using srch f room pending_False [of "currentSelection st" bs]
      by (auto simp: search_inv_def feasible_def)
  qed
  with duplicate show ?thesis by (auto simp: search_inv_def dominated_def)
next
  case (take_it st')
  have "pending (currentSelection st @ [True]) bs \<or> dominated s fs st bs" if f: "feasible s fs bs" for bs
    using srch f room pending_True [of "currentSelection st" bs] by (auto simp: search_inv_def feasible_def)
  with take_it show ?thesis by (auto simp: search_inv_def dominated_def)
qed

lemma bnb_step_search_inv:
  assumes ok: "bnb_ok s fs" and inv: "stack_inv fs st" and best: "best_inv s fs st"
    and srch: "search_inv s fs st"
  shows "(\<exists>st'. bnb_step s fs st = Next st' \<and> stack_inv fs st' \<and> search_inv s fs st') \<or>
         (\<exists>st'. bnb_step s fs st = Break st' \<and> (\<forall>bs. feasible s fs bs \<longrightarrow> dominated s fs st' bs))"
proof -
  have pos: "\<forall>u \<in> set fs. 0 < EffectiveAmount u" using ok by (simp add: bnb_ok_def)
  note ext = extends_value [OF pos, of "currentSelection st"]
  from ok inv show ?thesis
  proof (cases rule: bnb_step_cases)
    case prune_low
    then have "\<not> feasible s fs bs" if "extends (currentSelection st) bs" for bs
      using ext(2) [OF that] inv by (auto simp: feasible_def in_window_def stack_inv_def)
    then show ?thesis using bnb_backtrack_search_inv [OF ok inv srch] prune_low(2) by auto
  next
    case prune_high
    then have "\<not> feasible s fs bs" if "extends (currentSelection st) bs" for bs
      using ext(1) [OF that] inv by (auto simp: feasible_def in_window_def stack_inv_def)
    then show ?thesis using bnb_backtrack_search_inv [OF ok inv srch] prune_high(2) by auto
  next
    case hit
    note r = best_inv_record [OF ok inv best hit(1)]
    have le: "bestSelection st \<noteq> [] \<Longrightarrow> bestWaste (bnb_record s st) \<le> bestWaste st"
      by (auto simp: bnb_record_def Let_def)
    have "search_inv s fs (bnb_record s st)"
      using srch r(2,5) le by (fastforce simp: search_inv_def dominated_def)
    moreover have "dominated s fs (bnb_record s st) bs" if "extends (currentSelection st) bs" for bs
      using ext(1) [OF that] r(2,3) inv by (auto simp: dominated_def stack_inv_def)
    ultimately show ?thesis
      using bnb_backtrack_search_inv [OF ok r(4)] r(5) hit(2) by auto
  next
    case descend
    then show ?thesis using bnb_descend_search_inv [OF ok inv srch descend(2)] by auto
  qed
qed

section \<open>The number of iterations\<close>

text \<open>
  Nodes of the search tree that the loop may still visit: those below the stack and those below the
  unselected sibling of every selected entry.
\<close>

fun nodes_left :: "nat \<Rightarrow> bool list \<Rightarrow> nat" where
  "nodes_left n [] = 2 ^ Suc n - 1"
| "nodes_left n (b # sel) = nodes_left (n - 1) sel + (if b then 2 ^ n - 1 else 0)"

lemma two_power_ge_1: "(1::nat) \<le> 2 ^ m"
  by simp

lemma nodes_left_pos: "0 < nodes_left n sel"
proof (induction n sel rule: nodes_left.induct)
  case (1 n)
  show ?case by (simp, insert two_power_ge_1 [of n], arith)
qed auto

lemma nodes_left_child: "length p < n \<Longrightarrow> nodes_left n (p @ [b]) < nodes_left n p"
proof (induction n p rule: nodes_left.induct)
  case (1 n)
  then obtain m where "n = Suc m" by (cases n) auto
  then show ?case by (cases b; simp, insert two_power_ge_1 [of m], arith+)
qed auto

lemma nodes_left_sibling:
  "length p < n \<Longrightarrow> nodes_left n (p @ [False]) < nodes_left n (p @ True # replicate m False)"
proof (induction n p rule: nodes_left.induct)
  case (1 n)
  then obtain k where "n = Suc k" by (cases n) auto
  then show ?case
    using nodes_left_pos [of k "replicate m False"] by (simp, insert two_power_ge_1 [of k], arith)
qed auto

lemma bnb_backtrack_nodes:
  assumes "bnb_ok s fs" "stack_inv fs st" "bnb_backtrack fs st = Next st'"
  shows "nodes_left (length fs) (currentSelection st') < nodes_left (length fs) (currentSelection st)"
  using assms(1,2)
proof (cases rule: bnb_backtrack_cases)
  case (sibling p m st'')
  have "length p < length fs" using assms(2) sibling(1) by (simp add: stack_inv_def)
  then show ?thesis using sibling assms(3) nodes_left_sibling by simp
qed (use assms(3) in simp)

lemma bnb_step_nodes:
  assumes ok: "bnb_ok s fs" and inv: "stack_inv fs st" and best: "best_inv s fs st"
    and step: "bnb_step s fs st = Next st'"
  shows "nodes_left (length fs) (currentSelection st') < nodes_left (length fs) (currentSelection st)"
  using ok inv
proof (cases rule: bnb_step_cases)
  case hit
  note r = best_inv_record [OF ok inv best hit(1)]
  show ?thesis using bnb_backtrack_nodes [OF ok r(4)] step hit(2) r(5) by simp
next
  case descend
  have "nodes_left (length fs) (currentSelection st @ [b]) < nodes_left (length fs) (currentSelection st)" for b
    using descend(2) by (rule nodes_left_child)
  moreover from ok inv descend(2)
  have "\<exists>b. currentSelection st' = currentSelection st @ [b]"
    by (cases rule: bnb_descend_cases) (use step descend(3) in auto)
  ultimately show ?thesis by auto
qed (use bnb_backtrack_nodes [OF ok inv] step in simp_all)

lemma bnb_loop_complete:
  assumes ok: "bnb_ok s fs"
    and "stack_inv fs st" "best_inv s fs st" "search_inv s fs st"
    and "nodes_left (length fs) (currentSelection st) \<le> n"
  shows "\<exists>st' t. bnb_loop n tries s fs st = Some (st', t, True) \<and> best_inv s fs st' \<and>
           (\<forall>bs. feasible s fs bs \<longrightarrow> dominated s fs st' bs)"
  using assms(2-)
proof (induction n arbitrary: tries st)
  case 0
  then show ?case using nodes_left_pos [of "length fs" "currentSelection st"] by simp
next
  case (Suc n)
  note b = bnb_step_best_inv [OF ok Suc.prems(1,2)]
  note c = bnb_step_search_inv [OF ok Suc.prems(1-3)]
  show ?case
  proof (cases "bnb_step s fs st")
    case (Next st')
    then have "nodes_left (length fs) (currentSelection st') \<le> n"
      using bnb_step_nodes [OF ok Suc.prems(1,2)] Suc.prems(4) by fastforce
    then show ?thesis using Suc.IH [of st' "Suc tries"] b c Next by simp
  next
    case (Break st')
    then show ?thesis using b c by auto
  next
    case Panic
    then show ?thesis using b by simp
  qed
qed

lemma picked_onto:
  "mset sub \<subseteq># mset fs \<Longrightarrow> \<exists>bs. length bs = length fs \<and> mset (picked bs fs) = mset sub"
proof (induction fs arbitrary: sub)
  case (Cons u fs)
  show ?case
  proof (cases "u \<in> set sub")
    case True
    have "mset (remove1 u sub) \<subseteq># mset fs" by (rule subset_add_mset_remove1) (use Cons.prems in simp)
    then obtain bs where "length bs = length fs" "mset (picked bs fs) = mset (remove1 u sub)"
      using Cons.IH by blast
    then show ?thesis using True by (intro exI [of _ "True # bs"]) simp
  next
    case False
    with Cons.prems have "mset sub \<subseteq># mset fs" using subset_add_mset_notin by fastforce
    then obtain bs where "length bs = length fs" "mset (picked bs fs) = mset sub" using Cons.IH by blast
    then show ?thesis by (intro exI [of _ "False # bs"]) simp
  qed
qed simp

text \<open>
  C10. Within its bound the search is optimal: when \<open>2^(n+1) - 1\<close> iterations are allowed for the
  \<open>n\<close> outputs of positive effective value, and some selection \<open>sub\<close> of them has a value between the
  target and the target plus the cost of change, the search returns a non-empty result, and its waste
  is at most the waste of \<open>sub\<close>: pruned branches and skipped duplicates never lose the best one.
  The target is positive, the cost of change is not negative, and the sums fit in 64 bits.
\<close>

theorem BranchAndBound_optimal:
  assumes "fits s us" and "2 ^ Suc (length (positive us)) - 1 \<le> bnb_maxTries s"
    and "mset sub \<subseteq># mset (positive us)" and "in_window s (esum sub)"
  shows "\<exists>r. BranchAndBound s us = Some r \<and> UTXOs r \<noteq> [] \<and> Waste r \<le> esum sub - Target s"
proof -
  let ?fs = "bnb_filtered us"
  have ok: "bnb_ok s ?fs" using assms(1) by (rule fits_bnb_ok)
  have n: "length ?fs = length (positive us)" by (simp add: bnb_filtered_def sort_desc_def)
  obtain bs where bs: "length bs = length ?fs" "mset (picked bs ?fs) = mset sub"
    using picked_onto [of sub ?fs] assms(3) by (auto simp: bnb_filtered_def)
  then have sum: "esum (picked bs ?fs) = esum sub" by (intro esum_mset)
  then have feas: "feasible s ?fs bs" using bs assms(4) by (simp add: feasible_def)
  obtain st t where loop: "bnb_loop (bnb_maxTries s) 0 s ?fs (bnb_init s ?fs) = Some (st, t, True)"
    and dom: "dominated s ?fs st bs" and best: "best_inv s ?fs st"
    using bnb_loop_complete [OF ok bnb_init_inv [OF ok], of "bnb_maxTries s" 0] assms(2) n feas
    by (auto simp: search_inv_def bnb_init_def)
  have enough: "esum (picked bs ?fs) \<le> esum (positive us)"
    using esum_picked_bounds(2) [of ?fs bs] bnb_filtered_pos by (simp add: esum_bnb_filtered)
  from assms(1) show ?thesis
  proof (cases rule: BranchAndBound_cases)
    case poor
    then show ?thesis using enough assms(4) sum by (simp add: in_window_def)
  next
    case (searched st' t' b')
    have "0 < Target s" using assms(1) by (simp add: fits_def)
    then have "picked (bestSelection st) ?fs \<noteq> []"
      using best dom by (auto simp: best_inv_def in_window_def dominated_def)
    then show ?thesis using searched(1,4) loop dom sum by (auto simp: dominated_def)
  qed
qed

theorem BranchAndBound_optimal_witness:
  "\<exists>r. BranchAndBound (NewSelector 6 1) [sample 5 1, sample 4 0, sample 2 0] = Some r \<and>
       UTXOs r \<noteq> [] \<and> Waste r \<le> 0"
  using BranchAndBound_optimal [of "NewSelector 6 1" "[sample 5 1, sample 4 0, sample 2 0]" "[sample 4 0, sample 2 0]"]
  by (simp add: fits_def NewSelector_def sample_def IsEffectivelyZero_def in_window_def bnb_maxTries_def
      MaximumTries_def insert_subset_eq_iff)

end
