(* ===== verification/CoinSelect_Strategies.thy ===== *)
theory CoinSelect_Strategies
  imports CoinSelect_Search
begin

text \<open>
  The contract of the selection strategies of \<open>coinselect/coinselect.go\<close> as an interface, its
  interpretation on branch and bound, closest match, the accumulator and the tiered default, and the
  policies built on them.
\<close>

section \<open>Values of sub-selections\<close>

lemma esum_positive: "esum us \<le> esum (positive us)"
  by (induction us) (auto simp: IsEffectivelyZero_def)

lemma mset_positive_mono: "mset sub \<subseteq># mset us \<Longrightarrow> mset (positive sub) \<subseteq># mset (positive us)"
  by (simp add: multiset_filter_mono)

lemma esum_sub:
  assumes "mset sub \<subseteq># mset us"
  shows "esum sub \<le> esum (positive us)"
proof -
  obtain bs where bs: "mset (picked bs (positive us)) = mset (positive sub)"
    using picked_onto [OF mset_positive_mono [OF assms]] by blast
  have "esum sub \<le> esum (positive sub)" by (rule esum_positive)
  also have "\<dots> = esum (picked bs (positive us))" using bs by (intro esum_mset) simp
  also have "\<dots> \<le> esum (positive us)"
    by (rule esum_picked_bounds(2)) (auto simp: IsEffectivelyZero_def)
  finally show ?thesis .
qed

text \<open>In a list sorted by descending value no \<open>k\<close> elements are worth more than the first \<open>k\<close>.\<close>

lemma esum_take_max:
  "sorted (map (\<lambda>u. - EffectiveAmount u) us) \<Longrightarrow> mset sub \<subseteq># mset us \<Longrightarrow>
   esum sub \<le> esum (take (length sub) us)"
proof (induction us arbitrary: sub)
  case (Cons u us)
  show ?case
  proof (cases "sub = []")
    case False
    obtain y where y: "y \<in> set sub" "u \<in> set sub \<Longrightarrow> y = u"
      using False by (metis list.set_sel(1))
    have yu: "EffectiveAmount y \<le> EffectiveAmount u"
    proof -
      have "y \<in> set (u # us)" using y(1) Cons.prems(2) by (metis mset_subset_eqD set_mset_mset)
      then show ?thesis using Cons.prems(1) by auto
    qed
    have "mset (remove1 y sub) \<subseteq># mset us"
    proof (cases "u \<in> set sub")
      case True
      then show ?thesis using y(2) Cons.prems(2) subset_add_mset_remove1 [of sub u "mset us"] by simp
    next
      case False
      with Cons.prems(2) have "mset sub \<subseteq># mset us" using subset_add_mset_notin by fastforce
      then show ?thesis by (simp add: subset_mset.order_trans [OF diff_subset_eq_self])
    qed
    then have "esum (remove1 y sub) \<le> esum (take (length (remove1 y sub)) us)"
      using Cons.IH Cons.prems(1) by simp
    moreover have "esum sub = EffectiveAmount y + esum (remove1 y sub)"
      using y(1) by (simp add: sum_list_map_remove1)
    moreover have "length sub = Suc (length (remove1 y sub))"
      using y(1) length_pos_if_in_set [of y sub] by (simp add: length_remove1)
    ultimately show ?thesis using yu by simp
  qed simp
qed simp

section \<open>Closest match\<close>

lemma closest_loop_spec:
  assumes "0 \<le> t" and "\<forall>u \<in> set us. EffectiveAmount u < 2 ^ 63"
    and "case best of None \<Rightarrow> True | Some (c, b) \<Rightarrow> t \<le> EffectiveAmount b \<and> c = EffectiveAmount b - t"
  shows "case closest_loop t best us of
      None \<Rightarrow> best = None \<and> (\<forall>u \<in> set us. EffectiveAmount u < t)
    | Some (c, b) \<Rightarrow> t \<le> EffectiveAmount b \<and> c = EffectiveAmount b - t \<and>
        (b \<in> set us \<or> best = Some (c, b)) \<and>
        (\<forall>u \<in> set us. t \<le> EffectiveAmount u \<longrightarrow> EffectiveAmount b \<le> EffectiveAmount u) \<and>
        (\<forall>c' b'. best = Some (c', b') \<longrightarrow> EffectiveAmount b \<le> EffectiveAmount b')"
  using assms(2,3)
proof (induction us arbitrary: best)
  case Nil
  then show ?case by (auto split: option.splits)
next
  case (Cons u us)
  show ?case
  proof (cases "EffectiveAmount u < t")
    case True
    then show ?thesis using Cons.IH [of best] Cons.prems by (auto split: option.splits)
  next
    case False
    have w: "i64 (EffectiveAmount u - t) = EffectiveAmount u - t"
      using False assms(1) Cons.prems(1) by (intro i64_id) (auto simp: in_i64_def)
    show ?thesis
    proof (cases best)
      case None
      then show ?thesis
        using Cons.IH [of "Some (EffectiveAmount u - t, u)"] Cons.prems(1) False w
        by (auto simp: Let_def split: option.splits)
    next
      case (Some cb)
      then obtain c b where cb: "best = Some (c, b)" by (cases cb) auto
      show ?thesis
        using Cons.IH [of "Some (EffectiveAmount u - t, u)"] Cons.IH [of best] Cons.prems cb False w
        by (cases "EffectiveAmount u - t < c") (auto simp: Let_def split: option.splits)
    qed
  qed
qed

lemma fits_pool_bound: "fits s us \<Longrightarrow> u \<in> set us \<Longrightarrow> EffectiveAmount u < 2 ^ 63"
  using esum_sub [of "[u]" us] by (auto simp: fits_def)

lemma ClosestMatch_cases:
  assumes "fits s us"
  obtains (none) "ClosestMatch s us = empty_result"
      "\<forall>u \<in> set us. EffectiveAmount u < Target s + CostOfChange s"
  | (single) u where "u \<in> set us" "Target s + CostOfChange s \<le> EffectiveAmount u"
      "\<forall>v \<in> set us. Target s + CostOfChange s \<le> EffectiveAmount v \<longrightarrow> EffectiveAmount u \<le> EffectiveAmount v"
      "ClosestMatch s us = empty_result\<lparr>UTXOs := [u], Total := Amount u, Effective := EffectiveAmount u,
                                        Waste := EffectiveAmount u - Target s\<rparr>"
proof -
  let ?t = "Target s + CostOfChange s"
  have t: "i64 ?t = ?t" "0 \<le> ?t" using assms by (auto simp: fits_i64_target fits_def)
  note spec = closest_loop_spec [OF t(2), of us None]
  show ?thesis
  proof (cases "closest_loop ?t None us")
    case None
    then show ?thesis using none spec t fits_pool_bound [OF assms] by (simp add: ClosestMatch_def)
  next
    case (Some cb)
    obtain c u where cu: "cb = (c, u)" by (cases cb)
    have u: "u \<in> set us" "?t \<le> EffectiveAmount u"
      "\<forall>v \<in> set us. ?t \<le> EffectiveAmount v \<longrightarrow> EffectiveAmount u \<le> EffectiveAmount v"
      using spec Some cu fits_pool_bound [OF assms] by auto
    have "i64 (EffectiveAmount u - Target s) = EffectiveAmount u - Target s"
      using u fits_pool_bound [OF assms u(1)] assms by (auto simp: i64_id in_i64_def fits_def)
    then show ?thesis using single [OF u] Some cu t by (simp add: ClosestMatch_def)
  qed
qed

section \<open>The accumulator\<close>

lemma accumulate_spec:
  assumes "tot < t" "0 \<le> tot" "tot + esum (positive us) < 2 ^ 63" "accumulate t tot us = (sel, final)"
  shows "final = tot + esum sel \<and> prefix sel (positive us) \<and>
    (final < t \<longrightarrow> sel = positive us) \<and> (t \<le> final \<longrightarrow> sel \<noteq> [] \<and> tot + esum (butlast sel) < t)"
  using assms
proof (induction us arbitrary: tot sel final)
  case (Cons u us)
  show ?case
  proof (cases "IsEffectivelyZero u")
    case True
    then show ?thesis using Cons.IH [of tot sel final] Cons.prems by simp
  next
    case False
    have nn: "0 \<le> esum (positive us)"
      by (rule esum_nonneg) (auto simp: IsEffectivelyZero_def)
    have pos: "0 < EffectiveAmount u" using False by (simp add: IsEffectivelyZero_def)
    have w: "i64 (tot + EffectiveAmount u) = tot + EffectiveAmount u"
      using Cons.prems False nn pos by (intro i64_id) (auto simp: in_i64_def)
    show ?thesis
    proof (cases "t \<le> tot + EffectiveAmount u")
      case True
      then have "sel = [u]" "final = tot + EffectiveAmount u"
        using Cons.prems(4) False w by (simp_all add: Let_def)
      then show ?thesis using True Cons.prems(1) False by auto
    next
      case less: False
      obtain sel' where sel': "accumulate t (tot + EffectiveAmount u) us = (sel', final)" "sel = u # sel'"
        using Cons.prems(4) False w less by (auto simp: Let_def split: prod.splits)
      have "final = tot + EffectiveAmount u + esum sel' \<and> prefix sel' (positive us) \<and>
          (final < t \<longrightarrow> sel' = positive us) \<and>
          (t \<le> final \<longrightarrow> sel' \<noteq> [] \<and> tot + EffectiveAmount u + esum (butlast sel') < t)"
        using Cons.IH [OF _ _ _ sel'(1)] less Cons.prems(2,3) False pos by simp
      then show ?thesis using sel'(2) False by auto
    qed
  qed
qed simp

lemma esum_positive_sort_desc: "esum (positive (sort_desc us)) = esum (positive us)"
  by (rule esum_mset) simp

lemma Accumulator_cases:
  assumes "fits s us"
  obtains (poor) "Accumulator s us = empty_result" "esum (positive us) < Target s"
  | (found) sel where "prefix sel (positive (sort_desc us))" "sel \<noteq> []" "Target s \<le> esum sel"
      "esum (butlast sel) < Target s"
      "Accumulator s us = empty_result\<lparr>UTXOs := sel, Effective := esum sel, Waste := esum sel - Target s,
                                       Total := sum_i64 Amount 0 sel\<rparr>"
proof -
  obtain sel final where acc: "accumulate (Target s) 0 (sort_desc us) = (sel, final)" by fastforce
  have lt: "esum (positive us) < 2 ^ 63" "0 < Target s" using assms by (auto simp: fits_def)
  have spec: "final = esum sel \<and> prefix sel (positive (sort_desc us)) \<and>
    (final < Target s \<longrightarrow> sel = positive (sort_desc us)) \<and>
    (Target s \<le> final \<longrightarrow> sel \<noteq> [] \<and> esum (butlast sel) < Target s)"
    using accumulate_spec [OF lt(2) _ _ acc] lt(1) by (simp add: esum_positive_sort_desc)
  show ?thesis
  proof (cases "final < Target s")
    case True
    then have "Accumulator s us = empty_result" using acc by (simp add: Accumulator_def)
    moreover have "esum (positive us) = final"
      using spec True by (metis esum_positive_sort_desc)
    ultimately show ?thesis using poor True by simp
  next
    case False
    obtain rest where "positive (sort_desc us) = sel @ rest" using spec by (auto simp: prefix_def)
    then have "mset sel \<subseteq># mset us"
      by (metis mset_append mset_filter mset_sort_desc mset_subset_eq_add_left multiset_filter_subset
          subset_mset.order_trans)
    then have "esum sel \<le> esum (positive us)" by (rule esum_sub)
    then have "i64 (esum sel - Target s) = esum sel - Target s"
      using False spec lt by (auto simp: i64_id in_i64_def)
    then show ?thesis using found [of sel] spec False acc by (simp add: Accumulator_def)
  qed
qed

section \<open>The contract of a strategy\<close>

locale coin_strategy =
  fixes run :: "selector \<Rightarrow> utxo list \<Rightarrow> selection_result option"
  assumes returns: "fits s us \<Longrightarrow> \<exists>r. run s us = Some r"
    and covering: "fits s us \<Longrightarrow> run s us = Some r \<Longrightarrow> UTXOs r \<noteq> [] \<Longrightarrow> covers s us r"
begin

lemma funds_needed: "fits s us \<Longrightarrow> run s us = Some r \<Longrightarrow> UTXOs r \<noteq> [] \<Longrightarrow> Target s \<le> esum (positive us)"
  using covering [of s us r] esum_sub [of "UTXOs r" us] by (auto simp: covers_def)

end

locale complete_coin_strategy = coin_strategy +
  assumes enough: "fits s us \<Longrightarrow> Target s \<le> esum (positive us) \<Longrightarrow> run s us = Some r \<Longrightarrow> UTXOs r \<noteq> []"
begin

lemma run_correct:
  assumes "fits s us"
  shows "\<exists>r. run s us = Some r \<and>
    (if Target s \<le> esum (positive us) then UTXOs r \<noteq> [] \<and> covers s us r else UTXOs r = [])"
  using returns [OF assms] enough [OF assms] covering [OF assms] funds_needed [OF assms] by fastforce

text \<open>A pool restricted by a predicate, as the confirmed-first policy does.\<close>

lemma restricted_pool:
  assumes "fits s us" "Target s \<le> esum (positive (filter P us))"
  shows "\<exists>r. run s (filter P us) = Some r \<and> UTXOs r \<noteq> [] \<and> covers s us r \<and> (\<forall>u \<in> set (UTXOs r). P u)"
proof -
  have sub: "mset (filter P us) \<subseteq># mset us" by simp
  have "esum (positive (filter P us)) \<le> esum (positive us)"
    by (rule esum_sub) (simp add: filter_mset_mono_strong)
  then have "fits s (filter P us)" using assms(1) by (simp add: fits_def)
  from run_correct [OF this] assms(2) obtain r
    where r: "run s (filter P us) = Some r" "UTXOs r \<noteq> []" "covers s (filter P us) r" by auto
  then have m: "mset (UTXOs r) \<subseteq># mset (filter P us)" by (simp add: covers_def)
  then have "covers s us r" using r(3) sub by (auto simp: covers_def intro: subset_mset.order_trans)
  moreover have "\<forall>u \<in> set (UTXOs r). P u"
    using set_mset_mono [OF m] by auto
  ultimately show ?thesis using r by blast
qed

end

interpretation bnb: coin_strategy BranchAndBound
proof unfold_locales
  fix s us r
  assume f: "fits s us"
  then show "\<exists>r. BranchAndBound s us = Some r"
    by (cases rule: BranchAndBound_cases) auto
  assume "BranchAndBound s us = Some r" "UTXOs r \<noteq> []"
  with f show "covers s us r"
    by (cases rule: BranchAndBound_cases)
      (auto simp: covers_def best_inv_def in_window_def mset_picked_filtered split: if_splits)
qed

lemma ClosestMatch_covers:
  assumes "fits s us" "UTXOs (ClosestMatch s us) \<noteq> []"
  shows "covers s us (ClosestMatch s us)"
  using assms(1)
proof (cases rule: ClosestMatch_cases)
  case (single u)
  then show ?thesis using assms(1) by (simp add: covers_def fits_def)
qed (use assms(2) in simp)

lemma Accumulator_covers:
  assumes "fits s us" "UTXOs (Accumulator s us) \<noteq> []"
  shows "covers s us (Accumulator s us)"
  using assms(1)
proof (cases rule: Accumulator_cases)
  case (found sel)
  have "mset sel \<subseteq># mset us"
    using found(1) by (metis mset_append mset_filter mset_sort_desc mset_subset_eq_add_left
        multiset_filter_subset prefix_def subset_mset.order_trans)
  with found show ?thesis by (simp add: covers_def)
qed (use assms(2) in simp)

lemma Accumulator_enough:
  assumes "fits s us" "Target s \<le> esum (positive us)"
  shows "UTXOs (Accumulator s us) \<noteq> []"
  using assms(1) by (cases rule: Accumulator_cases) (use assms(2) in simp_all)

interpretation closest: coin_strategy "\<lambda>s us. Some (ClosestMatch s us)"
  by unfold_locales (auto intro: ClosestMatch_covers)

interpretation acc: complete_coin_strategy "\<lambda>s us. Some (Accumulator s us)"
  by unfold_locales (auto intro: Accumulator_covers dest: Accumulator_enough)

interpretation std: complete_coin_strategy Standard
proof unfold_locales
  fix s us r
  assume f: "fits s us"
  obtain b where b: "BranchAndBound s us = Some b" using bnb.returns [OF f] by blast
  then show "\<exists>r. Standard s us = Some r" by (auto simp: Standard_def Let_def)
  assume r: "Standard s us = Some r"
  then consider "r = b" "UTXOs b \<noteq> []" | "r = ClosestMatch s us" "UTXOs r \<noteq> []" | "r = Accumulator s us"
    using b by (auto simp: Standard_def Let_def split: if_splits)
  note tiers = this
  from tiers show "UTXOs r \<noteq> [] \<Longrightarrow> covers s us r"
    by cases (use f b bnb.covering closest.covering acc.covering in auto)
  from tiers show "Target s \<le> esum (positive us) \<Longrightarrow> UTXOs r \<noteq> []"
    by cases (use f acc.enough in auto)
qed

section \<open>Properties\<close>

text \<open>
  C24. The tiered default never panics, and it succeeds exactly when it can: if the outputs of positive
  effective value together reach the target it returns a non-empty selection of the pool that covers
  the target, with exact effective value and waste; otherwise it returns the empty result.
  The target is positive, the cost of change is not negative, and the sums fit in 64 bits.
\<close>

theorem Standard_correct:
  assumes "fits s us"
  shows "\<exists>r. Standard s us = Some r \<and>
    (if Target s \<le> esum (positive us) then UTXOs r \<noteq> [] \<and> covers s us r else UTXOs r = [])"
  using assms by (rule std.run_correct)

theorem Standard_correct_witness:
  "\<exists>r. Standard (NewSelector 6 0) [sample 5 1, sample 4 0] = Some r \<and> UTXOs r \<noteq> [] \<and>
     covers (NewSelector 6 0) [sample 5 1, sample 4 0] r"
  using Standard_correct [of "NewSelector 6 0" "[sample 5 1, sample 4 0]"]
  by (simp add: fits_def NewSelector_def sample_def IsEffectivelyZero_def)

text \<open>
  Greedy selection uses as few outputs as possible: when the accumulator finds a selection, no
  selection of the pool with fewer outputs reaches the target.
\<close>

theorem Accumulator_fewest:
  assumes "fits s us" "UTXOs (Accumulator s us) \<noteq> []"
    and "mset sub \<subseteq># mset us" "Target s \<le> esum sub"
  shows "length (UTXOs (Accumulator s us)) \<le> length sub"
  using assms(1)
proof (cases rule: Accumulator_cases)
  case (found sel)
  let ?ps = "positive (sort_desc us)"
  have sorted: "sorted (map (\<lambda>u. - EffectiveAmount u) ?ps)"
    by (simp add: sort_desc_def sorted_filter)
  have le: "esum (positive sub) \<le> esum (take (length (positive sub)) ?ps)"
    by (rule esum_take_max [OF sorted]) (use mset_positive_mono [OF assms(3)] in simp)
  have "\<not> length (positive sub) < length sel"
  proof
    assume lt: "length (positive sub) < length sel"
    obtain rest where rest: "?ps = sel @ rest" using found(1) by (auto simp: prefix_def)
    have "take (length (positive sub)) ?ps = take (length (positive sub)) (butlast sel)"
      using lt rest by (simp add: take_butlast)
    moreover have "set (butlast sel) \<subseteq> set ?ps" using rest by (auto dest: in_set_butlastD)
    then have "\<forall>u \<in> set (butlast sel). 0 < EffectiveAmount u" by (auto simp: IsEffectivelyZero_def)
    then have "0 \<le> esum (drop (length (positive sub)) (butlast sel))"
      by (intro esum_nonneg) (auto dest: in_set_dropD)
    then have "esum (take (length (positive sub)) (butlast sel)) \<le> esum (butlast sel)"
      by (metis append_take_drop_id le_add_same_cancel1 map_append sum_list_append)
    ultimately show False
      using le found(4) assms(4) esum_positive [of sub] by simp
  qed
  then have "length sel \<le> length sub"
    by (meson length_filter_le linorder_not_less order_trans)
  then show ?thesis using found(5) by simp
qed (use assms(2) in simp)

theorem Accumulator_fewest_witness:
  "length (UTXOs (Accumulator (NewSelector 6 0) [sample 4 1, sample 5 0, sample 2 1])) \<le>
   length [sample 4 1, sample 2 1]"
proof (rule Accumulator_fewest)
  show "UTXOs (Accumulator (NewSelector 6 0) [sample 4 1, sample 5 0, sample 2 1]) \<noteq> []"
    by (simp add: Accumulator_def NewSelector_def sample_def sort_desc_def IsEffectivelyZero_def i64_def
        Let_def insort_key_def)
  show "mset [sample 4 1, sample 2 1] \<subseteq># mset [sample 4 1, sample 5 0, sample 2 1]"
    by (simp add: insert_subset_eq_iff)
qed (simp_all add: fits_def NewSelector_def sample_def IsEffectivelyZero_def)

text \<open>
  Closest match returns one output of the pool, the cheapest of those worth at least the target
  plus the cost of change, and it returns nothing only when there is none.
\<close>

theorem ClosestMatch_closest:
  assumes "fits s us"
  shows "if \<exists>u \<in> set us. Target s + CostOfChange s \<le> EffectiveAmount u
    then \<exists>u \<in> set us. UTXOs (ClosestMatch s us) = [u] \<and> Target s + CostOfChange s \<le> EffectiveAmount u \<and>
           Waste (ClosestMatch s us) = EffectiveAmount u - Target s \<and>
           (\<forall>v \<in> set us. Target s + CostOfChange s \<le> EffectiveAmount v \<longrightarrow> EffectiveAmount u \<le> EffectiveAmount v)
    else ClosestMatch s us = empty_result"
  using assms by (cases rule: ClosestMatch_cases) (auto simp: not_le [symmetric])

theorem ClosestMatch_closest_witness:
  "if \<exists>u \<in> set [sample 4 1, sample 9 0]. 6 \<le> EffectiveAmount u
   then \<exists>u \<in> set [sample 4 1, sample 9 0]. UTXOs (ClosestMatch (NewSelector 5 1) [sample 4 1, sample 9 0]) = [u] \<and>
          6 \<le> EffectiveAmount u \<and> Waste (ClosestMatch (NewSelector 5 1) [sample 4 1, sample 9 0]) = EffectiveAmount u - 5 \<and>
          (\<forall>v \<in> set [sample 4 1, sample 9 0]. 6 \<le> EffectiveAmount v \<longrightarrow> EffectiveAmount u \<le> EffectiveAmount v)
   else ClosestMatch (NewSelector 5 1) [sample 4 1, sample 9 0] = empty_result"
  using ClosestMatch_closest [of "NewSelector 5 1" "[sample 4 1, sample 9 0]"]
  by (simp add: fits_def NewSelector_def sample_def IsEffectivelyZero_def)

text \<open>
  Confirmed outputs come first: when the confirmed outputs alone reach the target the selection
  covers the target with confirmed outputs only, otherwise the policy is the default on the whole pool.
\<close>

theorem PreferConfirmed_correct:
  assumes "fits s us"
  shows "if Target s \<le> esum (positive (filter IsConfirmed us))
    then \<exists>r. PreferConfirmed s us = Some r \<and> UTXOs r \<noteq> [] \<and> covers s us r \<and> (\<forall>u \<in> set (UTXOs r). IsConfirmed u)
    else PreferConfirmed s us = Standard s us"
proof (cases "Target s \<le> esum (positive (filter IsConfirmed us))")
  case True
  obtain r where r: "Standard s (filter IsConfirmed us) = Some r" "UTXOs r \<noteq> []" "covers s us r"
      "\<forall>u \<in> set (UTXOs r). IsConfirmed u"
    using std.restricted_pool [OF assms True] by blast
  have "filter IsConfirmed us \<noteq> []"
    using True assms by (auto simp: fits_def simp del: filter_filter)
  then have "PreferConfirmed s us = Some r" using r by (simp add: PreferConfirmed_def Let_def)
  then show ?thesis using r True by simp
next
  case False
  have "esum (positive (filter IsConfirmed us)) \<le> esum (positive us)"
    by (rule esum_sub) (simp add: filter_mset_mono_strong)
  then have "fits s (filter IsConfirmed us)" using assms by (simp add: fits_def)
  from std.run_correct [OF this] obtain r where "Standard s (filter IsConfirmed us) = Some r" "UTXOs r = []"
    using False by auto
  then show ?thesis using False by (auto simp: PreferConfirmed_def Let_def)
qed

theorem PreferConfirmed_correct_witness:
  "\<exists>r. PreferConfirmed (NewSelector 3 0) [sample 9 0, sample 4 1] = Some r \<and> UTXOs r \<noteq> [] \<and>
     covers (NewSelector 3 0) [sample 9 0, sample 4 1] r \<and> (\<forall>u \<in> set (UTXOs r). IsConfirmed u)"
  using PreferConfirmed_correct [of "NewSelector 3 0" "[sample 9 0, sample 4 1]"]
  by (simp add: fits_def NewSelector_def sample_def IsEffectivelyZero_def IsConfirmed_def)

end
