(* ===== verification/Errors.thy ===== *)
theory Errors
  imports Prelude
begin

text \<open>
  The error values of the library (\<open>errors/common.go\<close>): the sentinel errors with their texts, errors
  built from a text, by wrapping another one with a prefix (\<open>fmt.Errorf("prefix: %w", err)\<close>) or by joining
  two (\<open>errors.Join\<close>), the operation errors of the stream client (\<open>*client.StreamError\<close>), the classifiers, and the recovery of a sentinel from the text another process sent.

  \<open>liblbryerrors.Err\<close> adds a stack trace and keeps the text of its argument, so it is transparent here.
\<close>

section \<open>Sentinels and errors\<close>

text \<open>One datatype for each \<open>var\<close> block of the file.\<close>

datatype common_error =
    ErrBlobNotFound
  | ErrBlobExists
  | ErrInvalidHash
  | ErrInvalidSize
  | ErrStreamCorrupted
  | ErrAccessDenied
  | ErrInvalidManifest
  | ErrHashMismatch
  | ErrConnectionFailed
  | ErrTimeout
  | ErrInvalidConfig
  | ErrRequestTooLarge
  | ErrInvalidData
  | ErrInvalidHashLen
  | ErrBlobProtected
  | ErrNoBlobData
  | ErrAlreadyConnected
  | ErrServerValidation
  | ErrAcquisitionFailed
  | ErrInvalidOffset
  | ErrInvalidLimit
  | ErrEndOfList

fun message :: "common_error \<Rightarrow> string" where
  "message ErrBlobNotFound = ''blob not found''"
| "message ErrBlobExists = ''blob already exists on server''"
| "message ErrInvalidHash = ''invalid hash''"
| "message ErrInvalidSize = ''invalid size''"
| "message ErrStreamCorrupted = ''stream corrupted''"
| "message ErrAccessDenied = ''access denied''"
| "message ErrInvalidManifest = ''invalid manifest''"
| "message ErrHashMismatch = ''hash mismatch''"
| "message ErrConnectionFailed = ''connection failed''"
| "message ErrTimeout = ''operation timeout''"
| "message ErrInvalidConfig = ''invalid configuration''"
| "message ErrRequestTooLarge = ''request is too large''"
| "message ErrInvalidData = ''Invalid data''"
| "message ErrInvalidHashLen = ''Invalid blob hash length''"
| "message ErrBlobProtected = ''requested blob is protected''"
| "message ErrNoBlobData = ''no blob data received''"
| "message ErrAlreadyConnected = ''already connected''"
| "message ErrServerValidation = ''server validation error''"
| "message ErrAcquisitionFailed = ''failed to acquire blob from all transfer methods''"
| "message ErrInvalidOffset = ''offset must be non-negative''"
| "message ErrInvalidLimit = ''limit must be positive''"
| "message ErrEndOfList = ''end of list reached''"

datatype storage_error =
    ErrFailedToCheckBlobExistence
  | ErrFailedToCheckNeededBlobs

fun storage_message :: "storage_error \<Rightarrow> string" where
  "storage_message ErrFailedToCheckBlobExistence = ''failed to check blob existence''"
| "storage_message ErrFailedToCheckNeededBlobs = ''failed to check needed blobs''"

datatype network_error =
    ErrFailedToParsePeerAddress
  | ErrFailedToStoreBlob
  | ErrFailedToMarshalBlobResponse
  | ErrFailedToMarshalTransferResponse
  | ErrFailedToSetReadDeadline
  | ErrFailedToReadBlobData
  | ErrFailedToDecodeJSON
  | ErrFailedToMarshalJSON
  | ErrFailedToSetWriteDeadline
  | ErrFailedToWriteData

fun network_message :: "network_error \<Rightarrow> string" where
  "network_message ErrFailedToParsePeerAddress = ''failed to parse peer address''"
| "network_message ErrFailedToStoreBlob = ''failed to store blob''"
| "network_message ErrFailedToMarshalBlobResponse = ''failed to marshal blob response''"
| "network_message ErrFailedToMarshalTransferResponse = ''failed to marshal transfer response''"
| "network_message ErrFailedToSetReadDeadline = ''failed to set read deadline''"
| "network_message ErrFailedToReadBlobData = ''failed to read blob data''"
| "network_message ErrFailedToDecodeJSON = ''failed to decode JSON''"
| "network_message ErrFailedToMarshalJSON = ''failed to marshal JSON''"
| "network_message ErrFailedToSetWriteDeadline = ''failed to set write deadline''"
| "network_message ErrFailedToWriteData = ''failed to write data''"

datatype stream_error =
    ErrBlobTooBig
  | ErrBlobEmpty
  | ErrInvalidIV
  | ErrInvalidBlockLength
  | ErrInvalidDataLength
  | ErrInvalidPadding
  | ErrStreamTooShort
  | ErrInvalidSDBlob
  | ErrMissingTerminatingBlob
  | ErrBlobCountMismatch
  | ErrUnexpectedEmptyBlob
  | ErrBlobsOutOfOrder

fun stream_message :: "stream_error \<Rightarrow> string" where
  "stream_message ErrBlobTooBig = ''blob must be at most 2097152 bytes''"
| "stream_message ErrBlobEmpty = ''blob is empty''"
| "stream_message ErrInvalidIV = ''IV length must equal to block size''"
| "stream_message ErrInvalidBlockLength = ''invalid block length''"
| "stream_message ErrInvalidDataLength = ''invalid data length''"
| "stream_message ErrInvalidPadding = ''invalid padding''"
| "stream_message ErrStreamTooShort = ''stream must be at least 2 blobs long''"
| "stream_message ErrInvalidSDBlob = ''sd blob is not valid''"
| "stream_message ErrMissingTerminatingBlob = ''sd blob is missing the terminating 0-length blob''"
| "stream_message ErrBlobCountMismatch = ''number of blobs in stream does not match number of blobs in sd info''"
| "stream_message ErrUnexpectedEmptyBlob = ''got 0-length blob before end of stream''"
| "stream_message ErrBlobsOutOfOrder = ''blobs are out of order in sd blob''"

datatype error =
    Sentinel common_error
  | StorageError storage_error
  | NetworkError network_error
  | StreamError stream_error
  | TransferStopped
  | Canceled
  | DeadlineExceeded
  | EOF
  | UnexpectedEOF
  | Plain string
  | Wrapped string error
  | Joined error error
  | OperationError string error

fun errText :: "error \<Rightarrow> string" where
  "errText (Sentinel s) = message s"
| "errText (StorageError s) = storage_message s"
| "errText (NetworkError s) = network_message s"
| "errText (StreamError s) = stream_message s"
| "errText TransferStopped = ''transfer is stopped''"
| "errText Canceled = ''context canceled''"
| "errText DeadlineExceeded = ''context deadline exceeded''"
| "errText EOF = ''EOF''"
| "errText UnexpectedEOF = ''unexpected EOF''"
| "errText (Plain s) = s"
| "errText (Wrapped p e) = p @ '': '' @ errText e"
| "errText (Joined a b) = errText a @ [CHR 0x0A] @ errText b"
| "errText (OperationError op e) = ''stream error during '' @ op @ '': '' @ errText e"

text \<open>\<open>errors.Is\<close>: a match anywhere in the tree of wrapped and joined errors.\<close>

fun errIs :: "error \<Rightarrow> error \<Rightarrow> bool" where
  "errIs (Wrapped p e) t = (Wrapped p e = t \<or> errIs e t)"
| "errIs (Joined a b) t = (Joined a b = t \<or> errIs a t \<or> errIs b t)"
| "errIs (OperationError op e) t = (OperationError op e = t \<or> errIs e t)"
| "errIs e t = (e = t)"

section \<open>Classifiers\<close>

definition IsBlobNotFoundError :: "error option \<Rightarrow> bool" where
  "IsBlobNotFoundError err =
     (case err of
        None \<Rightarrow> False
      | Some e \<Rightarrow> e = Sentinel ErrBlobNotFound \<or> errText e = message ErrBlobNotFound \<or>
                  sublist ''blob not found'' (errText e))"

definition IsEndOfListError :: "error option \<Rightarrow> bool" where
  "IsEndOfListError err =
     (case err of
        None \<Rightarrow> False
      | Some e \<Rightarrow> e = Sentinel ErrEndOfList \<or> errText e = message ErrEndOfList \<or>
                  sublist ''end of list reached'' (errText e))"

definition IsKnownErrorType :: "error \<Rightarrow> bool" where
  "IsKnownErrorType e \<longleftrightarrow>
     e \<in> Sentinel ` {ErrBlobNotFound, ErrBlobExists, ErrInvalidHash, ErrInvalidSize, ErrStreamCorrupted,
       ErrAccessDenied, ErrInvalidManifest, ErrHashMismatch, ErrConnectionFailed, ErrTimeout,
       ErrInvalidConfig, ErrNoBlobData, ErrAlreadyConnected, ErrAcquisitionFailed, ErrEndOfList}"

definition DetectErrorType :: "string \<Rightarrow> error" where
  "DetectErrorType m =
     (if m = message ErrBlobNotFound then Sentinel ErrBlobNotFound
      else if m = message ErrBlobExists then Sentinel ErrBlobExists
      else if m = message ErrAccessDenied then Sentinel ErrAccessDenied
      else if m = message ErrInvalidHash then Sentinel ErrInvalidHash
      else if m = message ErrInvalidHashLen then Sentinel ErrInvalidHashLen
      else if m = message ErrBlobProtected then Sentinel ErrBlobProtected
      else if m = message ErrAcquisitionFailed then Sentinel ErrAcquisitionFailed
      else Plain m)"

section \<open>Properties\<close>

lemma sublist_append_right: "sublist xs ys \<Longrightarrow> sublist xs (zs @ ys)"
  by (metis sublist_order.order_trans sublist_append_leftI)

lemma IsBlobNotFoundError_text: "IsBlobNotFoundError (Some e) \<longleftrightarrow> sublist ''blob not found'' (errText e)"
  by (auto simp: IsBlobNotFoundError_def)

lemma IsBlobNotFoundError_Wrapped:
  "IsBlobNotFoundError (Some e) \<Longrightarrow> IsBlobNotFoundError (Some (Wrapped p e))"
  using sublist_append_right [of "''blob not found''" "errText e" "p @ '': ''"]
  by (simp add: IsBlobNotFoundError_text)

text \<open>
  An error that crosses the wire as text keeps its text: whatever text arrives, the error built from
  it prints the same text, and for the errors the peers exchange the sentinel itself is recovered.
\<close>

theorem DetectErrorType_roundtrip:
  "errText (DetectErrorType m) = m \<and>
   (s \<in> {ErrBlobNotFound, ErrBlobExists, ErrAccessDenied, ErrInvalidHash, ErrInvalidHashLen,
          ErrBlobProtected, ErrAcquisitionFailed} \<longrightarrow> DetectErrorType (message s) = Sentinel s)"
  by (auto simp: DetectErrorType_def)

theorem DetectErrorType_roundtrip_witness:
  "errText (DetectErrorType ''blob not found'') = ''blob not found'' \<and>
   DetectErrorType (message ErrBlobNotFound) = Sentinel ErrBlobNotFound"
  using DetectErrorType_roundtrip [of "''blob not found''" ErrBlobNotFound] by simp

end
