(* ===== verification/Hex.thy ===== *)
theory Hex
  imports Prelude
begin

text \<open>
  The part of Go's \<open>encoding/hex\<close> and \<open>encoding/binary\<close> that the library uses: lower-case encoding,
  decoding that accepts both cases and rejects odd lengths and other characters, and the fixed-width
  integer encodings.
\<close>

definition hex_digit :: "nat \<Rightarrow> char" where
  "hex_digit n = ''0123456789abcdef'' ! n"

definition hex_value :: "char \<Rightarrow> nat option" where
  "hex_value c =
     (let k = of_char c :: nat in
      if 48 \<le> k \<and> k \<le> 57 then Some (k - 48)
      else if 97 \<le> k \<and> k \<le> 102 then Some (k - 87)
      else if 65 \<le> k \<and> k \<le> 70 then Some (k - 55)
      else None)"

definition hex_byte :: "byte \<Rightarrow> string" where
  "hex_byte w = [hex_digit (unat w div 16), hex_digit (unat w mod 16)]"

definition hex_encode :: "bytes \<Rightarrow> string" where
  "hex_encode b = concat (map hex_byte b)"

fun hex_decode :: "string \<Rightarrow> bytes option" where
  "hex_decode [] = Some []"
| "hex_decode [c] = None"
| "hex_decode (c # d # s) =
     (case (hex_value c, hex_value d) of
        (Some a, Some b) \<Rightarrow> map_option ((#) (of_nat (16 * a + b))) (hex_decode s)
      | _ \<Rightarrow> None)"

definition is_lower_hex :: "char \<Rightarrow> bool" where
  "is_lower_hex c \<longleftrightarrow> (CHR ''0'' \<le> c \<and> c \<le> CHR ''9'') \<or> (CHR ''a'' \<le> c \<and> c \<le> CHR ''f'')"

section \<open>Lemmas\<close>

lemma less_16_cases: "n < 16 \<Longrightarrow> n \<in> {0, 1, 2, 3, 4, 5, 6, 7, 8, 9, 10, 11, 12, 13, 14, 15::nat}"
  by (simp add: numeral_eq_Suc less_Suc_eq)

lemma hex_value_digit: "n < 16 \<Longrightarrow> hex_value (hex_digit n) = Some n"
  by (drule less_16_cases) (auto simp: hex_digit_def hex_value_def)

lemma is_lower_hex_digit: "n < 16 \<Longrightarrow> is_lower_hex (hex_digit n)"
  by (drule less_16_cases) (auto simp: hex_digit_def is_lower_hex_def less_eq_char_def)

lemma byte_div_mod: "unat (w :: byte) div 16 < 16" "unat (w :: byte) mod 16 < 16"
  by (simp_all add: less_mult_imp_div_less)

lemma byte_of_nibbles: "(of_nat (16 * (unat w div 16) + unat w mod 16) :: byte) = w"
  by simp

lemma hex_encode_simps [simp]:
  "hex_encode [] = []" "hex_encode (w # b) = hex_byte w @ hex_encode b"
  by (simp_all add: hex_encode_def)

lemma hex_encode_append: "hex_encode (a @ b) = hex_encode a @ hex_encode b"
  by (simp add: hex_encode_def)

lemma length_hex_encode [simp]: "length (hex_encode b) = 2 * length b"
  by (induction b) (auto simp: hex_byte_def)

lemma hex_decode_encode [simp]: "hex_decode (hex_encode b) = Some b"
  by (induction b) (simp_all add: hex_byte_def hex_value_digit byte_div_mod del: of_nat_add of_nat_mult)

lemma set_hex_encode: "\<forall>c \<in> set (hex_encode b). is_lower_hex c"
  by (induction b) (auto simp: hex_byte_def is_lower_hex_digit byte_div_mod)

lemma hex_decode_length: "hex_decode s = Some b \<Longrightarrow> length s = 2 * length b"
  by (induction s arbitrary: b rule: hex_decode.induct) (auto split: option.splits)

lemma hex_value_bound: "hex_value c = Some n \<Longrightarrow> n < 16"
  by (auto simp: hex_value_def Let_def split: if_splits)

lemma hex_digit_value:
  assumes "is_lower_hex c"
  shows "\<exists>n. hex_value c = Some n \<and> hex_digit n = c"
proof -
  let ?k = "of_char c :: nat"
  have range: "(48 \<le> ?k \<and> ?k \<le> 57) \<or> (97 \<le> ?k \<and> ?k \<le> 102)"
    using assms by (simp add: is_lower_hex_def less_eq_char_def)
  then have v: "hex_value c = Some (if ?k \<le> 57 then ?k - 48 else ?k - 87)" by (auto simp: hex_value_def)
  define n where "n = (if ?k \<le> 57 then ?k - 48 else ?k - 87)"
  have n: "n < 16" "?k = (if n < 10 then n + 48 else n + 87)" "hex_value c = Some n"
    using range v by (auto simp: n_def)
  then have "of_char (hex_digit n) = ?k"
    by (auto dest!: less_16_cases simp: hex_digit_def)
  then show ?thesis using n(3) by simp
qed

interpretation hexc: round_trip hex_encode hex_decode "\<lambda>_. True"
  by unfold_locales simp

end
