(* ===== verification/Hash.thy ===== *)
theory Hash
  imports Hex Errors
begin

text \<open>
  Blob hashes: the SHA-384 hasher (\<open>crypto/hasher.go\<close>) and the two spellings of a hash, LBRY
  hexadecimal and CID v1 multihash (\<open>stream/hash.go\<close>, \<open>stream/multihash.go\<close>).

  The digest function is the parameter \<open>sha\<close> of the definitions that hash; the multiformats packages
  are the record \<open>cid_lib\<close>, with \<open>cid_lib_ok\<close> stating what their documentation promises for raw
  CIDs of 48-byte digests.
\<close>

section \<open>The hasher\<close>

definition SHA384HexLength :: nat where
  "SHA384HexLength = 96"

definition Hasher_Hash :: "(bytes \<Rightarrow> bytes) \<Rightarrow> bytes \<Rightarrow> string" where
  "Hasher_Hash sha data = hex_encode (sha data)"

text \<open>A reader is the chunks it delivers and the error it ends with, if any.\<close>

definition Hasher_HashReader :: "(bytes \<Rightarrow> bytes) \<Rightarrow> bytes list \<times> error option \<Rightarrow> error + string" where
  "Hasher_HashReader sha r =
     (case snd r of
        Some e \<Rightarrow> Inl e
      | None \<Rightarrow> Inr (hex_encode (sha (concat (fst r)))))"

definition Hasher_IsValid :: "string \<Rightarrow> bool" where
  "Hasher_IsValid h \<longleftrightarrow> length h = SHA384HexLength \<and> list_all is_lower_hex h"

section \<open>Multihashes\<close>

record cid_lib =
  cid_Decode :: "string \<Rightarrow> (nat \<times> nat \<times> bytes) option"
  cid_V1Raw :: "bytes \<Rightarrow> string"
  mh_Encode :: "bytes \<Rightarrow> nat \<Rightarrow> bytes option"
  mh_Decode :: "bytes \<Rightarrow> (nat \<times> bytes) option"

definition SHA384MultihashCode :: nat where
  "SHA384MultihashCode = 0x20"

definition SHA384DigestLength :: nat where
  "SHA384DigestLength = 0x30"

definition cid_Raw :: nat where
  "cid_Raw = 0x55"

definition ToMultihash :: "cid_lib \<Rightarrow> string \<Rightarrow> error + string" where
  "ToMultihash L h =
     (if \<not> Hasher_IsValid h then Inl (Plain (''invalid LBRY hash: '' @ h))
      else (case hex_decode h of
              None \<Rightarrow> Inl (Plain ''failed to decode LBRY hash'')
            | Some b \<Rightarrow>
                (case mh_Encode L b SHA384MultihashCode of
                   None \<Rightarrow> Inl (Plain ''failed to encode multihash'')
                 | Some mh \<Rightarrow> Inr (cid_V1Raw L mh))))"

definition FromMultihash :: "cid_lib \<Rightarrow> string \<Rightarrow> error + string" where
  "FromMultihash L s =
     (case cid_Decode L s of
        None \<Rightarrow> Inl (Plain ''failed to decode CID'')
      | Some (version, codec, mh) \<Rightarrow>
          (if version \<noteq> 1 then Inl (Plain ''unsupported CID version'')
           else if codec \<noteq> cid_Raw then Inl (Plain ''unsupported codec'')
           else (case mh_Decode L mh of
                   None \<Rightarrow> Inl (Plain ''failed to decode multihash'')
                 | Some (code, digest) \<Rightarrow>
                     (if code \<noteq> SHA384MultihashCode then Inl (Plain ''unsupported multihash code'')
                      else Inr (hex_encode digest)))))"

definition IsValidMultihash :: "cid_lib \<Rightarrow> string \<Rightarrow> bool" where
  "IsValidMultihash L s =
     (case cid_Decode L s of
        None \<Rightarrow> False
      | Some (version, codec, mh) \<Rightarrow>
          (if version \<noteq> 1 then False
           else if codec \<noteq> cid_Raw then False
           else if length mh < 2 then False
           else if mh ! 0 \<noteq> of_nat SHA384MultihashCode then False
           else if mh ! 1 \<noteq> of_nat SHA384DigestLength then False
           else True))"

datatype hash_type = HashTypeUnknown | HashTypeLBRY | HashTypeMultihash

definition IdentifyHash :: "cid_lib \<Rightarrow> string \<Rightarrow> hash_type" where
  "IdentifyHash L h =
     (if Hasher_IsValid h then HashTypeLBRY
      else if IsValidMultihash L h then HashTypeMultihash
      else HashTypeUnknown)"

definition ValidateHash :: "cid_lib \<Rightarrow> string \<Rightarrow> bool" where
  "ValidateHash L h \<longleftrightarrow> IdentifyHash L h \<noteq> HashTypeUnknown"

section \<open>Lemmas\<close>

text \<open>What the multiformats packages document for a raw CID v1 over a 48-byte SHA-384 digest.\<close>

definition sha384_mh :: "bytes \<Rightarrow> bytes" where
  "sha384_mh d = [of_nat SHA384MultihashCode, of_nat SHA384DigestLength] @ d"

definition cid_lib_ok :: "cid_lib \<Rightarrow> bool" where
  "cid_lib_ok L \<longleftrightarrow>
     (\<forall>d. length d = 48 \<longrightarrow>
        mh_Encode L d SHA384MultihashCode = Some (sha384_mh d) \<and>
        mh_Decode L (sha384_mh d) = Some (SHA384MultihashCode, d) \<and>
        cid_Decode L (cid_V1Raw L (sha384_mh d)) = Some (1, cid_Raw, sha384_mh d))"

lemma Hasher_IsValid_Hash: "length (sha data) = 48 \<Longrightarrow> Hasher_IsValid (Hasher_Hash sha data)"
  by (simp add: Hasher_IsValid_def Hasher_Hash_def SHA384HexLength_def list_all_iff set_hex_encode)

lemma ValidateHash_LBRY [simp]: "Hasher_IsValid h \<Longrightarrow> ValidateHash L h"
  by (simp add: ValidateHash_def IdentifyHash_def)

lemma hex_decode_lower:
  assumes "list_all is_lower_hex h" "even (length h)"
  shows "\<exists>b. hex_decode h = Some b \<and> hex_encode b = h"
  using assms
proof (induction h rule: hex_decode.induct)
  case (3 c d s)
  obtain m n where mn: "hex_value c = Some m" "hex_digit m = c" "hex_value d = Some n" "hex_digit n = d"
    using 3 hex_digit_value [of c] hex_digit_value [of d] by auto
  have bd: "m < 16" "n < 16" using mn hex_value_bound by blast+
  obtain b where b: "hex_decode s = Some b" "hex_encode b = s"
    using "3.IH" "3.prems" mn by auto
  have "hex_byte (of_nat (16 * m + n)) = [c, d]"
    using bd mn by (simp add: hex_byte_def unat_of_nat del: of_nat_add of_nat_mult)
  then show ?case using mn b by (auto simp del: of_nat_add of_nat_mult)
qed simp_all

lemma Hasher_IsValid_decode:
  assumes "Hasher_IsValid h"
  shows "\<exists>b. hex_decode h = Some b \<and> hex_encode b = h \<and> length b = 48"
proof -
  obtain b where "hex_decode h = Some b" "hex_encode b = h"
    using hex_decode_lower [of h] assms by (auto simp: Hasher_IsValid_def SHA384HexLength_def)
  moreover from this have "length b = 48"
    using assms hex_decode_length [of h b] by (simp add: Hasher_IsValid_def SHA384HexLength_def)
  ultimately show ?thesis by blast
qed

section \<open>Properties\<close>

text \<open>
  Every LBRY hash converts to a CID multihash that is recognised as one, and converting back gives
  the same hash.
\<close>

theorem multihash_roundtrip:
  assumes "cid_lib_ok L" and "Hasher_IsValid h"
  shows "\<exists>c. ToMultihash L h = Inr c \<and> FromMultihash L c = Inr h \<and> IsValidMultihash L c \<and> ValidateHash L c"
proof -
  obtain b where b: "hex_decode h = Some b" "hex_encode b = h" "length b = 48"
    using Hasher_IsValid_decode [OF assms(2)] by blast
  then have lib: "mh_Encode L b SHA384MultihashCode = Some (sha384_mh b)"
      "mh_Decode L (sha384_mh b) = Some (SHA384MultihashCode, b)"
      "cid_Decode L (cid_V1Raw L (sha384_mh b)) = Some (1, cid_Raw, sha384_mh b)"
    using assms(1) by (auto simp: cid_lib_ok_def)
  have valid: "IsValidMultihash L (cid_V1Raw L (sha384_mh b))"
    by (simp add: IsValidMultihash_def lib(3)) (simp add: sha384_mh_def)
  then have "ValidateHash L (cid_V1Raw L (sha384_mh b))"
    by (simp add: ValidateHash_def IdentifyHash_def)
  with valid show ?thesis
    using assms(2) b lib by (simp add: ToMultihash_def FromMultihash_def)
qed

definition sample_cid_lib :: cid_lib where
  "sample_cid_lib = \<lparr>
     cid_Decode = (\<lambda>s. case s of [] \<Rightarrow> None | _ # t \<Rightarrow> Some (1, cid_Raw, bytes_of t)),
     cid_V1Raw = (\<lambda>mh. CHR ''b'' # string_of mh),
     mh_Encode = (\<lambda>d code. Some ([of_nat code, of_nat (length d)] @ d)),
     mh_Decode = (\<lambda>mh. if length mh < 2 then None else Some (unat (mh ! 0), drop 2 mh))\<rparr>"

lemma sample_cid_lib_ok: "cid_lib_ok sample_cid_lib"
  by (simp add: cid_lib_ok_def sample_cid_lib_def sha384_mh_def SHA384MultihashCode_def
      SHA384DigestLength_def)

theorem multihash_roundtrip_witness:
  "\<exists>c. ToMultihash sample_cid_lib (replicate 96 CHR ''a'') = Inr c \<and>
       FromMultihash sample_cid_lib c = Inr (replicate 96 CHR ''a'') \<and>
       IsValidMultihash sample_cid_lib c \<and> ValidateHash sample_cid_lib c"
  by (rule multihash_roundtrip [OF sample_cid_lib_ok])
     (simp add: Hasher_IsValid_def SHA384HexLength_def is_lower_hex_def list_all_iff less_eq_char_def)

end
