(* ===== verification/Blob.thy ===== *)
theory Blob
  imports Hash
begin

unbundle bit_operations_syntax

text \<open>
  Blobs (\<open>blob/blob.go\<close>): size limits, hashing and verification, PKCS#7 padding and AES-CBC
  encryption. The block cipher is a parameter, a pair of functions from a key and a 16-byte block;
  the CBC chaining of \<open>crypto/cipher\<close> is written out. Texts of formatted errors are kept without
  their arguments.
\<close>

section \<open>Sizes and hashes\<close>

definition MaxBlobSize :: nat where
  "MaxBlobSize = 2097152"

definition BlobHashHexLength :: nat where
  "BlobHashHexLength = 96"

definition aes_BlockSize :: nat where
  "aes_BlockSize = 16"

definition Blob_Hash :: "(bytes \<Rightarrow> bytes) \<Rightarrow> bytes \<Rightarrow> bytes" where
  "Blob_Hash sha b = (if length b = 0 then [] else sha b)"

definition Blob_HashHex :: "(bytes \<Rightarrow> bytes) \<Rightarrow> bytes \<Rightarrow> string" where
  "Blob_HashHex sha b = hex_encode (Blob_Hash sha b)"

definition ValidForSend :: "bytes \<Rightarrow> error option" where
  "ValidForSend b =
     (if length b > MaxBlobSize then Some (StreamError ErrBlobTooBig)
      else if length b = 0 then Some (StreamError ErrBlobEmpty)
      else None)"

definition ComputeBlobHash :: "(bytes \<Rightarrow> bytes) \<Rightarrow> bytes \<Rightarrow> error + bytes" where
  "ComputeBlobHash sha b =
     (case hex_decode (Hasher_Hash sha b) of
        None \<Rightarrow> Inl (Plain ''invalid hex hash from hasher'')
      | Some h \<Rightarrow> Inr h)"

definition ComputeBlobHashBytes :: "(bytes \<Rightarrow> bytes) \<Rightarrow> bytes \<Rightarrow> error + bytes" where
  "ComputeBlobHashBytes sha data =
     (case hex_decode (Hasher_Hash sha data) of
        None \<Rightarrow> Inl (Plain ''invalid hex hash from hasher'')
      | Some h \<Rightarrow> Inr h)"

definition VerifyBlobHash :: "(bytes \<Rightarrow> bytes) \<Rightarrow> bytes \<Rightarrow> string \<Rightarrow> error option" where
  "VerifyBlobHash sha data expected =
     (if length data = 0 then Some (Plain ''empty blob data'')
      else (case ComputeBlobHashBytes sha data of
              Inl e \<Rightarrow> Some (Wrapped ''failed to compute blob hash'' e)
            | Inr computed \<Rightarrow>
                (case hex_decode expected of
                   None \<Rightarrow> Some (Plain ''invalid expected hash format'')
                 | Some want \<Rightarrow>
                     (if computed \<noteq> want then Some (Plain ''hash mismatch'') else None))))"

section \<open>Padding\<close>

definition pkcs7Pad :: "bytes \<Rightarrow> int \<Rightarrow> error + bytes" where
  "pkcs7Pad data blockLen =
     (if blockLen < 1 then Inl (Plain ''invalid block length'')
      else (let padLen0 = nat blockLen - length data mod nat blockLen;
                padLen = (if padLen0 = 0 then nat blockLen else padLen0)
            in Inr (data @ replicate padLen (of_nat padLen))))"

definition pkcs7Unpad :: "bytes \<Rightarrow> int \<Rightarrow> error + bytes" where
  "pkcs7Unpad data blockLen =
     (if blockLen < 1 then Inl (Plain ''invalid block length'')
      else if length data mod nat blockLen \<noteq> 0 \<or> length data = 0 then Inl (Plain ''invalid data length'')
      else (let padLen = unat (last data) in
            if padLen < 1 then Inl (Plain ''invalid padding length'')
            else if padLen > nat blockLen then Inl (Plain ''invalid padding length'')
            else if padLen > length data then Inl (Plain ''invalid padding length'')
            else if list_all (\<lambda>p. p = of_nat padLen) (drop (length data - padLen) data)
                 then Inr (take (length data - padLen) data)
                 else Inl (Plain ''invalid padding'')))"

section \<open>Encryption\<close>

text \<open>\<open>cipher.NewCBCEncrypter\<close> and \<open>cipher.NewCBCDecrypter\<close> over whole blocks.\<close>

definition xor_block :: "bytes \<Rightarrow> bytes \<Rightarrow> bytes" where
  "xor_block a b = map2 (\<lambda>x y. x XOR y) a b"

function cbc_encrypt :: "(bytes \<Rightarrow> bytes) \<Rightarrow> bytes \<Rightarrow> bytes \<Rightarrow> bytes" where
  "cbc_encrypt E prev p =
     (if length p < aes_BlockSize then []
      else (let c = E (xor_block (take aes_BlockSize p) prev)
            in c @ cbc_encrypt E c (drop aes_BlockSize p)))"
  by pat_completeness auto
termination
  by (relation "measure (\<lambda>(E, prev, p). length p)") (auto simp: aes_BlockSize_def)

function cbc_decrypt :: "(bytes \<Rightarrow> bytes) \<Rightarrow> bytes \<Rightarrow> bytes \<Rightarrow> bytes" where
  "cbc_decrypt D prev c =
     (if length c < aes_BlockSize then []
      else xor_block (D (take aes_BlockSize c)) prev @
           cbc_decrypt D (take aes_BlockSize c) (drop aes_BlockSize c))"
  by pat_completeness auto
termination
  by (relation "measure (\<lambda>(D, prev, c). length c)") (auto simp: aes_BlockSize_def)

declare cbc_encrypt.simps [simp del] cbc_decrypt.simps [simp del]

definition valid_key_size :: "bytes \<Rightarrow> bool" where
  "valid_key_size key \<longleftrightarrow> length key = 16 \<or> length key = 24 \<or> length key = 32"

definition encryptData :: "(bytes \<Rightarrow> bytes \<Rightarrow> bytes) \<Rightarrow> bytes \<Rightarrow> bytes \<Rightarrow> bytes \<Rightarrow> error + bytes" where
  "encryptData enc data key iv =
     (if \<not> valid_key_size key then Inl (Plain ''invalid key length'')
      else if length iv \<noteq> aes_BlockSize then Inl (Plain ''IV length must equal block size'')
      else (case pkcs7Pad data (int aes_BlockSize) of
              Inl e \<Rightarrow> Inl e
            | Inr plaintext \<Rightarrow>
                (if length plaintext = 0 \<or> length plaintext mod aes_BlockSize \<noteq> 0
                 then Inl (Plain ''invalid plaintext length'')
                 else Inr (cbc_encrypt (enc key) iv plaintext))))"

definition decryptData :: "(bytes \<Rightarrow> bytes \<Rightarrow> bytes) \<Rightarrow> bytes \<Rightarrow> bytes \<Rightarrow> bytes \<Rightarrow> error + bytes" where
  "decryptData dec data key iv =
     (if \<not> valid_key_size key then Inl (Plain ''invalid key length'')
      else if length iv \<noteq> aes_BlockSize then Inl (Plain ''IV length must equal block size'')
      else if length data = 0 \<or> length data mod aes_BlockSize \<noteq> 0
           then Inl (Plain ''ciphertext length is not a valid multiple of block size'')
      else pkcs7Unpad (cbc_decrypt (dec key) iv data) (int aes_BlockSize))"

definition NewBlob :: "(bytes \<Rightarrow> bytes \<Rightarrow> bytes) \<Rightarrow> bytes \<Rightarrow> bytes \<Rightarrow> bytes \<Rightarrow> error + bytes" where
  "NewBlob enc data key iv =
     (if length data = 0 then Inl (Plain ''cannot encrypt empty slice'')
      else encryptData enc data key iv)"

definition Blob_Plaintext :: "(bytes \<Rightarrow> bytes \<Rightarrow> bytes) \<Rightarrow> bytes \<Rightarrow> bytes \<Rightarrow> bytes \<Rightarrow> error + bytes" where
  "Blob_Plaintext dec b key iv = decryptData dec b key iv"

definition DecryptBlob :: "(bytes \<Rightarrow> bytes \<Rightarrow> bytes) \<Rightarrow> bytes \<Rightarrow> bytes \<Rightarrow> bytes \<Rightarrow> error + bytes" where
  "DecryptBlob dec b key iv = Blob_Plaintext dec b key iv"

definition Blob_Encrypt :: "(bytes \<Rightarrow> bytes \<Rightarrow> bytes) \<Rightarrow> bytes \<Rightarrow> bytes \<Rightarrow> bytes \<Rightarrow> error + bytes" where
  "Blob_Encrypt enc b key iv =
     (if length b = 0 then Inl (Plain ''plaintext data must not be empty'')
      else encryptData enc b key iv)"

definition Blob_Decrypt :: "(bytes \<Rightarrow> bytes \<Rightarrow> bytes) \<Rightarrow> bytes \<Rightarrow> bytes \<Rightarrow> bytes \<Rightarrow> error + bytes" where
  "Blob_Decrypt dec b key iv =
     (if length b = 0 then Inl (Plain ''ciphertext data must not be empty'')
      else decryptData dec b key iv)"

section \<open>Lemmas\<close>

text \<open>What AES promises: a permutation of 16-byte blocks for every key of a valid size.\<close>

definition block_cipher :: "(bytes \<Rightarrow> bytes \<Rightarrow> bytes) \<Rightarrow> (bytes \<Rightarrow> bytes \<Rightarrow> bytes) \<Rightarrow> bool" where
  "block_cipher enc dec \<longleftrightarrow>
     (\<forall>key b. valid_key_size key \<longrightarrow> length b = aes_BlockSize \<longrightarrow>
        length (enc key b) = aes_BlockSize \<and> dec key (enc key b) = b)"

lemma length_xor_block [simp]: "length (xor_block a b) = min (length a) (length b)"
  by (simp add: xor_block_def)

lemma xor_block_cancel: "length a \<le> length b \<Longrightarrow> xor_block (xor_block a b) b = a"
proof (induction a arbitrary: b)
  case (Cons x a)
  then obtain y ys where "b = y # ys" by (cases b) auto
  then show ?case using Cons by (simp add: xor_block_def xor.assoc)
qed (simp add: xor_block_def)

lemma cbc_encrypt_length:
  assumes "\<And>b. length b = aes_BlockSize \<Longrightarrow> length (E b) = aes_BlockSize"
    and "length prev = aes_BlockSize" "length p mod aes_BlockSize = 0"
  shows "length (cbc_encrypt E prev p) = length p"
  using assms
proof (induction E prev p rule: cbc_encrypt.induct)
  case (1 E prev p)
  show ?case
  proof (cases "length p < aes_BlockSize")
    case True
    then show ?thesis using 1 by (subst cbc_encrypt.simps) simp
  next
    case False
    define c where "c = E (xor_block (take aes_BlockSize p) prev)"
    have len: "length c = aes_BlockSize" using False 1 by (simp add: c_def)
    have "(length p - aes_BlockSize) mod aes_BlockSize = 0"
      using False "1.prems"(3) by (simp add: mod_eq_0_iff_dvd)
    then have "length (cbc_encrypt E c (drop aes_BlockSize p)) = length p - aes_BlockSize"
      using "1.IH" [OF False c_def "1.prems"(1) len] by simp
    then show ?thesis
      using False len by (subst cbc_encrypt.simps) (simp add: c_def [symmetric] Let_def)
  qed
qed

lemma cbc_decrypt_encrypt:
  assumes "\<And>b. length b = aes_BlockSize \<Longrightarrow> length (E b) = aes_BlockSize \<and> D (E b) = b"
    and "length prev = aes_BlockSize" "length p mod aes_BlockSize = 0"
  shows "cbc_decrypt D prev (cbc_encrypt E prev p) = p"
  using assms
proof (induction E prev p rule: cbc_encrypt.induct)
  case (1 E prev p)
  show ?case
  proof (cases "length p < aes_BlockSize")
    case True
    then have "p = []" using "1.prems"(3) by simp
    then show ?thesis
      by (subst cbc_encrypt.simps, subst cbc_decrypt.simps) (simp add: aes_BlockSize_def)
  next
    case False
    define b where "b = xor_block (take aes_BlockSize p) prev"
    have b: "length b = aes_BlockSize" using False 1 by (simp add: b_def)
    have len: "length (E b) = aes_BlockSize" and D: "D (E b) = b" using "1.prems"(1) b by auto
    have "(length p - aes_BlockSize) mod aes_BlockSize = 0"
      using False "1.prems"(3) by (simp add: mod_eq_0_iff_dvd)
    then have IH: "cbc_decrypt D (E b) (cbc_encrypt E (E b) (drop aes_BlockSize p)) = drop aes_BlockSize p"
      using "1.IH" [OF False _ "1.prems"(1) len] by (simp add: b_def)
    have e: "cbc_encrypt E prev p = E b @ cbc_encrypt E (E b) (drop aes_BlockSize p)"
      using False by (subst cbc_encrypt.simps) (simp add: b_def Let_def)
    have "xor_block b prev = take aes_BlockSize p"
      using "1.prems"(2) by (simp add: b_def xor_block_cancel)
    then show ?thesis
      unfolding e by (subst cbc_decrypt.simps) (simp add: len D IH)
  qed
qed

lemma pkcs7Pad_Inr:
  "1 \<le> n \<Longrightarrow> pkcs7Pad data (int n) = Inr (data @ replicate (n - length data mod n) (of_nat (n - length data mod n)))"
  using mod_less_divisor [of n "length data"] by (simp add: pkcs7Pad_def Let_def not_le)

lemma pkcs7_padded_length:
  assumes "1 \<le> (n :: nat)"
  shows "m + (n - m mod n) = n * (m div n + 1)"
proof -
  have "m mod n < n" using assms by simp
  then have "m + (n - m mod n) = (m - m mod n) + n" using mod_less_eq_dividend [of m n] by linarith
  also have "m - m mod n = n * (m div n)" by (rule minus_mod_eq_mult_div)
  finally show ?thesis by simp
qed

lemma pkcs7_pad_unique:
  assumes "1 \<le> k" "k \<le> (n :: nat)" "(m + k) mod n = 0"
  shows "n - m mod n = k"
proof -
  have "n dvd m mod n + k" using assms(3) by (metis mod_0_imp_dvd mod_add_left_eq)
  then obtain q where q: "m mod n + k = n * q" by (rule dvdE)
  have r: "m mod n < n" using assms by simp
  then have "0 < n * q" "n * q < n * 2" using assms q by linarith+
  then have "q = 1" by (cases q) auto
  then show ?thesis using q r by simp
qed

lemma of_nat_byte_eq: "n < 256 \<Longrightarrow> unat (of_nat n :: byte) = n"
  by (simp add: unat_of_nat)

lemma pkcs7Unpad_append:
  assumes "1 \<le> k" "k \<le> n" "n \<le> 255" "(length data + k) mod n = 0"
  shows "pkcs7Unpad (data @ replicate k (of_nat k)) (int n) = Inr data"
  using assms by (simp add: pkcs7Unpad_def Let_def last_replicate of_nat_byte_eq list_all_iff)

lemma pkcs7Unpad_Inr:
  assumes "pkcs7Unpad data (int n) = Inr d"
  obtains k where "1 \<le> k" "k \<le> n" "k \<le> 255" "data = d @ replicate k (of_nat k)" "length data mod n = 0"
proof -
  define k where "k = unat (last data)"
  have c: "1 \<le> n" "length data mod n = 0" "data \<noteq> []" "1 \<le> k" "k \<le> n" "k \<le> length data"
      "list_all (\<lambda>p. p = of_nat k) (drop (length data - k) data)" "d = take (length data - k) data"
    using assms by (auto simp: pkcs7Unpad_def Let_def k_def split: if_splits)
  have "drop (length data - k) data = replicate k (of_nat k)"
    using c(6,7) by (intro replicate_eqI) (auto simp: list_all_iff)
  then have "data = d @ replicate k (of_nat k)"
    using append_take_drop_id [of "length data - k" data] unfolding c(8) by presburger
  moreover have "k \<le> 255" using unat_byte_less [of "last data"] unfolding k_def by linarith
  ultimately show ?thesis using that [of k] c(2,4,5) by simp
qed

lemma encryptData_Inr:
  assumes "valid_key_size key" "length iv = aes_BlockSize"
  shows "encryptData enc data key iv = Inr (cbc_encrypt (enc key) iv
           (data @ replicate (16 - length data mod 16) (of_nat (16 - length data mod 16))))"
proof -
  have "(length data + (16 - length data mod 16)) mod 16 = 0"
    using pkcs7_padded_length [of 16 "length data"] by (simp del: add_diff_assoc)
  moreover have "length data mod 16 < 16" by simp
  ultimately show ?thesis
    using assms pkcs7Pad_Inr [of 16 data] by (simp add: encryptData_def aes_BlockSize_def)
qed

lemma hex_decode_Hasher_Hash [simp]: "hex_decode (Hasher_Hash sha d) = Some (sha d)"
  by (simp add: Hasher_Hash_def hex_decode_encode)

lemma NewBlob_Plaintext_lemma:
  assumes "block_cipher enc dec" "valid_key_size key" "length iv = aes_BlockSize" "data \<noteq> []"
  shows "\<exists>b. NewBlob enc data key iv = Inr b \<and>
             length b = aes_BlockSize * (length data div aes_BlockSize + 1) \<and>
             DecryptBlob dec b key iv = Inr data"
proof -
  define k where "k = 16 - length data mod 16"
  have k: "1 \<le> k" "k \<le> 16" by (simp_all add: k_def Suc_le_eq)
  define p where "p = data @ replicate k (of_nat k :: byte)"
  have p: "length p = 16 * (length data div 16 + 1)"
    using pkcs7_padded_length [of 16 "length data"] by (simp add: p_def k_def)
  have c: "length (enc key b) = aes_BlockSize \<and> dec key (enc key b) = b" if "length b = aes_BlockSize" for b
    using assms(1,2) that by (simp add: block_cipher_def)
  have "length (cbc_encrypt (enc key) iv p) = length p"
    using c assms(3) p by (intro cbc_encrypt_length) (simp_all add: aes_BlockSize_def)
  moreover have "cbc_decrypt (dec key) iv (cbc_encrypt (enc key) iv p) = p"
    using c assms(3) p by (intro cbc_decrypt_encrypt) (simp_all add: aes_BlockSize_def)
  moreover have "pkcs7Unpad p (int 16) = Inr data"
    unfolding p_def using k p by (intro pkcs7Unpad_append) (simp_all add: p_def)
  moreover have "NewBlob enc data key iv = Inr (cbc_encrypt (enc key) iv p)"
    using assms encryptData_Inr [of key iv enc data] by (simp add: NewBlob_def p_def k_def)
  ultimately show ?thesis
    using assms p by (auto simp: DecryptBlob_def Blob_Plaintext_def decryptData_def aes_BlockSize_def)
qed

section \<open>Properties\<close>

text \<open>
  Padding is reversible and canonical: for every block length up to 255, unpadding accepts exactly
  the outputs of padding and returns the data that was padded.
\<close>

theorem pkcs7_roundtrip:
  assumes "1 \<le> n" "n \<le> 255"
  shows "pkcs7Unpad padded (int n) = Inr data \<longleftrightarrow> pkcs7Pad data (int n) = Inr padded"
proof
  assume "pkcs7Unpad padded (int n) = Inr data"
  then obtain k where k: "1 \<le> k" "k \<le> n" "padded = data @ replicate k (of_nat k)" "length padded mod n = 0"
    by (rule pkcs7Unpad_Inr)
  then have "n - length data mod n = k"
    using pkcs7_pad_unique [of k n "length data"] by simp
  then show "pkcs7Pad data (int n) = Inr padded" using k assms by (simp add: pkcs7Pad_Inr)
next
  assume "pkcs7Pad data (int n) = Inr padded"
  then have p: "padded = data @ replicate (n - length data mod n) (of_nat (n - length data mod n))"
    using assms by (simp add: pkcs7Pad_Inr)
  have "length data mod n < n" using assms by simp
  then show "pkcs7Unpad padded (int n) = Inr data"
    unfolding p using assms pkcs7_padded_length [of n "length data"]
    by (intro pkcs7Unpad_append) (simp_all add: Suc_le_eq)
qed

theorem pkcs7_roundtrip_witness:
  "pkcs7Unpad [7, 3, 3, 3] (int 4) = Inr [7] \<longleftrightarrow> pkcs7Pad [7] (int 4) = Inr [7, 3, 3, 3]"
  by (rule pkcs7_roundtrip) simp_all

text \<open>
  Encrypting a non-empty plaintext under a valid key and IV succeeds, the blob is the smallest whole
  number of blocks that leaves room for at least one byte of padding, and decrypting it with the same
  key and IV returns the plaintext.
\<close>

theorem NewBlob_Plaintext:
  assumes "block_cipher enc dec" "valid_key_size key" "length iv = aes_BlockSize" "data \<noteq> []"
  shows "\<exists>b. NewBlob enc data key iv = Inr b \<and>
             length b = aes_BlockSize * (length data div aes_BlockSize + 1) \<and>
             DecryptBlob dec b key iv = Inr data"
  using assms by (rule NewBlob_Plaintext_lemma)

definition xor_cipher :: "bytes \<Rightarrow> bytes \<Rightarrow> bytes" where
  "xor_cipher key b = xor_block b (replicate 16 (hd key))"

lemma block_cipher_xor: "block_cipher xor_cipher xor_cipher"
  by (simp add: block_cipher_def xor_cipher_def aes_BlockSize_def xor_block_cancel)

theorem NewBlob_Plaintext_witness:
  "\<exists>b. NewBlob xor_cipher [1, 2, 3] (replicate 16 9) (replicate 16 5) = Inr b \<and>
       length b = aes_BlockSize * (length [1, 2, 3 :: byte] div aes_BlockSize + 1) \<and>
       DecryptBlob xor_cipher b (replicate 16 9) (replicate 16 5) = Inr [1, 2, 3]"
  by (rule NewBlob_Plaintext [OF block_cipher_xor]) (simp_all add: valid_key_size_def aes_BlockSize_def)

text \<open>
  A blob made from at most \<open>MaxBlobSize - 1\<close> bytes may be sent: it is neither empty nor larger
  than \<open>MaxBlobSize\<close>; one byte more and the padded blob is refused as too big.
\<close>

theorem NewBlob_ValidForSend:
  assumes "block_cipher enc dec" "NewBlob enc data key iv = Inr b"
  shows "ValidForSend b = (if length data \<le> MaxBlobSize - 1 then None else Some (StreamError ErrBlobTooBig))"
proof -
  have d: "data \<noteq> []" using assms(2) by (auto simp: NewBlob_def)
  then have "encryptData enc data key iv = Inr b" using assms(2) by (simp add: NewBlob_def)
  then have ki: "valid_key_size key" "length iv = aes_BlockSize"
    by (auto simp: encryptData_def split: if_splits)
  have c: "length (enc key b) = aes_BlockSize" if "length b = aes_BlockSize" for b
    using assms(1) ki(1) that by (simp add: block_cipher_def)
  have p: "length data + (16 - length data mod 16) = 16 * (length data div 16 + 1)"
    by (rule pkcs7_padded_length) simp
  have "b = cbc_encrypt (enc key) iv (data @ replicate (16 - length data mod 16) (of_nat (16 - length data mod 16)))"
    using assms(2) d ki encryptData_Inr [of key iv enc data] by (simp add: NewBlob_def)
  then have b: "length b = 16 * (length data div 16 + 1)"
    using cbc_encrypt_length [OF c ki(2)] p by (simp add: aes_BlockSize_def)
  have "length b \<le> MaxBlobSize \<longleftrightarrow> length data div 16 < 131072"
    unfolding b MaxBlobSize_def by (simp add: less_eq_Suc_le)
  also have "\<dots> \<longleftrightarrow> length data \<le> MaxBlobSize - 1"
    unfolding MaxBlobSize_def by (subst div_less_iff_less_mult) auto
  finally show ?thesis using b by (auto simp: ValidForSend_def)
qed

theorem NewBlob_ValidForSend_witness:
  "ValidForSend (cbc_encrypt (xor_cipher (replicate 16 9)) (replicate 16 5) ([1] @ replicate 15 15)) =
     (if length [1 :: byte] \<le> MaxBlobSize - 1 then None else Some (StreamError ErrBlobTooBig))"
  by (rule NewBlob_ValidForSend [OF block_cipher_xor, of "[1]" "replicate 16 9" "replicate 16 5"])
     (simp add: NewBlob_def encryptData_Inr valid_key_size_def aes_BlockSize_def)

text \<open>
  Verification of a blob accepts exactly the non-empty blobs whose SHA-384 digest is the expected
  one, in either letter case of the hexadecimal spelling; in particular every non-empty blob verifies
  against its own \<open>HashHex\<close>.
\<close>

theorem VerifyBlobHash_iff:
  "(VerifyBlobHash sha data expected = None \<longleftrightarrow> data \<noteq> [] \<and> hex_decode expected = Some (Blob_Hash sha data)) \<and>
   (VerifyBlobHash sha data (Blob_HashHex sha data) = None \<longleftrightarrow> data \<noteq> [])"
  by (auto simp: VerifyBlobHash_def ComputeBlobHashBytes_def Blob_Hash_def Blob_HashHex_def hex_decode_encode
      split: option.splits)

end
