(* ===== verification/Store.thy ===== *)
theory Store
  imports Blob
begin

text \<open>
  The \<open>BlobStore\<close> interface (\<open>storage/blob.go\<close>), access control (\<open>storage/access.go\<close>) and the
  acquirer that fills a store from a list of transfers (\<open>acquirer.go\<close>).

  A \<open>context.Context\<close> is what its successive checks observe: \<open>c k\<close> is the answer of the \<open>k\<close>-th
  \<open>ctx.Err()\<close> or \<open>ctx.Done()\<close> a call makes, so that cancellation may happen between any two checks.
  An operation that changes the store returns the error, if any, and the new store.
\<close>

type_synonym ctx = "nat \<Rightarrow> error option"

abbreviation (input) live :: "ctx \<Rightarrow> bool" where
  "live c \<equiv> \<forall>k. c k = None"

record 's BlobStore =
  Has :: "ctx \<Rightarrow> 's \<Rightarrow> string \<Rightarrow> error + bool"
  Get :: "ctx \<Rightarrow> 's \<Rightarrow> string \<Rightarrow> error + bytes"
  Put :: "ctx \<Rightarrow> 's \<Rightarrow> string \<Rightarrow> bytes \<Rightarrow> error option \<times> 's"
  PutSD :: "ctx \<Rightarrow> 's \<Rightarrow> string \<Rightarrow> bytes \<Rightarrow> error option \<times> 's"
  Delete :: "ctx \<Rightarrow> 's \<Rightarrow> string \<Rightarrow> error option \<times> 's"

section \<open>Access control\<close>

datatype AccessControl = AllowAllAccess | DenyAllAccess

fun Allow :: "AccessControl \<Rightarrow> string \<Rightarrow> string \<Rightarrow> bool" where
  "Allow AllowAllAccess hash peerIP = True"
| "Allow DenyAllAccess hash peerIP = False"

section \<open>The acquirer\<close>

text \<open>A transfer is the result of its \<open>Get\<close> on a hash; \<open>None\<close> is a nil entry of the slice.\<close>

type_synonym transfer = "string \<Rightarrow> error + bytes"

record 's DefaultBlobAcquirer =
  transfers :: "transfer option list"
  store :: "'s option"

definition NewBlobAcquirer :: "transfer option list \<Rightarrow> 's option \<Rightarrow> error + 's DefaultBlobAcquirer" where
  "NewBlobAcquirer ts st =
     (case st of
        None \<Rightarrow> Inl (Plain ''store cannot be nil'')
      | Some s \<Rightarrow> Inr \<lparr>transfers = ts, store = Some s\<rparr>)"

fun try_transfers :: "'s BlobStore \<Rightarrow> ctx \<Rightarrow> 's \<Rightarrow> string \<Rightarrow> transfer option list \<Rightarrow> (error + bytes) \<times> 's" where
  "try_transfers B c s hash [] = (Inl (Sentinel ErrAcquisitionFailed), s)"
| "try_transfers B c s hash (None # ts) = try_transfers B c s hash ts"
| "try_transfers B c s hash (Some t # ts) =
     (case t hash of
        Inl _ \<Rightarrow> try_transfers B c s hash ts
      | Inr data \<Rightarrow>
          (case Put B c s hash data of
             (Some e, s') \<Rightarrow> (Inl e, s')
           | (None, s') \<Rightarrow> (Inr data, s')))"

text \<open>\<open>cs i\<close> is the context as the \<open>i\<close>-th store call of \<open>Acquire\<close> observes it.\<close>

definition Acquire ::
    "'s BlobStore \<Rightarrow> (nat \<Rightarrow> ctx) \<Rightarrow> 's DefaultBlobAcquirer \<Rightarrow> string \<Rightarrow> (error + bytes) \<times> 's DefaultBlobAcquirer" where
  "Acquire B cs ba hash =
     (case store ba of
        None \<Rightarrow> (Inl (Sentinel ErrAcquisitionFailed), ba)
      | Some s \<Rightarrow>
          (case Has B (cs 0) s hash of
             Inl e \<Rightarrow> (Inl e, ba)
           | Inr True \<Rightarrow>
               (case Get B (cs 1) s hash of
                  Inl e \<Rightarrow> (Inl e, ba)
                | Inr data \<Rightarrow> (Inr data, ba))
           | Inr False \<Rightarrow>
               (let (r, s') = try_transfers B (cs 1) s hash (transfers ba)
                in (r, ba\<lparr>store := Some s'\<rparr>))))"

section \<open>What a store promises\<close>

text \<open>The errors a context reports.\<close>

definition ctx_ok :: "ctx \<Rightarrow> bool" where
  "ctx_ok c \<longleftrightarrow> (\<forall>k e. c k = Some e \<longrightarrow> e = Canceled \<or> e = DeadlineExceeded)"

text \<open>
  A store is a finite map from hashes to blobs, \<open>lookup\<close>, seen through the operations. \<open>storable\<close> says
  which data it accepts. What a call reports is true of the map, and a call that reports an error, in particular a
  cancelled one, leaves a store with the same blobs, related to the old one by \<open>same\<close>; a failed deletion
  touches no other hash. The laws hold for contexts of the kind \<open>ok_ctx\<close>, whether or not the calls succeed.
\<close>

locale store_safe =
  fixes B :: "'s BlobStore" and lookup :: "'s \<Rightarrow> string \<Rightarrow> bytes option"
    and inv :: "'s \<Rightarrow> bool" and valid_hash :: "string \<Rightarrow> bool"
    and storable :: "bytes \<Rightarrow> bool" and same :: "'s \<Rightarrow> 's \<Rightarrow> bool" and ok_ctx :: "ctx \<Rightarrow> bool"
  assumes same_refl: "same s s"
    and same_ok: "inv s \<Longrightarrow> same s s' \<Longrightarrow> inv s' \<and> lookup s' = lookup s"
    and Has_Inr: "inv s \<Longrightarrow> ok_ctx c \<Longrightarrow> Has B c s h = Inr b \<Longrightarrow> b = (lookup s h \<noteq> None)"
    and Get_Inr: "inv s \<Longrightarrow> ok_ctx c \<Longrightarrow> Get B c s h = Inr d \<Longrightarrow> valid_hash h \<and> lookup s h = Some d"
    and Put_error: "inv s \<Longrightarrow> ok_ctx c \<Longrightarrow> Put B c s h d = (Some e, s') \<Longrightarrow> same s s'"
    and Put_ok: "inv s \<Longrightarrow> ok_ctx c \<Longrightarrow> Put B c s h d = (None, s') \<Longrightarrow>
                   inv s' \<and> valid_hash h \<and> storable d \<and> lookup s' = (lookup s)(h \<mapsto> d)"
    and Delete_error: "inv s \<Longrightarrow> ok_ctx c \<Longrightarrow> Delete B c s h = (Some e, s') \<Longrightarrow> inv s' \<and> (\<forall>h'. h' \<noteq> h \<longrightarrow> lookup s' h' = lookup s h')"
    and Delete_ok: "inv s \<Longrightarrow> ok_ctx c \<Longrightarrow> Delete B c s h = (None, s') \<Longrightarrow> inv s' \<and> valid_hash h \<and> lookup s' = (lookup s)(h := None)"
    and lookup_valid: "inv s \<Longrightarrow> lookup s h = Some d \<Longrightarrow> valid_hash h \<and> storable d"
begin

lemma Put_inv: "inv s \<Longrightarrow> ok_ctx c \<Longrightarrow> Put B c s h d = (r, s') \<Longrightarrow> inv s'"
  using Put_error same_ok Put_ok by (cases r) blast+

lemma Delete_inv: "inv s \<Longrightarrow> ok_ctx c \<Longrightarrow> Delete B c s h = (r, s') \<Longrightarrow> inv s'"
  using Delete_error Delete_ok by (cases r) blast+

text \<open>The first transfer that answers decides.\<close>

lemma try_transfers_ok:
  assumes "inv s" "ok_ctx c" "try_transfers B c s h ts = (Inr d, s')"
  shows "inv s' \<and> lookup s' = (lookup s)(h \<mapsto> d) \<and>
         (\<exists>n t. n < length ts \<and> ts ! n = Some t \<and> t h = Inr d \<and>
            (\<forall>m < n. \<forall>u. ts ! m = Some u \<longrightarrow> (\<exists>e. u h = Inl e)))"
  using assms(3)
proof (induction ts)
  case (Cons a ts)
  have shift: ?case
    if IH: "try_transfers B c s h ts = (Inr d, s')" and a: "\<forall>u. a = Some u \<longrightarrow> (\<exists>e. u h = Inl e)"
  proof -
    obtain n t where n: "n < length ts" "ts ! n = Some t" "t h = Inr d"
        "\<forall>m < n. \<forall>u. ts ! m = Some u \<longrightarrow> (\<exists>e. u h = Inl e)"
      and s': "inv s'" "lookup s' = (lookup s)(h \<mapsto> d)"
      using Cons.IH [OF IH] by blast
    have "\<forall>m < Suc n. \<forall>u. (a # ts) ! m = Some u \<longrightarrow> (\<exists>e. u h = Inl e)"
      using n(4) a by (simp add: nth_Cons split: nat.split)
    then show ?thesis using n s' by (intro conjI exI [of _ "Suc n"] exI [of _ t]) simp_all
  qed
  show ?case
  proof (cases a)
    case (Some t)
    show ?thesis
    proof (cases "t h")
      case (Inr d')
      then have "Put B c s h d = (None, s')" "d' = d"
        using Cons.prems Some by (auto split: prod.splits option.splits)
      then show ?thesis using Put_ok [OF assms(1,2)] Some Inr by (intro conjI exI [of _ 0] exI [of _ t]) auto
    qed (use Some Cons.prems shift in auto)
  qed (use Cons.prems shift in auto)
qed simp

lemma try_transfers_error:
  "inv s \<Longrightarrow> ok_ctx c \<Longrightarrow> try_transfers B c s h ts = (Inl e, s') \<Longrightarrow> same s s'"
proof (induction ts)
  case (Cons a ts)
  then show ?case
    by (cases a) (auto split: option.splits sum.splits prod.splits dest: Put_error)
qed (simp add: same_refl)

text \<open>
  Acquisition: a successful call returns what the store holds afterwards, a failed one changes nothing;
  a blob already stored is returned without consulting a transfer.
\<close>

lemma Acquire_ok:
  assumes "inv s" "\<forall>i. ok_ctx (cs i)" "Acquire B cs \<lparr>transfers = ts, store = Some s\<rparr> h = (Inr d, ba')"
  shows "\<exists>s'. ba' = \<lparr>transfers = ts, store = Some s'\<rparr> \<and> inv s' \<and> lookup s' = (lookup s)(h \<mapsto> d) \<and>
           (lookup s h = Some d \<and> s' = s \<or>
            lookup s h = None \<and> (\<exists>n t. n < length ts \<and> ts ! n = Some t \<and> t h = Inr d \<and>
              (\<forall>m < n. \<forall>u. ts ! m = Some u \<longrightarrow> (\<exists>e. u h = Inl e))))"
proof (cases "Has B (cs 0) s h")
  case (Inr b)
  have b: "b = (lookup s h \<noteq> None)" using Has_Inr [OF assms(1) _ Inr] assms(2) by simp
  show ?thesis
  proof (cases b)
    case True
    then have "Get B (cs 1) s h = Inr d" "ba' = \<lparr>transfers = ts, store = Some s\<rparr>"
      using assms(3) Inr by (auto simp: Acquire_def split: sum.splits)
    moreover from this have l: "lookup s h = Some d" using Get_Inr [OF assms(1)] assms(2) by blast
    moreover have "(lookup s)(h \<mapsto> d) = lookup s" using l by (rule fun_upd_idem)
    ultimately show ?thesis using assms(1) by simp
  next
    case False
    then obtain s' where "try_transfers B (cs 1) s h ts = (Inr d, s')" "ba' = \<lparr>transfers = ts, store = Some s'\<rparr>"
      using assms(3) Inr by (auto simp: Acquire_def split: prod.splits)
    then show ?thesis using try_transfers_ok [OF assms(1), of "cs 1" h ts d s'] assms(2) b False by simp
  qed
qed (use assms(3) in \<open>auto simp: Acquire_def\<close>)

lemma Acquire_error:
  assumes "inv s" "\<forall>i. ok_ctx (cs i)" "Acquire B cs \<lparr>transfers = ts, store = Some s\<rparr> h = (Inl e, ba')"
  shows "\<exists>s'. ba' = \<lparr>transfers = ts, store = Some s'\<rparr> \<and> same s s'"
  using assms(2,3) try_transfers_error [OF assms(1), of "cs 1" h ts] same_refl
  by (auto simp: Acquire_def split: sum.splits bool.splits prod.splits)

end

text \<open>A store that works: with a live context and a valid hash its calls succeed.\<close>

locale store_core = store_safe +
  assumes live_ok: "live c \<Longrightarrow> ok_ctx c"
    and Has_live: "inv s \<Longrightarrow> live c \<Longrightarrow> valid_hash h \<Longrightarrow> Has B c s h = Inr (lookup s h \<noteq> None)"
    and Get_live: "inv s \<Longrightarrow> live c \<Longrightarrow> valid_hash h \<Longrightarrow> lookup s h = Some d \<Longrightarrow> Get B c s h = Inr d"
    and Put_live: "inv s \<Longrightarrow> live c \<Longrightarrow> valid_hash h \<Longrightarrow> storable d \<Longrightarrow> fst (Put B c s h d) = None"
begin

lemma Get_Put:
  assumes "inv s" "ok_ctx c" "Put B c s h d = (None, s')" "live c'"
  shows "Get B c' s' h = Inr d" and "valid_hash h' \<Longrightarrow> Has B c' s' h' = Inr (h' = h \<or> lookup s h' \<noteq> None)"
  using Put_ok [OF assms(1-3)] Has_live [of s' c' h'] Get_live [of s' c' h d] assms(4) by auto

lemma Has_Delete:
  assumes "inv s" "ok_ctx c" "Delete B c s h = (None, s')" "live c'"
  shows "Has B c' s' h = Inr False"
  using Delete_ok [OF assms(1-3)] Has_live [of s' c' h] assms(4) by simp

lemma try_transfers_live:
  assumes "inv s" "live c" "valid_hash h"
    and "\<forall>t d. Some t \<in> set ts \<longrightarrow> t h = Inr d \<longrightarrow> storable d"
    and "Some t \<in> set ts" "t h = Inr d"
  shows "\<exists>d' s'. try_transfers B c s h ts = (Inr d', s')"
  using assms(4-6)
proof (induction ts)
  case (Cons a ts)
  show ?case
  proof (cases a)
    case None
    then show ?thesis using Cons by auto
  next
    case (Some u)
    show ?thesis
    proof (cases "u h")
      case (Inl e)
      then show ?thesis using Some Cons by auto
    next
      case (Inr d')
      then have "storable d'" using Some Cons.prems(1) by auto
      then have "fst (Put B c s h d') = None" using Put_live assms(1-3) by blast
      then show ?thesis using Some Inr by (auto split: prod.splits)
    qed
  qed
qed simp

lemma Acquire_stored:
  assumes "inv s" "lookup s h = Some d" "\<forall>i. live (cs i)"
  shows "Acquire B cs \<lparr>transfers = ts, store = Some s\<rparr> h = (Inr d, \<lparr>transfers = ts, store = Some s\<rparr>)"
  using assms lookup_valid [OF assms(1,2)] Has_live [of s "cs 0" h] Get_live [of s "cs 1" h d]
  by (simp add: Acquire_def)

lemma Acquire_complete:
  assumes "inv s" "\<forall>i. live (cs i)" "valid_hash h"
    and "\<forall>t d. Some t \<in> set ts \<longrightarrow> t h = Inr d \<longrightarrow> storable d"
    and "Some t \<in> set ts" "t h = Inr d"
  shows "\<exists>d' ba'. Acquire B cs \<lparr>transfers = ts, store = Some s\<rparr> h = (Inr d', ba')"
proof (cases "lookup s h")
  case (Some x)
  then show ?thesis using Acquire_stored [OF assms(1) Some assms(2)] by blast
next
  case None
  then have "Has B (cs 0) s h = Inr False" using Has_live assms(1-3) by simp
  moreover obtain d' s' where "try_transfers B (cs 1) s h ts = (Inr d', s')"
    using try_transfers_live [OF assms(1) _ assms(3-6)] assms(2) by metis
  ultimately show ?thesis by (simp add: Acquire_def)
qed

end

text \<open>A store whose failed calls change nothing at all.\<close>

locale blob_store = store_core B lookup inv valid_hash storable "(=)" "\<lambda>_. True"
  for B :: "'s BlobStore" and lookup inv valid_hash storable +
  assumes Delete_atomic: "inv s \<Longrightarrow> Delete B c s h = (Some e, s') \<Longrightarrow> s' = s"
begin

lemma Acquire_error_same:
  "inv s \<Longrightarrow> Acquire B cs \<lparr>transfers = ts, store = Some s\<rparr> h = (Inl e, ba') \<Longrightarrow> ba' = \<lparr>transfers = ts, store = Some s\<rparr>"
  using Acquire_error by blast

end

text \<open>
  A store that keeps SD blobs beside the regular ones. A regular blob hides the SD blob of the same hash, so
  that storing an SD blob shows only when there is no regular one.
\<close>

locale sd_store = store_core +
  assumes PutSD_error: "inv s \<Longrightarrow> ok_ctx c \<Longrightarrow> PutSD B c s h d = (Some e, s') \<Longrightarrow> same s s'"
    and PutSD_ok: "inv s \<Longrightarrow> ok_ctx c \<Longrightarrow> PutSD B c s h d = (None, s') \<Longrightarrow> inv s' \<and> valid_hash h \<and> storable d \<and>
      (lookup s' = (lookup s)(h \<mapsto> d) \<or> lookup s h \<noteq> None \<and> lookup s' = lookup s)"
    and PutSD_live: "inv s \<Longrightarrow> live c \<Longrightarrow> valid_hash h \<Longrightarrow> storable d \<Longrightarrow> fst (PutSD B c s h d) = None"

end
