(* ===== verification/Memory.thy ===== *)
theory Memory
  imports Store "HOL-Library.AList"
begin

text \<open>
  The in-memory store (\<open>storage/memory/memory.go\<close>). The two Go maps are association lists with
  distinct keys; the order in which \<open>range\<close> visits a map is the parameter \<open>order\<close> of \<open>List\<close>. Every
  operation runs under the store's lock, so it is one step; the copies made on the way in and out make
  the stored bytes private, so a blob is the value of its bytes.
\<close>

section \<open>Definitions\<close>

record MemoryStore =
  blobs :: "(string \<times> bytes) list"
  sdBlobs :: "(string \<times> bytes) list"

definition NewMemoryStore :: MemoryStore where
  "NewMemoryStore = \<lparr>blobs = [], sdBlobs = []\<rparr>"

definition mem_validate :: "cid_lib \<Rightarrow> string \<Rightarrow> bytes \<Rightarrow> string \<Rightarrow> error option" where
  "mem_validate L hash data kind =
     (if \<not> ValidateHash L hash then Some (Sentinel ErrInvalidHash)
      else (case ValidForSend data of
              None \<Rightarrow> None
            | Some e \<Rightarrow>
                (if kind \<noteq> [] then Some (Wrapped (''invalid '' @ kind @ '' blob data'') e)
                 else Some (Wrapped ''invalid blob data'' e))))"

definition acquireReadLock :: "ctx \<Rightarrow> nat \<Rightarrow> error option" where
  "acquireReadLock c k = c k"

definition acquireWriteLock :: "ctx \<Rightarrow> nat \<Rightarrow> error option" where
  "acquireWriteLock c k = c k"

definition copyWithContext :: "ctx \<Rightarrow> nat \<Rightarrow> bytes \<Rightarrow> error + bytes" where
  "copyWithContext c k data = (case c k of Some e \<Rightarrow> Inl e | None \<Rightarrow> Inr data)"

definition mem_Has :: "cid_lib \<Rightarrow> ctx \<Rightarrow> MemoryStore \<Rightarrow> string \<Rightarrow> error + bool" where
  "mem_Has L c m hash =
     (case c 0 of Some e \<Rightarrow> Inl e | None \<Rightarrow>
      if \<not> ValidateHash L hash then Inl (Sentinel ErrInvalidHash)
      else (case acquireReadLock c 1 of Some e \<Rightarrow> Inl e | None \<Rightarrow>
        if map_of (blobs m) hash \<noteq> None then Inr True
        else if map_of (sdBlobs m) hash \<noteq> None then Inr True
        else Inr False))"

definition mem_Get :: "cid_lib \<Rightarrow> ctx \<Rightarrow> MemoryStore \<Rightarrow> string \<Rightarrow> error + bytes" where
  "mem_Get L c m hash =
     (case c 0 of Some e \<Rightarrow> Inl e | None \<Rightarrow>
      if \<not> ValidateHash L hash then Inl (Sentinel ErrInvalidHash)
      else (case acquireReadLock c 1 of Some e \<Rightarrow> Inl e | None \<Rightarrow>
        (case map_of (blobs m) hash of
           Some data \<Rightarrow> copyWithContext c 2 data
         | None \<Rightarrow>
             (case map_of (sdBlobs m) hash of
                Some data \<Rightarrow> copyWithContext c 2 data
              | None \<Rightarrow> Inl (Plain ''blob not found'')))))"

definition mem_Put :: "cid_lib \<Rightarrow> ctx \<Rightarrow> MemoryStore \<Rightarrow> string \<Rightarrow> bytes \<Rightarrow> error option \<times> MemoryStore" where
  "mem_Put L c m hash data =
     (case c 0 of Some e \<Rightarrow> (Some e, m) | None \<Rightarrow>
      (case mem_validate L hash data [] of Some e \<Rightarrow> (Some e, m) | None \<Rightarrow>
       (case acquireWriteLock c 1 of Some e \<Rightarrow> (Some e, m) | None \<Rightarrow>
        (case copyWithContext c 2 data of
           Inl e \<Rightarrow> (Some e, m)
         | Inr dataCopy \<Rightarrow> (None, m\<lparr>blobs := AList.update hash dataCopy (blobs m)\<rparr>)))))"

definition mem_PutSD :: "cid_lib \<Rightarrow> ctx \<Rightarrow> MemoryStore \<Rightarrow> string \<Rightarrow> bytes \<Rightarrow> error option \<times> MemoryStore" where
  "mem_PutSD L c m hash data =
     (case c 0 of Some e \<Rightarrow> (Some e, m) | None \<Rightarrow>
      (case mem_validate L hash data ''SD'' of Some e \<Rightarrow> (Some e, m) | None \<Rightarrow>
       (case acquireWriteLock c 1 of Some e \<Rightarrow> (Some e, m) | None \<Rightarrow>
        (case copyWithContext c 2 data of
           Inl e \<Rightarrow> (Some e, m)
         | Inr dataCopy \<Rightarrow> (None, m\<lparr>sdBlobs := AList.update hash dataCopy (sdBlobs m)\<rparr>)))))"

definition mem_Delete :: "cid_lib \<Rightarrow> ctx \<Rightarrow> MemoryStore \<Rightarrow> string \<Rightarrow> error option \<times> MemoryStore" where
  "mem_Delete L c m hash =
     (case c 0 of Some e \<Rightarrow> (Some e, m) | None \<Rightarrow>
      if \<not> ValidateHash L hash then (Some (Sentinel ErrInvalidHash), m)
      else (case acquireWriteLock c 1 of Some e \<Rightarrow> (Some e, m) | None \<Rightarrow>
        (None, m\<lparr>blobs := AList.delete hash (blobs m), sdBlobs := AList.delete hash (sdBlobs m)\<rparr>)))"

text \<open>A \<open>range\<close> loop that checks the context before it adds a key; the next check is the result's first part.\<close>

fun collect :: "ctx \<Rightarrow> nat \<Rightarrow> string list \<Rightarrow> string list \<Rightarrow> error + (nat \<times> string list)" where
  "collect c k acc [] = Inr (k, acc)"
| "collect c k acc (h # hs) =
     (case c k of
        Some e \<Rightarrow> Inl e
      | None \<Rightarrow> collect c (Suc k) (if h \<in> set acc then acc else acc @ [h]) hs)"

definition paginate :: "string list \<Rightarrow> int \<Rightarrow> int \<Rightarrow> (error + string list) option" where
  "paginate hashSlice offset limit =
     (let n = int (length hashSlice) in
      if offset > n then Some (Inl (Sentinel ErrEndOfList))
      else (let stop0 = i64 (offset + limit);
                stop = (if stop0 > n then n else stop0)
            in if stop < offset then None
               else Some (Inr (take (nat (stop - offset)) (drop (nat offset) hashSlice)))))"

text \<open>The result \<open>None\<close> is the panic of a slice expression whose bounds are reversed.\<close>

definition mem_List ::
    "ctx \<Rightarrow> (nat \<Rightarrow> string list \<Rightarrow> string list) \<Rightarrow> MemoryStore \<Rightarrow> int \<Rightarrow> int \<Rightarrow> (error + string list) option" where
  "mem_List c order m offset limit =
     (case c 0 of Some e \<Rightarrow> Some (Inl e) | None \<Rightarrow>
      if offset < 0 then Some (Inl (Sentinel ErrInvalidOffset))
      else if limit \<le> 0 then Some (Inl (Sentinel ErrInvalidLimit))
      else (case acquireReadLock c 1 of Some e \<Rightarrow> Some (Inl e) | None \<Rightarrow>
       (case collect c 2 [] (order 0 (map fst (blobs m))) of Inl e \<Rightarrow> Some (Inl e) | Inr (k, regular) \<Rightarrow>
        (case collect c k regular (order 1 (map fst (sdBlobs m))) of Inl e \<Rightarrow> Some (Inl e) | Inr (k', allHashes) \<Rightarrow>
         (case collect c k' [] (order 2 allHashes) of Inl e \<Rightarrow> Some (Inl e) | Inr (k'', hashSlice) \<Rightarrow>
          (case c k'' of Some e \<Rightarrow> Some (Inl e) | None \<Rightarrow> paginate (sort hashSlice) offset limit))))))"

definition memory_store :: "cid_lib \<Rightarrow> MemoryStore BlobStore" where
  "memory_store L = \<lparr>Has = mem_Has L, Get = mem_Get L, Put = mem_Put L, PutSD = mem_PutSD L, Delete = mem_Delete L\<rparr>"

section \<open>The store as a map\<close>

definition mem_lookup :: "MemoryStore \<Rightarrow> string \<Rightarrow> bytes option" where
  "mem_lookup m h = (case map_of (blobs m) h of Some d \<Rightarrow> Some d | None \<Rightarrow> map_of (sdBlobs m) h)"

definition mem_ok :: "cid_lib \<Rightarrow> MemoryStore \<Rightarrow> bool" where
  "mem_ok L m \<longleftrightarrow>
     distinct (map fst (blobs m)) \<and> distinct (map fst (sdBlobs m)) \<and>
     (\<forall>(h, d) \<in> set (blobs m) \<union> set (sdBlobs m). ValidateHash L h \<and> ValidForSend d = None)"

lemma mem_lookup_upd [simp]:
  "mem_lookup (m\<lparr>blobs := AList.update h d (blobs m)\<rparr>) = (mem_lookup m)(h \<mapsto> d)"
  "mem_lookup (m\<lparr>blobs := AList.delete h (blobs m), sdBlobs := AList.delete h (sdBlobs m)\<rparr>) = (mem_lookup m)(h := None)"
  by (auto simp: mem_lookup_def fun_eq_iff update_conv' delete_conv' split: option.splits)

lemma mem_lookup_SD:
  "mem_lookup (m\<lparr>sdBlobs := AList.update h d (sdBlobs m)\<rparr>) =
     (if map_of (blobs m) h = None then (mem_lookup m)(h \<mapsto> d) else mem_lookup m)"
  by (auto simp: mem_lookup_def fun_eq_iff update_conv' split: option.splits)

lemma mem_ok_entry: "mem_ok L m \<Longrightarrow> mem_lookup m h = Some d \<Longrightarrow> ValidateHash L h \<and> ValidForSend d = None"
  by (fastforce simp: mem_ok_def mem_lookup_def split: option.splits dest: map_of_SomeD)

lemma set_update_subset: "set (AList.update k v al) \<subseteq> insert (k, v) (set al)"
  by (induction al) auto

lemma set_delete_subset: "set (AList.delete k al) \<subseteq> set al"
  by (induction al) auto

lemma mem_ok_update:
  assumes "mem_ok L m" "ValidateHash L h" "ValidForSend d = None"
  shows "mem_ok L (m\<lparr>blobs := AList.update h d (blobs m)\<rparr>)" "mem_ok L (m\<lparr>sdBlobs := AList.update h d (sdBlobs m)\<rparr>)"
  using assms set_update_subset [of h d "blobs m"] set_update_subset [of h d "sdBlobs m"]
  by (fastforce simp: mem_ok_def distinct_update)+

lemma mem_ok_delete:
  assumes "mem_ok L m"
  shows "mem_ok L (m\<lparr>blobs := AList.delete h (blobs m), sdBlobs := AList.delete h (sdBlobs m)\<rparr>)"
  using assms set_delete_subset [of h "blobs m"] set_delete_subset [of h "sdBlobs m"]
  by (fastforce simp: mem_ok_def distinct_delete)

lemma mem_ok_New [simp]: "mem_ok L NewMemoryStore"
  by (simp add: mem_ok_def NewMemoryStore_def)

lemma mem_validate_None: "mem_validate L h d kind = None \<longleftrightarrow> ValidateHash L h \<and> ValidForSend d = None"
  by (simp add: mem_validate_def split: option.splits)

lemmas mem_defs = mem_Has_def mem_Get_def mem_Put_def mem_PutSD_def mem_Delete_def
  acquireReadLock_def acquireWriteLock_def copyWithContext_def

interpretation memst: blob_store "memory_store L" mem_lookup "mem_ok L" "ValidateHash L" "\<lambda>d. ValidForSend d = None" for L
proof (unfold_locales, goal_cases)
  case (3 s c h b)
  then show ?case by (auto simp: memory_store_def mem_defs mem_lookup_def split: option.splits if_splits)
next
  case (11 s c h)
  then show ?case by (auto simp: memory_store_def mem_defs mem_lookup_def split: option.splits)
next
  case (4 s c h d)
  then show ?case by (auto simp: memory_store_def mem_defs mem_lookup_def split: option.splits if_splits)
next
  case (12 s c h d)
  then show ?case by (auto simp: memory_store_def mem_defs mem_lookup_def split: option.splits)
next
  case (5 s c h d e s')
  then show ?case by (auto simp: memory_store_def mem_defs split: option.splits)
next
  case (6 s c h d s')
  then show ?case by (auto simp: memory_store_def mem_defs mem_validate_None mem_ok_update split: option.splits)
next
  case (13 s c h d)
  then show ?case by (auto simp: memory_store_def mem_defs mem_validate_None split: option.splits)
next
  case (7 s c h e s')
  then have "s' = s" by (auto simp: memory_store_def mem_defs split: option.splits if_splits)
  with 7 show ?case by simp
next
  case (8 s c h s')
  then show ?case by (auto simp: memory_store_def mem_defs mem_ok_delete split: option.splits if_splits)
next
  case (9 s h d)
  then show ?case by (rule mem_ok_entry)
next
  case (14 s c h e s')
  then show ?case by (auto simp: memory_store_def mem_defs split: option.splits if_splits)
qed simp_all

interpretation memsd: sd_store "memory_store L" mem_lookup "mem_ok L" "ValidateHash L" "\<lambda>d. ValidForSend d = None" "(=)" "\<lambda>_. True" for L
proof (unfold_locales, goal_cases)
  case (1 s c h d e s')
  then show ?case by (auto simp: memory_store_def mem_defs split: option.splits)
next
  case (2 s c h d s')
  then have ok: "ValidateHash L h" "ValidForSend d = None" "s' = s\<lparr>sdBlobs := AList.update h d (sdBlobs s)\<rparr>"
    by (auto simp: memory_store_def mem_defs mem_validate_None split: option.splits)
  moreover have "map_of (blobs s) h \<noteq> None \<Longrightarrow> mem_lookup s h \<noteq> None" by (auto simp: mem_lookup_def)
  ultimately show ?case using 2(1) mem_ok_update(2) by (auto simp: mem_lookup_SD)
next
  case (3 s c h d)
  then show ?case by (auto simp: memory_store_def mem_defs mem_validate_None split: option.splits)
qed

section \<open>Listing\<close>

lemma collect_Inr:
  "collect c k acc hs = Inr (k', r) \<Longrightarrow> set r = set acc \<union> set hs \<and> (distinct acc \<longrightarrow> distinct r)"
  by (induction hs arbitrary: k acc) (auto split: option.splits if_splits)

lemma collect_live: "live c \<Longrightarrow> \<exists>k' r. collect c k acc hs = Inr (k', r)"
  by (induction hs arbitrary: k acc) auto

lemma sort_eq_sorted_list_of_set: "distinct xs \<Longrightarrow> sort xs = sorted_list_of_set (set xs)"
  by (simp add: sorted_list_of_set_sort_remdups distinct_remdups_id)

lemma mem_keys: "{h. mem_lookup m h \<noteq> None} = fst ` set (blobs m) \<union> fst ` set (sdBlobs m)"
  by (auto simp: mem_lookup_def dom_map_of_conv_image_fst [symmetric] split: option.splits)

lemma mem_List_live:
  assumes "live c" "\<And>i xs. mset (order i xs) = mset xs" "0 \<le> offset" "0 < limit"
  shows "mem_List c order m offset limit = paginate (sorted_list_of_set {h. mem_lookup m h \<noteq> None}) offset limit"
proof -
  have o: "set (order i xs) = set xs" for i xs using assms(2) by (metis set_mset_mset)
  obtain k r where 1: "collect c 2 [] (order 0 (map fst (blobs m))) = Inr (k, r)"
    using collect_live assms(1) by blast
  obtain k' a where 2: "collect c k r (order 1 (map fst (sdBlobs m))) = Inr (k', a)"
    using collect_live assms(1) by blast
  obtain k'' l where 3: "collect c k' [] (order 2 a) = Inr (k'', l)"
    using collect_live assms(1) by blast
  have "distinct l" "set l = {h. mem_lookup m h \<noteq> None}"
    using collect_Inr [OF 1] collect_Inr [OF 2] collect_Inr [OF 3] unfolding mem_keys by (simp_all add: o)
  then have "sort l = sorted_list_of_set {h. mem_lookup m h \<noteq> None}"
    using sort_eq_sorted_list_of_set by metis
  then show ?thesis using assms 1 2 3 by (simp add: mem_List_def acquireReadLock_def)
qed

lemma paginate_fits:
  assumes "0 \<le> offset" "0 < limit" "offset + limit < 2 ^ 63" "nat offset \<le> length xs"
  shows "paginate xs offset limit = Some (Inr (take (nat limit) (drop (nat offset) xs)))"
proof -
  have "i64 (offset + limit) = offset + limit" using assms by (intro i64_id) (simp add: in_i64_def)
  moreover have "nat (offset + limit - offset) = nat limit" by simp
  ultimately show ?thesis using assms by (auto simp: paginate_def Let_def nat_diff_distrib simp del: nat_diff_distrib)
qed

lemma paginate_overflow:
  assumes "0 \<le> offset" "in_i64 offset" "in_i64 limit" "offset + limit \<ge> 2 ^ 63" "nat offset \<le> length xs"
  shows "paginate xs offset limit = None"
proof -
  have "(offset + limit + 2 ^ 63) mod 2 ^ 64 = offset + limit - 2 ^ 63"
    using assms mod_add_self2 [of "offset + limit - 2 ^ 63" "2 ^ 64 :: int"] by (simp add: in_i64_def add.commute)
  then have "i64 (offset + limit) = offset + limit - 2 ^ 64" by (simp add: i64_def)
  then show ?thesis using assms by (simp add: paginate_def Let_def in_i64_def)
qed

lemma concat_pages: "concat (map (\<lambda>i. take p (drop (i * p) xs)) [0..<n]) = take (n * p) xs"
proof (induction n)
  case (Suc n)
  then show ?case using take_add [of "n * p" p xs] by (simp add: add.commute)
qed simp

lemma mem_Get_live:
  "live c \<Longrightarrow> mem_Get L c m h =
     (if ValidateHash L h
      then (case mem_lookup m h of Some d \<Rightarrow> Inr d | None \<Rightarrow> Inl (Plain ''blob not found''))
      else Inl (Sentinel ErrInvalidHash))"
  by (simp add: mem_defs mem_lookup_def split: option.splits)

section \<open>Properties\<close>

text \<open>
  What a read returns after each kind of write: a stored blob is read back, an SD blob is read back
  unless a regular blob has the same hash, a deleted hash is not found in either map, every other hash
  reads as before; and an operation that reports an error, cancellation at any check included, leaves
  the store unchanged.
\<close>

theorem mem_Get_after:
  assumes "live c'"
  shows "(mem_Put L c m h d = (None, m') \<longrightarrow>
            mem_Get L c' m' h' = (if h' = h then Inr d else mem_Get L c' m h')) \<and>
         (mem_PutSD L c m h d = (None, m') \<longrightarrow>
            mem_Get L c' m' h' = (if h' = h \<and> map_of (blobs m) h = None then Inr d else mem_Get L c' m h')) \<and>
         (mem_Delete L c m h = (None, m') \<longrightarrow>
            mem_Get L c' m' h' = (if h' = h then Inl (Plain ''blob not found'') else mem_Get L c' m h')) \<and>
         (mem_Put L c m h d = (Some e, m') \<or> mem_PutSD L c m h d = (Some e, m') \<or>
          mem_Delete L c m h = (Some e, m') \<longrightarrow> m' = m)"
    (is "?put \<and> ?sd \<and> ?del \<and> ?err")
proof (intro conjI)
  show ?put
    by (auto simp: mem_Get_live [OF assms] mem_Put_def acquireWriteLock_def copyWithContext_def mem_validate_None
        split: option.splits if_splits)
  show ?sd
    by (auto simp: mem_Get_live [OF assms] mem_PutSD_def acquireWriteLock_def copyWithContext_def mem_validate_None
        mem_lookup_SD split: option.splits if_splits)
  show ?del
    by (auto simp: mem_Get_live [OF assms] mem_Delete_def acquireWriteLock_def split: option.splits if_splits)
  show ?err by (auto simp: mem_defs split: option.splits if_splits)
qed

definition sample_hash :: string where
  "sample_hash = replicate 96 CHR ''a''"

lemma sample_hash_valid: "ValidateHash L sample_hash"
  by (simp add: sample_hash_def Hasher_IsValid_def SHA384HexLength_def is_lower_hex_def list_all_iff less_eq_char_def)

lemma mem_Put_sample:
  "mem_Put L (\<lambda>_. None) NewMemoryStore sample_hash [7] = (None, \<lparr>blobs = [(sample_hash, [7])], sdBlobs = []\<rparr>)"
  by (simp add: mem_defs mem_validate_def sample_hash_valid ValidForSend_def MaxBlobSize_def NewMemoryStore_def)

theorem mem_Get_after_witness:
  "mem_Get sample_cid_lib (\<lambda>_. None) \<lparr>blobs = [(sample_hash, [7])], sdBlobs = []\<rparr> sample_hash = Inr [7]"
  using mem_Get_after [of "\<lambda>_. None" sample_cid_lib "\<lambda>_. None" NewMemoryStore sample_hash "[7]" _ sample_hash]
    mem_Put_sample [of sample_cid_lib] by simp

text \<open>
  C25. Listing is independent of the order in which Go visits its maps: an uncancelled call with a
  non-negative offset and a positive limit returns the corresponding section of the sorted list of the
  distinct hashes of both maps, \<open>ErrEndOfList\<close> past its end; when offset plus limit passes the largest
  64-bit integer the slice expression panics.
\<close>

theorem mem_List_section:
  assumes "live c" "\<And>i xs. mset (order i xs) = mset xs"
    and "0 \<le> offset" "0 < limit" "in_i64 offset" "in_i64 limit"
  shows "mem_List c order m offset limit =
           (let all = sorted_list_of_set {h. mem_lookup m h \<noteq> None} in
            if length all < nat offset then Some (Inl (Sentinel ErrEndOfList))
            else if offset + limit \<ge> 2 ^ 63 then None
            else Some (Inr (take (nat limit) (drop (nat offset) all))))"
proof -
  let ?all = "sorted_list_of_set {h. mem_lookup m h \<noteq> None}"
  have "paginate ?all offset limit = Some (Inl (Sentinel ErrEndOfList))" if "length ?all < nat offset"
    using that by (simp add: paginate_def Let_def)
  moreover have "mem_List c order m offset limit = paginate ?all offset limit"
    using assms(1-4) by (rule mem_List_live)
  moreover note paginate_fits [OF assms(3,4), of ?all] paginate_overflow [OF assms(3,5,6), of ?all]
  ultimately show ?thesis unfolding Let_def by (smt (verit, best) linorder_not_less)
qed

theorem mem_List_section_witness:
  "mem_List (\<lambda>_. None) (\<lambda>_ xs. rev xs) NewMemoryStore 0 5 =
     (let all = sorted_list_of_set {h. mem_lookup NewMemoryStore h \<noteq> None} in
      if length all < nat 0 then Some (Inl (Sentinel ErrEndOfList))
      else if (0::int) + 5 \<ge> 2 ^ 63 then None
      else Some (Inr (take (nat 5) (drop (nat 0) all))))"
  by (rule mem_List_section) (simp_all add: in_i64_def)

text \<open>
  Paging through the store visits every hash exactly once: the pages of any positive size, one
  after the other from offset 0 to the end, are the sorted list of all hashes.
\<close>

theorem mem_List_pages:
  assumes "live c" "\<And>i xs. mset (order i xs) = mset xs" "0 < p" "int (n * p) < 2 ^ 63"
    and "card {h. mem_lookup m h \<noteq> None} \<le> n * p" "n * p \<le> card {h. mem_lookup m h \<noteq> None} + p"
  shows "\<exists>pages. (\<forall>i < n. mem_List c order m (int (i * p)) (int p) = Some (Inr (pages i))) \<and>
                 concat (map pages [0..<n]) = sorted_list_of_set {h. mem_lookup m h \<noteq> None}"
proof -
  let ?all = "sorted_list_of_set {h. mem_lookup m h \<noteq> None}"
  have len: "length ?all \<le> n * p" "n * p \<le> length ?all + p" using assms(5,6) by simp_all
  have "mem_List c order m (int (i * p)) (int p) = Some (Inr (take p (drop (i * p) ?all)))" if "i < n" for i
  proof -
    have "Suc i * p \<le> n * p" using that by (intro mult_le_mono1) simp
    then have "i * p + p \<le> n * p" by (simp add: add.commute)
    then have "i * p \<le> length ?all" "int (i * p) + int p < 2 ^ 63" using len assms(4) by linarith+
    then have "paginate ?all (int (i * p)) (int p) = Some (Inr (take p (drop (i * p) ?all)))"
      using paginate_fits [of "int (i * p)" "int p" ?all] assms(3) by (simp add: nat_mult_distrib)
    then show ?thesis using mem_List_live [OF assms(1,2), of "int (i * p)" "int p"] assms(3) by simp
  qed
  moreover have "concat (map (\<lambda>i. take p (drop (i * p) ?all)) [0..<n]) = ?all"
    using len by (simp add: concat_pages)
  ultimately show ?thesis by (intro exI [of _ "\<lambda>i. take p (drop (i * p) ?all)"]) simp
qed

lemma sample_store_keys: "{h. mem_lookup \<lparr>blobs = [(sample_hash, [7])], sdBlobs = []\<rparr> h \<noteq> None} = {sample_hash}"
  by (auto simp: mem_lookup_def)

theorem mem_List_pages_witness:
  "\<exists>pages. (\<forall>i < 1. mem_List (\<lambda>_. None) (\<lambda>_ xs. rev xs) \<lparr>blobs = [(sample_hash, [7])], sdBlobs = []\<rparr>
                     (int (i * 3)) (int 3) = Some (Inr (pages i))) \<and>
           concat (map pages [0..<1]) =
             sorted_list_of_set {h. mem_lookup \<lparr>blobs = [(sample_hash, [7])], sdBlobs = []\<rparr> h \<noteq> None}"
  by (rule mem_List_pages) (simp_all only: sample_store_keys, simp_all)

text \<open>
  Acquiring a blob through a memory store: on success the store holds the returned bytes under the
  hash and nothing else has changed; they are the bytes already stored, or else those of the first
  transfer that answered. A second, uncancelled call returns the same bytes from the store. A failed call
  leaves the store unchanged.
\<close>

theorem Acquire_memory:
  assumes "mem_ok L m" "Acquire (memory_store L) cs \<lparr>transfers = ts, store = Some m\<rparr> h = (r, ba')"
  shows "case r of
           Inl e \<Rightarrow> ba' = \<lparr>transfers = ts, store = Some m\<rparr>
         | Inr d \<Rightarrow> \<exists>m'. ba' = \<lparr>transfers = ts, store = Some m'\<rparr> \<and> mem_ok L m' \<and>
             mem_lookup m' = (mem_lookup m)(h \<mapsto> d) \<and>
             (mem_lookup m h = Some d \<and> m' = m \<or>
              mem_lookup m h = None \<and> (\<exists>n t. n < length ts \<and> ts ! n = Some t \<and> t h = Inr d \<and>
                (\<forall>k < n. \<forall>u. ts ! k = Some u \<longrightarrow> (\<exists>e. u h = Inl e)))) \<and>
             (\<forall>cs'. (\<forall>i. live (cs' i)) \<longrightarrow> Acquire (memory_store L) cs' ba' h = (Inr d, ba'))"
proof (cases r)
  case (Inl e)
  then show ?thesis using memst.Acquire_error_same [OF assms(1)] assms(2) by simp
next
  case (Inr d)
  then obtain m' where m': "ba' = \<lparr>transfers = ts, store = Some m'\<rparr>" "mem_ok L m'"
      "mem_lookup m' = (mem_lookup m)(h \<mapsto> d)"
      "mem_lookup m h = Some d \<and> m' = m \<or>
       mem_lookup m h = None \<and> (\<exists>n t. n < length ts \<and> ts ! n = Some t \<and> t h = Inr d \<and>
         (\<forall>k < n. \<forall>u. ts ! k = Some u \<longrightarrow> (\<exists>e. u h = Inl e)))"
    using memst.Acquire_ok [OF assms(1)] assms(2) by blast
  moreover have "mem_lookup m' h = Some d" using m'(3) by simp
  ultimately show ?thesis using Inr memst.Acquire_stored [OF m'(2), of h d] by auto
qed

definition sample_acquirer :: "MemoryStore \<Rightarrow> MemoryStore DefaultBlobAcquirer" where
  "sample_acquirer m = \<lparr>transfers = [None, Some (\<lambda>_. Inr [7])], store = Some m\<rparr>"

lemma Acquire_sample:
  "Acquire (memory_store L) (\<lambda>_ _. None) (sample_acquirer NewMemoryStore) sample_hash =
     (Inr [7], sample_acquirer \<lparr>blobs = [(sample_hash, [7])], sdBlobs = []\<rparr>)"
  using mem_Put_sample [of L] sample_hash_valid [of L]
  by (simp add: Acquire_def sample_acquirer_def memory_store_def mem_Has_def acquireReadLock_def NewMemoryStore_def)

theorem Acquire_memory_witness:
  "\<exists>m'. sample_acquirer \<lparr>blobs = [(sample_hash, [7])], sdBlobs = []\<rparr> = sample_acquirer m' \<and>
        mem_lookup m' = (mem_lookup NewMemoryStore)(sample_hash \<mapsto> [7]) \<and>
        Acquire (memory_store sample_cid_lib) (\<lambda>_ _. None) (sample_acquirer m') sample_hash = (Inr [7], sample_acquirer m')"
  using Acquire_memory [OF mem_ok_New Acquire_sample [unfolded sample_acquirer_def], of sample_cid_lib]
  by (auto simp: sample_acquirer_def)

end
