(* ===== verification/Effect.thy ===== *)
theory Effect
  imports Errors
begin

text \<open>
  Computations that may fail and that run in a world, as the store on disk and the servers and clients on
  a connection do: an environment \<open>'e\<close> that says how the outside behaves, a world \<open>'w\<close> that is passed
  along, and a result that is an error or a value. An error ends a sequence but not the world's changes so
  far. Triples \<open>hoare E P m Q R\<close> state what holds after a return and after a failure.
\<close>

type_synonym ('e, 'w, 'a) eff = "'e \<Rightarrow> 'w \<Rightarrow> (error + 'a) \<times> 'w"

section \<open>Sequencing\<close>

definition ret :: "'a \<Rightarrow> ('e, 'w, 'a) eff" where
  "ret x = (\<lambda>E w. (Inr x, w))"

definition throw :: "error \<Rightarrow> ('e, 'w, 'a) eff" where
  "throw e = (\<lambda>E w. (Inl e, w))"

definition bindE :: "('e, 'w, 'a) eff \<Rightarrow> ('a \<Rightarrow> ('e, 'w, 'b) eff) \<Rightarrow> ('e, 'w, 'b) eff" where
  "bindE m f = (\<lambda>E w. case m E w of (Inl e, w') \<Rightarrow> (Inl e, w') | (Inr x, w') \<Rightarrow> f x E w')"

abbreviation thenE :: "('e, 'w, 'a) eff \<Rightarrow> ('e, 'w, 'b) eff \<Rightarrow> ('e, 'w, 'b) eff" where
  "thenE m n \<equiv> bindE m (\<lambda>_. n)"

text \<open>
  The outcome of a computation as a value, a change of the error, an error wrapped by \<open>fmt.Errorf\<close>, and a
  deferred clean-up.
\<close>

definition tryE :: "('e, 'w, 'a) eff \<Rightarrow> ('e, 'w, error + 'a) eff" where
  "tryE m = (\<lambda>E w. let (r, w') = m E w in (Inr r, w'))"

definition mapErr :: "(error \<Rightarrow> error) \<Rightarrow> ('e, 'w, 'a) eff \<Rightarrow> ('e, 'w, 'a) eff" where
  "mapErr f m = (\<lambda>E w. case m E w of (Inl e, w') \<Rightarrow> (Inl (f e), w') | (Inr x, w') \<Rightarrow> (Inr x, w'))"

abbreviation wrapE :: "string \<Rightarrow> ('e, 'w, 'a) eff \<Rightarrow> ('e, 'w, 'a) eff" where
  "wrapE s \<equiv> mapErr (Wrapped s)"

definition onError :: "('e, 'w, 'a) eff \<Rightarrow> ('e, 'w, unit) eff \<Rightarrow> ('e, 'w, 'a) eff" where
  "onError m h = (\<lambda>E w. case m E w of (Inl e, w') \<Rightarrow> (Inl e, snd (h E w')) | (Inr x, w') \<Rightarrow> (Inr x, w'))"

section \<open>Triples\<close>

definition hoare :: "'e \<Rightarrow> ('w \<Rightarrow> bool) \<Rightarrow> ('e, 'w, 'a) eff \<Rightarrow> ('w \<Rightarrow> 'a \<Rightarrow> bool) \<Rightarrow> ('w \<Rightarrow> error \<Rightarrow> bool) \<Rightarrow> bool" where
  "hoare E P m Q R \<longleftrightarrow> (\<forall>w r w'. P w \<longrightarrow> m E w = (r, w') \<longrightarrow> (case r of Inr x \<Rightarrow> Q w' x | Inl e \<Rightarrow> R w' e))"

lemma hoareI: "(\<And>w r w'. P w \<Longrightarrow> m E w = (r, w') \<Longrightarrow> case r of Inr x \<Rightarrow> Q w' x | Inl e \<Rightarrow> R w' e) \<Longrightarrow> hoare E P m Q R"
  by (simp add: hoare_def)

lemma hoareD: "hoare E P m Q R \<Longrightarrow> P w \<Longrightarrow> m E w = (r, w') \<Longrightarrow> case r of Inr x \<Rightarrow> Q w' x | Inl e \<Rightarrow> R w' e"
  by (simp add: hoare_def)

lemma hoare_ret: "(\<And>w. P w \<Longrightarrow> Q w x) \<Longrightarrow> hoare E P (ret x) Q R"
  by (simp add: hoare_def ret_def)

lemma hoare_throw: "(\<And>w. P w \<Longrightarrow> R w e) \<Longrightarrow> hoare E P (throw e) Q R"
  by (simp add: hoare_def throw_def)

lemma hoare_bind:
  assumes "hoare E P m Q' R" "\<And>x. hoare E (\<lambda>w. Q' w x) (f x) Q R"
  shows "hoare E P (bindE m f) Q R"
proof (rule hoareI)
  fix w r w'
  assume "P w" and run: "bindE m f E w = (r, w')"
  moreover obtain r1 w1 where m: "m E w = (r1, w1)" by fastforce
  ultimately have post: "case r1 of Inr x \<Rightarrow> Q' w1 x | Inl e \<Rightarrow> R w1 e" using hoareD [OF assms(1)] by blast
  show "case r of Inr x \<Rightarrow> Q w' x | Inl e \<Rightarrow> R w' e"
  proof (cases r1)
    case (Inr x)
    then show ?thesis using post run m hoareD [OF assms(2) [of x], of w1 r w'] by (simp add: bindE_def)
  qed (use post run m in \<open>auto simp: bindE_def\<close>)
qed

lemma hoare_try:
  assumes "hoare E P m (\<lambda>w x. Q w (Inr x)) (\<lambda>w e. Q w (Inl e))"
  shows "hoare E P (tryE m) Q R"
proof (rule hoareI)
  fix w r w'
  assume "P w" "tryE m E w = (r, w')"
  moreover obtain r1 w1 where "m E w = (r1, w1)" by fastforce
  ultimately show "case r of Inr x \<Rightarrow> Q w' x | Inl e \<Rightarrow> R w' e"
    using hoareD [OF assms, of w r1 w1] by (auto simp: tryE_def split: sum.splits)
qed

lemma hoare_mapErr: "hoare E P m Q (\<lambda>w e. R w (f e)) \<Longrightarrow> hoare E P (mapErr f m) Q R"
  by (fastforce simp: hoare_def mapErr_def split: prod.splits sum.splits)

lemma hoare_onError:
  assumes "hoare E P m Q R'" "\<And>e. hoare E (\<lambda>w. R' w e) h (\<lambda>w _. R w e) (\<lambda>w _. R w e)"
  shows "hoare E P (onError m h) Q R"
proof (rule hoareI)
  fix w r w'
  assume "P w" and run: "onError m h E w = (r, w')"
  moreover obtain r1 w1 where m: "m E w = (r1, w1)" by fastforce
  ultimately have post: "case r1 of Inr x \<Rightarrow> Q w1 x | Inl e \<Rightarrow> R' w1 e" using hoareD [OF assms(1)] by blast
  show "case r of Inr x \<Rightarrow> Q w' x | Inl e \<Rightarrow> R w' e"
  proof (cases r1)
    case (Inl e)
    obtain r2 w2 where h: "h E w1 = (r2, w2)" by fastforce
    have "R w2 e" using hoareD [OF assms(2) [of e], of w1 r2 w2] post Inl h by (auto split: sum.splits)
    then show ?thesis using run m Inl h by (auto simp: onError_def)
  qed (use post run m in \<open>auto simp: onError_def\<close>)
qed

lemma hoare_weaken:
  "hoare E P' m Q' R' \<Longrightarrow> (\<And>w. P w \<Longrightarrow> P' w) \<Longrightarrow> (\<And>w x. Q' w x \<Longrightarrow> Q w x) \<Longrightarrow> (\<And>w e. R' w e \<Longrightarrow> R w e) \<Longrightarrow>
     hoare E P m Q R"
  unfolding hoare_def by (fastforce split: sum.splits)

text \<open>\<open>runs E P m x Q\<close>: from \<open>P\<close> the computation succeeds with the value \<open>x\<close> and ends in \<open>Q\<close>.\<close>

definition runs :: "'e \<Rightarrow> ('w \<Rightarrow> bool) \<Rightarrow> ('e, 'w, 'a) eff \<Rightarrow> 'a \<Rightarrow> ('w \<Rightarrow> bool) \<Rightarrow> bool" where
  "runs E P m x Q \<longleftrightarrow> (\<forall>w. P w \<longrightarrow> (\<exists>w'. m E w = (Inr x, w') \<and> Q w'))"

lemma runsI: "(\<And>w. P w \<Longrightarrow> \<exists>w'. m E w = (Inr x, w') \<and> Q w') \<Longrightarrow> runs E P m x Q"
  by (simp add: runs_def)

lemma runsE: "runs E P m x Q \<Longrightarrow> P w \<Longrightarrow> (\<And>w'. m E w = (Inr x, w') \<Longrightarrow> Q w' \<Longrightarrow> thesis) \<Longrightarrow> thesis"
  unfolding runs_def by blast

lemma runs_ret: "runs E P (ret x) x P"
  by (simp add: runs_def ret_def)

lemma runs_bind: "runs E P m x Q' \<Longrightarrow> runs E Q' (f x) y Q \<Longrightarrow> runs E P (bindE m f) y Q"
  by (fastforce simp: runs_def bindE_def)

lemma runs_mapErr: "runs E P m x Q \<Longrightarrow> runs E P (mapErr g m) x Q"
  by (fastforce simp: runs_def mapErr_def)

lemma runs_onError: "runs E P m x Q \<Longrightarrow> runs E P (onError m h) x Q"
  by (fastforce simp: runs_def onError_def)

section \<open>Relations between the worlds before and after\<close>

text \<open>
  \<open>preserves E rel m\<close>: whatever the outcome, the world before and the world after are related. For a reflexive
  and transitive relation this is closed under the sequencing operators. \<open>returns E Q m\<close> is what is known of
  a value that is returned.
\<close>

definition preserves :: "'e \<Rightarrow> ('w \<Rightarrow> 'w \<Rightarrow> bool) \<Rightarrow> ('e, 'w, 'a) eff \<Rightarrow> bool" where
  "preserves E rel m \<longleftrightarrow> (\<forall>w r w'. m E w = (r, w') \<longrightarrow> rel w w')"

definition returns :: "'e \<Rightarrow> ('a \<Rightarrow> bool) \<Rightarrow> ('e, 'w, 'a) eff \<Rightarrow> bool" where
  "returns E Q m \<longleftrightarrow> (\<forall>w x w'. m E w = (Inr x, w') \<longrightarrow> Q x)"

lemma preservesD: "preserves E rel m \<Longrightarrow> m E w = (r, w') \<Longrightarrow> rel w w'"
  by (simp add: preserves_def)

lemma preservesI: "(\<And>w r w'. m E w = (r, w') \<Longrightarrow> rel w w') \<Longrightarrow> preserves E rel m"
  by (simp add: preserves_def)

lemma preserves_mono: "preserves E rel m \<Longrightarrow> (\<And>w w'. rel w w' \<Longrightarrow> rel' w w') \<Longrightarrow> preserves E rel' m"
  by (auto simp: preserves_def)

lemma returnsD: "returns E Q m \<Longrightarrow> m E w = (Inr x, w') \<Longrightarrow> Q x"
  unfolding returns_def by blast

lemma returns_ret: "Q x \<Longrightarrow> returns E Q (ret x)"
  by (simp add: returns_def ret_def)

lemma returns_throw: "returns E Q (throw e)"
  by (simp add: returns_def throw_def)

lemma returns_bind: "returns E P m \<Longrightarrow> (\<And>x. P x \<Longrightarrow> returns E Q (f x)) \<Longrightarrow> returns E Q (bindE m f)"
  by (fastforce simp: returns_def bindE_def split: prod.splits sum.splits)

lemma returns_mapErr: "returns E Q m \<Longrightarrow> returns E Q (mapErr f m)"
  by (fastforce simp: returns_def mapErr_def split: prod.splits sum.splits)

lemma returns_onError: "returns E Q m \<Longrightarrow> returns E Q (onError m h)"
  by (fastforce simp: returns_def onError_def split: prod.splits sum.splits)

lemma returns_self: "returns E (\<lambda>x. \<exists>w w'. m E w = (Inr x, w')) m"
  by (auto simp: returns_def)

lemma returns_try: "returns E Q m \<Longrightarrow> returns E (\<lambda>r. \<forall>x. r = Inr x \<longrightarrow> Q x) (tryE m)"
  by (fastforce simp: returns_def tryE_def split: prod.splits)

lemma returns_then: "(\<And>x. returns E Q (f x)) \<Longrightarrow> returns E Q (bindE m f)"
  by (fastforce simp: returns_def bindE_def split: prod.splits sum.splits)

lemma returns_True: "returns E (\<lambda>_. True) m"
  by (simp add: returns_def)

text \<open>What is known of an error.\<close>

definition raises :: "'e \<Rightarrow> (error \<Rightarrow> bool) \<Rightarrow> ('e, 'w, 'a) eff \<Rightarrow> bool" where
  "raises E Q m \<longleftrightarrow> (\<forall>w e w'. m E w = (Inl e, w') \<longrightarrow> Q e)"

lemma raisesD: "raises E Q m \<Longrightarrow> m E w = (Inl e, w') \<Longrightarrow> Q e"
  unfolding raises_def by blast

lemma raises_ret: "raises E Q (ret x)"
  by (simp add: raises_def ret_def)

lemma raises_throw: "Q e \<Longrightarrow> raises E Q (throw e)"
  by (simp add: raises_def throw_def)

lemma raises_bind: "raises E Q m \<Longrightarrow> (\<And>x. raises E Q (f x)) \<Longrightarrow> raises E Q (bindE m f)"
  by (fastforce simp: raises_def bindE_def split: prod.splits sum.splits)

lemma raises_mapErr: "(\<And>e. Q (f e)) \<Longrightarrow> raises E Q (mapErr f m)"
  by (auto simp: raises_def mapErr_def split: prod.splits sum.splits)

lemmas raises_intros = raises_ret raises_throw raises_bind raises_mapErr

lemmas returns_intros = returns_ret returns_throw returns_mapErr returns_onError

locale step_rel =
  fixes rel :: "'w \<Rightarrow> 'w \<Rightarrow> bool"
  assumes rel_refl: "rel w w"
    and rel_trans: "rel w1 w2 \<Longrightarrow> rel w2 w3 \<Longrightarrow> rel w1 w3"
begin

lemma preserves_ret: "preserves E rel (ret x)"
  by (simp add: preserves_def ret_def rel_refl)

lemma preserves_throw: "preserves E rel (throw e)"
  by (simp add: preserves_def throw_def rel_refl)

lemma preserves_bindQ:
  assumes "preserves E rel m" "returns E Q m" "\<And>x. Q x \<Longrightarrow> preserves E rel (f x)"
  shows "preserves E rel (bindE m f)"
proof (rule preservesI)
  fix w r w'
  assume run: "bindE m f E w = (r, w')"
  obtain r1 w1 where m: "m E w = (r1, w1)" by fastforce
  show "rel w w'"
  proof (cases r1)
    case (Inl e)
    then show ?thesis using preservesD [OF assms(1) m] run m by (simp add: bindE_def)
  next
    case (Inr x)
    then have "rel w1 w'" using preservesD [OF assms(3) [OF returnsD [OF assms(2)]]] run m by (simp add: bindE_def)
    then show ?thesis using preservesD [OF assms(1) m] by (blast intro: rel_trans)
  qed
qed

lemma preserves_bind: "preserves E rel m \<Longrightarrow> (\<And>x. preserves E rel (f x)) \<Longrightarrow> preserves E rel (bindE m f)"
  by (rule preserves_bindQ [where Q = "\<lambda>_. True"]) (simp_all add: returns_True)

lemma preserves_mapErr: "preserves E rel m \<Longrightarrow> preserves E rel (mapErr g m)"
  by (auto simp: preserves_def mapErr_def split: prod.splits sum.splits)

lemma preserves_try: "preserves E rel m \<Longrightarrow> preserves E rel (tryE m)"
  by (auto simp: preserves_def tryE_def split: prod.splits)

lemma preserves_onError:
  assumes "preserves E rel m" "preserves E rel h"
  shows "preserves E rel (onError m h)"
proof (rule preservesI)
  fix w r w'
  assume run: "onError m h E w = (r, w')"
  obtain r1 w1 r2 w2 where m: "m E w = (r1, w1)" "h E w1 = (r2, w2)" by fastforce
  then show "rel w w'"
    using preservesD [OF assms(1) m(1)] preservesD [OF assms(2) m(2)] run by (cases r1) (auto simp: onError_def intro: rel_trans)
qed

lemmas preserves_intros = preserves_ret preserves_throw preserves_bind preserves_mapErr preserves_try preserves_onError

end

end
