(* ===== verification/FileSystem.thy ===== *)
theory FileSystem
  imports Store Effect "HOL-Library.AList"
begin

text \<open>
  The part of Go's \<open>os\<close> and \<open>path/filepath\<close> that the disk store uses. An absolute path is the list of its
  components; the tree is an association list from paths to nodes. A computation runs in a world made of
  the tree, the number of context checks and the number of system calls made so far; the environment says
  what each context check observes, which system calls fail, and which name a temporary file gets.
  Symbolic links are resolved at the last component of a path.
\<close>

type_synonym path = "string list"

datatype node = File bytes | Dir | Symlink path

type_synonym fs = "(path \<times> node) list"

record env =
  e_ctx :: ctx
  e_fault :: "nat \<Rightarrow> error option"
  e_tmp :: "fs \<Rightarrow> path \<Rightarrow> string"

record world =
  tree :: fs
  ctx_k :: nat
  os_k :: nat

type_synonym 'a io = "(env, world, 'a) eff"

definition checkCtx :: "unit io" where
  "checkCtx = (\<lambda>E w. (case e_ctx E (ctx_k w) of None \<Rightarrow> Inr () | Some e \<Rightarrow> Inl e, w\<lparr>ctx_k := Suc (ctx_k w)\<rparr>))"

definition sys :: "unit io" where
  "sys = (\<lambda>E w. (case e_fault E (os_k w) of None \<Rightarrow> Inr () | Some e \<Rightarrow> Inl e, w\<lparr>os_k := Suc (os_k w)\<rparr>))"

definition getTree :: "fs io" where
  "getTree = (\<lambda>E w. (Inr (tree w), w))"

definition setTree :: "fs \<Rightarrow> unit io" where
  "setTree t = (\<lambda>E w. (Inr (), w\<lparr>tree := t\<rparr>))"

definition run :: "ctx \<Rightarrow> (nat \<Rightarrow> error option) \<Rightarrow> (fs \<Rightarrow> path \<Rightarrow> string) \<Rightarrow> 'a io \<Rightarrow> fs \<Rightarrow> (error + 'a) \<times> fs" where
  "run c F tmp m t =
     (case m \<lparr>e_ctx = c, e_fault = F, e_tmp = tmp\<rparr> \<lparr>tree = t, ctx_k = 0, os_k = 0\<rparr> of (r, w) \<Rightarrow> (r, tree w))"

section \<open>Paths\<close>

text \<open>\<open>Clean\<close> and \<open>Rel\<close> on absolute paths.\<close>

fun clean_from :: "path \<Rightarrow> path \<Rightarrow> path" where
  "clean_from acc [] = rev acc"
| "clean_from acc (c # cs) =
     (if c = [] \<or> c = ''.'' then clean_from acc cs
      else if c = ''..'' then clean_from (tl acc) cs
      else clean_from (c # acc) cs)"

definition Clean :: "path \<Rightarrow> path" where
  "Clean p = clean_from [] p"

definition Join :: "path \<Rightarrow> path \<Rightarrow> path" where
  "Join base elems = Clean (base @ elems)"

fun Rel :: "path \<Rightarrow> path \<Rightarrow> path" where
  "Rel [] ts = ts"
| "Rel (b # bs) [] = replicate (Suc (length bs)) ''..''"
| "Rel (b # bs) (t # ts) = (if b = t then Rel bs ts else replicate (Suc (length bs)) ''..'' @ t # ts)"

section \<open>System calls\<close>

definition errNotExist :: error where
  "errNotExist = Plain ''file does not exist''"

definition IsNotExist :: "error \<Rightarrow> bool" where
  "IsNotExist e \<longleftrightarrow> e = errNotExist"

fun follow :: "nat \<Rightarrow> fs \<Rightarrow> path \<Rightarrow> path" where
  "follow 0 t p = p"
| "follow (Suc n) t p = (case map_of t p of Some (Symlink q) \<Rightarrow> follow n t q | _ \<Rightarrow> p)"

definition os_Lstat :: "path \<Rightarrow> node io" where
  "os_Lstat p = thenE sys (bindE getTree (\<lambda>t. case map_of t p of None \<Rightarrow> throw errNotExist | Some nd \<Rightarrow> ret nd))"

definition os_Stat :: "path \<Rightarrow> node io" where
  "os_Stat p = thenE sys (bindE getTree (\<lambda>t. case map_of t (follow 40 t p) of
       None \<Rightarrow> throw errNotExist
     | Some (Symlink _) \<Rightarrow> throw (Plain ''too many levels of symbolic links'')
     | Some nd \<Rightarrow> ret nd))"

definition os_ReadFile :: "path \<Rightarrow> bytes io" where
  "os_ReadFile p = bindE (os_Stat p) (\<lambda>nd. case nd of File b \<Rightarrow> ret b | _ \<Rightarrow> throw (Plain ''is a directory''))"

definition mkdirs :: "path \<Rightarrow> fs \<Rightarrow> fs" where
  "mkdirs dir t = fold (\<lambda>q t. if map_of t q = None then AList.update q Dir t else t) (prefixes dir) t"

definition os_MkdirAll :: "path \<Rightarrow> unit io" where
  "os_MkdirAll dir = thenE sys (bindE getTree (\<lambda>t.
     if list_ex (\<lambda>q. case map_of t q of Some (File _) \<Rightarrow> True | _ \<Rightarrow> False) (prefixes dir)
     then throw (Plain ''not a directory'') else setTree (mkdirs dir t)))"

text \<open>The result of \<open>os.CreateTemp\<close> is the path of the new, empty file.\<close>

definition os_CreateTemp :: "path \<Rightarrow> path io" where
  "os_CreateTemp dir = thenE sys (bindE getTree (\<lambda>t.
     if map_of t dir \<noteq> Some Dir then throw errNotExist
     else (\<lambda>E. (let p = dir @ [e_tmp E t dir] in thenE (setTree (AList.update p (File []) t)) (ret p)) E)))"

definition file_Write :: "path \<Rightarrow> bytes \<Rightarrow> unit io" where
  "file_Write p b = thenE sys (bindE getTree (\<lambda>t.
     case map_of t p of
       Some (File old) \<Rightarrow> setTree (AList.update p (File (old @ b)) t)
     | _ \<Rightarrow> throw errNotExist))"

definition os_Rename :: "path \<Rightarrow> path \<Rightarrow> unit io" where
  "os_Rename old new = thenE sys (bindE getTree (\<lambda>t.
     case map_of t old of
       None \<Rightarrow> throw errNotExist
     | Some nd \<Rightarrow>
         (if map_of t new = Some Dir then throw (Plain ''file exists'')
          else setTree (AList.update new nd (AList.delete old t)))))"

definition os_Remove :: "path \<Rightarrow> unit io" where
  "os_Remove p = thenE sys (bindE getTree (\<lambda>t.
     case map_of t p of
       None \<Rightarrow> throw errNotExist
     | Some nd \<Rightarrow>
         (if nd = Dir \<and> list_ex (\<lambda>(q, _). strict_prefix p q) t then throw (Plain ''directory not empty'')
          else setTree (AList.delete p t))))"

section \<open>Lemmas\<close>

lemmas io_defs = ret_def throw_def bindE_def tryE_def mapErr_def onError_def checkCtx_def sys_def getTree_def setTree_def

lemma bind_ret [simp]: "bindE (ret x) f = f x"
  by (simp add: bindE_def ret_def)

lemma bind_throw [simp]: "bindE (throw e) f = throw e"
  by (simp add: bindE_def throw_def)

lemma mkdirs_fold:
  "map_of (fold (\<lambda>q t. if map_of t q = None then AList.update q Dir t else t) qs t) =
     (\<lambda>q. case map_of t q of None \<Rightarrow> if q \<in> set qs then Some Dir else None | Some nd \<Rightarrow> Some nd)"
  by (induction qs arbitrary: t) (auto simp: update_conv' fun_eq_iff split: option.splits)

lemma map_of_mkdirs:
  "map_of (mkdirs dir t) q = (case map_of t q of None \<Rightarrow> if prefix q dir then Some Dir else None | Some nd \<Rightarrow> Some nd)"
  by (simp add: mkdirs_def mkdirs_fold)

definition good_component :: "string \<Rightarrow> bool" where
  "good_component c \<longleftrightarrow> c \<noteq> [] \<and> c \<noteq> ''.'' \<and> c \<noteq> ''..''"

lemma clean_from_good: "list_all good_component cs \<Longrightarrow> clean_from acc cs = rev acc @ cs"
  by (induction acc cs rule: clean_from.induct) (auto simp: good_component_def)

lemma clean_from_components: "list_all good_component acc \<Longrightarrow> list_all good_component (clean_from acc cs)"
proof (induction acc cs rule: clean_from.induct)
  case (2 acc c cs)
  moreover have "list_all good_component (tl acc)" using 2 by (cases acc) simp_all
  ultimately show ?case by (auto simp: good_component_def [of c])
qed simp

lemma Clean_components: "list_all good_component (Clean p)"
  by (simp add: Clean_def clean_from_components)

lemma Clean_Clean [simp]: "Clean (Clean p) = Clean p"
  using clean_from_good [OF Clean_components, of "[]" p] by (simp add: Clean_def)

lemma Join_clean:
  assumes "Clean base = base" "list_all good_component elems"
  shows "Join base elems = base @ elems"
proof -
  have "list_all good_component (base @ elems)" using assms Clean_components [of base] by simp
  from clean_from_good [OF this, of "[]"] show ?thesis by (simp add: Join_def Clean_def)
qed

lemma Rel_append [simp]: "Rel base (base @ ts) = ts"
  by (induction base) simp_all

section \<open>Specifications\<close>

text \<open>
  \<open>spec E t m Q R\<close>: from the tree \<open>t\<close>, \<open>m\<close> ends in \<open>Q\<close> when it returns and in \<open>R\<close> when it fails. The errors
  that the environment causes are the \<open>interrupted\<close> ones; a \<open>quiet\<close> environment causes none, so that an
  \<open>R\<close> that excludes all others means success.
\<close>

definition interrupted :: "env \<Rightarrow> error \<Rightarrow> bool" where
  "interrupted E e \<longleftrightarrow> (\<exists>k. e_ctx E k = Some e) \<or> (\<exists>k. e_fault E k = Some e)"

definition quiet :: "env \<Rightarrow> bool" where
  "quiet E \<longleftrightarrow> (\<forall>k. e_ctx E k = None) \<and> (\<forall>k. e_fault E k = None)"

lemma quiet_interrupted: "quiet E \<Longrightarrow> \<not> interrupted E e"
  by (simp add: quiet_def interrupted_def)

definition spec :: "env \<Rightarrow> fs \<Rightarrow> 'a io \<Rightarrow> (fs \<Rightarrow> 'a \<Rightarrow> bool) \<Rightarrow> (fs \<Rightarrow> error \<Rightarrow> bool) \<Rightarrow> bool" where
  "spec E t m Q R \<longleftrightarrow> hoare E (\<lambda>w. tree w = t) m (\<lambda>w. Q (tree w)) (\<lambda>w. R (tree w))"

named_theorems spec_intros \<open>rules for the sequencing operators and the system calls\<close>

lemma spec_ret [spec_intros]: "Q t x \<Longrightarrow> spec E t (ret x) Q R"
  by (auto simp: spec_def intro: hoare_ret)

lemma spec_throw [spec_intros]: "R t e \<Longrightarrow> spec E t (throw e) Q R"
  by (auto simp: spec_def intro: hoare_throw)

lemma spec_bind:
  assumes "spec E t m P R" "\<And>t' x. P t' x \<Longrightarrow> spec E t' (f x) Q R"
  shows "spec E t (bindE m f) Q R"
  unfolding spec_def
proof (rule hoare_bind)
  show "hoare E (\<lambda>w. tree w = t) m (\<lambda>w. P (tree w)) (\<lambda>w. R (tree w))" using assms(1) by (simp add: spec_def)
  show "hoare E (\<lambda>w. P (tree w) x) (f x) (\<lambda>w. Q (tree w)) (\<lambda>w. R (tree w))" for x
    using assms(2) by (fastforce simp: spec_def hoare_def)
qed

lemma spec_try: "spec E t m (\<lambda>t' x. Q t' (Inr x)) (\<lambda>t' e. Q t' (Inl e)) \<Longrightarrow> spec E t (tryE m) Q R"
  by (simp add: spec_def hoare_try)

lemma spec_wrap: "spec E t m Q (\<lambda>t' e. R t' (Wrapped s e)) \<Longrightarrow> spec E t (wrapE s m) Q R"
  by (simp add: spec_def hoare_mapErr)

lemma spec_onError:
  assumes "spec E t m Q R'" "\<And>t' e. R' t' e \<Longrightarrow> spec E t' h (\<lambda>t'' _. R t'' e) (\<lambda>t'' _. R t'' e)"
  shows "spec E t (onError m h) Q R"
  unfolding spec_def
proof (rule hoare_onError)
  show "hoare E (\<lambda>w. tree w = t) m (\<lambda>w. Q (tree w)) (\<lambda>w. R' (tree w))" using assms(1) by (simp add: spec_def)
  show "hoare E (\<lambda>w. R' (tree w) e) h (\<lambda>w _. R (tree w) e) (\<lambda>w _. R (tree w) e)" for e
    using assms(2) by (fastforce simp: spec_def hoare_def)
qed

lemma spec_weaken:
  "spec E t m P S \<Longrightarrow> (\<And>t' x. P t' x \<Longrightarrow> Q t' x) \<Longrightarrow> (\<And>t' e. S t' e \<Longrightarrow> R t' e) \<Longrightarrow> spec E t m Q R"
  unfolding spec_def by (erule hoare_weaken) auto

lemma spec_ctx [spec_intros]: "Q t () \<Longrightarrow> (\<And>e. interrupted E e \<Longrightarrow> R t e) \<Longrightarrow> spec E t checkCtx Q R"
  by (auto simp: spec_def hoare_def checkCtx_def interrupted_def split: option.splits)

lemma spec_sys [spec_intros]: "Q t () \<Longrightarrow> (\<And>e. interrupted E e \<Longrightarrow> R t e) \<Longrightarrow> spec E t sys Q R"
  by (auto simp: spec_def hoare_def sys_def interrupted_def split: option.splits)

text \<open>A check or a call without effect, followed by the rest.\<close>

lemma spec_checked: "spec E t m Q R \<Longrightarrow> (\<And>e. interrupted E e \<Longrightarrow> R t e) \<Longrightarrow> spec E t (thenE checkCtx m) Q R"
  by (rule spec_bind [where P = "\<lambda>t' _. t' = t"]) (auto intro: spec_ctx)

lemma spec_called: "spec E t m Q R \<Longrightarrow> (\<And>e. interrupted E e \<Longrightarrow> R t e) \<Longrightarrow> spec E t (thenE sys m) Q R"
  by (rule spec_bind [where P = "\<lambda>t' _. t' = t"]) (auto intro: spec_sys)

lemma spec_getTree: "spec E t (f t) Q R \<Longrightarrow> spec E t (bindE getTree f) Q R"
  by (rule spec_bind [where P = "\<lambda>t' x. t' = t \<and> x = t"]) (auto simp: spec_def hoare_def getTree_def)

lemma spec_setTree [spec_intros]: "Q t' () \<Longrightarrow> spec E t (setTree t') Q R"
  by (simp add: spec_def hoare_def setTree_def)

lemma spec_called_tree:
  "spec E t (f t) Q R \<Longrightarrow> (\<And>e. interrupted E e \<Longrightarrow> R t e) \<Longrightarrow> spec E t (thenE sys (bindE getTree f)) Q R"
  by (intro spec_called spec_getTree)

section \<open>The system calls\<close>

definition plain_at :: "fs \<Rightarrow> path \<Rightarrow> bool" where
  "plain_at t p \<longleftrightarrow> (\<forall>q. map_of t p \<noteq> Some (Symlink q))"

lemma follow_plain: "plain_at t p \<Longrightarrow> follow n t p = p"
  by (cases n) (auto simp: plain_at_def split: option.splits node.splits)

lemma spec_Stat:
  assumes "plain_at t p" "\<And>nd. map_of t p = Some nd \<Longrightarrow> Q t nd" "map_of t p = None \<Longrightarrow> R t errNotExist"
    and "\<And>e. interrupted E e \<Longrightarrow> R t e"
  shows "spec E t (os_Stat p) Q R"
  unfolding os_Stat_def using assms
  by (intro spec_called_tree) (auto simp: follow_plain plain_at_def intro!: spec_intros split: option.splits node.splits)

lemma spec_Lstat:
  assumes "\<And>nd. map_of t p = Some nd \<Longrightarrow> Q t nd" "map_of t p = None \<Longrightarrow> R t errNotExist" "\<And>e. interrupted E e \<Longrightarrow> R t e"
  shows "spec E t (os_Lstat p) Q R"
  unfolding os_Lstat_def using assms by (intro spec_called_tree) (auto intro!: spec_intros split: option.splits)

lemma spec_ReadFile:
  assumes "map_of t p = Some (File b)" "Q t b" "\<And>e. interrupted E e \<Longrightarrow> R t e"
  shows "spec E t (os_ReadFile p) Q R"
  unfolding os_ReadFile_def
  by (rule spec_bind [where P = "\<lambda>t' nd. t' = t \<and> nd = File b"])
     (use assms in \<open>auto intro!: spec_Stat spec_intros simp: plain_at_def\<close>)

lemma spec_MkdirAll:
  assumes "\<And>q b. prefix q dir \<Longrightarrow> map_of t q \<noteq> Some (File b)" "Q (mkdirs dir t) ()" "\<And>e. interrupted E e \<Longrightarrow> R t e"
  shows "spec E t (os_MkdirAll dir) Q R"
proof -
  have "\<not> list_ex (\<lambda>q. case map_of t q of Some (File _) \<Rightarrow> True | _ \<Rightarrow> False) (prefixes dir)"
    using assms(1) by (auto simp: list_ex_iff split: option.splits node.splits)
  then show ?thesis unfolding os_MkdirAll_def using assms(2,3) by (auto intro!: spec_called_tree spec_intros)
qed

lemma spec_CreateTemp:
  assumes "map_of t dir = Some Dir" "Q (AList.update (dir @ [e_tmp E t dir]) (File []) t) (dir @ [e_tmp E t dir])"
    and "\<And>e. interrupted E e \<Longrightarrow> R t e"
  shows "spec E t (os_CreateTemp dir) Q R"
  unfolding os_CreateTemp_def using assms
  by (intro spec_called_tree) (simp_all add: spec_def hoare_def bindE_def setTree_def ret_def Let_def)

lemma spec_Write:
  assumes "map_of t p = Some (File old)" "Q (AList.update p (File (old @ b)) t) ()" "\<And>e. interrupted E e \<Longrightarrow> R t e"
  shows "spec E t (file_Write p b) Q R"
  unfolding file_Write_def using assms by (intro spec_called_tree) (auto intro!: spec_intros)

lemma spec_Rename:
  assumes "map_of t old = Some nd" "map_of t new \<noteq> Some Dir" "Q (AList.update new nd (AList.delete old t)) ()"
    and "\<And>e. interrupted E e \<Longrightarrow> R t e"
  shows "spec E t (os_Rename old new) Q R"
  unfolding os_Rename_def using assms by (intro spec_called_tree) (auto intro!: spec_intros)

lemma spec_Remove:
  assumes "\<And>b. map_of t p = Some (File b) \<Longrightarrow> Q (AList.delete p t) ()" "map_of t p = None \<Longrightarrow> R t errNotExist"
    and "map_of t p \<noteq> Some Dir" "plain_at t p" "\<And>e. interrupted E e \<Longrightarrow> R t e"
  shows "spec E t (os_Remove p) Q R"
proof -
  consider b where "map_of t p = Some (File b)" | "map_of t p = None"
    using assms(3,4) by (cases "map_of t p"; cases "the (map_of t p)") (auto simp: plain_at_def)
  then show ?thesis unfolding os_Remove_def using assms(1,2,5) by cases (auto intro!: spec_called_tree spec_intros)
qed

text \<open>From a specification to the result of a run.\<close>

lemma spec_run:
  assumes "spec \<lparr>e_ctx = c, e_fault = F, e_tmp = tmp\<rparr> t m Q R" "run c F tmp m t = (r, t')"
  shows "case r of Inr x \<Rightarrow> Q t' x | Inl e \<Rightarrow> R t' e"
proof -
  let ?w = "\<lparr>tree = t, ctx_k = 0, os_k = 0\<rparr>"
  obtain w' where "m \<lparr>e_ctx = c, e_fault = F, e_tmp = tmp\<rparr> ?w = (r, w')" "t' = tree w'"
    using assms(2) by (auto simp: run_def split: prod.splits)
  moreover have "tree ?w = t" by simp
  ultimately show ?thesis using assms(1) unfolding spec_def hoare_def by blast
qed

end
