(* ===== verification/Disk.thy ===== *)
theory Disk
  imports FileSystem Memory
begin

text \<open>
  The disk store (\<open>storage/disk/disk.go\<close>), over the file system of \<open>FileSystem\<close>. Every context check and
  every system call of the code is one step of the computation, in the order of the code, so that a
  cancellation or a failing call may strike between any two of them. Other processes do not touch the
  tree during a call. The logger is not modelled.
\<close>

section \<open>Paths and hashes\<close>

definition SDDirectory :: string where
  "SDDirectory = ''sd''"

definition is_hex :: "char \<Rightarrow> bool" where
  "is_hex c \<longleftrightarrow> hex_value c \<noteq> None"

definition validateHash :: "string \<Rightarrow> bool" where
  "validateHash hash \<longleftrightarrow> length hash = 96 \<and> list_all is_hex hash"

definition validateHashWithError :: "string \<Rightarrow> unit io" where
  "validateHashWithError hash = (if \<not> validateHash hash then throw (Sentinel ErrInvalidHash) else ret ())"

definition rejectSymlink :: "path \<Rightarrow> unit io" where
  "rejectSymlink p = bindE (tryE (os_Lstat p)) (\<lambda>r.
     case r of Inr (Symlink _) \<Rightarrow> throw (Plain ''symlink detected in path'') | _ \<Rightarrow> ret ())"

text \<open>A relative path that starts with the parent component leaves the base directory.\<close>

definition escapes :: "path \<Rightarrow> bool" where
  "escapes rel \<longleftrightarrow> rel \<noteq> [] \<and> hd rel = ''..''"

definition safeJoin :: "path \<Rightarrow> string \<Rightarrow> path io" where
  "safeJoin base hash =
     (if \<not> validateHash hash then throw (Sentinel ErrInvalidHash)
      else
        (let subDir = take 2 hash;
             cleanPath = Clean (Join base [subDir, hash])
         in if escapes (Rel (Clean base) cleanPath) then throw (Plain ''path traversal attempt detected'')
            else thenE (rejectSymlink (Join base [subDir])) (ret cleanPath)))"

definition safeJoinSD :: "path \<Rightarrow> string \<Rightarrow> path io" where
  "safeJoinSD base hash =
     (if \<not> validateHash hash then throw (Sentinel ErrInvalidHash)
      else
        (let sdDir = SDDirectory;
             subDir = take 2 hash;
             cleanPath = Clean (Join base [sdDir, subDir, hash])
         in if escapes (Rel (Clean base) cleanPath) then throw (Plain ''path traversal attempt detected'')
            else thenE (rejectSymlink (Join base [sdDir]))
                  (thenE (rejectSymlink (Join base [sdDir, subDir])) (ret cleanPath))))"

section \<open>Writing\<close>

text \<open>
  \<open>os.File.Write\<close> writes everything or reports an error, so each retry loop runs once; an empty slice is
  never written.
\<close>

function write_chunks :: "path \<Rightarrow> bytes \<Rightarrow> unit io" where
  "write_chunks p data =
     (if data = [] then ret ()
      else thenE checkCtx (thenE checkCtx (thenE (file_Write p (take 4096 data)) (write_chunks p (drop 4096 data)))))"
  by pat_completeness auto
termination by (relation "measure (\<lambda>(p, data). length data)") auto

declare write_chunks.simps [simp del]

definition writeWithContext :: "path \<Rightarrow> bytes \<Rightarrow> unit io" where
  "writeWithContext p data =
     (if length data \<le> 4096
      then (if data = [] then ret () else thenE checkCtx (file_Write p data))
      else write_chunks p data)"

text \<open>From the temporary file to the final one: sync, close and chmod are system calls without effect on the tree.\<close>

definition write_and_rename :: "path \<Rightarrow> path \<Rightarrow> bytes \<Rightarrow> unit io" where
  "write_and_rename tmpPath p data =
     thenE (wrapE ''failed to write temporary file'' (writeWithContext tmpPath data))
     (thenE checkCtx
     (thenE (wrapE ''failed to sync temporary file'' sys)
     (thenE checkCtx
     (thenE (wrapE ''failed to close temporary file'' sys)
     (thenE (wrapE ''failed to set file permissions'' sys)
     (thenE checkCtx
     (wrapE ''failed to rename temporary file'' (os_Rename tmpPath p))))))))"

definition cleanup :: "path \<Rightarrow> unit io" where
  "cleanup tmpPath = thenE (tryE sys) (thenE (tryE (os_Remove tmpPath)) (ret ()))"

definition sync_dir :: "unit io" where
  "sync_dir = bindE (tryE sys) (\<lambda>r. case r of Inl _ \<Rightarrow> ret () | Inr _ \<Rightarrow> thenE (tryE sys) (thenE (tryE sys) (ret ())))"

definition atomicWrite :: "path \<Rightarrow> bytes \<Rightarrow> unit io" where
  "atomicWrite p data =
     thenE checkCtx
     (thenE (wrapE ''failed to create directory'' (os_MkdirAll (butlast p)))
     (thenE checkCtx
     (bindE (wrapE ''failed to create temporary file'' (os_CreateTemp (butlast p))) (\<lambda>tmpPath.
     (thenE (onError (write_and_rename tmpPath p data) (cleanup tmpPath)) sync_dir)))))"

section \<open>Reading\<close>

function read_chunks :: "bytes \<Rightarrow> bytes \<Rightarrow> bytes io" where
  "read_chunks rest data =
     thenE checkCtx (thenE sys
       (if rest = [] then ret data else read_chunks (drop 4096 rest) (data @ take 4096 rest)))"
  by pat_completeness auto
termination by (relation "measure (\<lambda>(rest, data). length rest)") auto

declare read_chunks.simps [simp del]

definition readWithContext :: "path \<Rightarrow> bytes io" where
  "readWithContext p = bindE (os_Stat p) (\<lambda>info.
     case info of
       File b \<Rightarrow> (if length b \<le> 4096 then os_ReadFile p else thenE sys (thenE checkCtx (read_chunks b [])))
     | _ \<Rightarrow> os_ReadFile p)"

definition checkBlobPaths :: "path \<Rightarrow> string \<Rightarrow> bytes io" where
  "checkBlobPaths base hash =
     thenE checkCtx (bindE (safeJoin base hash) (\<lambda>blobPath.
     thenE checkCtx (bindE (tryE (readWithContext blobPath)) (\<lambda>r.
       case r of
         Inr data \<Rightarrow> ret data
       | Inl e \<Rightarrow>
           (if \<not> IsNotExist e then throw e
            else thenE checkCtx (bindE (safeJoinSD base hash) (\<lambda>sdBlobPath.
                 thenE checkCtx (bindE (tryE (readWithContext sdBlobPath)) (\<lambda>r.
                   case r of
                     Inr data \<Rightarrow> ret data
                   | Inl e \<Rightarrow> (if \<not> IsNotExist e then throw e else throw (Plain (''blob not found: '' @ hash))))))))))))"

section \<open>The operations\<close>

text \<open>The base directory of the store stands for its state \<open>d.path\<close>.\<close>

definition CreateStore :: "path option option \<Rightarrow> path io" where
  "CreateStore config =
     (case config of
        None \<Rightarrow> throw (Plain ''configuration cannot be nil'')
      | Some None \<Rightarrow> throw (Plain ''missing or invalid 'path' configuration parameter'')
      | Some (Some p) \<Rightarrow>
          (let cleanPath = Clean p in
           thenE (rejectSymlink cleanPath)
           (thenE (wrapE ''failed to create storage directory'' (os_MkdirAll cleanPath)) (ret cleanPath))))"

definition disk_Has :: "path \<Rightarrow> string \<Rightarrow> bool io" where
  "disk_Has base hash =
     thenE checkCtx
     (if \<not> validateHash hash then ret False
      else thenE checkCtx (bindE (safeJoin base hash) (\<lambda>blobPath.
           thenE checkCtx (bindE (tryE (os_Stat blobPath)) (\<lambda>r.
             case r of
               Inr _ \<Rightarrow> ret True
             | Inl e \<Rightarrow>
                 (if \<not> IsNotExist e then throw e
                  else thenE checkCtx (bindE (safeJoinSD base hash) (\<lambda>sdBlobPath.
                       thenE checkCtx (bindE (tryE (os_Stat sdBlobPath)) (\<lambda>r.
                         case r of
                           Inr _ \<Rightarrow> ret True
                         | Inl e \<Rightarrow> (if \<not> IsNotExist e then throw e else ret False)))))))))))"

definition disk_Get :: "path \<Rightarrow> string \<Rightarrow> bytes io" where
  "disk_Get base hash = thenE checkCtx (thenE (validateHashWithError hash) (checkBlobPaths base hash))"

definition disk_Put :: "path \<Rightarrow> string \<Rightarrow> bytes \<Rightarrow> unit io" where
  "disk_Put base hash data =
     thenE checkCtx (thenE (validateHashWithError hash) (thenE checkCtx
       (bindE (safeJoin base hash) (\<lambda>blobPath. atomicWrite blobPath data))))"

definition disk_PutSD :: "path \<Rightarrow> string \<Rightarrow> bytes \<Rightarrow> unit io" where
  "disk_PutSD base hash data =
     thenE checkCtx (thenE (validateHashWithError hash) (thenE checkCtx
       (bindE (safeJoinSD base hash) (\<lambda>sdBlobPath. atomicWrite sdBlobPath data))))"

definition remove_blob :: "string \<Rightarrow> path \<Rightarrow> unit io" where
  "remove_blob err p = bindE (tryE (os_Remove p)) (\<lambda>r.
     case r of
       Inl e \<Rightarrow> (if \<not> IsNotExist e then throw (Wrapped err e) else ret ())
     | Inr _ \<Rightarrow> ret ())"

definition disk_Delete :: "path \<Rightarrow> string \<Rightarrow> unit io" where
  "disk_Delete base hash =
     thenE checkCtx (thenE (validateHashWithError hash) (thenE checkCtx
       (bindE (safeJoin base hash) (\<lambda>blobPath.
        thenE checkCtx (thenE (remove_blob ''failed to delete regular blob'' blobPath)
       (thenE checkCtx (bindE (safeJoinSD base hash) (\<lambda>sdBlobPath.
        thenE checkCtx (remove_blob ''failed to delete SD blob'' sdBlobPath)))))))))"

text \<open>
  \<open>filepath.Walk\<close> visits a directory before its entries and the entries in lexical order, which is the
  lexicographic order of the component lists. A failing \<open>Lstat\<close> or \<open>Readdir\<close> is handed to the callback,
  which returns it.
\<close>

fun walk_collect :: "fs \<Rightarrow> path list \<Rightarrow> string list \<Rightarrow> string list io" where
  "walk_collect t [] hashSet = ret hashSet"
| "walk_collect t (p # ps) hashSet =
     thenE checkCtx (thenE sys
       (walk_collect t ps
         (if map_of t p = Some Dir then hashSet
          else if validateHash (last p) then List.insert (last p) hashSet else hashSet)))"

definition collectBlobHashes :: "path \<Rightarrow> string list io" where
  "collectBlobHashes base =
     thenE checkCtx (bindE getTree (\<lambda>t.
       if map_of t base = None then thenE checkCtx (throw errNotExist)
       else bindE (walk_collect t (sort (filter (prefix base) (remdups (map fst t)))) [])
              (\<lambda>hashSet. ret (sort hashSet))))"

definition disk_List ::
    "ctx \<Rightarrow> (nat \<Rightarrow> error option) \<Rightarrow> (fs \<Rightarrow> path \<Rightarrow> string) \<Rightarrow> path \<Rightarrow> fs \<Rightarrow> int \<Rightarrow> int \<Rightarrow> (error + string list) option" where
  "disk_List c F tmp base t offset limit =
     (case fst (run c F tmp (thenE checkCtx
        (if offset < 0 then throw (Sentinel ErrInvalidOffset)
         else if limit \<le> 0 then throw (Sentinel ErrInvalidLimit)
         else wrapE ''failed to collect blob hashes'' (collectBlobHashes base))) t) of
        Inl e \<Rightarrow> Some (Inl e)
      | Inr allHashes \<Rightarrow> paginate allHashes offset limit)"

definition outcome :: "(error + unit) \<times> fs \<Rightarrow> error option \<times> fs" where
  "outcome rt = (case rt of (Inl e, t) \<Rightarrow> (Some e, t) | (Inr _, t) \<Rightarrow> (None, t))"

definition disk_store :: "(nat \<Rightarrow> error option) \<Rightarrow> (fs \<Rightarrow> path \<Rightarrow> string) \<Rightarrow> path \<Rightarrow> fs BlobStore" where
  "disk_store F tmp base =
     \<lparr>Has = (\<lambda>c t h. fst (run c F tmp (disk_Has base h) t)),
      Get = (\<lambda>c t h. fst (run c F tmp (disk_Get base h) t)),
      Put = (\<lambda>c t h d. outcome (run c F tmp (disk_Put base h d) t)),
      PutSD = (\<lambda>c t h d. outcome (run c F tmp (disk_PutSD base h d) t)),
      Delete = (\<lambda>c t h. outcome (run c F tmp (disk_Delete base h) t))\<rparr>"

section \<open>The layout on disk\<close>

definition reg :: "path \<Rightarrow> string \<Rightarrow> path" where
  "reg base h = base @ [take 2 h, h]"

definition sdp :: "path \<Rightarrow> string \<Rightarrow> path" where
  "sdp base h = base @ [SDDirectory, take 2 h, h]"

definition free_or_dir :: "fs \<Rightarrow> path \<Rightarrow> bool" where
  "free_or_dir t p \<longleftrightarrow> map_of t p = None \<or> map_of t p = Some Dir"

definition free_or_file :: "fs \<Rightarrow> path \<Rightarrow> bool" where
  "free_or_file t p \<longleftrightarrow> map_of t p = None \<or> (\<exists>b. map_of t p = Some (File b))"

text \<open>
  The invariant: the base directory exists, directories are where the store makes them, blobs are plain
  files, and below the base only the blobs' own files have a name that is a hash.
\<close>

definition disk_ok :: "path \<Rightarrow> fs \<Rightarrow> bool" where
  "disk_ok base t \<longleftrightarrow>
     Clean base = base \<and> (\<forall>q. prefix q base \<longrightarrow> map_of t q = Some Dir) \<and> free_or_dir t (base @ [SDDirectory]) \<and>
     (\<forall>h. validateHash h \<longrightarrow>
        free_or_dir t (base @ [take 2 h]) \<and> free_or_dir t (base @ [SDDirectory, take 2 h]) \<and>
        free_or_file t (reg base h) \<and> free_or_file t (sdp base h)) \<and>
     (\<forall>p nd. map_of t p = Some nd \<longrightarrow> prefix base p \<longrightarrow> nd \<noteq> Dir \<longrightarrow> validateHash (last p) \<longrightarrow>
        p = reg base (last p) \<or> p = sdp base (last p))"

definition file_at :: "fs \<Rightarrow> path \<Rightarrow> bytes option" where
  "file_at t p = (case map_of t p of Some (File b) \<Rightarrow> Some b | _ \<Rightarrow> None)"

definition disk_lookup :: "path \<Rightarrow> fs \<Rightarrow> string \<Rightarrow> bytes option" where
  "disk_lookup base t h =
     (if validateHash h then (case file_at t (reg base h) of Some b \<Rightarrow> Some b | None \<Rightarrow> file_at t (sdp base h)) else None)"

text \<open>The regular blobs and the SD blobs as two maps.\<close>

definition regs :: "path \<Rightarrow> fs \<Rightarrow> string \<Rightarrow> bytes option" where
  "regs base t h = (if validateHash h then file_at t (reg base h) else None)"

definition sds :: "path \<Rightarrow> fs \<Rightarrow> string \<Rightarrow> bytes option" where
  "sds base t h = (if validateHash h then file_at t (sdp base h) else None)"

lemma disk_lookup_maps: "disk_lookup base t h = (case regs base t h of Some b \<Rightarrow> Some b | None \<Rightarrow> sds base t h)"
  by (simp add: disk_lookup_def regs_def sds_def split: option.split)

definition same_disk :: "path \<Rightarrow> fs \<Rightarrow> fs \<Rightarrow> bool" where
  "same_disk base t t' \<longleftrightarrow> (disk_ok base t \<longrightarrow> disk_ok base t') \<and>
     (\<forall>h. validateHash h \<longrightarrow> map_of t' (reg base h) = map_of t (reg base h) \<and> map_of t' (sdp base h) = map_of t (sdp base h))"

text \<open>The environments the store runs in.\<close>

definition tmp_ok :: "(fs \<Rightarrow> path \<Rightarrow> string) \<Rightarrow> bool" where
  "tmp_ok tmp \<longleftrightarrow> (\<forall>t dir. map_of t (dir @ [tmp t dir]) = None \<and> prefix ''.tmp-'' (tmp t dir))"

definition env_ok :: "env \<Rightarrow> bool" where
  "env_ok E \<longleftrightarrow> (\<forall>e. interrupted E e \<longrightarrow> \<not> IsNotExist e) \<and> tmp_ok (e_tmp E)"

definition caused :: "env \<Rightarrow> error \<Rightarrow> bool" where
  "caused E e \<longleftrightarrow> interrupted E e \<or> (\<exists>s e'. e = Wrapped s e' \<and> interrupted E e')"

lemma causedI [intro]: "interrupted E e \<Longrightarrow> caused E e" "interrupted E e \<Longrightarrow> caused E (Wrapped s e)"
  by (auto simp: caused_def)

lemma quiet_caused: "quiet E \<Longrightarrow> \<not> caused E e"
  by (simp add: caused_def quiet_interrupted)

subsection \<open>Hashes as file names\<close>

lemma not_hex [simp]: "\<not> is_hex CHR ''.''" "\<not> is_hex CHR ''s''"
  by (simp_all add: is_hex_def hex_value_def)

lemma validateHash_parts:
  assumes "validateHash h"
  shows "good_component h" "good_component (take 2 h)" "take 2 h \<noteq> SDDirectory"
proof -
  obtain a b r where h: "h = a # b # r" using assms by (cases h; cases "tl h") (auto simp: validateHash_def)
  have hex: "is_hex a" "is_hex b" "r \<noteq> []" using assms h by (auto simp: validateHash_def)
  then show "good_component h" "good_component (take 2 h)" "take 2 h \<noteq> SDDirectory"
    unfolding good_component_def SDDirectory_def h using not_hex by (auto simp del: not_hex)
qed

lemma tmp_not_hash: "prefix ''.tmp-'' s \<Longrightarrow> \<not> validateHash s"
  by (auto simp: prefix_def validateHash_def)

lemma good_SDDirectory [simp]: "good_component SDDirectory"
  by (simp add: good_component_def SDDirectory_def)

lemma path_neqs [simp]:
  assumes "validateHash h"
  shows "base @ [take 2 h, x] \<noteq> base @ [SDDirectory, y]" "base @ [SDDirectory, y] \<noteq> base @ [take 2 h, x]"
    "reg base h \<noteq> sdp base h'" "sdp base h' \<noteq> reg base h" "base @ [take 2 h] \<noteq> base @ [SDDirectory]"
    "base @ [SDDirectory] \<noteq> base @ [take 2 h]"
  using validateHash_parts(3) [OF assms] by (auto simp: reg_def sdp_def)

lemma reg_inj [simp]: "reg base h = reg base h' \<longleftrightarrow> h = h'" "sdp base h = sdp base h' \<longleftrightarrow> h = h'"
  by (auto simp: reg_def sdp_def)

lemma butlast_reg [simp]: "butlast (reg base h) = base @ [take 2 h]" "butlast (sdp base h) = base @ [SDDirectory, take 2 h]"
  by (simp_all add: reg_def sdp_def butlast_append)

lemma last_reg [simp]: "last (reg base h) = h" "last (sdp base h) = h"
  by (simp_all add: reg_def sdp_def)

lemma Join_reg:
  assumes "Clean base = base" "validateHash h"
  shows "Join base [take 2 h, h] = reg base h" "Join base [SDDirectory, take 2 h, h] = sdp base h"
    "Join base [take 2 h] = base @ [take 2 h]" "Join base [SDDirectory, take 2 h] = base @ [SDDirectory, take 2 h]"
    "Join base [SDDirectory] = base @ [SDDirectory]"
    "Clean (reg base h) = reg base h" "Clean (sdp base h) = sdp base h"
proof -
  note good = validateHash_parts(1,2) [OF assms(2)]
  show 1: "Join base [take 2 h, h] = reg base h" "Join base [SDDirectory, take 2 h, h] = sdp base h"
    "Join base [take 2 h] = base @ [take 2 h]" "Join base [SDDirectory, take 2 h] = base @ [SDDirectory, take 2 h]"
    "Join base [SDDirectory] = base @ [SDDirectory]"
    using good by (simp_all add: Join_clean [OF assms(1)] reg_def sdp_def)
  show "Clean (reg base h) = reg base h" "Clean (sdp base h) = sdp base h"
    by (simp_all flip: 1 add: Join_def)
qed

lemma not_escapes:
  assumes "validateHash h"
  shows "\<not> escapes (Rel base (reg base h))" "\<not> escapes (Rel base (sdp base h))"
  using validateHash_parts(2) [OF assms] by (simp_all add: reg_def sdp_def escapes_def good_component_def SDDirectory_def)

subsection \<open>Safe paths\<close>

lemma spec_rejectSymlink: "plain_at t p \<Longrightarrow> Q t () \<Longrightarrow> spec E t (rejectSymlink p) Q R"
  unfolding rejectSymlink_def
  by (rule spec_bind [where P = "\<lambda>t' r. t' = t \<and> (\<forall>q. r \<noteq> Inr (Symlink q))"])
     (auto intro!: spec_try spec_Lstat spec_intros simp: plain_at_def split: sum.splits node.splits)

lemma free_or_dir_plain: "free_or_dir t p \<Longrightarrow> plain_at t p"
  by (auto simp: free_or_dir_def plain_at_def)

lemma free_or_file_plain: "free_or_file t p \<Longrightarrow> plain_at t p"
  by (auto simp: free_or_file_def plain_at_def)

lemma disk_okD:
  assumes "disk_ok base t"
  shows "Clean base = base" "prefix q base \<Longrightarrow> map_of t q = Some Dir" "free_or_dir t (base @ [SDDirectory])"
    "validateHash h \<Longrightarrow> free_or_dir t (base @ [take 2 h])" "validateHash h \<Longrightarrow> free_or_dir t (base @ [SDDirectory, take 2 h])"
    "validateHash h \<Longrightarrow> free_or_file t (reg base h)" "validateHash h \<Longrightarrow> free_or_file t (sdp base h)"
  using assms by (simp_all add: disk_ok_def)

lemma spec_safeJoin:
  assumes "disk_ok base t" "validateHash h" "Q t (reg base h)"
  shows "spec E t (safeJoin base h) Q R"
  unfolding safeJoin_def
  using assms not_escapes(1) [OF assms(2)] disk_okD(4) [OF assms(1,2)]
  by (auto simp: Join_reg disk_okD(1) [OF assms(1)] Let_def free_or_dir_plain
      intro!: spec_bind [where P = "\<lambda>t' _. t' = t"] spec_rejectSymlink spec_intros)

lemma spec_safeJoinSD:
  assumes "disk_ok base t" "validateHash h" "Q t (sdp base h)"
  shows "spec E t (safeJoinSD base h) Q R"
  unfolding safeJoinSD_def
  using assms not_escapes(2) [OF assms(2)] disk_okD(3) [OF assms(1)] disk_okD(5) [OF assms(1,2)]
  by (auto simp: Join_reg disk_okD(1) [OF assms(1)] Let_def free_or_dir_plain
      intro!: spec_bind [where P = "\<lambda>t' _. t' = t"] spec_rejectSymlink spec_intros)

subsection \<open>Reading\<close>

lemma spec_read_chunks:
  "Q t (data @ rest) \<Longrightarrow> (\<And>e. interrupted E e \<Longrightarrow> R t e) \<Longrightarrow> spec E t (read_chunks rest data) Q R"
proof (induction rest data rule: read_chunks.induct)
  case (1 rest data)
  show ?case
    by (subst read_chunks.simps, intro spec_checked spec_called)
       (use 1 in \<open>auto intro: spec_intros\<close>)
qed

lemma spec_readWithContext:
  assumes "free_or_file t p" "\<And>b. map_of t p = Some (File b) \<Longrightarrow> Q t b" "map_of t p = None \<Longrightarrow> R t errNotExist"
    and "\<And>e. interrupted E e \<Longrightarrow> R t e"
  shows "spec E t (readWithContext p) Q R"
  unfolding readWithContext_def
proof (rule spec_bind [where P = "\<lambda>t' nd. t' = t \<and> map_of t p = Some nd"])
  show "spec E t (os_Stat p) (\<lambda>t' nd. t' = t \<and> map_of t p = Some nd) R"
    using assms by (intro spec_Stat free_or_file_plain) auto
next
  fix t' nd
  assume "t' = t \<and> map_of t p = Some nd"
  then show "spec E t' (case nd of File b \<Rightarrow> (if length b \<le> 4096 then os_ReadFile p else thenE sys (thenE checkCtx (read_chunks b [])))
       | _ \<Rightarrow> os_ReadFile p) Q R"
    using assms by (cases nd) (auto simp: free_or_file_def intro!: spec_ReadFile spec_called spec_checked spec_read_chunks)
qed

text \<open>A blob is looked for at its regular path and then at its SD path.\<close>

lemma spec_two_paths:
  assumes "env_ok E" "disk_ok base t" "validateHash h"
    and "\<And>p Q' R'. free_or_file t p \<Longrightarrow> (\<And>b. map_of t p = Some (File b) \<Longrightarrow> Q' t (f b)) \<Longrightarrow> (map_of t p = None \<Longrightarrow> R' t errNotExist) \<Longrightarrow>
       (\<And>e. interrupted E e \<Longrightarrow> R' t e) \<Longrightarrow> spec E t (m p) Q' R'"
    and "\<And>b. disk_lookup base t h = Some b \<Longrightarrow> spec E t (found (f b)) Q R"
    and "disk_lookup base t h = None \<Longrightarrow> spec E t missing Q R" and "\<And>e. interrupted E e \<Longrightarrow> R t e"
  shows "spec E t
    (bindE (safeJoin base h) (\<lambda>blobPath. thenE checkCtx (bindE (tryE (m blobPath)) (\<lambda>r.
       case r of Inr x \<Rightarrow> found x
       | Inl e \<Rightarrow> (if \<not> IsNotExist e then throw e
            else thenE checkCtx (bindE (safeJoinSD base h) (\<lambda>sdBlobPath. thenE checkCtx (bindE (tryE (m sdBlobPath)) (\<lambda>r.
                   case r of Inr x \<Rightarrow> found x
                   | Inl e \<Rightarrow> (if \<not> IsNotExist e then throw e else missing)))))))))) Q R"
proof -
  note files = disk_okD(6,7) [OF assms(2,3)]
  have intr: "\<And>e. interrupted E e \<Longrightarrow> \<not> IsNotExist e" using assms(1) by (simp add: env_ok_def)
  let ?post = "\<lambda>p t' r. t' = t \<and> (case r of Inr x \<Rightarrow> \<exists>b. map_of t p = Some (File b) \<and> x = f b
      | Inl e \<Rightarrow> map_of t p = None \<and> e = errNotExist \<or> interrupted E e)"
  have probe: "spec E t (tryE (m p)) (?post p) R" if "free_or_file t p" for p
    using that by (intro spec_try assms(4)) auto
  have sd: "spec E t (bindE (tryE (m (sdp base h))) (\<lambda>r. case r of Inr x \<Rightarrow> found x
      | Inl e \<Rightarrow> (if \<not> IsNotExist e then throw e else missing))) Q R" if "map_of t (reg base h) = None"
    using that assms(3,5-7) intr
    by (intro spec_bind [OF probe [OF files(2)]])
       (auto simp: disk_lookup_def file_at_def IsNotExist_def intro: spec_intros split: sum.splits)
  have "spec E t (bindE (tryE (m (reg base h))) (\<lambda>r. case r of Inr x \<Rightarrow> found x
      | Inl e \<Rightarrow> (if \<not> IsNotExist e then throw e
            else thenE checkCtx (bindE (safeJoinSD base h) (\<lambda>sdBlobPath. thenE checkCtx (bindE (tryE (m sdBlobPath)) (\<lambda>r.
                   case r of Inr x \<Rightarrow> found x
                   | Inl e \<Rightarrow> (if \<not> IsNotExist e then throw e else missing)))))))) Q R"
  proof (rule spec_bind [OF probe [OF files(1)]], goal_cases)
    case (1 t' r)
    have "spec E t (thenE checkCtx (bindE (safeJoinSD base h) (\<lambda>sdBlobPath. thenE checkCtx (bindE (tryE (m sdBlobPath)) (\<lambda>r.
                   case r of Inr x \<Rightarrow> found x
                   | Inl e \<Rightarrow> (if \<not> IsNotExist e then throw e else missing)))))) Q R" if "map_of t (reg base h) = None"
      by (intro spec_checked spec_bind [where P = "\<lambda>t' p. t' = t \<and> p = sdp base h"] spec_safeJoinSD [OF assms(2,3)])
         (use sd that assms(7) in \<open>auto intro!: spec_checked\<close>)
    then show ?case
      using 1 assms(3,5,7) intr by (auto simp: disk_lookup_def file_at_def IsNotExist_def intro: spec_intros split: sum.splits)
  qed
  then show ?thesis
    by (intro spec_bind [where P = "\<lambda>t' p. t' = t \<and> p = reg base h"] spec_safeJoin [OF assms(2,3)])
       (use assms(7) in \<open>auto intro!: spec_checked\<close>)
qed

lemma spec_validated:
  assumes "validateHash h \<Longrightarrow> spec E t m Q R" "\<not> validateHash h \<Longrightarrow> R t (Sentinel ErrInvalidHash)"
  shows "spec E t (thenE (validateHashWithError h) m) Q R"
  using assms by (simp add: validateHashWithError_def spec_throw)

lemma spec_Get:
  assumes "env_ok E" "disk_ok base t"
  shows "spec E t (disk_Get base h)
    (\<lambda>t' b. t' = t \<and> validateHash h \<and> disk_lookup base t h = Some b)
    (\<lambda>t' e. t' = t \<and> (interrupted E e \<or> \<not> validateHash h \<and> e = Sentinel ErrInvalidHash \<or>
                       validateHash h \<and> disk_lookup base t h = None \<and> e = Plain (''blob not found: '' @ h)))"
  unfolding disk_Get_def checkBlobPaths_def
proof (intro spec_checked spec_validated)
  assume True: "validateHash h"
  show "spec E t
    (bindE (safeJoin base h) (\<lambda>blobPath. thenE checkCtx (bindE (tryE (readWithContext blobPath)) (\<lambda>r.
       case r of Inr x \<Rightarrow> ret x
       | Inl e \<Rightarrow> (if \<not> IsNotExist e then throw e
            else thenE checkCtx (bindE (safeJoinSD base h) (\<lambda>sdBlobPath. thenE checkCtx (bindE (tryE (readWithContext sdBlobPath)) (\<lambda>r.
                   case r of Inr x \<Rightarrow> ret x
                   | Inl e \<Rightarrow> (if \<not> IsNotExist e then throw e else throw (Plain (''blob not found: '' @ h))))))))))))
    (\<lambda>t' b. t' = t \<and> validateHash h \<and> disk_lookup base t h = Some b)
    (\<lambda>t' e. t' = t \<and> (interrupted E e \<or> \<not> validateHash h \<and> e = Sentinel ErrInvalidHash \<or>
                       validateHash h \<and> disk_lookup base t h = None \<and> e = Plain (''blob not found: '' @ h)))"
    by (rule spec_two_paths [OF assms True, where f = "\<lambda>b. b"]) (use True in \<open>auto intro!: spec_readWithContext spec_intros\<close>)
qed auto

lemma spec_Has:
  assumes "env_ok E" "disk_ok base t"
  shows "spec E t (disk_Has base h)
    (\<lambda>t' b. t' = t \<and> b = (disk_lookup base t h \<noteq> None)) (\<lambda>t' e. t' = t \<and> interrupted E e)"
proof (cases "validateHash h")
  case False
  then show ?thesis unfolding disk_Has_def
    by (intro spec_checked) (auto simp: disk_lookup_def intro!: spec_intros)
next
  case True
  have stat: "spec E t (os_Stat p) Q' R'"
    if "free_or_file t p" "\<And>b. map_of t p = Some (File b) \<Longrightarrow> Q' t (File b)" "map_of t p = None \<Longrightarrow> R' t errNotExist"
      "\<And>e. interrupted E e \<Longrightarrow> R' t e" for p Q' R'
    using that by (intro spec_Stat free_or_file_plain) (auto simp: free_or_file_def)
  have "spec E t (bindE (safeJoin base h) (\<lambda>blobPath. thenE checkCtx (bindE (tryE (os_Stat blobPath)) (\<lambda>r.
       case r of Inr x \<Rightarrow> ret True
       | Inl e \<Rightarrow> (if \<not> IsNotExist e then throw e
            else thenE checkCtx (bindE (safeJoinSD base h) (\<lambda>sdBlobPath. thenE checkCtx (bindE (tryE (os_Stat sdBlobPath)) (\<lambda>r.
                   case r of Inr x \<Rightarrow> ret True
                   | Inl e \<Rightarrow> (if \<not> IsNotExist e then throw e else ret False))))))))))
       (\<lambda>t' b. t' = t \<and> b = (disk_lookup base t h \<noteq> None)) (\<lambda>t' e. t' = t \<and> interrupted E e)"
    by (rule spec_two_paths [OF assms True stat]) (auto intro!: spec_intros)
  then show ?thesis unfolding disk_Has_def using True
    by (intro spec_checked) (auto intro!: spec_checked)
qed

subsection \<open>Writing\<close>

text \<open>The tree \<open>t0\<close> with a temporary file of content \<open>x\<close>.\<close>

definition with_tmp :: "fs \<Rightarrow> path \<Rightarrow> bytes \<Rightarrow> fs \<Rightarrow> bool" where
  "with_tmp t0 p x t \<longleftrightarrow> map_of t = (map_of t0)(p \<mapsto> File x)"

abbreviation some_tmp :: "env \<Rightarrow> fs \<Rightarrow> path \<Rightarrow> fs \<Rightarrow> error \<Rightarrow> bool" where
  "some_tmp E t0 p t e \<equiv> caused E e \<and> (\<exists>y. with_tmp t0 p y t)"

lemma spec_Write_tmp:
  assumes "with_tmp t0 p x t"
  shows "spec E t (file_Write p b) (\<lambda>t' _. with_tmp t0 p (x @ b) t') (\<lambda>t' e. interrupted E e \<and> (\<exists>y. with_tmp t0 p y t'))"
  by (rule spec_Write [of t p x]) (use assms in \<open>auto simp: with_tmp_def update_conv'\<close>)

lemma spec_write_chunks:
  "with_tmp t0 p x t \<Longrightarrow>
     spec E t (write_chunks p data) (\<lambda>t' _. with_tmp t0 p (x @ data) t') (\<lambda>t' e. interrupted E e \<and> (\<exists>y. with_tmp t0 p y t'))"
proof (induction p data arbitrary: x t rule: write_chunks.induct)
  case (1 p data)
  show ?case
  proof (cases "data = []")
    case True
    then show ?thesis using 1 by (auto simp: write_chunks.simps intro: spec_intros)
  next
    case False
    show ?thesis
    proof (subst write_chunks.simps, simp only: False if_False, intro spec_checked spec_bind [OF spec_Write_tmp [OF 1(2)]])
      fix t' x'
      assume "with_tmp t0 p (x @ take 4096 data) t'"
      from "1.IH" [OF False this]
      show "spec E t' (write_chunks p (drop 4096 data)) (\<lambda>t' _. with_tmp t0 p (x @ data) t')
          (\<lambda>t' e. interrupted E e \<and> (\<exists>y. with_tmp t0 p y t'))" by simp
    qed (use 1(2) in auto)
  qed
qed

lemma spec_writeWithContext:
  assumes "with_tmp t0 p [] t"
  shows "spec E t (writeWithContext p data) (\<lambda>t' _. with_tmp t0 p data t') (\<lambda>t' e. interrupted E e \<and> (\<exists>y. with_tmp t0 p y t'))"
  using spec_write_chunks [OF assms, of E data] spec_Write_tmp [OF assms, of E data] assms
  by (auto simp: writeWithContext_def intro!: spec_checked spec_intros)

lemma spec_sys_wrap: "Q t () \<Longrightarrow> (\<And>e. interrupted E e \<Longrightarrow> R t (Wrapped s e)) \<Longrightarrow> spec E t (wrapE s sys) Q R"
  by (intro spec_wrap spec_sys) auto

lemma spec_called_wrap:
  "spec E t m Q R \<Longrightarrow> (\<And>e. interrupted E e \<Longrightarrow> R t (Wrapped s e)) \<Longrightarrow> spec E t (thenE (wrapE s sys) m) Q R"
  by (rule spec_bind [where P = "\<lambda>t' _. t' = t"]) (auto intro: spec_sys_wrap)

lemma spec_write_and_rename:
  assumes "with_tmp t0 tmp [] t" "tmp \<noteq> p" "map_of t0 tmp = None" "map_of t0 p \<noteq> Some Dir"
  shows "spec E t (write_and_rename tmp p data) (\<lambda>t' _. map_of t' = (map_of t0)(p \<mapsto> File data)) (some_tmp E t0 tmp)"
  unfolding write_and_rename_def
proof (rule spec_bind [where P = "\<lambda>t' _. with_tmp t0 tmp data t'"])
  show "spec E t (wrapE ''failed to write temporary file'' (writeWithContext tmp data))
      (\<lambda>t' _. with_tmp t0 tmp data t') (some_tmp E t0 tmp)"
    by (intro spec_wrap spec_weaken [OF spec_writeWithContext [OF assms(1)]]) auto
next
  fix t' :: fs and x :: unit
  assume w: "with_tmp t0 tmp data t'"
  have ren: "spec E t' (wrapE ''failed to rename temporary file'' (os_Rename tmp p))
      (\<lambda>t' _. map_of t' = (map_of t0)(p \<mapsto> File data)) (some_tmp E t0 tmp)"
    by (intro spec_wrap spec_Rename [where nd = "File data"])
       (use w assms(2-4) in \<open>auto simp: with_tmp_def update_conv' delete_conv' fun_eq_iff\<close>)
  show "spec E t' (thenE checkCtx (thenE (wrapE ''failed to sync temporary file'' sys) (thenE checkCtx
     (thenE (wrapE ''failed to close temporary file'' sys) (thenE (wrapE ''failed to set file permissions'' sys)
     (thenE checkCtx (wrapE ''failed to rename temporary file'' (os_Rename tmp p)))))))) 
     (\<lambda>t' _. map_of t' = (map_of t0)(p \<mapsto> File data)) (some_tmp E t0 tmp)"
    by (intro spec_checked spec_called_wrap ren) (use w in auto)
qed

lemma spec_cleanup:
  assumes "with_tmp t0 tmp y t" "map_of t0 tmp = None"
  shows "spec E t (cleanup tmp) (\<lambda>t' _. map_of t' = map_of t0 \<or> (\<exists>y. with_tmp t0 tmp y t')) R"
  unfolding cleanup_def
proof (rule spec_bind [where P = "\<lambda>t' _. t' = t"])
  show "spec E t (tryE sys) (\<lambda>t' _. t' = t) R" by (intro spec_try spec_sys) auto
  fix t' :: fs and x :: "error + unit"
  assume [simp]: "t' = t"
  show "spec E t' (thenE (tryE (os_Remove tmp)) (ret ())) (\<lambda>t' _. map_of t' = map_of t0 \<or> (\<exists>y. with_tmp t0 tmp y t')) R"
    by (rule spec_bind [where P = "\<lambda>t' _. map_of t' = map_of t0 \<or> (\<exists>y. with_tmp t0 tmp y t')"])
       (use assms in \<open>auto intro!: spec_try spec_Remove spec_intros simp: with_tmp_def plain_at_def delete_conv' fun_upd_idem\<close>)
qed

lemma spec_sync_dir: "Q t () \<Longrightarrow> spec E t sync_dir Q R"
  unfolding sync_dir_def
  by (auto intro!: spec_bind [where P = "\<lambda>t' _. t' = t"] spec_try spec_intros split: sum.splits)

text \<open>
  What an atomic write leaves behind: on success the new file; on failure the tree as it was, up to the
  directories made for it and one temporary file that could not be removed.
\<close>

definition debris :: "path \<Rightarrow> fs \<Rightarrow> fs \<Rightarrow> bool" where
  "debris dir t t' \<longleftrightarrow>
     map_of t' = map_of t \<or> map_of t' = map_of (mkdirs dir t) \<or>
     (\<exists>tmp y. prefix ''.tmp-'' tmp \<and> map_of (mkdirs dir t) (dir @ [tmp]) = None \<and> with_tmp (mkdirs dir t) (dir @ [tmp]) y t')"

lemma spec_atomicWrite:
  assumes "env_ok E" "p \<noteq> []" "\<And>q b. prefix q (butlast p) \<Longrightarrow> map_of t q \<noteq> Some (File b)" "free_or_dir t (butlast p)"
    and "map_of t p \<noteq> Some Dir" "validateHash (last p)"
  shows "spec E t (atomicWrite p data)
    (\<lambda>t' _. map_of t' = (map_of (mkdirs (butlast p) t))(p \<mapsto> File data)) (\<lambda>t' e. caused E e \<and> debris (butlast p) t t')"
  unfolding atomicWrite_def
proof (intro spec_checked)
  let ?dir = "butlast p"
  let ?t0 = "mkdirs ?dir t"
  let ?R = "\<lambda>t' e. caused E e \<and> debris ?dir t t'"
  let ?rest = "thenE checkCtx (bindE (wrapE ''failed to create temporary file'' (os_CreateTemp ?dir)) (\<lambda>tmpPath.
     (thenE (onError (write_and_rename tmpPath p data) (cleanup tmpPath)) sync_dir)))"
  have p: "?dir @ [last p] = p" using assms(2) by simp
  have "\<not> prefix p ?dir" using prefix_length_le [of p ?dir] assms(2) by (cases p) auto
  then have t0: "map_of ?t0 ?dir = Some Dir" "map_of ?t0 p \<noteq> Some Dir"
    using assms(4,5) by (auto simp: map_of_mkdirs free_or_dir_def split: option.splits)
  have deb0: "debris ?dir t ?t0" "debris ?dir t t" by (simp_all add: debris_def)
  have temp: "spec E ?t0 (bindE (wrapE ''failed to create temporary file'' (os_CreateTemp ?dir)) (\<lambda>tmpPath.
     (thenE (onError (write_and_rename tmpPath p data) (cleanup tmpPath)) sync_dir)))
     (\<lambda>t' _. map_of t' = (map_of ?t0)(p \<mapsto> File data)) ?R"
  proof (rule spec_bind [where P = "\<lambda>t' tp. tp = ?dir @ [e_tmp E ?t0 ?dir] \<and> with_tmp ?t0 tp [] t'"])
    show "spec E ?t0 (wrapE ''failed to create temporary file'' (os_CreateTemp ?dir))
        (\<lambda>t' tp. tp = ?dir @ [e_tmp E ?t0 ?dir] \<and> with_tmp ?t0 tp [] t') ?R"
      by (intro spec_wrap spec_CreateTemp) (use t0 deb0 in \<open>auto simp: with_tmp_def update_conv'\<close>)
  next
    fix t1 tp
    assume t1: "tp = ?dir @ [e_tmp E ?t0 ?dir] \<and> with_tmp ?t0 tp [] t1"
    have tmp: "map_of ?t0 tp = None" "prefix ''.tmp-'' (e_tmp E ?t0 ?dir)"
      using assms(1) t1 by (simp_all add: env_ok_def tmp_ok_def)
    have ne: "tp \<noteq> p" using tmp_not_hash [OF tmp(2)] assms(6) t1 p by (metis append1_eq_conv)
    have left: "debris ?dir t t'" if "map_of t' = map_of ?t0 \<or> (\<exists>y. with_tmp ?t0 tp y t')" for t'
      using that t1 tmp by (auto simp: debris_def)
    show "spec E t1 (thenE (onError (write_and_rename tp p data) (cleanup tp)) sync_dir)
        (\<lambda>t' _. map_of t' = (map_of ?t0)(p \<mapsto> File data)) ?R"
    proof (rule spec_bind [where P = "\<lambda>t' _. map_of t' = (map_of ?t0)(p \<mapsto> File data)"])
      show "spec E t1 (onError (write_and_rename tp p data) (cleanup tp)) (\<lambda>t' _. map_of t' = (map_of ?t0)(p \<mapsto> File data)) ?R"
      proof (rule spec_onError [OF spec_write_and_rename])
        fix t' e
        assume "some_tmp E ?t0 tp t' e"
        then show "spec E t' (cleanup tp) (\<lambda>t'' _. ?R t'' e) (\<lambda>t'' _. ?R t'' e)"
          using left tmp(1) by (auto intro!: spec_weaken [OF spec_cleanup])
      qed (use t1 ne tmp t0 in auto)
    qed (auto intro: spec_sync_dir)
  qed
  show "spec E t (thenE (wrapE ''failed to create directory'' (os_MkdirAll ?dir)) ?rest)
      (\<lambda>t' _. map_of t' = (map_of ?t0)(p \<mapsto> File data)) ?R"
    by (rule spec_bind [where P = "\<lambda>t' _. t' = ?t0"])
       (use assms(3) temp deb0 in \<open>auto intro!: spec_wrap spec_MkdirAll spec_checked\<close>)
qed (auto simp: debris_def)

subsection \<open>Trees with the same blobs\<close>

lemma file_at_cong: "map_of t' p = map_of t p \<Longrightarrow> file_at t' p = file_at t p"
  by (simp add: file_at_def)

lemma file_at_upd: "map_of t' = (map_of t)(q := v) \<Longrightarrow>
    file_at t' p = (if p = q then (case v of Some (File b) \<Rightarrow> Some b | _ \<Rightarrow> None) else file_at t p)"
  by (simp add: file_at_def)

lemma same_disk_lookup:
  assumes "same_disk base t t'"
  shows "disk_lookup base t' = disk_lookup base t"
proof
  fix h
  have "file_at t' (reg base h) = file_at t (reg base h)" "file_at t' (sdp base h) = file_at t (sdp base h)" if "validateHash h"
    using assms that by (simp_all add: same_disk_def file_at_def)
  then show "disk_lookup base t' h = disk_lookup base t h" by (simp add: disk_lookup_def split: option.split)
qed

definition shard_dir :: "path \<Rightarrow> path \<Rightarrow> bool" where
  "shard_dir base dir \<longleftrightarrow> (\<exists>h. validateHash h \<and> (dir = base @ [take 2 h] \<or> dir = base @ [SDDirectory, take 2 h]))"

lemma shard_dir_paths:
  assumes "shard_dir base dir" "validateHash h"
  shows "\<not> prefix (reg base h) dir" "\<not> prefix (sdp base h) dir" "\<not> prefix q base \<or> q \<noteq> dir @ [x]"
    "base @ [take 2 h] \<noteq> dir @ [x]" "base @ [SDDirectory] \<noteq> dir @ [x]" "base @ [SDDirectory, take 2 h] \<noteq> dir @ [x]"
    "reg base h = dir @ [x] \<Longrightarrow> x = h" "sdp base h = dir @ [x] \<Longrightarrow> x = h"
  using assms validateHash_parts(3) [OF assms(2)]
  by (auto simp: shard_dir_def reg_def sdp_def dest: validateHash_parts(3) prefix_length_le)

text \<open>
  Adding directories on the way to a shard and a file in it whose name is not a hash changes nothing that
  the store can see.
\<close>

lemma disk_ok_extend:
  assumes ok: "disk_ok base t" and dir: "shard_dir base dir"
    and ext: "\<And>q. map_of t' q = map_of t q \<or> map_of t q = None \<and>
      (map_of t' q = Some Dir \<and> prefix q dir \<or> (\<exists>x y. q = dir @ [x] \<and> \<not> validateHash x \<and> map_of t' q = Some (File y)))"
  shows "same_disk base t t'"
proof -
  note paths = shard_dir_paths [OF dir]
  have files: "map_of t' (reg base h) = map_of t (reg base h)" "map_of t' (sdp base h) = map_of t (sdp base h)"
    if "validateHash h" for h
    using ext [of "reg base h"] ext [of "sdp base h"] paths(1,2,7,8) [OF that] that by blast+
  have dirs: "free_or_dir t' p" if "free_or_dir t p" "\<And>x. p \<noteq> dir @ [x]" for p
    using ext [of p] that by (auto simp: free_or_dir_def)
  obtain h0 where h0: "validateHash h0" using dir by (auto simp: shard_dir_def)
  have "disk_ok base t'"
    unfolding disk_ok_def
  proof (intro conjI allI impI)
    show "Clean base = base" by (rule disk_okD(1) [OF ok])
    show "map_of t' q = Some Dir" if "prefix q base" for q using disk_okD(2) [OF ok that] ext [of q] by auto
    show "free_or_dir t' (base @ [SDDirectory])" using disk_okD(3) [OF ok] paths(5) [OF h0] by (rule dirs)
  next
    fix h assume h: "validateHash h"
    show "free_or_dir t' (base @ [take 2 h])" using disk_okD(4) [OF ok h] paths(4) [OF h] by (rule dirs)
    show "free_or_dir t' (base @ [SDDirectory, take 2 h])" using disk_okD(5) [OF ok h] paths(6) [OF h] by (rule dirs)
    show "free_or_file t' (reg base h)" "free_or_file t' (sdp base h)"
      using files [OF h] disk_okD(6,7) [OF ok h] by (simp_all add: free_or_file_def)
  next
    fix p nd
    assume p: "map_of t' p = Some nd" "prefix base p" "nd \<noteq> Dir" "validateHash (last p)"
    then have "map_of t p = Some nd" using ext [of p] by auto
    then show "p = reg base (last p) \<or> p = sdp base (last p)" using ok p by (auto simp: disk_ok_def)
  qed
  then show ?thesis using files by (simp add: same_disk_def)
qed

lemma debris_same:
  assumes "disk_ok base t" "shard_dir base dir" "debris dir t t'"
  shows "same_disk base t t'"
  by (rule disk_ok_extend [OF assms(1,2)])
     (use assms(3) in \<open>auto simp: debris_def with_tmp_def map_of_mkdirs dest: tmp_not_hash split: option.splits if_splits\<close>)

lemma mkdirs_same: "disk_ok base t \<Longrightarrow> shard_dir base dir \<Longrightarrow> same_disk base t (mkdirs dir t)"
  by (rule debris_same) (auto simp: debris_def)

text \<open>Replacing or removing one blob file.\<close>

lemma disk_ok_update:
  assumes ok: "disk_ok base t" and h: "validateHash h" and p: "p = reg base h \<or> p = sdp base h"
    and t': "map_of t' = (map_of t)(p := v)" and v: "v = None \<or> (\<exists>d. v = Some (File d))"
  shows "disk_ok base t'"
proof -
  have ne: "\<not> prefix p base" "p \<noteq> base @ [SDDirectory]" "p \<noteq> base @ [take 2 h']" "validateHash h' \<Longrightarrow> p \<noteq> base @ [SDDirectory, take 2 h']" for h'
    using p h validateHash_parts(3) [OF h] by (auto simp: reg_def sdp_def dest: prefix_length_le)
  have lp: "last p = h" using p by auto
  show ?thesis
    unfolding disk_ok_def
  proof (intro conjI allI impI)
    show "Clean base = base" by (rule disk_okD(1) [OF ok])
    show "map_of t' q = Some Dir" if "prefix q base" for q using disk_okD(2) [OF ok that] t' ne(1) that by auto
    show "free_or_dir t' (base @ [SDDirectory])" using disk_okD(3) [OF ok] t' ne(2) by (auto simp: free_or_dir_def)
  next
    fix h' assume h': "validateHash h'"
    show "free_or_dir t' (base @ [take 2 h'])" "free_or_dir t' (base @ [SDDirectory, take 2 h'])"
      using disk_okD(4,5) [OF ok h'] t' ne(3,4) h' by (auto simp: free_or_dir_def)
    show "free_or_file t' (reg base h')" "free_or_file t' (sdp base h')"
      using disk_okD(6,7) [OF ok h'] t' v by (auto simp: free_or_file_def)
  next
    fix q nd
    assume q: "map_of t' q = Some nd" "prefix base q" "nd \<noteq> Dir" "validateHash (last q)"
    show "q = reg base (last q) \<or> q = sdp base (last q)"
    proof (cases "q = p")
      case False
      then have "map_of t q = Some nd" using q(1) t' by simp
      then show ?thesis using ok q by (auto simp: disk_ok_def)
    qed (use p lp in auto)
  qed
qed

lemma maps_upd_reg:
  assumes "validateHash h" and t': "map_of t' = (map_of t)(reg base h := v)"
  shows "regs base t' = (regs base t)(h := case v of Some (File b) \<Rightarrow> Some b | _ \<Rightarrow> None) \<and> sds base t' = sds base t"
  using assms(1) by (intro conjI ext) (auto simp: regs_def sds_def file_at_upd [OF t'])

lemma maps_upd_sd:
  assumes "validateHash h" and t': "map_of t' = (map_of t)(sdp base h := v)"
  shows "sds base t' = (sds base t)(h := case v of Some (File b) \<Rightarrow> Some b | _ \<Rightarrow> None) \<and> regs base t' = regs base t"
  using assms(1) by (intro conjI ext) (auto simp: regs_def sds_def file_at_upd [OF t'])

lemma same_disk_maps:
  assumes "same_disk base t t'"
  shows "regs base t' = regs base t \<and> sds base t' = sds base t"
  using assms by (intro conjI ext) (auto simp: same_disk_def regs_def sds_def file_at_def)

lemma maps_put_result:
  assumes "disk_ok base t" "validateHash h" "same_disk base t t1"
  shows "map_of t' = (map_of t1)(reg base h \<mapsto> File d) \<Longrightarrow>
           disk_ok base t' \<and> regs base t' = (regs base t)(h \<mapsto> d) \<and> sds base t' = sds base t"
    and "map_of t' = (map_of t1)(sdp base h \<mapsto> File d) \<Longrightarrow>
           disk_ok base t' \<and> regs base t' = regs base t \<and> sds base t' = (sds base t)(h \<mapsto> d)"
proof -
  have ok: "disk_ok base t1" using assms(1,3) by (simp add: same_disk_def)
  note same = same_disk_maps [OF assms(3)]
  show "map_of t' = (map_of t1)(reg base h \<mapsto> File d) \<Longrightarrow>
        disk_ok base t' \<and> regs base t' = (regs base t)(h \<mapsto> d) \<and> sds base t' = sds base t"
    using disk_ok_update [OF ok assms(2)] maps_upd_reg [OF assms(2), of t' t1] same by auto
  show "map_of t' = (map_of t1)(sdp base h \<mapsto> File d) \<Longrightarrow>
        disk_ok base t' \<and> regs base t' = regs base t \<and> sds base t' = (sds base t)(h \<mapsto> d)"
    using disk_ok_update [OF ok assms(2)] maps_upd_sd [OF assms(2), of t' t1] same by auto
qed

subsection \<open>The specifications of the operations that write\<close>

lemma spec_put_path:
  assumes "env_ok E" "disk_ok base t" "validateHash h" "p = reg base h \<or> p = sdp base h"
  shows "spec E t (atomicWrite p d)
    (\<lambda>t' _. \<exists>t1. same_disk base t t1 \<and> map_of t' = (map_of t1)(p \<mapsto> File d)) (\<lambda>t' e. caused E e \<and> same_disk base t t')"
proof -
  have dir: "shard_dir base (butlast p)" using assms(3,4) by (auto simp: shard_dir_def)
  have "map_of t q \<noteq> Some (File b)" if "prefix q (butlast p)" for q b
  proof -
    have "prefix q base \<or> q = base @ [take 2 h] \<or> q = base @ [SDDirectory] \<or> q = base @ [SDDirectory, take 2 h]"
      using that assms(4) by (auto simp: prefix_append prefix_Cons)
    then show ?thesis using disk_okD(2) [OF assms(2), of q] disk_okD(3) [OF assms(2)] disk_okD(4,5) [OF assms(2,3)]
      by (auto simp: free_or_dir_def)
  qed
  moreover have "free_or_dir t (butlast p)" "map_of t p \<noteq> Some Dir" "p \<noteq> []" "validateHash (last p)"
    using disk_okD(4-7) [OF assms(2,3)] assms(3,4) by (auto simp: free_or_file_def reg_def sdp_def butlast_append)
  ultimately show ?thesis
    by (intro spec_weaken [OF spec_atomicWrite [OF assms(1)]])
       (use debris_same [OF assms(2) dir] mkdirs_same [OF assms(2) dir] in auto)
qed

lemma same_disk_refl [simp]: "same_disk base t t"
  by (simp add: same_disk_def)

lemma spec_Put:
  assumes "env_ok E" "disk_ok base t"
  shows "spec E t (disk_Put base h d)
    (\<lambda>t' _. validateHash h \<and> disk_ok base t' \<and> regs base t' = (regs base t)(h \<mapsto> d) \<and> sds base t' = sds base t)
    (\<lambda>t' e. same_disk base t t' \<and> (caused E e \<or> \<not> validateHash h \<and> e = Sentinel ErrInvalidHash))"
    (is "spec _ _ _ ?Q ?R")
  unfolding disk_Put_def
proof (intro spec_checked spec_validated)
  assume h: "validateHash h"
  have "spec E t (atomicWrite (reg base h) d) ?Q ?R"
    by (rule spec_weaken [OF spec_put_path [OF assms h, where p = "reg base h"]])
       (use h maps_put_result(1) [OF assms(2) h] in blast)+
  then show "spec E t (bindE (safeJoin base h) (\<lambda>blobPath. atomicWrite blobPath d)) ?Q ?R"
    by (intro spec_bind [OF spec_safeJoin [OF assms(2) h, where Q = "\<lambda>t' p. t' = t \<and> p = reg base h"]]) auto
qed auto

lemma spec_PutSD:
  assumes "env_ok E" "disk_ok base t"
  shows "spec E t (disk_PutSD base h d)
    (\<lambda>t' _. validateHash h \<and> disk_ok base t' \<and>
       regs base t' = regs base t \<and> sds base t' = (sds base t)(h \<mapsto> d))
    (\<lambda>t' e. same_disk base t t' \<and> (caused E e \<or> \<not> validateHash h \<and> e = Sentinel ErrInvalidHash))"
    (is "spec _ _ _ ?Q ?R")
  unfolding disk_PutSD_def
proof (intro spec_checked spec_validated)
  assume h: "validateHash h"
  have "spec E t (atomicWrite (sdp base h) d) ?Q ?R"
    by (rule spec_weaken [OF spec_put_path [OF assms h, where p = "sdp base h"]])
       (use h maps_put_result(2) [OF assms(2) h] in blast)+
  then show "spec E t (bindE (safeJoinSD base h) (\<lambda>blobPath. atomicWrite blobPath d)) ?Q ?R"
    by (intro spec_bind [OF spec_safeJoinSD [OF assms(2) h, where Q = "\<lambda>t' p. t' = t \<and> p = sdp base h"]]) auto
qed auto

text \<open>
  A deletion removes the regular file and then the SD file. When it stops in between, only the regular
  file is gone, so that the hash may still be found under the SD directory.
\<close>

lemma spec_remove_blob:
  assumes "env_ok E" "free_or_file t p"
  shows "spec E t (remove_blob err p) (\<lambda>t' _. map_of t' = (map_of t)(p := None)) (\<lambda>t' e. t' = t \<and> caused E e)"
proof -
  have probe: "spec E t (tryE (os_Remove p))
    (\<lambda>t' r. case r of Inr _ \<Rightarrow> map_of t' = (map_of t)(p := None)
       | Inl e \<Rightarrow> t' = t \<and> (map_of t p = None \<and> e = errNotExist \<or> interrupted E e)) R" for R
    by (intro spec_try spec_Remove)
       (use assms(2) in \<open>auto simp: free_or_file_def free_or_file_plain [OF assms(2)] delete_conv'\<close>)
  have "\<not> IsNotExist e" if "interrupted E e" for e using assms(1) that by (simp add: env_ok_def)
  then show ?thesis unfolding remove_blob_def
    by (intro spec_bind [OF probe]) (auto simp: IsNotExist_def fun_upd_idem intro!: spec_intros split: sum.splits)
qed

lemma spec_Delete:
  assumes "env_ok E" "disk_ok base t"
  shows "spec E t (disk_Delete base h)
    (\<lambda>t' _. validateHash h \<and> disk_ok base t' \<and> regs base t' = (regs base t)(h := None) \<and> sds base t' = (sds base t)(h := None))
    (\<lambda>t' e. disk_ok base t' \<and> (regs base t' = regs base t \<or> regs base t' = (regs base t)(h := None)) \<and>
       sds base t' = sds base t \<and> (caused E e \<or> \<not> validateHash h \<and> e = Sentinel ErrInvalidHash))"
    (is "spec _ _ _ ?Q ?R")
  unfolding disk_Delete_def
proof (intro spec_checked spec_validated)
  assume h: "validateHash h"
  have second: "spec E t1 (bindE (safeJoinSD base h) (\<lambda>sdBlobPath.
        thenE checkCtx (remove_blob ''failed to delete SD blob'' sdBlobPath))) ?Q ?R"
    and mid: "caused E e \<Longrightarrow> ?R t1 e"
    if t1: "map_of t1 = (map_of t)(reg base h := None)" for t1 e
  proof -
    have ok1: "disk_ok base t1" using disk_ok_update [OF assms(2) h _ t1] by simp
    have maps1: "regs base t1 = (regs base t)(h := None)" "sds base t1 = sds base t" using maps_upd_reg [OF h t1] by auto
    show R1: "caused E e \<Longrightarrow> ?R t1 e" for e using ok1 maps1 by simp
    have fin: "?Q t' ()" if t': "map_of t' = (map_of t1)(sdp base h := None)" for t'
      using disk_ok_update [OF ok1 h _ t'] maps_upd_sd [OF h t'] maps1 h by simp
    have "spec E t1 (remove_blob ''failed to delete SD blob'' (sdp base h)) ?Q ?R"
      by (rule spec_weaken [OF spec_remove_blob [OF assms(1) disk_okD(7) [OF ok1 h]]]) (use fin R1 in auto)
    then show "spec E t1 (bindE (safeJoinSD base h) (\<lambda>sdBlobPath.
        thenE checkCtx (remove_blob ''failed to delete SD blob'' sdBlobPath))) ?Q ?R"
      using R1 by (intro spec_bind [OF spec_safeJoinSD [OF ok1 h, where Q = "\<lambda>t' p. t' = t1 \<and> p = sdp base h"]])
        (auto intro!: spec_checked)
  qed
  have first: "spec E t (thenE (remove_blob ''failed to delete regular blob'' (reg base h)) (thenE checkCtx
      (bindE (safeJoinSD base h) (\<lambda>sdBlobPath. thenE checkCtx (remove_blob ''failed to delete SD blob'' sdBlobPath))))) ?Q ?R"
    by (rule spec_bind [where P = "\<lambda>t' _. map_of t' = (map_of t)(reg base h := None)"],
        rule spec_weaken [OF spec_remove_blob [OF assms(1) disk_okD(6) [OF assms(2) h]]])
       (use assms(2) second mid in \<open>auto intro!: spec_checked\<close>)
  then show "spec E t (bindE (safeJoin base h) (\<lambda>blobPath. thenE checkCtx
      (thenE (remove_blob ''failed to delete regular blob'' blobPath) (thenE checkCtx
      (bindE (safeJoinSD base h) (\<lambda>sdBlobPath. thenE checkCtx (remove_blob ''failed to delete SD blob'' sdBlobPath))))))) ?Q ?R"
    by (intro spec_bind [OF spec_safeJoin [OF assms(2) h, where Q = "\<lambda>t' p. t' = t \<and> p = reg base h"]])
       (use assms(2) in \<open>auto intro!: spec_checked\<close>)
qed (use assms(2) in auto)

subsection \<open>Listing\<close>

definition hash_files :: "fs \<Rightarrow> path set \<Rightarrow> string set" where
  "hash_files t ps = last ` {p \<in> ps. map_of t p \<noteq> Some Dir \<and> validateHash (last p)}"

lemma spec_walk_collect:
  "distinct acc \<Longrightarrow> spec E t0 (walk_collect t ps acc)
     (\<lambda>t' r. t' = t0 \<and> distinct r \<and> set r = set acc \<union> hash_files t (set ps)) (\<lambda>t' e. t' = t0 \<and> interrupted E e)"
proof (induction t ps acc rule: walk_collect.induct)
  case (1 t acc)
  then show ?case by (auto simp: hash_files_def intro: spec_intros)
next
  case (2 t p ps acc)
  let ?acc = "if map_of t p = Some Dir then acc else if validateHash (last p) then List.insert (last p) acc else acc"
  have d: "distinct ?acc" using 2 by auto
  have "set ?acc \<union> hash_files t (set ps) = set acc \<union> hash_files t (set (p # ps))" by (auto simp: hash_files_def)
  then show ?case unfolding walk_collect.simps
    by (intro spec_checked spec_called spec_weaken [OF "2.IH" [OF d]]) auto
qed

lemma hash_files_lookup:
  assumes "disk_ok base t"
  shows "hash_files t {p. map_of t p \<noteq> None \<and> prefix base p} = {h. disk_lookup base t h \<noteq> None}"
proof (intro equalityI subsetI)
  fix h
  assume "h \<in> hash_files t {p. map_of t p \<noteq> None \<and> prefix base p}"
  then obtain p nd where p: "map_of t p = Some nd" "prefix base p" "nd \<noteq> Dir" "validateHash (last p)" "h = last p"
    by (auto simp: hash_files_def)
  then have "p = reg base h \<or> p = sdp base h" using assms by (auto simp: disk_ok_def)
  then show "h \<in> {h. disk_lookup base t h \<noteq> None}"
    using p disk_okD(6,7) [OF assms, of h] by (auto simp: disk_lookup_def file_at_def free_or_file_def split: option.split)
next
  fix h
  assume "h \<in> {h. disk_lookup base t h \<noteq> None}"
  then obtain p b where "p = reg base h \<or> p = sdp base h" "map_of t p = Some (File b)" "validateHash h"
    by (auto simp: disk_lookup_def file_at_def split: option.splits if_splits node.splits)
  then show "h \<in> hash_files t {p. map_of t p \<noteq> None \<and> prefix base p}"
    by (auto simp: hash_files_def reg_def sdp_def intro!: image_eqI [of _ _ p])
qed

lemma map_of_keys: "set (filter (prefix base) (remdups (map fst t))) = {p. map_of t p \<noteq> None \<and> prefix base p}"
  by (auto simp: map_of_eq_None_iff)

lemma spec_collect:
  assumes "disk_ok base t"
  shows "spec E t (collectBlobHashes base)
    (\<lambda>t' r. t' = t \<and> r = sorted_list_of_set {h. disk_lookup base t h \<noteq> None}) (\<lambda>t' e. t' = t \<and> interrupted E e)"
  unfolding collectBlobHashes_def
proof (intro spec_checked spec_getTree)
  let ?ps = "sort (filter (prefix base) (remdups (map fst t)))"
  have base: "map_of t base = Some Dir" using disk_okD(2) [OF assms, of base] by simp
  have "spec E t (bindE (walk_collect t ?ps []) (\<lambda>hashSet. ret (sort hashSet)))
     (\<lambda>t' r. t' = t \<and> r = sorted_list_of_set {h. disk_lookup base t h \<noteq> None}) (\<lambda>t' e. t' = t \<and> interrupted E e)"
  proof (rule spec_bind [OF spec_walk_collect])
    fix t' r
    assume "t' = t \<and> distinct r \<and> set r = set [] \<union> hash_files t (set ?ps)"
    then have "t' = t" "distinct r" "set r = {h. disk_lookup base t h \<noteq> None}"
      using hash_files_lookup [OF assms] map_of_keys [of base t] by simp_all
    then show "spec E t' (ret (sort r))
       (\<lambda>t' r. t' = t \<and> r = sorted_list_of_set {h. disk_lookup base t h \<noteq> None}) (\<lambda>t' e. t' = t \<and> interrupted E e)"
      using sort_eq_sorted_list_of_set [of r] by (auto intro!: spec_ret)
  qed simp
  then show "spec E t (if map_of t base = None then thenE checkCtx (throw errNotExist)
      else bindE (walk_collect t ?ps []) (\<lambda>hashSet. ret (sort hashSet)))
     (\<lambda>t' r. t' = t \<and> r = sorted_list_of_set {h. disk_lookup base t h \<noteq> None}) (\<lambda>t' e. t' = t \<and> interrupted E e)"
    by (simp add: base)
qed auto

end
