(* ===== verification/Disk_Store.thy ===== *)
theory Disk_Store
  imports Disk
begin

text \<open>
  What the disk store promises: it meets the safe part of the store contract on every disk and the whole contract on one
  whose system calls work, it keeps its blobs through any failure, its paths stay below the base directory, and it behaves like the memory
  store on the hashes both accept.
\<close>

section \<open>The disk store as a store\<close>

lemma spec_run_quiet:
  assumes "spec \<lparr>e_ctx = c, e_fault = F, e_tmp = tmp\<rparr> t m Q R" "\<And>t' e. \<not> R t' e"
  shows "\<exists>x t'. run c F tmp m t = (Inr x, t') \<and> Q t' x"
proof -
  obtain r t' where r: "run c F tmp m t = (r, t')" by fastforce
  then show ?thesis using spec_run [OF assms(1) r] assms(2) by (cases r) auto
qed

lemma env_ok_ctx:
  assumes "tmp_ok tmp" "ctx_ok c" "\<And>k e. F k = Some e \<Longrightarrow> \<not> IsNotExist e"
  shows "env_ok \<lparr>e_ctx = c, e_fault = F, e_tmp = tmp\<rparr>"
proof -
  have "\<not> IsNotExist e" if "c k = Some e" for k e
    using assms(2) that by (auto simp: ctx_ok_def IsNotExist_def errNotExist_def)
  then show ?thesis using assms(1,3) by (auto simp: env_ok_def interrupted_def)
qed

lemma quiet_live: "live c \<Longrightarrow> quiet \<lparr>e_ctx = c, e_fault = (\<lambda>_. None), e_tmp = tmp\<rparr>"
  by (simp add: quiet_def)

lemma ctx_ok_live: "live c \<Longrightarrow> ctx_ok c"
  by (simp add: ctx_ok_def)

text \<open>
  A disk on which any system call may fail, with any supply of names for temporary files. A failing call does not claim
  that a file is missing.
\<close>

locale disk_io =
  fixes tmp :: "fs \<Rightarrow> path \<Rightarrow> string" and base :: path and F :: "nat \<Rightarrow> error option"
  assumes names: "tmp_ok tmp" and faults: "F k = Some e \<Longrightarrow> \<not> IsNotExist e"
begin

lemma env: "ctx_ok c \<Longrightarrow> env_ok \<lparr>e_ctx = c, e_fault = F, e_tmp = tmp\<rparr>"
  using names faults by (intro env_ok_ctx)

lemma Has_run:
  assumes "ctx_ok c" "disk_ok base t" "fst (run c F tmp (disk_Has base h) t) = Inr b"
  shows "b = (disk_lookup base t h \<noteq> None)"
  using spec_run [OF spec_Has [OF env [OF assms(1)] assms(2)], of h] assms(3)
  by (cases "run c F tmp (disk_Has base h) t") fastforce

lemma Get_run:
  assumes "ctx_ok c" "disk_ok base t" "fst (run c F tmp (disk_Get base h) t) = Inr d"
  shows "validateHash h \<and> disk_lookup base t h = Some d"
  using spec_run [OF spec_Get [OF env [OF assms(1)] assms(2)], of h] assms(3)
  by (cases "run c F tmp (disk_Get base h) t") fastforce

lemma Put_outcome:
  assumes "ctx_ok c" "disk_ok base t" "outcome (run c F tmp (disk_Put base h d) t) = (r, t')"
  shows "case r of Some e \<Rightarrow> same_disk base t t'
     | None \<Rightarrow> disk_ok base t' \<and> validateHash h \<and> disk_lookup base t' = (disk_lookup base t)(h \<mapsto> d)"
proof -
  obtain q t1 where q: "run c F tmp (disk_Put base h d) t = (q, t1)" by fastforce
  show ?thesis
  proof (cases q)
    case (Inl e)
    then show ?thesis using spec_run [OF spec_Put [OF env [OF assms(1)] assms(2)] q] q assms(3) by (auto simp: outcome_def)
  next
    case (Inr u)
    then have "r = None" "t1 = t'" "disk_ok base t'" "validateHash h" "regs base t' = (regs base t)(h \<mapsto> d)" "sds base t' = sds base t"
      using spec_run [OF spec_Put [OF env [OF assms(1)] assms(2)] q] q assms(3) by (auto simp: outcome_def)
    then show ?thesis by (simp add: disk_lookup_maps fun_eq_iff split: option.split)
  qed
qed

lemma PutSD_outcome:
  assumes "ctx_ok c" "disk_ok base t" "outcome (run c F tmp (disk_PutSD base h d) t) = (r, t')"
  shows "case r of Some e \<Rightarrow> same_disk base t t'
     | None \<Rightarrow> disk_ok base t' \<and> validateHash h \<and> (disk_lookup base t' = (disk_lookup base t)(h \<mapsto> d) \<or>
         disk_lookup base t h \<noteq> None \<and> disk_lookup base t' = disk_lookup base t)"
proof -
  obtain q t1 where q: "run c F tmp (disk_PutSD base h d) t = (q, t1)" by fastforce
  show ?thesis
  proof (cases q)
    case (Inl e)
    then show ?thesis using spec_run [OF spec_PutSD [OF env [OF assms(1)] assms(2)] q] q assms(3) by (auto simp: outcome_def)
  next
    case (Inr u)
    then have "r = None" "t1 = t'" "disk_ok base t'" "validateHash h" and
      m: "regs base t' = regs base t" "sds base t' = (sds base t)(h \<mapsto> d)"
      using spec_run [OF spec_PutSD [OF env [OF assms(1)] assms(2)] q] q assms(3) by (auto simp: outcome_def)
    then show ?thesis by (cases "regs base t h") (auto simp: disk_lookup_maps fun_eq_iff m split: option.split)
  qed
qed

lemma Delete_outcome:
  assumes "ctx_ok c" "disk_ok base t" "outcome (run c F tmp (disk_Delete base h) t) = (r, t')"
  shows "disk_ok base t' \<and> (\<forall>h'. h' \<noteq> h \<longrightarrow> disk_lookup base t' h' = disk_lookup base t h') \<and>
     (r = None \<longrightarrow> validateHash h \<and> disk_lookup base t' h = None)"
proof -
  obtain q t1 where q: "run c F tmp (disk_Delete base h) t = (q, t1)" by fastforce
  have t1: "t1 = t'" "r = None \<longleftrightarrow> (\<exists>u. q = Inr u)" using assms(3) q by (auto simp: outcome_def split: sum.splits)
  then show ?thesis using spec_run [OF spec_Delete [OF env [OF assms(1)] assms(2)] q]
    by (cases q) (auto simp: disk_lookup_maps split: option.split)
qed

end

sublocale disk_io \<subseteq> store_safe "disk_store F tmp base" "disk_lookup base" "disk_ok base" validateHash
  "\<lambda>_. True" "same_disk base" ctx_ok
proof (unfold_locales, goal_cases)
  case (2 s s')
  then show ?case using same_disk_lookup by (auto simp: same_disk_def)
next
  case (3 s c h b)
  then show ?case using Has_run by (simp add: disk_store_def)
next
  case (4 s c h d)
  then show ?case using Get_run by (simp add: disk_store_def)
next
  case (5 s c h d e s')
  then show ?case using Put_outcome [of c s h d "Some e" s'] by (simp add: disk_store_def)
next
  case (6 s c h d s')
  then show ?case using Put_outcome [of c s h d None s'] by (simp add: disk_store_def)
next
  case (7 s c h e s')
  then show ?case using Delete_outcome [of c s h "Some e" s'] by (simp add: disk_store_def)
next
  case (8 s c h s')
  then show ?case using Delete_outcome [of c s h None s'] by (auto simp: disk_store_def fun_eq_iff)
next
  case (9 s h d)
  then show ?case by (auto simp: disk_lookup_def split: if_splits)
qed simp_all

context disk_io
begin

lemmas acquire_error = Acquire_error

lemmas acquire_ok = Acquire_ok

end

text \<open>A disk whose system calls work, with any supply of names for temporary files.\<close>

locale disk_env =
  fixes tmp :: "fs \<Rightarrow> path \<Rightarrow> string" and base :: path
  assumes tmp: "tmp_ok tmp"
begin

abbreviation E :: "ctx \<Rightarrow> env" where
  "E c \<equiv> \<lparr>e_ctx = c, e_fault = (\<lambda>_. None), e_tmp = tmp\<rparr>"

lemma env: "ctx_ok c \<Longrightarrow> env_ok (E c)"
  using tmp by (intro env_ok_ctx) auto

lemma noise: "live c \<Longrightarrow> \<not> interrupted (E c) e" "live c \<Longrightarrow> \<not> caused (E c) e"
  using quiet_interrupted quiet_caused quiet_live by blast+

lemma Has_quiet:
  assumes "live c" "disk_ok base t"
  shows "fst (run c (\<lambda>_. None) tmp (disk_Has base h) t) = Inr (disk_lookup base t h \<noteq> None)"
  using spec_run_quiet [OF spec_Has [OF env [OF ctx_ok_live [OF assms(1)]] assms(2)], of h] noise(1) [OF assms(1)] by auto

lemma Get_quiet:
  assumes "live c" "disk_ok base t" "validateHash h"
  shows "fst (run c (\<lambda>_. None) tmp (disk_Get base h) t) =
    (case disk_lookup base t h of Some d \<Rightarrow> Inr d | None \<Rightarrow> Inl (Plain (''blob not found: '' @ h)))"
proof -
  obtain r t' where r: "run c (\<lambda>_. None) tmp (disk_Get base h) t = (r, t')" by fastforce
  from spec_run [OF spec_Get [OF env [OF ctx_ok_live [OF assms(1)]] assms(2)] r] show ?thesis
    using r assms(3) noise(1) [OF assms(1)] by (cases r) (auto split: option.splits)
qed

lemma Put_quiet:
  assumes "live c" "disk_ok base t" "validateHash h"
  shows "\<exists>t'. outcome (run c (\<lambda>_. None) tmp (disk_Put base h d) t) = (None, t') \<and>
     disk_ok base t' \<and> regs base t' = (regs base t)(h \<mapsto> d) \<and> sds base t' = sds base t"
  using spec_run_quiet [OF spec_Put [OF env [OF ctx_ok_live [OF assms(1)]] assms(2)], of h d] noise(2) [OF assms(1)] assms(3)
  by (auto simp: outcome_def)

lemma PutSD_quiet:
  assumes "live c" "disk_ok base t" "validateHash h"
  shows "\<exists>t'. outcome (run c (\<lambda>_. None) tmp (disk_PutSD base h d) t) = (None, t') \<and>
     disk_ok base t' \<and> regs base t' = regs base t \<and> sds base t' = (sds base t)(h \<mapsto> d)"
  using spec_run_quiet [OF spec_PutSD [OF env [OF ctx_ok_live [OF assms(1)]] assms(2)], of h d] noise(2) [OF assms(1)] assms(3)
  by (auto simp: outcome_def)

lemma Delete_quiet:
  assumes "live c" "disk_ok base t" "validateHash h"
  shows "\<exists>t'. outcome (run c (\<lambda>_. None) tmp (disk_Delete base h) t) = (None, t') \<and>
     disk_ok base t' \<and> regs base t' = (regs base t)(h := None) \<and> sds base t' = (sds base t)(h := None)"
  using spec_run_quiet [OF spec_Delete [OF env [OF ctx_ok_live [OF assms(1)]] assms(2)], of h] noise(2) [OF assms(1)] assms(3)
  by (auto simp: outcome_def)

end

sublocale disk_env \<subseteq> io: disk_io tmp base "\<lambda>_. None"
  by unfold_locales (simp_all add: tmp)

sublocale disk_env \<subseteq> store_core "disk_store (\<lambda>_. None) tmp base" "disk_lookup base" "disk_ok base" validateHash
  "\<lambda>_. True" "same_disk base" ctx_ok
proof (unfold_locales, goal_cases)
  case (2 s c h)
  then show ?case using Has_quiet by (simp add: disk_store_def)
next
  case (3 s c h d)
  then show ?case using Get_quiet by (simp add: disk_store_def)
next
  case (4 s c h d)
  then show ?case using Put_quiet [of c s h d] by (auto simp: disk_store_def)
qed (simp_all add: ctx_ok_live)

sublocale disk_env \<subseteq> sd_store "disk_store (\<lambda>_. None) tmp base" "disk_lookup base" "disk_ok base" validateHash
  "\<lambda>_. True" "same_disk base" ctx_ok
proof (unfold_locales, goal_cases)
  case (1 s c h d e s')
  then show ?case using io.PutSD_outcome [of c s h d "Some e" s'] by (simp add: disk_store_def)
next
  case (2 s c h d s')
  then show ?case using io.PutSD_outcome [of c s h d None s'] by (simp add: disk_store_def)
next
  case (3 s c h d)
  then show ?case using PutSD_quiet [of c s h d] by (auto simp: disk_store_def)
qed

text \<open>Names for temporary files that are longer than every component in the tree.\<close>

definition longest :: "fs \<Rightarrow> nat" where
  "longest t = fold max (map length (concat (map fst t))) 0"

definition fresh_tmp :: "fs \<Rightarrow> path \<Rightarrow> string" where
  "fresh_tmp t dir = ''.tmp-'' @ replicate (longest t) CHR ''0''"

lemma fold_max_ge: "x \<in> set xs \<or> x \<le> a \<Longrightarrow> x \<le> fold max xs (a :: nat)"
  by (induction xs arbitrary: a) (auto simp: le_max_iff_disj)

lemma longest_ge: "(p, nd) \<in> set t \<Longrightarrow> s \<in> set p \<Longrightarrow> length s \<le> longest t"
  unfolding longest_def by (rule fold_max_ge) force

lemma fresh_tmp_ok: "tmp_ok fresh_tmp"
proof -
  have "map_of t (dir @ [fresh_tmp t dir]) = None" for t dir
  proof (rule ccontr)
    assume "map_of t (dir @ [fresh_tmp t dir]) \<noteq> None"
    then obtain nd where "(dir @ [fresh_tmp t dir], nd) \<in> set t" by (auto dest: map_of_SomeD)
    from longest_ge [OF this, of "fresh_tmp t dir"] show False by (simp add: fresh_tmp_def)
  qed
  then show ?thesis by (simp add: tmp_ok_def fresh_tmp_def)
qed

interpretation diskst: disk_env fresh_tmp base for base
  by unfold_locales (rule fresh_tmp_ok)

section \<open>Creating a store\<close>

lemma spec_CreateStore:
  assumes "\<And>q nd. map_of t q = Some nd \<Longrightarrow> prefix q (Clean p) \<and> nd = Dir"
  shows "spec E t (CreateStore (Some (Some p))) (\<lambda>t' b. b = Clean p \<and> disk_ok b t' \<and> t' = mkdirs b t) (\<lambda>t' e. caused E e)"
proof -
  have plain: "plain_at t (Clean p)" using assms by (auto simp: plain_at_def)
  have "disk_ok (Clean p) (mkdirs (Clean p) t)"
  proof -
    have m: "map_of (mkdirs (Clean p) t) q = (if prefix q (Clean p) then Some Dir else None)" for q
      using assms [of q] by (auto simp: map_of_mkdirs split: option.split)
    then show ?thesis
      by (auto simp: disk_ok_def free_or_dir_def free_or_file_def reg_def sdp_def split: if_splits dest: prefix_length_le)
  qed
  moreover have "map_of t q \<noteq> Some (File b)" for q b using assms by blast
  ultimately show ?thesis unfolding CreateStore_def
    by (simp add: Let_def, intro spec_bind [where P = "\<lambda>t' _. t' = t"] spec_rejectSymlink plain
          spec_bind [where P = "\<lambda>t' _. t' = mkdirs (Clean p) t"])
       (auto intro!: spec_wrap spec_MkdirAll spec_intros)
qed

definition sample_base :: path where
  "sample_base = [''blobs'']"

definition sample_tree :: fs where
  "sample_tree = snd (run (\<lambda>_. None) (\<lambda>_. None) fresh_tmp (CreateStore (Some (Some sample_base))) [([], Dir)])"

lemma sample_disk: "disk_ok sample_base sample_tree" "sample_tree = mkdirs sample_base [([], Dir)]"
proof -
  have c: "Clean sample_base = sample_base" by (simp add: Clean_def sample_base_def)
  have pre: "map_of [([], Dir)] q = Some nd \<Longrightarrow> prefix q (Clean sample_base) \<and> nd = Dir" for q nd
    by (simp split: if_splits)
  obtain x t' where "run (\<lambda>_. None) (\<lambda>_. None) fresh_tmp (CreateStore (Some (Some sample_base))) [([], Dir)] = (Inr x, t')"
      "x = sample_base \<and> disk_ok x t' \<and> t' = mkdirs x [([], Dir)]"
    using spec_run_quiet [OF spec_CreateStore [where t = "[([], Dir)]" and p = sample_base, OF pre], where c = "\<lambda>_. None" and F = "\<lambda>_. None" and tmp = fresh_tmp]
      quiet_caused [OF quiet_live, of "\<lambda>_. None" fresh_tmp] by (auto simp: c)
  then show "disk_ok sample_base sample_tree" "sample_tree = mkdirs sample_base [([], Dir)]" by (auto simp: sample_tree_def)
qed

section \<open>Simulation of the memory store\<close>

definition disk_sim :: "path \<Rightarrow> MemoryStore \<Rightarrow> fs \<Rightarrow> bool" where
  "disk_sim base m t \<longleftrightarrow> disk_ok base t \<and> map_of (blobs m) = regs base t \<and> map_of (sdBlobs m) = sds base t"

lemma disk_sim_lookup: "disk_sim base m t \<Longrightarrow> mem_lookup m = disk_lookup base t"
  by (auto simp: disk_sim_def mem_lookup_def disk_lookup_maps fun_eq_iff split: option.split)

lemma mem_writes_live:
  assumes "live c" "ValidateHash L h"
  shows "ValidForSend d = None \<Longrightarrow> mem_Put L c m h d = (None, m\<lparr>blobs := AList.update h d (blobs m)\<rparr>)"
    and "ValidForSend d = None \<Longrightarrow> mem_PutSD L c m h d = (None, m\<lparr>sdBlobs := AList.update h d (sdBlobs m)\<rparr>)"
    and "mem_Delete L c m h = (None, m\<lparr>blobs := AList.delete h (blobs m), sdBlobs := AList.delete h (sdBlobs m)\<rparr>)"
  using assms by (simp_all add: mem_defs mem_validate_def)

context disk_env
begin

lemma List_live:
  assumes "live c" "disk_ok base t" "0 \<le> offset" "0 < limit"
  shows "disk_List c (\<lambda>_. None) tmp base t offset limit = paginate (sorted_list_of_set {h. disk_lookup base t h \<noteq> None}) offset limit"
proof -
  let ?m = "thenE checkCtx (if offset < 0 then throw (Sentinel ErrInvalidOffset)
      else if limit \<le> 0 then throw (Sentinel ErrInvalidLimit)
      else wrapE ''failed to collect blob hashes'' (collectBlobHashes base))"
  have "spec (E c) t ?m (\<lambda>t' r. r = sorted_list_of_set {h. disk_lookup base t h \<noteq> None}) (\<lambda>t' e. False)"
    using assms(3,4) noise(1) [OF assms(1)]
    by (auto intro!: spec_checked spec_wrap spec_weaken [OF spec_collect [OF assms(2)]])
  from spec_run_quiet [OF this] show ?thesis by (auto simp: disk_List_def)
qed

lemma sim_Put:
  assumes "live c" "disk_sim base m t" "validateHash h" "ValidateHash L h" "ValidForSend d = None"
  shows "\<exists>m' t'. mem_Put L c m h d = (None, m') \<and> Put (disk_store (\<lambda>_. None) tmp base) c t h d = (None, t') \<and> disk_sim base m' t'"
  using Put_quiet [OF assms(1) _ assms(3), of t d] assms(2) mem_writes_live(1) [OF assms(1,4,5), of m]
  by (auto simp: disk_store_def disk_sim_def update_conv')

lemma sim_PutSD:
  assumes "live c" "disk_sim base m t" "validateHash h" "ValidateHash L h" "ValidForSend d = None"
  shows "\<exists>m' t'. mem_PutSD L c m h d = (None, m') \<and> PutSD (disk_store (\<lambda>_. None) tmp base) c t h d = (None, t') \<and> disk_sim base m' t'"
  using PutSD_quiet [OF assms(1) _ assms(3), of t d] assms(2) mem_writes_live(2) [OF assms(1,4,5), of m]
  by (auto simp: disk_store_def disk_sim_def update_conv')

lemma sim_Delete:
  assumes "live c" "disk_sim base m t" "validateHash h" "ValidateHash L h"
  shows "\<exists>m' t'. mem_Delete L c m h = (None, m') \<and> Delete (disk_store (\<lambda>_. None) tmp base) c t h = (None, t') \<and> disk_sim base m' t'"
  using Delete_quiet [OF assms(1) _ assms(3), of t] assms(2) mem_writes_live(3) [OF assms(1,4), of m]
  by (auto simp: disk_store_def disk_sim_def delete_conv')

lemma sim_reads:
  assumes "live c" "disk_sim base m t" "validateHash h" "ValidateHash L h"
  shows "Has (disk_store (\<lambda>_. None) tmp base) c t h = mem_Has L c m h"
    and "case mem_lookup m h of
      Some b \<Rightarrow> mem_Get L c m h = Inr b \<and> Get (disk_store (\<lambda>_. None) tmp base) c t h = Inr b
    | None \<Rightarrow> mem_Get L c m h = Inl (Plain ''blob not found'') \<and>
        Get (disk_store (\<lambda>_. None) tmp base) c t h = Inl (Plain (''blob not found: '' @ h))"
proof -
  have ok: "disk_ok base t" using assms(2) by (simp add: disk_sim_def)
  note lk = disk_sim_lookup [OF assms(2)]
  have "mem_Has L c m h = Inr (mem_lookup m h \<noteq> None)"
    using assms(1,4) by (auto simp: mem_defs mem_lookup_def split: option.split)
  then show "Has (disk_store (\<lambda>_. None) tmp base) c t h = mem_Has L c m h"
    using Has_quiet [OF assms(1) ok] lk by (simp add: disk_store_def)
  show "case mem_lookup m h of
      Some b \<Rightarrow> mem_Get L c m h = Inr b \<and> Get (disk_store (\<lambda>_. None) tmp base) c t h = Inr b
    | None \<Rightarrow> mem_Get L c m h = Inl (Plain ''blob not found'') \<and>
        Get (disk_store (\<lambda>_. None) tmp base) c t h = Inl (Plain (''blob not found: '' @ h))"
    using Get_quiet [OF assms(1) ok assms(3)] mem_Get_live [OF assms(1)] assms(4) lk by (simp add: disk_store_def split: option.split)
qed

end

section \<open>Safe paths in any tree\<close>

lemma rejectSymlink_eval:
  "rejectSymlink p E w =
     (case (e_fault E (os_k w), map_of (tree w) p) of
        (None, Some (Symlink q)) \<Rightarrow> Inl (Plain ''symlink detected in path'') | _ \<Rightarrow> Inr (), w\<lparr>os_k := Suc (os_k w)\<rparr>)"
  by (simp add: rejectSymlink_def os_Lstat_def io_defs split: option.split node.split)

lemma safeJoin_eq:
  assumes "Clean base = base" "validateHash h"
  shows "safeJoin base h = thenE (rejectSymlink (base @ [take 2 h])) (ret (reg base h))"
    and "safeJoinSD base h = thenE (rejectSymlink (base @ [SDDirectory]))
           (thenE (rejectSymlink (base @ [SDDirectory, take 2 h])) (ret (sdp base h)))"
  by (simp_all add: safeJoin_def safeJoinSD_def Let_def Join_reg [OF assms] not_escapes [OF assms(2)] assms)

lemma safeJoin_run:
  assumes "Clean base = base" "validateHash h" "run c F tmp (safeJoin base h) t = (Inr p, t')"
  shows "t' = t \<and> p = base @ [take 2 h, h] \<and> (F 0 = None \<longrightarrow> plain_at t (base @ [take 2 h]))"
  using assms(3) unfolding safeJoin_eq [OF assms(1,2)]
  by (auto simp: run_def bindE_def rejectSymlink_eval ret_def plain_at_def reg_def split: option.splits node.splits)

lemma safeJoinSD_run:
  assumes "Clean base = base" "validateHash h" "run c F tmp (safeJoinSD base h) t = (Inr p, t')"
  shows "t' = t \<and> p = base @ [SDDirectory, take 2 h, h] \<and> (F 0 = None \<longrightarrow> plain_at t (base @ [SDDirectory])) \<and>
    (F 1 = None \<longrightarrow> plain_at t (base @ [SDDirectory, take 2 h]))"
  using assms(3) unfolding safeJoin_eq [OF assms(1,2)]
  by (auto simp: run_def bindE_def rejectSymlink_eval ret_def plain_at_def sdp_def split: option.splits node.splits)

section \<open>Properties\<close>

text \<open>
  C11. A disk store on a working disk simulates the memory store: with a live context, for every hash both
  accept and every blob the memory store accepts, \<open>Has\<close> answers the same, \<open>Get\<close> returns the same blob, or an error in both when
  there is none (the disk store's error names the hash), and the writes succeed in both and keep the two stores related;
  listings with an offset and a positive limit are the same whatever order Go visits its maps in.
\<close>

theorem disk_simulates_memory:
  assumes "tmp_ok tmp" "live c" "disk_sim base m t" "validateHash h" "ValidateHash L h" "ValidForSend d = None"
    and "\<And>i xs. mset (order i xs) = mset xs" "0 \<le> offset" "0 < limit"
  defines "B \<equiv> disk_store (\<lambda>_. None) tmp base"
  shows "Has B c t h = mem_Has L c m h \<and>
         (case mem_lookup m h of
            Some b \<Rightarrow> mem_Get L c m h = Inr b \<and> Get B c t h = Inr b
          | None \<Rightarrow> mem_Get L c m h = Inl (Plain ''blob not found'') \<and> Get B c t h = Inl (Plain (''blob not found: '' @ h))) \<and>
         disk_List c (\<lambda>_. None) tmp base t offset limit = mem_List c order m offset limit \<and>
         (\<exists>m' t'. mem_Put L c m h d = (None, m') \<and> Put B c t h d = (None, t') \<and> disk_sim base m' t') \<and>
         (\<exists>m' t'. mem_PutSD L c m h d = (None, m') \<and> PutSD B c t h d = (None, t') \<and> disk_sim base m' t') \<and>
         (\<exists>m' t'. mem_Delete L c m h = (None, m') \<and> Delete B c t h = (None, t') \<and> disk_sim base m' t')"
proof -
  have env: "disk_env tmp" using assms(1) by (rule disk_env.intro)
  have ok: "disk_ok base t" using assms(3) by (simp add: disk_sim_def)
  have "disk_List c (\<lambda>_. None) tmp base t offset limit = mem_List c order m offset limit"
    using disk_env.List_live [OF env assms(2) ok assms(8,9)] mem_List_live [OF assms(2,7,8,9)]
      disk_sim_lookup [OF assms(3)] by simp
  then show ?thesis
    unfolding B_def
    using disk_env.sim_reads [OF env assms(2-5)] disk_env.sim_Put [OF env assms(2-6)] disk_env.sim_PutSD [OF env assms(2-6)]
      disk_env.sim_Delete [OF env assms(2-5)] by blast
qed

lemma sample_sim: "disk_sim sample_base NewMemoryStore sample_tree"
proof -
  have t: "map_of sample_tree q = (if prefix q sample_base then Some Dir else None)" for q
    by (simp add: sample_disk(2) map_of_mkdirs)
  show ?thesis using sample_disk(1)
    by (auto simp: disk_sim_def NewMemoryStore_def regs_def sds_def file_at_def t fun_eq_iff reg_def sdp_def dest: prefix_length_le)
qed

lemma sample_validateHash: "validateHash sample_hash"
  by (simp add: validateHash_def sample_hash_def list_all_iff is_hex_def hex_value_def)

theorem disk_simulates_memory_witness:
  "\<exists>m' t'. mem_Put sample_cid_lib (\<lambda>_. None) NewMemoryStore sample_hash [7] = (None, m') \<and>
     Put (disk_store (\<lambda>_. None) fresh_tmp sample_base) (\<lambda>_. None) sample_tree sample_hash [7] = (None, t') \<and> disk_sim sample_base m' t'"
  using disk_simulates_memory [OF fresh_tmp_ok _ sample_sim sample_validateHash sample_hash_valid, of "\<lambda>_. None" "[7]" "\<lambda>_ xs. xs" 0 1]
  by (simp add: ValidForSend_def MaxBlobSize_def)

text \<open>
  C9. Whatever happens during a call, cancellation at any check or a failure of any system call, a write
  is atomic: when it reports success the blob is stored in full and nothing else has changed, when it
  reports an error every blob is as before. A deletion that reports success has removed the hash, one that
  reports an error has touched no other hash and no SD blob. The layout of the directory is kept.
\<close>

theorem disk_writes_atomic:
  assumes "tmp_ok tmp" "ctx_ok c" "\<And>k e. F k = Some e \<Longrightarrow> \<not> IsNotExist e" "disk_ok base t"
  shows "(run c F tmp (disk_Put base h d) t = (r, t') \<longrightarrow> disk_ok base t' \<and> sds base t' = sds base t \<and>
            regs base t' = (case r of Inr _ \<Rightarrow> (regs base t)(h \<mapsto> d) | Inl _ \<Rightarrow> regs base t)) \<and>
         (run c F tmp (disk_PutSD base h d) t = (r, t') \<longrightarrow> disk_ok base t' \<and> regs base t' = regs base t \<and>
            sds base t' = (case r of Inr _ \<Rightarrow> (sds base t)(h \<mapsto> d) | Inl _ \<Rightarrow> sds base t)) \<and>
         (run c F tmp (disk_Delete base h) t = (r, t') \<longrightarrow> disk_ok base t' \<and>
            (case r of Inr _ \<Rightarrow> regs base t' = (regs base t)(h := None) \<and> sds base t' = (sds base t)(h := None)
             | Inl _ \<Rightarrow> (regs base t' = regs base t \<or> regs base t' = (regs base t)(h := None)) \<and> sds base t' = sds base t))"
proof -
  note env = env_ok_ctx [OF assms(1-3)]
  have put: "disk_ok base t' \<and> sds base t' = sds base t \<and>
      regs base t' = (case r of Inr _ \<Rightarrow> (regs base t)(h \<mapsto> d) | Inl _ \<Rightarrow> regs base t)"
    if "run c F tmp (disk_Put base h d) t = (r, t')"
    using spec_run [OF spec_Put [OF env assms(4)] that] same_disk_maps [of base t t'] assms(4)
    by (cases r) (simp_all add: same_disk_def)
  have sd: "disk_ok base t' \<and> regs base t' = regs base t \<and>
      sds base t' = (case r of Inr _ \<Rightarrow> (sds base t)(h \<mapsto> d) | Inl _ \<Rightarrow> sds base t)"
    if "run c F tmp (disk_PutSD base h d) t = (r, t')"
    using spec_run [OF spec_PutSD [OF env assms(4)] that] same_disk_maps [of base t t'] assms(4)
    by (cases r) (simp_all add: same_disk_def)
  have del: "disk_ok base t' \<and>
      (case r of Inr _ \<Rightarrow> regs base t' = (regs base t)(h := None) \<and> sds base t' = (sds base t)(h := None)
       | Inl _ \<Rightarrow> (regs base t' = regs base t \<or> regs base t' = (regs base t)(h := None)) \<and> sds base t' = sds base t)"
    if "run c F tmp (disk_Delete base h) t = (r, t')"
    using spec_run [OF spec_Delete [OF env assms(4)] that] by (cases r) simp_all
  show ?thesis using put sd del by blast
qed

theorem disk_writes_atomic_witness:
  "regs sample_base (snd (run (\<lambda>_. None) (\<lambda>k. if k = 3 then Some (Plain ''no space left'') else None) fresh_tmp
     (disk_Put sample_base sample_hash [7]) sample_tree)) =
   (case fst (run (\<lambda>_. None) (\<lambda>k. if k = 3 then Some (Plain ''no space left'') else None) fresh_tmp
     (disk_Put sample_base sample_hash [7]) sample_tree) of
      Inr _ \<Rightarrow> (regs sample_base sample_tree)(sample_hash \<mapsto> [7]) | Inl _ \<Rightarrow> regs sample_base sample_tree)"
proof -
  let ?F = "\<lambda>k. if k = (3 :: nat) then Some (Plain ''no space left'') else None"
  have F: "?F k = Some e \<Longrightarrow> \<not> IsNotExist e" for k e by (auto simp: IsNotExist_def errNotExist_def split: if_splits)
  have c: "ctx_ok (\<lambda>_. None)" by (simp add: ctx_ok_def)
  obtain r t' where r: "run (\<lambda>_. None) ?F fresh_tmp (disk_Put sample_base sample_hash [7]) sample_tree = (r, t')" by fastforce
  then show ?thesis
    using disk_writes_atomic [where F = ?F and r = r and t' = t' and d = "[7]" and h = sample_hash, OF fresh_tmp_ok c F sample_disk(1)] by (cases r) simp_all
qed

text \<open>
  C28. No hash leads out of the base directory: for every string whatsoever, in every tree and with every
  failure, a path that is handed out lies two levels below the base, or three for SD blobs, and consists
  of the shard and the hash; any string that is not a hash is refused. Neither the shard directory nor, for
  SD blobs, the directory above it is a symbolic link, as far as the system call that looks at it works.
\<close>

theorem safeJoin_contained:
  assumes "Clean base = base"
  shows "(run c F tmp (safeJoin base h) t = (Inr p, t') \<longrightarrow> t' = t \<and> validateHash h \<and> p = base @ [take 2 h, h] \<and>
            ''..'' \<notin> set p \<and> (F 0 = None \<longrightarrow> plain_at t (base @ [take 2 h]))) \<and>
         (run c F tmp (safeJoinSD base h) t = (Inr p, t') \<longrightarrow> t' = t \<and> validateHash h \<and> p = base @ [SDDirectory, take 2 h, h] \<and>
            ''..'' \<notin> set p \<and> (F 0 = None \<longrightarrow> plain_at t (base @ [SDDirectory])) \<and>
            (F 1 = None \<longrightarrow> plain_at t (base @ [SDDirectory, take 2 h]))) \<and>
         (\<not> validateHash h \<longrightarrow> run c F tmp (safeJoin base h) t = (Inl (Sentinel ErrInvalidHash), t) \<and>
            run c F tmp (safeJoinSD base h) t = (Inl (Sentinel ErrInvalidHash), t))"
proof (cases "validateHash h")
  case False
  then show ?thesis by (simp add: run_def safeJoin_def safeJoinSD_def throw_def)
next
  case True
  have dots: "''..'' \<notin> set base" using Clean_components [of base] assms by (auto simp: list_all_iff good_component_def)
  have parts: "''..'' \<noteq> h" "''..'' \<noteq> take 2 h" "''..'' \<noteq> SDDirectory"
    using validateHash_parts(1,2) [OF True] good_SDDirectory unfolding good_component_def by metis+
  show ?thesis
    using True parts dots safeJoin_run [OF assms True, of c F tmp t p t'] safeJoinSD_run [OF assms True, of c F tmp t p t'] by auto
qed

theorem safeJoin_contained_witness:
  "run (\<lambda>_. None) (\<lambda>_. None) fresh_tmp (safeJoin [''b''] ''../../etc/passwd'') [] = (Inl (Sentinel ErrInvalidHash), [])"
  using safeJoin_contained [of "[''b'']" "\<lambda>_. None" "\<lambda>_. None" fresh_tmp "''../../etc/passwd''" "[]"]
  by (simp add: Clean_def validateHash_def)



end
