(* ===== verification/Json.thy ===== *)
theory Json
  imports Prelude
begin

text \<open>
  The part of Go's \<open>encoding/json\<close> and \<open>strconv\<close> that the stream descriptors use, on the text: decimal
  integers, string literals with their escapes and the replacement of invalid UTF-8, a scanner, the
  value state machine with its stack and nesting limit, and the printer of \<open>json.Marshal\<close>.
\<close>

section \<open>Decimal integers\<close>

definition is_digit :: "char \<Rightarrow> bool" where
  "is_digit c \<longleftrightarrow> CHR ''0'' \<le> c \<and> c \<le> CHR ''9''"

definition digit_char :: "nat \<Rightarrow> char" where
  "digit_char n = ''0123456789'' ! n"

definition digit_val :: "char \<Rightarrow> nat" where
  "digit_val c = of_char c - 48"

fun nat_text :: "nat \<Rightarrow> string" where
  "nat_text n = (if n < 10 then [digit_char n] else nat_text (n div 10) @ [digit_char (n mod 10)])"

declare nat_text.simps [simp del]

definition Itoa :: "int \<Rightarrow> string" where
  "Itoa i = (if i < 0 then CHR ''-'' # nat_text (nat (- i)) else nat_text (nat i))"

definition nat_of_text :: "string \<Rightarrow> nat" where
  "nat_of_text s = foldl (\<lambda>n c. 10 * n + digit_val c) 0 s"

text \<open>\<open>strconv.ParseInt(s, 10, 64)\<close> on a literal of the JSON number grammar.\<close>

definition ParseInt :: "string \<Rightarrow> int option" where
  "ParseInt s =
     (let (sign, ds) = (case s of c # r \<Rightarrow> if c = CHR ''-'' then (-1, r) else (1 :: int, s) | [] \<Rightarrow> (1, [])) in
      if ds = [] \<or> \<not> list_all is_digit ds then None
      else (let i = sign * int (nat_of_text ds) in if in_i64 i then Some i else None))"

section \<open>String literals\<close>

text \<open>The length of the UTF-8 sequence at the head of a byte list, 0 for an invalid one.\<close>

definition cont :: "nat \<Rightarrow> bool" where
  "cont b \<longleftrightarrow> 0x80 \<le> b \<and> b \<le> 0xBF"

fun utf8_len :: "nat list \<Rightarrow> nat" where
  "utf8_len [] = 0"
| "utf8_len (b # r) =
     (if b < 0x80 then 1
      else if 0xC2 \<le> b \<and> b \<le> 0xDF then (case r of b1 # _ \<Rightarrow> if cont b1 then 2 else 0 | _ \<Rightarrow> 0)
      else if 0xE0 \<le> b \<and> b \<le> 0xEF then
        (case r of b1 # b2 # _ \<Rightarrow>
           if (if b = 0xE0 then 0xA0 else 0x80) \<le> b1 \<and> b1 \<le> (if b = 0xED then 0x9F else 0xBF) \<and> cont b2
           then 3 else 0
         | _ \<Rightarrow> 0)
      else if 0xF0 \<le> b \<and> b \<le> 0xF4 then
        (case r of b1 # b2 # b3 # _ \<Rightarrow>
           if (if b = 0xF0 then 0x90 else 0x80) \<le> b1 \<and> b1 \<le> (if b = 0xF4 then 0x8F else 0xBF) \<and> cont b2 \<and> cont b3
           then 4 else 0
         | _ \<Rightarrow> 0)
      else 0)"

definition utf8_encode :: "nat \<Rightarrow> nat list" where
  "utf8_encode r =
     (if r < 0x80 then [r]
      else if r < 0x800 then [0xC0 + r div 64, 0x80 + r mod 64]
      else if r < 0x10000 then [0xE0 + r div 4096, 0x80 + r div 64 mod 64, 0x80 + r mod 64]
      else [0xF0 + r div 262144, 0x80 + r div 4096 mod 64, 0x80 + r div 64 mod 64, 0x80 + r mod 64])"

definition hex4 :: "string \<Rightarrow> nat option" where
  "hex4 s =
     (let v = (\<lambda>c. let k = of_char c :: nat in
                if 48 \<le> k \<and> k \<le> 57 then Some (k - 48)
                else if 97 \<le> k \<and> k \<le> 102 then Some (k - 87)
                else if 65 \<le> k \<and> k \<le> 70 then Some (k - 55) else None)
      in (case s of a # b # c # d # _ \<Rightarrow>
            (case (v a, v b, v c, v d) of
               (Some p, Some q, Some r, Some t) \<Rightarrow> Some (4096 * p + 256 * q + 16 * r + t)
             | _ \<Rightarrow> None)
          | _ \<Rightarrow> None))"

text \<open>
  The scanner's view of a literal after its opening quote: the raw body and the rest, \<open>None\<close> for a
  control character, an unknown escape or a missing quote.
\<close>

fun lex_string :: "string \<Rightarrow> (string \<times> string) option" where
  "lex_string [] = None"
| "lex_string (c # cs) =
     (if c = CHR 0x22 then Some ([], cs)
      else if c = CHR 0x5C then
        (case cs of
           [] \<Rightarrow> None
         | e # cs' \<Rightarrow>
             if e = CHR ''u'' \<and> hex4 cs' = None then None
             else if e = CHR ''u'' \<or> e \<in> set ''bfnrt/'' \<or> e = CHR 0x22 \<or> e = CHR 0x5C
             then map_option (\<lambda>(raw, rest). (c # e # raw, rest)) (lex_string cs')
             else None)
      else if of_char c < (32 :: nat) then None
      else map_option (\<lambda>(raw, rest). (c # raw, rest)) (lex_string cs))"

definition escape_value :: "char \<Rightarrow> char" where
  "escape_value e =
     (if e = CHR ''b'' then CHR 0x08 else if e = CHR ''f'' then CHR 0x0C else if e = CHR ''n'' then CHR 0x0A
      else if e = CHR ''r'' then CHR 0x0D else if e = CHR ''t'' then CHR 0x09 else e)"

definition chars :: "nat list \<Rightarrow> string" where
  "chars ns = map char_of ns"

text \<open>
  \<open>unquote\<close>: escapes are replaced, a surrogate pair is one rune, a lone surrogate and every byte that
  starts no valid UTF-8 sequence is U+FFFD.
\<close>

function unquote :: "string \<Rightarrow> string" where
  "unquote s =
     (case s of
        [] \<Rightarrow> []
      | c # cs \<Rightarrow>
          if c = CHR 0x5C then
            (case cs of
               [] \<Rightarrow> []
             | e # cs' \<Rightarrow>
                 if e = CHR ''u'' then
                   (case hex4 cs' of
                      None \<Rightarrow> []
                    | Some r \<Rightarrow>
                        if 0xD800 \<le> r \<and> r < 0xE000 then
                          (case drop 4 cs' of
                             b # u # t \<Rightarrow>
                               (case hex4 t of
                                  Some r2 \<Rightarrow>
                                    if b = CHR 0x5C \<and> u = CHR ''u'' \<and> r < 0xDC00 \<and> 0xDC00 \<le> r2 \<and> r2 < 0xE000
                                    then chars (utf8_encode (0x10000 + 1024 * (r - 0xD800) + (r2 - 0xDC00))) @ unquote (drop 4 t)
                                    else chars (utf8_encode 0xFFFD) @ unquote (drop 4 cs')
                                | None \<Rightarrow> chars (utf8_encode 0xFFFD) @ unquote (drop 4 cs'))
                           | _ \<Rightarrow> chars (utf8_encode 0xFFFD) @ unquote (drop 4 cs'))
                        else chars (utf8_encode r) @ unquote (drop 4 cs'))
                 else escape_value e # unquote cs')
          else
            (let n = utf8_len (map of_char s) in
             if n = 0 then chars (utf8_encode 0xFFFD) @ unquote cs
             else take n s @ unquote (drop n s)))"
  by pat_completeness auto
termination
  by (relation "measure length") (auto simp del: utf8_len.simps dest: arg_cong [where f = length])

declare unquote.simps [simp del]

text \<open>\<open>quote\<close>: the body \<open>json.Marshal\<close> writes for a string, with HTML escaping on.\<close>

definition hex_lower :: "nat \<Rightarrow> char" where
  "hex_lower n = ''0123456789abcdef'' ! n"

definition u_escape :: "nat \<Rightarrow> string" where
  "u_escape r = [CHR 0x5C, CHR ''u'', hex_lower (r div 4096 mod 16), hex_lower (r div 256 mod 16),
                 hex_lower (r div 16 mod 16), hex_lower (r mod 16)]"

definition quote_ascii :: "char \<Rightarrow> string" where
  "quote_ascii c =
     (let k = of_char c :: nat in
      if c = CHR 0x22 \<or> c = CHR 0x5C then [CHR 0x5C, c]
      else if k = 8 then [CHR 0x5C, CHR ''b''] else if k = 12 then [CHR 0x5C, CHR ''f'']
      else if k = 10 then [CHR 0x5C, CHR ''n''] else if k = 13 then [CHR 0x5C, CHR ''r'']
      else if k = 9 then [CHR 0x5C, CHR ''t'']
      else if k < 32 \<or> c \<in> set ''<>&'' then u_escape k
      else [c])"

function quote :: "string \<Rightarrow> string" where
  "quote s =
     (case s of
        [] \<Rightarrow> []
      | c # cs \<Rightarrow>
          if of_char c < (128 :: nat) then quote_ascii c @ quote cs
          else (let n = utf8_len (map of_char s) in
                if n = 0 then u_escape 0xFFFD @ quote cs
                else (if take n s = chars (utf8_encode 0x2028) then u_escape 0x2028
                      else if take n s = chars (utf8_encode 0x2029) then u_escape 0x2029
                      else take n s) @ quote (drop n s)))"
  by pat_completeness auto
termination by (relation "measure length") (auto simp del: utf8_len.simps)

declare quote.simps [simp del]

section \<open>Tokens\<close>

datatype token =
    TBeginObj | TEndObj | TBeginArr | TEndArr | TComma | TColon
  | TStr string | TNum string | TTrue | TFalse | TNull

definition lex_int :: "string \<Rightarrow> (string \<times> string) option" where
  "lex_int s =
     (case s of
        [] \<Rightarrow> None
      | c # r \<Rightarrow> if c = CHR ''0'' then Some ([c], r)
                 else if is_digit c then Some (takeWhile is_digit s, dropWhile is_digit s)
                 else None)"

definition lex_digits1 :: "string \<Rightarrow> (string \<times> string) option" where
  "lex_digits1 s = (if takeWhile is_digit s = [] then None else Some (takeWhile is_digit s, dropWhile is_digit s))"

definition lex_frac :: "string \<Rightarrow> (string \<times> string) option" where
  "lex_frac s =
     (case s of
        c # r \<Rightarrow> if c = CHR ''.'' then map_option (\<lambda>(d, t). (c # d, t)) (lex_digits1 r) else Some ([], s)
      | [] \<Rightarrow> Some ([], []))"

definition lex_exp :: "string \<Rightarrow> (string \<times> string) option" where
  "lex_exp s =
     (case s of
        c # r \<Rightarrow>
          if c = CHR ''e'' \<or> c = CHR ''E'' then
            (case r of
               d # t \<Rightarrow> if d = CHR ''+'' \<or> d = CHR ''-'' then map_option (\<lambda>(x, y). (c # d # x, y)) (lex_digits1 t)
                        else map_option (\<lambda>(x, y). (c # x, y)) (lex_digits1 r)
             | [] \<Rightarrow> None)
          else Some ([], s)
      | [] \<Rightarrow> Some ([], []))"

definition lex_number :: "string \<Rightarrow> (string \<times> string) option" where
  "lex_number s =
     (let (sign, s0) = (case s of c # r \<Rightarrow> if c = CHR ''-'' then ([c], r) else ([], s) | [] \<Rightarrow> ([], [])) in
      (case lex_int s0 of None \<Rightarrow> None | Some (i, s1) \<Rightarrow>
       (case lex_frac s1 of None \<Rightarrow> None | Some (f, s2) \<Rightarrow>
        (case lex_exp s2 of None \<Rightarrow> None | Some (x, s3) \<Rightarrow> Some (sign @ i @ f @ x, s3)))))"

definition is_space :: "char \<Rightarrow> bool" where
  "is_space c \<longleftrightarrow> c = CHR '' '' \<or> c = CHR 0x09 \<or> c = CHR 0x0A \<or> c = CHR 0x0D"

fun punct :: "char \<Rightarrow> token option" where
  "punct c =
     (if c = CHR ''{'' then Some TBeginObj else if c = CHR ''}'' then Some TEndObj
      else if c = CHR ''['' then Some TBeginArr else if c = CHR '']'' then Some TEndArr
      else if c = CHR '','' then Some TComma else if c = CHR '':'' then Some TColon else None)"

declare punct.simps [simp del]

definition keyword :: "string \<Rightarrow> (token \<times> string) option" where
  "keyword s =
     (if take 4 s = ''true'' then Some (TTrue, drop 4 s)
      else if take 5 s = ''false'' then Some (TFalse, drop 5 s)
      else if take 4 s = ''null'' then Some (TNull, drop 4 s)
      else None)"

definition lex1 :: "string \<Rightarrow> (token \<times> string) option" where
  "lex1 s =
     (case s of
        [] \<Rightarrow> None
      | c # r \<Rightarrow>
          (case punct c of
             Some t \<Rightarrow> Some (t, r)
           | None \<Rightarrow>
               if c = CHR 0x22 then map_option (\<lambda>(raw, rest). (TStr raw, rest)) (lex_string r)
               else if c = CHR ''-'' \<or> is_digit c then map_option (\<lambda>(l, rest). (TNum l, rest)) (lex_number s)
               else keyword s))"

lemma lex_string_shorter: "lex_string s = Some (raw, rest) \<Longrightarrow> length rest < length s"
proof (induction s arbitrary: raw rest rule: lex_string.induct)
  case (2 c cs)
  then show ?case
    by (fastforce split: if_splits list.splits)
qed simp

lemma lex_number_shorter:
  assumes "lex_number s = Some (l, rest)"
  shows "length rest < length s"
proof -
  have d: "length (dropWhile is_digit t) \<le> length t" for t by (simp add: length_dropWhile_le)
  have i: "length b < length t" if "lex_int t = Some (a, b)" for t a b
    using that d by (auto simp: lex_int_def less_Suc_eq_le split: list.splits if_splits)
  have g: "length b \<le> length t" if "lex_digits1 t = Some (a, b)" for t a b
    using that d by (auto simp: lex_digits1_def split: if_splits)
  have f: "length b \<le> length t" if "lex_frac t = Some (a, b)" for t a b
    using that by (auto simp: lex_frac_def dest!: g split: list.splits if_splits)
  have x: "length b \<le> length t" if "lex_exp t = Some (a, b)" for t a b
    using that by (auto simp: lex_exp_def dest!: g split: list.splits if_splits)
  show ?thesis
    using assms by (auto simp: lex_number_def Let_def split: list.splits if_splits option.splits prod.splits
        dest!: i f x)
qed

lemma lex1_shorter: "lex1 s = Some (t, rest) \<Longrightarrow> length rest < length s"
  by (auto simp: lex1_def keyword_def split: list.splits option.splits if_splits
      dest!: lex_string_shorter lex_number_shorter)

function lex :: "string \<Rightarrow> token list option" where
  "lex s =
     (case s of
        [] \<Rightarrow> Some []
      | c # r \<Rightarrow>
          if is_space c then lex r
          else (case lex1 s of None \<Rightarrow> None | Some (t, rest) \<Rightarrow> map_option ((#) t) (lex rest)))"
  by pat_completeness auto
termination by (relation "measure length") (auto dest: lex1_shorter)

declare lex.simps [simp del]

section \<open>Values\<close>

datatype json =
    JNull | JBool bool | JNum string | JStr string | JArr "json list" | JObj "(string \<times> json) list"

datatype frame = InArr "json list" | InObj "(string \<times> json) list" string

datatype cfg =
    Want bool "frame list"
  | WantKey bool "(string \<times> json) list" "frame list"
  | WantColon "(string \<times> json) list" string "frame list"
  | Have json "frame list"

definition maxNestingDepth :: nat where
  "maxNestingDepth = 10000"

fun step :: "cfg \<Rightarrow> token \<Rightarrow> cfg option" where
  "step (Want opened st) t =
     (case t of
        TNull \<Rightarrow> Some (Have JNull st)
      | TTrue \<Rightarrow> Some (Have (JBool True) st)
      | TFalse \<Rightarrow> Some (Have (JBool False) st)
      | TNum l \<Rightarrow> Some (Have (JNum l) st)
      | TStr raw \<Rightarrow> Some (Have (JStr (unquote raw)) st)
      | TBeginArr \<Rightarrow> if length st < maxNestingDepth then Some (Want True (InArr [] # st)) else None
      | TBeginObj \<Rightarrow> if length st < maxNestingDepth then Some (WantKey True [] st) else None
      | TEndArr \<Rightarrow> (case (opened, st) of (True, InArr xs # st') \<Rightarrow> Some (Have (JArr xs) st') | _ \<Rightarrow> None)
      | _ \<Rightarrow> None)"
| "step (WantKey opened kvs st) t =
     (case t of
        TStr raw \<Rightarrow> Some (WantColon kvs (unquote raw) st)
      | TEndObj \<Rightarrow> if opened then Some (Have (JObj kvs) st) else None
      | _ \<Rightarrow> None)"
| "step (WantColon kvs k st) t = (case t of TColon \<Rightarrow> Some (Want False (InObj kvs k # st)) | _ \<Rightarrow> None)"
| "step (Have v []) t = None"
| "step (Have v (InArr xs # st)) t =
     (case t of
        TComma \<Rightarrow> Some (Want False (InArr (xs @ [v]) # st))
      | TEndArr \<Rightarrow> Some (Have (JArr (xs @ [v])) st)
      | _ \<Rightarrow> None)"
| "step (Have v (InObj kvs k # st)) t =
     (case t of
        TComma \<Rightarrow> Some (WantKey False (kvs @ [(k, v)]) st)
      | TEndObj \<Rightarrow> Some (Have (JObj (kvs @ [(k, v)])) st)
      | _ \<Rightarrow> None)"

fun run :: "cfg \<Rightarrow> token list \<Rightarrow> json option" where
  "run c [] = (case c of Have v [] \<Rightarrow> Some v | _ \<Rightarrow> None)"
| "run c (t # ts) = (case step c t of None \<Rightarrow> None | Some c' \<Rightarrow> run c' ts)"

definition json_parse :: "string \<Rightarrow> json option" where
  "json_parse s = (case lex s of None \<Rightarrow> None | Some ts \<Rightarrow> run (Want False []) ts)"

section \<open>Unmarshalling\<close>

text \<open>
  \<open>json.Unmarshal\<close> into a struct: a key selects the field whose name it equals up to case folding (the
  long s and the Kelvin sign included), unknown keys are skipped, \<open>null\<close> leaves a field as it is and
  makes a slice nil, a repeated key decodes into the value already there.
\<close>

function fold_name :: "string \<Rightarrow> string" where
  "fold_name s =
     (case s of
        [] \<Rightarrow> []
      | c # r \<Rightarrow>
          if take 2 s = [CHR 0xC5, CHR 0xBF] then CHR ''s'' # fold_name (drop 2 s)
          else if take 3 s = [CHR 0xE2, CHR 0x84, CHR 0xAA] then CHR ''k'' # fold_name (drop 3 s)
          else (if CHR ''A'' \<le> c \<and> c \<le> CHR ''Z'' then char_of (of_char c + (32 :: nat)) else c) # fold_name r)"
  by pat_completeness auto
termination by (relation "measure length") auto

declare fold_name.simps [simp del]

definition names :: "string \<Rightarrow> string \<Rightarrow> bool" where
  "names k field \<longleftrightarrow> fold_name k = fold_name field"

definition decode_str :: "string \<Rightarrow> json \<Rightarrow> string option" where
  "decode_str old j = (case j of JStr s \<Rightarrow> Some s | JNull \<Rightarrow> Some old | _ \<Rightarrow> None)"

definition decode_int :: "int \<Rightarrow> json \<Rightarrow> int option" where
  "decode_int old j = (case j of JNum l \<Rightarrow> ParseInt l | JNull \<Rightarrow> Some old | _ \<Rightarrow> None)"

definition decode_struct :: "(string \<Rightarrow> json \<Rightarrow> 'a \<Rightarrow> 'a option) \<Rightarrow> 'a \<Rightarrow> json \<Rightarrow> 'a option" where
  "decode_struct field old j =
     (case j of
        JObj kvs \<Rightarrow> foldl (\<lambda>acc (k, v). case acc of None \<Rightarrow> None | Some s \<Rightarrow> field k v s) (Some old) kvs
      | JNull \<Rightarrow> Some old
      | _ \<Rightarrow> None)"

fun decode_elems :: "('a \<Rightarrow> json \<Rightarrow> 'a option) \<Rightarrow> 'a \<Rightarrow> 'a list \<Rightarrow> json list \<Rightarrow> 'a list option" where
  "decode_elems f zero olds [] = Some []"
| "decode_elems f zero olds (j # js) =
     (case f (case olds of [] \<Rightarrow> zero | x # _ \<Rightarrow> x) j of
        None \<Rightarrow> None
      | Some y \<Rightarrow> map_option ((#) y) (decode_elems f zero (tl olds) js))"

definition lower_name :: "string \<Rightarrow> bool" where
  "lower_name s \<longleftrightarrow> list_all (\<lambda>c. c = CHR ''_'' \<or> CHR ''a'' \<le> c \<and> c \<le> CHR ''z'') s"

lemma fold_name_lower: "lower_name s \<Longrightarrow> fold_name s = s"
proof (induction s)
  case (Cons c s)
  have c: "c = CHR ''_'' \<or> CHR ''a'' \<le> c \<and> c \<le> CHR ''z''" using Cons.prems by (simp add: lower_name_def)
  then have "c \<noteq> CHR 0xC5" "c \<noteq> CHR 0xE2" "\<not> (CHR ''A'' \<le> c \<and> c \<le> CHR ''Z'')"
    by (auto simp: less_eq_char_def)
  then show ?case using Cons by (subst fold_name.simps) (auto simp: lower_name_def)
qed (simp add: fold_name.simps)

lemma names_lower: "lower_name k \<Longrightarrow> lower_name f \<Longrightarrow> names k f \<longleftrightarrow> k = f"
  by (simp add: names_def fold_name_lower)

lemma decode_elems_map:
  "(\<And>x. x \<in> set xs \<Longrightarrow> f zero (g x) = Some x) \<Longrightarrow> decode_elems f zero [] (map g xs) = Some xs"
  by (induction xs) auto

section \<open>Printing\<close>

fun separate :: "token list list \<Rightarrow> token list" where
  "separate [] = []"
| "separate [ts] = ts"
| "separate (ts # tss) = ts @ TComma # separate tss"

fun tokens :: "json \<Rightarrow> token list" where
  "tokens JNull = [TNull]"
| "tokens (JBool b) = [if b then TTrue else TFalse]"
| "tokens (JNum l) = [TNum l]"
| "tokens (JStr s) = [TStr (quote s)]"
| "tokens (JArr xs) = TBeginArr # separate (map tokens xs) @ [TEndArr]"
| "tokens (JObj kvs) = TBeginObj # separate (map (\<lambda>(k, v). TStr (quote k) # TColon # tokens v) kvs) @ [TEndObj]"

fun token_text :: "token \<Rightarrow> string" where
  "token_text TBeginObj = ''{''" | "token_text TEndObj = ''}''"
| "token_text TBeginArr = ''[''" | "token_text TEndArr = '']''"
| "token_text TComma = '',''" | "token_text TColon = '':''"
| "token_text (TStr raw) = CHR 0x22 # raw @ [CHR 0x22]"
| "token_text (TNum l) = l"
| "token_text TTrue = ''true''" | "token_text TFalse = ''false''" | "token_text TNull = ''null''"

definition json_print :: "json \<Rightarrow> string" where
  "json_print j = concat (map token_text (tokens j))"

section \<open>Round trips\<close>

subsection \<open>Integers\<close>

lemma less_10_cases: "n < 10 \<Longrightarrow> n \<in> {0, 1, 2, 3, 4, 5, 6, 7, 8, 9::nat}"
  by (simp add: numeral_eq_Suc less_Suc_eq)

lemma digit_char_facts:
  "n < 10 \<Longrightarrow> is_digit (digit_char n) \<and> digit_val (digit_char n) = n \<and> (digit_char n = CHR ''0'' \<longleftrightarrow> n = 0)"
  by (drule less_10_cases) (auto simp: is_digit_def digit_char_def digit_val_def less_eq_char_def)

lemma nat_text_digits: "list_all is_digit (nat_text n) \<and> nat_text n \<noteq> []"
proof (induction n rule: nat_text.induct)
  case (1 n)
  then show ?case
    by (subst (1 2) nat_text.simps) (simp add: digit_char_facts)
qed

lemma nat_of_text_snoc: "nat_of_text (s @ [c]) = 10 * nat_of_text s + digit_val c"
  by (simp add: nat_of_text_def)

lemma nat_of_text_nat_text [simp]: "nat_of_text (nat_text n) = n"
proof (induction n rule: nat_text.induct)
  case (1 n)
  then show ?case
    by (subst nat_text.simps) (auto simp: nat_of_text_snoc digit_char_facts nat_of_text_def [of "[_]"])
qed

lemma nat_text_hd: "0 < n \<Longrightarrow> hd (nat_text n) \<noteq> CHR ''0''"
proof (induction n rule: nat_text.induct)
  case (1 n)
  then show ?case
    using nat_text_digits [of "n div 10"]
    by (subst nat_text.simps) (auto simp: digit_char_facts hd_append)
qed

lemma nat_text_0: "nat_text 0 = ''0''"
  by (simp add: nat_text.simps [of 0] digit_char_def)

lemma minus_not_digit [simp]: "\<not> is_digit CHR ''-''"
  by (simp add: is_digit_def less_eq_char_def)

lemma nat_text_Cons: "\<exists>c cs. nat_text n = c # cs \<and> is_digit c"
  using nat_text_digits [of n] by (cases "nat_text n") auto

lemma ParseInt_Itoa: "in_i64 i \<Longrightarrow> ParseInt (Itoa i) = Some i"
proof -
  assume i: "in_i64 i"
  obtain c cs where c: "nat_text (nat i) = c # cs" "is_digit c" using nat_text_Cons by blast
  then have "c \<noteq> CHR ''-''" by auto
  then show ?thesis
    using i c nat_text_digits [of "nat i"] nat_text_digits [of "nat (- i)"]
      nat_of_text_nat_text [of "nat i"]
    by (auto simp: ParseInt_def Itoa_def)
qed

text \<open>A number is followed by something that does not continue it.\<close>

definition ends_number :: "string \<Rightarrow> bool" where
  "ends_number s \<longleftrightarrow> (case s of [] \<Rightarrow> True | c # _ \<Rightarrow> \<not> is_digit c \<and> c \<notin> set ''.eE'')"

lemma takeWhile_ends: "list_all is_digit ds \<Longrightarrow> ends_number r \<Longrightarrow>
    takeWhile is_digit (ds @ r) = ds \<and> dropWhile is_digit (ds @ r) = r"
  by (induction ds) (auto simp: ends_number_def split: list.splits)

lemma lex_int_nat_text: "ends_number r \<Longrightarrow> lex_int (nat_text n @ r) = Some (nat_text n, r)"
proof (cases "n = 0")
  case True
  then show ?thesis by (simp add: nat_text_0 lex_int_def)
next
  case False
  assume r: "ends_number r"
  obtain c cs where c: "nat_text n = c # cs" "is_digit c" using nat_text_Cons by blast
  moreover have "c \<noteq> CHR ''0''" using nat_text_hd [of n] False c by simp
  moreover have "list_all is_digit (c # cs)" using nat_text_digits [of n] c by simp
  then have "takeWhile is_digit ((c # cs) @ r) = c # cs" "dropWhile is_digit ((c # cs) @ r) = r"
    using takeWhile_ends r by blast+
  ultimately show ?thesis by (simp add: lex_int_def)
qed

lemma lex_number_Itoa:
  assumes "ends_number r"
  shows "lex_number (Itoa i @ r) = Some (Itoa i, r)"
proof -
  have e: "lex_frac r = Some ([], r)" "lex_exp r = Some ([], r)"
    using assms by (auto simp: lex_frac_def lex_exp_def ends_number_def split: list.splits)
  obtain c cs where c: "nat_text (nat i) = c # cs" "is_digit c" using nat_text_Cons by blast
  then have "c \<noteq> CHR ''-''" by auto
  then show ?thesis
    using c e lex_int_nat_text [OF assms, of "nat i"] lex_int_nat_text [OF assms, of "nat (- i)"]
    by (auto simp: lex_number_def Itoa_def)
qed

subsection \<open>Strings\<close>

text \<open>Strings that are their own literal: ASCII without control, quote, backslash and HTML characters.\<close>

definition plain_char :: "char \<Rightarrow> bool" where
  "plain_char c \<longleftrightarrow> 32 \<le> (of_char c :: nat) \<and> (of_char c :: nat) < 128 \<and> c \<noteq> CHR 0x22 \<and> c \<noteq> CHR 0x5C \<and> c \<notin> set ''<>&''"

abbreviation plain :: "string \<Rightarrow> bool" where
  "plain \<equiv> list_all plain_char"

lemma quote_plain: "plain s \<Longrightarrow> quote s = s"
proof (induction s)
  case (Cons c s)
  then show ?case
    by (subst quote.simps) (auto simp: plain_char_def quote_ascii_def)
qed (simp add: quote.simps)

lemma unquote_plain: "plain s \<Longrightarrow> unquote s = s"
proof (induction s)
  case (Cons c s)
  then show ?case
    by (subst unquote.simps) (auto simp: plain_char_def)
qed (simp add: unquote.simps)

lemma lex_string_plain: "plain s \<Longrightarrow> lex_string (s @ CHR 0x22 # r) = Some (s, r)"
  by (induction s) (auto simp: plain_char_def)

subsection \<open>Tokens\<close>

fun good_token :: "token \<Rightarrow> bool" where
  "good_token (TStr raw) = plain raw"
| "good_token (TNum l) = (\<exists>i. l = Itoa i)"
| "good_token _ = True"

fun ok_tokens :: "token list \<Rightarrow> bool" where
  "ok_tokens [] = True"
| "ok_tokens (t # ts) \<longleftrightarrow> good_token t \<and>
     ((\<exists>l. t = TNum l) \<longrightarrow> (case ts of [] \<Rightarrow> True | u # _ \<Rightarrow> u \<in> {TComma, TEndArr, TEndObj})) \<and> ok_tokens ts"

definition padded :: "(token \<Rightarrow> nat) \<Rightarrow> token list \<Rightarrow> string" where
  "padded pad ts = concat (map (\<lambda>t. token_text t @ replicate (pad t) CHR '' '') ts)"

lemma lex_spaces: "lex (replicate n CHR '' '' @ s) = lex s"
  by (induction n) (simp_all add: lex.simps [of "CHR '' '' # _"] is_space_def)

lemma Itoa_Cons: "\<exists>c cs. Itoa i = c # cs \<and> (c = CHR ''-'' \<or> is_digit c)"
  using nat_text_Cons [of "nat i"] by (auto simp: Itoa_def)

lemma digit_punct:
  assumes "c = CHR ''-'' \<or> is_digit c"
  shows "punct c = None \<and> \<not> is_space c \<and> c \<noteq> CHR 0x22"
proof -
  have "\<not> (x = CHR ''-'' \<or> is_digit x)"
    if "x \<in> set ''{}[],: '' \<union> {CHR 0x09, CHR 0x0A, CHR 0x0D, CHR 0x22}" for x
    using that by (auto simp: is_digit_def less_eq_char_def)
  then have "c \<notin> set ''{}[],: '' \<union> {CHR 0x09, CHR 0x0A, CHR 0x0D, CHR 0x22}" using assms by blast
  then show ?thesis by (simp add: punct.simps is_space_def)
qed

lemma lex1_token:
  assumes "good_token t" "(\<exists>l. t = TNum l) \<Longrightarrow> ends_number r"
  shows "lex1 (token_text t @ r) = Some (t, r) \<and> (\<exists>c cs. token_text t = c # cs \<and> \<not> is_space c)"
proof (cases t)
  case (TNum l)
  then obtain i where i: "l = Itoa i" using assms(1) by auto
  obtain c cs where c: "Itoa i = c # cs" "c = CHR ''-'' \<or> is_digit c" using Itoa_Cons by blast
  have "lex_number (c # cs @ r) = Some (Itoa i, r)" using lex_number_Itoa [of r i] assms(2) TNum c by simp
  then show ?thesis using digit_punct [OF c(2)] TNum i c by (simp add: lex1_def)
next
  case (TStr raw)
  then show ?thesis using assms(1) by (simp add: lex1_def punct.simps lex_string_plain is_space_def)
qed (simp_all add: lex1_def punct.simps keyword_def is_space_def is_digit_def less_eq_char_def)

lemma lex_token:
  assumes "good_token t" "(\<exists>l. t = TNum l) \<Longrightarrow> ends_number r"
  shows "lex (token_text t @ r) = map_option ((#) t) (lex r)"
proof -
  obtain c cs where c: "token_text t = c # cs" "\<not> is_space c" "lex1 (c # cs @ r) = Some (t, r)"
    using lex1_token [OF assms] by auto
  then show ?thesis by (simp add: lex.simps [of "c # cs @ r"])
qed

lemma ends_number_padded:
  assumes "case ts of [] \<Rightarrow> True | u # _ \<Rightarrow> u \<in> {TComma, TEndArr, TEndObj}"
  shows "ends_number (replicate n CHR '' '' @ padded pad ts)"
proof (cases n)
  case 0
  then show ?thesis
    using assms by (auto simp: ends_number_def padded_def is_digit_def less_eq_char_def split: list.splits)
next
  case (Suc m)
  then show ?thesis by (simp add: ends_number_def is_digit_def less_eq_char_def)
qed

lemma lex_padded: "ok_tokens ts \<Longrightarrow> lex (padded pad ts) = Some ts"
proof (induction ts)
  case (Cons t ts)
  have "ends_number (replicate (pad t) CHR '' '' @ padded pad ts)" if "\<exists>l. t = TNum l"
    using that Cons.prems by (intro ends_number_padded) simp
  then have "lex (token_text t @ replicate (pad t) CHR '' '' @ padded pad ts) =
      map_option ((#) t) (lex (replicate (pad t) CHR '' '' @ padded pad ts))"
    using Cons.prems by (intro lex_token) auto
  then show ?case using Cons by (simp add: lex_spaces padded_def)
qed (simp add: padded_def lex.simps)

subsection \<open>Values\<close>

fun jdepth :: "json \<Rightarrow> nat" where
  "jdepth (JArr xs) = Suc (foldr max (map jdepth xs) 0)"
| "jdepth (JObj kvs) = Suc (foldr max (map (\<lambda>(k, v). jdepth v) kvs) 0)"
| "jdepth _ = 0"

fun plain_json :: "json \<Rightarrow> bool" where
  "plain_json (JStr s) = plain s"
| "plain_json (JNum l) = (\<exists>i. l = Itoa i)"
| "plain_json (JArr xs) = list_all plain_json xs"
| "plain_json (JObj kvs) = list_all (\<lambda>(k, v). plain k \<and> plain_json v) kvs"
| "plain_json _ = True"

lemma le_foldr_max: "n \<in> set ns \<Longrightarrow> n \<le> foldr max ns (0::nat)"
  by (induction ns) auto

lemma separate_Cons: "tss \<noteq> [] \<Longrightarrow> separate (ts # tss) = ts @ TComma # separate tss"
  by (cases tss) simp_all

lemma run_elements:
  assumes "\<And>x b st rest. x \<in> set xs \<Longrightarrow> length st \<le> d \<Longrightarrow> run (Want b st) (tokens x @ rest) = run (Have x st) rest"
    and "xs \<noteq> []" "length st < d"
  shows "run (Want b (InArr ys # st)) (separate (map tokens xs) @ TEndArr # rest) = run (Have (JArr (ys @ xs)) st) rest"
  using assms
proof (induction xs arbitrary: ys b)
  case (Cons x xs)
  note IH = Cons.IH and prems = Cons.prems
  have x: "run (Want b (InArr ys # st)) (tokens x @ r) = run (Have x (InArr ys # st)) r" for r b
    using prems by simp
  show ?case
  proof (cases "xs = []")
    case True
    then show ?thesis by (simp add: x)
  next
    case False
    then have "run (Want False (InArr (ys @ [x]) # st)) (separate (map tokens xs) @ TEndArr # rest) =
        run (Have (JArr ((ys @ [x]) @ xs)) st) rest"
      using prems by (intro IH) simp_all
    then show ?thesis using False by (simp add: separate_Cons x)
  qed
qed simp

lemma run_members:
  assumes "\<And>k v b st rest. (k, v) \<in> set kvs \<Longrightarrow> length st \<le> d \<Longrightarrow> run (Want b st) (tokens v @ rest) = run (Have v st) rest"
    and "\<And>k v. (k, v) \<in> set kvs \<Longrightarrow> plain k"
    and "kvs \<noteq> []" "length st < d"
  shows "run (WantKey b ys st) (separate (map (\<lambda>(k, v). TStr (quote k) # TColon # tokens v) kvs) @ TEndObj # rest) =
         run (Have (JObj (ys @ kvs)) st) rest"
  using assms
proof (induction kvs arbitrary: ys b)
  case (Cons kv kvs)
  note IH = Cons.IH and prems = Cons.prems
  obtain k v where kv: "kv = (k, v)" by (cases kv)
  have k: "plain k" using prems(2) [of k v] kv by simp
  have v: "run (Want b (InObj ys k # st)) (tokens v @ r) = run (Have v (InObj ys k # st)) r" for r b
    using prems(1) [of k v "InObj ys k # st"] prems(4) kv by simp
  show ?case
  proof (cases "kvs = []")
    case True
    then show ?thesis using k by (simp add: kv v quote_plain unquote_plain)
  next
    case False
    then have "run (WantKey False (ys @ [kv]) st)
        (separate (map (\<lambda>(k, v). TStr (quote k) # TColon # tokens v) kvs) @ TEndObj # rest) =
        run (Have (JObj ((ys @ [kv]) @ kvs)) st) rest"
      using False prems(4) by (intro IH) (blast intro: prems(1,2) list.set_intros(2))+
    then show ?thesis using False k by (simp add: separate_Cons kv v quote_plain unquote_plain)
  qed
qed simp

lemma run_tokens:
  "plain_json j \<Longrightarrow> jdepth j + length st \<le> maxNestingDepth \<Longrightarrow>
     run (Want b st) (tokens j @ rest) = run (Have j st) rest"
proof (induction j arbitrary: b st rest)
  case (JArr xs)
  then have st: "length st < maxNestingDepth" by simp
  show ?case
  proof (cases "xs = []")
    case False
    have "run (Want True (InArr [] # st)) (separate (map tokens xs) @ TEndArr # rest) = run (Have (JArr ([] @ xs)) st) rest"
    proof (rule run_elements [where d = "Suc (length st)"])
      fix x b st' rest'
      assume x: "x \<in> set xs" and st': "length (st' :: frame list) \<le> Suc (length st)"
      have "jdepth x \<le> foldr max (map jdepth xs) 0" using x by (simp add: le_foldr_max)
      then have "jdepth x + length st' \<le> maxNestingDepth" using JArr.prems(2) st' by simp
      moreover have "plain_json x" using JArr.prems(1) x by (simp add: list_all_iff)
      ultimately show "run (Want b st') (tokens x @ rest') = run (Have x st') rest'" using JArr.IH x by blast
    qed (use False in simp_all)
    then show ?thesis using st by simp
  qed (use st in simp)
next
  case (JObj kvs)
  then have st: "length st < maxNestingDepth" by simp
  show ?case
  proof (cases "kvs = []")
    case False
    have "run (WantKey True [] st) (separate (map (\<lambda>(k, v). TStr (quote k) # TColon # tokens v) kvs) @ TEndObj # rest) =
        run (Have (JObj ([] @ kvs)) st) rest"
    proof (rule run_members [where d = "Suc (length st)"])
      fix k v b st' rest'
      assume x: "(k, v) \<in> set kvs" and st': "length (st' :: frame list) \<le> Suc (length st)"
      have "jdepth v \<le> foldr max (map (\<lambda>(k, v). jdepth v) kvs) 0" using x by (force intro: le_foldr_max)
      then have "jdepth v + length st' \<le> maxNestingDepth" using JObj.prems(2) st' by simp
      moreover have "plain_json v" using JObj.prems(1) x by (auto simp: list_all_iff)
      ultimately show "run (Want b st') (tokens v @ rest') = run (Have v st') rest'"
        using JObj.IH [OF x] by (simp add: snds.simps)
    next
      fix k v assume "(k, v) \<in> set kvs"
      then show "plain k" using JObj.prems(1) by (auto simp: list_all_iff)
    qed (use False in simp_all)
    then show ?thesis using st by simp
  qed (use st in simp)
qed (simp_all add: quote_plain unquote_plain)

lemma ok_tokens_append:
  "ok_tokens ts \<Longrightarrow> ok_tokens us \<Longrightarrow> (us = [] \<or> hd us \<in> {TComma, TEndArr, TEndObj}) \<Longrightarrow> ok_tokens (ts @ us)"
  by (induction ts rule: ok_tokens.induct) (auto split: list.splits)

lemma ok_tokens_separate:
  "(\<And>ts. ts \<in> set tss \<Longrightarrow> ok_tokens ts) \<Longrightarrow> ok_tokens (separate tss)"
  by (induction tss rule: separate.induct) (auto intro!: ok_tokens_append)

lemma ok_tokens_tokens: "plain_json j \<Longrightarrow> ok_tokens (tokens j)"
proof (induction j rule: tokens.induct)
  case (5 xs)
  then show ?case by (auto simp: list_all_iff intro!: ok_tokens_append ok_tokens_separate)
next
  case (6 kvs)
  have "ok_tokens (TStr (quote k) # TColon # tokens v)" if "(k, v) \<in> set kvs" for k v
    using 6 that by (fastforce simp: list_all_iff [of "\<lambda>(k, v). _ k v"] quote_plain)
  then show ?case by (auto intro!: ok_tokens_append ok_tokens_separate)
qed (simp_all add: quote_plain)

text \<open>
  A plain value parses back from its text, whatever number of blanks follows each of its tokens; in
  particular from \<open>json.Marshal\<close>'s output.
\<close>

lemma json_parse_padded:
  assumes "plain_json j" "jdepth j \<le> maxNestingDepth"
  shows "json_parse (padded pad (tokens j)) = Some j"
  using assms run_tokens [of j "[]" False "[]"] by (simp add: json_parse_def lex_padded ok_tokens_tokens)

lemma json_print_padded: "json_print j = padded (\<lambda>_. 0) (tokens j)"
  by (simp add: json_print_def padded_def)

interpretation jsonc: round_trip json_print json_parse "\<lambda>j. plain_json j \<and> jdepth j \<le> maxNestingDepth"
  by unfold_locales (simp add: json_print_padded json_parse_padded)

end
