(* ===== verification/SDBlob.thy ===== *)
theory SDBlob
  imports Blob Json
begin

text \<open>
  Stream descriptors (\<open>stream/sdblob.go\<close>): the records, their JSON text in both field orders, parsing,
  the stream hash and validation. Text is produced and read by the model of \<open>encoding/json\<close> in \<open>Json\<close>;
  the third-party ordered map is the parameter \<open>okeys\<close>, the raw keys of an object's text in order; the
  digest function is \<open>sha\<close>. A nil byte slice is the empty list.
\<close>

section \<open>Data\<close>

datatype serializationProfile = ProfileNewSort | ProfileOldSort

record BlobInfo =
  Length :: int
  BlobNum :: int
  BlobHash :: bytes
  IV :: bytes
  bi_profile :: serializationProfile

record SDBlob =
  StreamName :: string
  BlobInfos :: "BlobInfo list"
  StreamType :: string
  Key :: bytes
  SuggestedFileName :: string
  StreamHash :: bytes
  sd_profile :: serializationProfile

definition StreamTypeLBRYFile :: string where
  "StreamTypeLBRYFile = ''lbryfile''"

definition ErrInvalidSDBlob :: error where
  "ErrInvalidSDBlob = Plain ''invalid SD blob''"

text \<open>The fields of \<open>JSONBlobInfoNewSort\<close> and \<open>JSONBlobInfoOldSort\<close>, and of the two \<open>JSONSDBlob\<close> types.\<close>

record JSONBlobInfo =
  jb_Length :: int
  jb_BlobNum :: int
  jb_BlobHash :: string
  jb_IV :: string

record JSONSDBlob =
  js_StreamName :: string
  js_Blobs :: "JSONBlobInfo list"
  js_StreamType :: string
  js_Key :: string
  js_SuggestedFileName :: string
  js_StreamHash :: string

section \<open>Marshalling\<close>

definition encodeBlobInfoCommon :: "BlobInfo \<Rightarrow> string \<times> string" where
  "encodeBlobInfoCommon bi =
     (hex_encode (IV bi), if length (BlobHash bi) > 0 then hex_encode (BlobHash bi) else [])"

definition toJSONBlobInfo :: "BlobInfo \<Rightarrow> JSONBlobInfo" where
  "toJSONBlobInfo bi =
     (let (ivHex, blobHashHex) = encodeBlobInfoCommon bi
      in \<lparr>jb_Length = Length bi, jb_BlobNum = BlobNum bi, jb_BlobHash = blobHashHex, jb_IV = ivHex\<rparr>)"

definition encodeBlobInfosAsNewSort :: "BlobInfo list \<Rightarrow> JSONBlobInfo list" where
  "encodeBlobInfosAsNewSort bs = map toJSONBlobInfo bs"

definition encodeBlobInfosAsOldSort :: "BlobInfo list \<Rightarrow> JSONBlobInfo list" where
  "encodeBlobInfosAsOldSort bs = map toJSONBlobInfo bs"

text \<open>The \<open>omitempty\<close> tag of \<open>blob_hash\<close>, and the field orders of the struct types.\<close>

definition hash_member :: "string \<Rightarrow> (string \<times> json) list" where
  "hash_member h = (if h = [] then [] else [(''blob_hash'', JStr h)])"

definition jsonBlobInfoNewSort :: "JSONBlobInfo \<Rightarrow> json" where
  "jsonBlobInfoNewSort b = JObj (hash_member (jb_BlobHash b) @
     [(''blob_num'', JNum (Itoa (jb_BlobNum b))), (''iv'', JStr (jb_IV b)), (''length'', JNum (Itoa (jb_Length b)))])"

definition jsonBlobInfoOldSort :: "JSONBlobInfo \<Rightarrow> json" where
  "jsonBlobInfoOldSort b = JObj ([(''length'', JNum (Itoa (jb_Length b))), (''blob_num'', JNum (Itoa (jb_BlobNum b)))] @
     hash_member (jb_BlobHash b) @ [(''iv'', JStr (jb_IV b))])"

definition BlobInfo_MarshalJSON :: "BlobInfo \<Rightarrow> json" where
  "BlobInfo_MarshalJSON bi =
     (case bi_profile bi of
        ProfileNewSort \<Rightarrow> jsonBlobInfoNewSort (toJSONBlobInfo bi)
      | ProfileOldSort \<Rightarrow> jsonBlobInfoOldSort (toJSONBlobInfo bi))"

definition encodeSDBlobCommon :: "SDBlob \<Rightarrow> string \<times> string \<times> string \<times> string" where
  "encodeSDBlobCommon s =
     (hex_encode (bytes_of (StreamName s)), hex_encode (Key s),
      hex_encode (bytes_of (SuggestedFileName s)), hex_encode (StreamHash s))"

definition marshalSDBlobNewSort :: "SDBlob \<Rightarrow> json" where
  "marshalSDBlobNewSort s =
     (let (streamNameHex, keyHex, suggestedFileNameHex, streamHashHex) = encodeSDBlobCommon s
      in JObj [(''blobs'', JArr (map jsonBlobInfoNewSort (encodeBlobInfosAsNewSort (BlobInfos s)))),
               (''key'', JStr keyHex), (''stream_hash'', JStr streamHashHex),
               (''stream_name'', JStr streamNameHex), (''stream_type'', JStr (StreamType s)),
               (''suggested_file_name'', JStr suggestedFileNameHex)])"

definition marshalSDBlobOldSort :: "SDBlob \<Rightarrow> json" where
  "marshalSDBlobOldSort s =
     (let (streamNameHex, keyHex, suggestedFileNameHex, streamHashHex) = encodeSDBlobCommon s
      in JObj [(''stream_name'', JStr streamNameHex),
               (''blobs'', JArr (map jsonBlobInfoOldSort (encodeBlobInfosAsOldSort (BlobInfos s)))),
               (''stream_type'', JStr (StreamType s)), (''key'', JStr keyHex),
               (''suggested_file_name'', JStr suggestedFileNameHex), (''stream_hash'', JStr streamHashHex)])"

definition SDBlob_MarshalJSON :: "SDBlob \<Rightarrow> json" where
  "SDBlob_MarshalJSON s =
     (case sd_profile s of ProfileNewSort \<Rightarrow> marshalSDBlobNewSort s | ProfileOldSort \<Rightarrow> marshalSDBlobOldSort s)"

text \<open>\<open>strings.Replace\<close> of a one-character string.\<close>

definition replace_char :: "char \<Rightarrow> string \<Rightarrow> string \<Rightarrow> string" where
  "replace_char c new s = concat (map (\<lambda>x. if x = c then new else [x]) s)"

definition ToBlob :: "SDBlob \<Rightarrow> bytes" where
  "ToBlob s = bytes_of (replace_char CHR '':'' '': ''
                (replace_char CHR '','' '', '' (json_print (SDBlob_MarshalJSON s))))"

section \<open>Unmarshalling\<close>

definition zeroJSONBlobInfo :: JSONBlobInfo where
  "zeroJSONBlobInfo = \<lparr>jb_Length = 0, jb_BlobNum = 0, jb_BlobHash = [], jb_IV = []\<rparr>"

definition fieldBlobInfo :: "string \<Rightarrow> json \<Rightarrow> JSONBlobInfo \<Rightarrow> JSONBlobInfo option" where
  "fieldBlobInfo k v s =
     (if names k ''length'' then map_option (\<lambda>i. s\<lparr>jb_Length := i\<rparr>) (decode_int (jb_Length s) v)
      else if names k ''blob_num'' then map_option (\<lambda>i. s\<lparr>jb_BlobNum := i\<rparr>) (decode_int (jb_BlobNum s) v)
      else if names k ''blob_hash'' then map_option (\<lambda>h. s\<lparr>jb_BlobHash := h\<rparr>) (decode_str (jb_BlobHash s) v)
      else if names k ''iv'' then map_option (\<lambda>h. s\<lparr>jb_IV := h\<rparr>) (decode_str (jb_IV s) v)
      else Some s)"

definition decodeJSONBlobInfos :: "JSONBlobInfo list \<Rightarrow> json \<Rightarrow> JSONBlobInfo list option" where
  "decodeJSONBlobInfos old j =
     (case j of
        JArr js \<Rightarrow> decode_elems (decode_struct fieldBlobInfo) zeroJSONBlobInfo old js
      | JNull \<Rightarrow> Some []
      | _ \<Rightarrow> None)"

definition zeroJSONSDBlob :: JSONSDBlob where
  "zeroJSONSDBlob = \<lparr>js_StreamName = [], js_Blobs = [], js_StreamType = [], js_Key = [],
                     js_SuggestedFileName = [], js_StreamHash = []\<rparr>"

definition fieldSDBlob :: "string \<Rightarrow> json \<Rightarrow> JSONSDBlob \<Rightarrow> JSONSDBlob option" where
  "fieldSDBlob k v s =
     (if names k ''stream_name'' then map_option (\<lambda>x. s\<lparr>js_StreamName := x\<rparr>) (decode_str (js_StreamName s) v)
      else if names k ''blobs'' then map_option (\<lambda>x. s\<lparr>js_Blobs := x\<rparr>) (decodeJSONBlobInfos (js_Blobs s) v)
      else if names k ''stream_type'' then map_option (\<lambda>x. s\<lparr>js_StreamType := x\<rparr>) (decode_str (js_StreamType s) v)
      else if names k ''key'' then map_option (\<lambda>x. s\<lparr>js_Key := x\<rparr>) (decode_str (js_Key s) v)
      else if names k ''suggested_file_name'' then
        map_option (\<lambda>x. s\<lparr>js_SuggestedFileName := x\<rparr>) (decode_str (js_SuggestedFileName s) v)
      else if names k ''stream_hash'' then map_option (\<lambda>x. s\<lparr>js_StreamHash := x\<rparr>) (decode_str (js_StreamHash s) v)
      else Some s)"

definition ErrHex :: error where
  "ErrHex = Plain ''encoding/hex: invalid input''"

definition ErrJson :: error where
  "ErrJson = Plain ''json: invalid input''"

definition decodeHex :: "string \<Rightarrow> error + bytes" where
  "decodeHex s = (if s = [] then Inr [] else (case hex_decode s of None \<Rightarrow> Inl ErrHex | Some b \<Rightarrow> Inr b))"

definition decodeHexString :: "string \<Rightarrow> error + string" where
  "decodeHexString s = (if s = [] then Inr [] else (case hex_decode s of None \<Rightarrow> Inl ErrHex | Some b \<Rightarrow> Inr (string_of b)))"

definition decodeSDBlobFields ::
    "string \<Rightarrow> string \<Rightarrow> string \<Rightarrow> string \<Rightarrow> error + (string \<times> bytes \<times> string \<times> bytes)" where
  "decodeSDBlobFields streamNameHex keyHex suggestedFileNameHex streamHashHex =
     (case decodeHexString streamNameHex of Inl e \<Rightarrow> Inl e | Inr streamName \<Rightarrow>
      (case decodeHex keyHex of Inl e \<Rightarrow> Inl e | Inr key \<Rightarrow>
       (case decodeHexString suggestedFileNameHex of Inl e \<Rightarrow> Inl e | Inr suggestedFileName \<Rightarrow>
        (case decodeHex streamHashHex of Inl e \<Rightarrow> Inl e | Inr streamHash \<Rightarrow>
           Inr (streamName, key, suggestedFileName, streamHash)))))"

definition decodeBlobInfo :: "serializationProfile \<Rightarrow> JSONBlobInfo \<Rightarrow> error + BlobInfo" where
  "decodeBlobInfo p tmp =
     (case (if jb_BlobHash tmp \<noteq> [] then hex_decode (jb_BlobHash tmp) else Some []) of
        None \<Rightarrow> Inl ErrHex
      | Some blobHash \<Rightarrow>
          (case (if jb_IV tmp \<noteq> [] then hex_decode (jb_IV tmp) else Some []) of
             None \<Rightarrow> Inl ErrHex
           | Some iv \<Rightarrow> Inr \<lparr>Length = jb_Length tmp, BlobNum = jb_BlobNum tmp, BlobHash = blobHash, IV = iv, bi_profile = p\<rparr>))"

definition decodeBlobInfoFromNewSort :: "JSONBlobInfo \<Rightarrow> serializationProfile \<Rightarrow> error + BlobInfo" where
  "decodeBlobInfoFromNewSort tmp p = decodeBlobInfo p tmp"

definition decodeBlobInfoFromOldSort :: "JSONBlobInfo \<Rightarrow> serializationProfile \<Rightarrow> error + BlobInfo" where
  "decodeBlobInfoFromOldSort tmp p = decodeBlobInfo p tmp"

definition unmarshalBlobInfoNewSort :: "json \<Rightarrow> error + BlobInfo" where
  "unmarshalBlobInfoNewSort j =
     (case decode_struct fieldBlobInfo zeroJSONBlobInfo j of
        None \<Rightarrow> Inl ErrJson
      | Some tmp \<Rightarrow> decodeBlobInfo ProfileNewSort tmp)"

definition unmarshalBlobInfoOldSort :: "json \<Rightarrow> error + BlobInfo" where
  "unmarshalBlobInfoOldSort j =
     (case decode_struct fieldBlobInfo zeroJSONBlobInfo j of
        None \<Rightarrow> Inl ErrJson
      | Some tmp \<Rightarrow> decodeBlobInfo ProfileOldSort tmp)"

text \<open>The method keeps the zero value of the unexported profile, \<open>ProfileNewSort\<close>.\<close>

definition BlobInfo_UnmarshalJSON :: "json \<Rightarrow> error + BlobInfo" where
  "BlobInfo_UnmarshalJSON j =
     (case decode_struct fieldBlobInfo zeroJSONBlobInfo j of
        None \<Rightarrow> Inl ErrJson
      | Some tmp \<Rightarrow> decodeBlobInfo ProfileNewSort tmp)"

fun decodeBlobInfos :: "(JSONBlobInfo \<Rightarrow> error + BlobInfo) \<Rightarrow> JSONBlobInfo list \<Rightarrow> error + BlobInfo list" where
  "decodeBlobInfos f [] = Inr []"
| "decodeBlobInfos f (b # bs) =
     (case f b of Inl e \<Rightarrow> Inl e | Inr bi \<Rightarrow>
      (case decodeBlobInfos f bs of Inl e \<Rightarrow> Inl e | Inr bis \<Rightarrow> Inr (bi # bis)))"

definition fromJSONSDBlob ::
    "serializationProfile \<Rightarrow> (JSONBlobInfo \<Rightarrow> error + BlobInfo) \<Rightarrow> JSONSDBlob \<Rightarrow> error + SDBlob" where
  "fromJSONSDBlob p f tmp =
     (case decodeSDBlobFields (js_StreamName tmp) (js_Key tmp) (js_SuggestedFileName tmp) (js_StreamHash tmp) of
        Inl e \<Rightarrow> Inl e
      | Inr (streamName, key, suggestedFileName, streamHash) \<Rightarrow>
          (case decodeBlobInfos f (js_Blobs tmp) of
             Inl e \<Rightarrow> Inl e
           | Inr blobInfos \<Rightarrow>
               Inr \<lparr>StreamName = streamName, BlobInfos = blobInfos, StreamType = js_StreamType tmp, Key = key,
                    SuggestedFileName = suggestedFileName, StreamHash = streamHash, sd_profile = p\<rparr>))"

definition unmarshalSDBlobNewSort :: "json \<Rightarrow> error + SDBlob" where
  "unmarshalSDBlobNewSort j =
     (case decode_struct fieldSDBlob zeroJSONSDBlob j of
        None \<Rightarrow> Inl ErrJson
      | Some tmp \<Rightarrow> fromJSONSDBlob ProfileNewSort (\<lambda>b. decodeBlobInfoFromNewSort b ProfileNewSort) tmp)"

definition unmarshalSDBlobOldSort :: "json \<Rightarrow> error + SDBlob" where
  "unmarshalSDBlobOldSort j =
     (case decode_struct fieldSDBlob zeroJSONSDBlob j of
        None \<Rightarrow> Inl ErrJson
      | Some tmp \<Rightarrow> fromJSONSDBlob ProfileOldSort (\<lambda>b. decodeBlobInfoFromOldSort b ProfileOldSort) tmp)"

text \<open>The predicate of a handler, on the raw keys; \<open>reg\<close> is the order in which the registry is visited.\<close>

fun profile_predicate :: "serializationProfile \<Rightarrow> string list \<Rightarrow> serializationProfile \<times> bool" where
  "profile_predicate ProfileNewSort ks =
     (case ks of
        [] \<Rightarrow> (ProfileNewSort, False)
      | k # _ \<Rightarrow> if k = [CHR 0x22] @ ''blobs'' @ [CHR 0x22] then (ProfileNewSort, True) else (ProfileNewSort, False))"
| "profile_predicate ProfileOldSort ks =
     (case ks of
        [] \<Rightarrow> (ProfileNewSort, False)
      | k # _ \<Rightarrow> if k = [CHR 0x22] @ ''stream_name'' @ [CHR 0x22] then (ProfileOldSort, True) else (ProfileNewSort, False))"

fun first_match :: "serializationProfile list \<Rightarrow> string list \<Rightarrow> serializationProfile" where
  "first_match [] ks = ProfileNewSort"
| "first_match (p # ps) ks = (case profile_predicate p ks of (q, True) \<Rightarrow> q | _ \<Rightarrow> first_match ps ks)"

definition detectSerializationProfile ::
    "(string \<Rightarrow> string list option) \<Rightarrow> serializationProfile list \<Rightarrow> string \<Rightarrow> serializationProfile" where
  "detectSerializationProfile okeys reg b =
     (case okeys b of None \<Rightarrow> ProfileNewSort | Some ks \<Rightarrow> first_match reg ks)"

definition SDBlob_UnmarshalJSON ::
    "(string \<Rightarrow> string list option) \<Rightarrow> serializationProfile list \<Rightarrow> string \<Rightarrow> json \<Rightarrow> error + SDBlob" where
  "SDBlob_UnmarshalJSON okeys reg b j =
     (case detectSerializationProfile okeys reg b of
        ProfileNewSort \<Rightarrow> unmarshalSDBlobNewSort j
      | ProfileOldSort \<Rightarrow> unmarshalSDBlobOldSort j)"

definition FromBlob ::
    "(string \<Rightarrow> string list option) \<Rightarrow> serializationProfile list \<Rightarrow> bytes \<Rightarrow> error + SDBlob" where
  "FromBlob okeys reg b =
     (case json_parse (string_of b) of
        None \<Rightarrow> Inl ErrJson
      | Some j \<Rightarrow> SDBlob_UnmarshalJSON okeys reg (string_of b) j)"

section \<open>Hashes and construction\<close>

definition BlobInfo_Hash :: "(bytes \<Rightarrow> bytes) \<Rightarrow> BlobInfo \<Rightarrow> bytes" where
  "BlobInfo_Hash sha bi =
     sha ((if Length bi > 0 then bytes_of (hex_encode (BlobHash bi)) else []) @
          bytes_of (Itoa (BlobNum bi)) @ bytes_of (hex_encode (IV bi)) @ bytes_of (Itoa (Length bi)))"

definition streamHash :: "(bytes \<Rightarrow> bytes) \<Rightarrow> string \<Rightarrow> string \<Rightarrow> string \<Rightarrow> BlobInfo list \<Rightarrow> bytes" where
  "streamHash sha hexStreamName hexKey hexSuggestedFileName blobInfos =
     sha (bytes_of hexStreamName @ bytes_of hexKey @ bytes_of hexSuggestedFileName @
          sha (concat (map (BlobInfo_Hash sha) blobInfos)))"

definition computeStreamHash :: "(bytes \<Rightarrow> bytes) \<Rightarrow> SDBlob \<Rightarrow> bytes" where
  "computeStreamHash sha s =
     streamHash sha (hex_encode (bytes_of (StreamName s))) (hex_encode (Key s))
       (hex_encode (bytes_of (SuggestedFileName s))) (BlobInfos s)"

definition SDBlob_IsValid :: "(bytes \<Rightarrow> bytes) \<Rightarrow> SDBlob \<Rightarrow> bool" where
  "SDBlob_IsValid sha s \<longleftrightarrow> computeStreamHash sha s = StreamHash s"

definition UpdateStreamHash :: "(bytes \<Rightarrow> bytes) \<Rightarrow> SDBlob \<Rightarrow> SDBlob" where
  "UpdateStreamHash sha s = s\<lparr>StreamHash := computeStreamHash sha s\<rparr>"

definition SDBlob_Hash :: "(bytes \<Rightarrow> bytes) \<Rightarrow> SDBlob \<Rightarrow> bytes" where
  "SDBlob_Hash sha s = sha (ToBlob s)"

definition SDBlob_HashHex :: "(bytes \<Rightarrow> bytes) \<Rightarrow> SDBlob \<Rightarrow> string" where
  "SDBlob_HashHex sha s = hex_encode (SDBlob_Hash sha s)"

definition NullIV :: bytes where
  "NullIV = replicate aes_BlockSize 0"

definition SetProfile :: "serializationProfile \<Rightarrow> SDBlob \<Rightarrow> SDBlob" where
  "SetProfile p s = s\<lparr>sd_profile := p, BlobInfos := map (\<lambda>bi. bi\<lparr>bi_profile := p\<rparr>) (BlobInfos s)\<rparr>"

definition GetProfile :: "SDBlob \<Rightarrow> serializationProfile" where
  "GetProfile s = sd_profile s"

definition addBlob :: "(bytes \<Rightarrow> bytes) \<Rightarrow> SDBlob \<Rightarrow> bytes \<Rightarrow> bytes \<Rightarrow> error + SDBlob" where
  "addBlob sha s b iv =
     (if length iv = 0 then Inl (Plain ''empty IV'')
      else Inr (s\<lparr>BlobInfos := BlobInfos s @
        [\<lparr>Length = int (length b), BlobNum = int (length (BlobInfos s)), BlobHash = Blob_Hash sha b, IV = iv,
          bi_profile = ProfileNewSort\<rparr>]\<rparr>))"

section \<open>Validation\<close>

definition invalid :: "string \<Rightarrow> error" where
  "invalid why = Wrapped ''invalid SD blob'' (Plain why)"

text \<open>The loop of \<open>validateSDBlob\<close>; \<open>term\<close> is the index of the terminating blob found so far.\<close>

fun validate_infos :: "cid_lib \<Rightarrow> nat \<Rightarrow> nat option \<Rightarrow> BlobInfo list \<Rightarrow> error + nat option" where
  "validate_infos L i found [] = Inr found"
| "validate_infos L i found (b # bs) =
     (if BlobNum b \<noteq> int i then Inl (invalid ''invalid blob_num'')
      else if Length b > 0 \<and> length (BlobHash b) = 0 then Inl (invalid ''missing hash'')
      else if Length b > 0 \<and> \<not> ValidateHash L (hex_encode (BlobHash b)) then Inl (invalid ''invalid hash'')
      else if Length b < 0 then Inl (invalid ''invalid length'')
      else if length (IV b) = 0 then Inl (invalid ''missing IV'')
      else if Length b = 0 then
        (if found \<noteq> None then Inl (invalid ''terminating blob can only appear once'')
         else validate_infos L (Suc i) (Some i) bs)
      else validate_infos L (Suc i) found bs)"

definition validateSDBlob :: "(bytes \<Rightarrow> bytes) \<Rightarrow> cid_lib \<Rightarrow> SDBlob \<Rightarrow> error option" where
  "validateSDBlob sha L sd =
     (if StreamType sd = [] then Some (invalid ''missing stream_type'')
      else if length (BlobInfos sd) = 0 then Some (invalid ''no blobs found'')
      else if length (Key sd) \<noteq> 32 \<and> length (Key sd) \<noteq> 16 then Some (invalid ''invalid key size'')
      else (case validate_infos L 0 None (BlobInfos sd) of
              Inl e \<Rightarrow> Some e
            | Inr found \<Rightarrow>
                (if found \<noteq> None \<and> found \<noteq> Some (length (BlobInfos sd) - 1)
                 then Some (invalid ''terminating blob must be at the end'')
                 else if length (StreamHash sd) = 0 then Some (invalid ''missing stream hash'')
                 else if StreamHash sd \<noteq> computeStreamHash sha sd then Some (invalid ''stream hash mismatch'')
                 else None)))"

definition ValidateSDBlob :: "(bytes \<Rightarrow> bytes) \<Rightarrow> cid_lib \<Rightarrow> SDBlob option \<Rightarrow> error option" where
  "ValidateSDBlob sha L sd = (case sd of None \<Rightarrow> Some ErrInvalidSDBlob | Some s \<Rightarrow> validateSDBlob sha L s)"

definition ValidateSDBlobBytes ::
    "(bytes \<Rightarrow> bytes) \<Rightarrow> cid_lib \<Rightarrow> (string \<Rightarrow> string list option) \<Rightarrow> serializationProfile list \<Rightarrow> bytes \<Rightarrow> error option" where
  "ValidateSDBlobBytes sha L okeys reg data =
     (if length data = 0 then Some ErrInvalidSDBlob
      else if json_parse (string_of data) = None then Some ErrInvalidSDBlob
      else (case FromBlob okeys reg data of
              Inl e \<Rightarrow> Some (Wrapped ''invalid SD blob'' e)
            | Inr sd \<Rightarrow> validateSDBlob sha L sd))"

section \<open>Text round trip\<close>

lemma hex_chars_plain: "is_lower_hex c \<Longrightarrow> plain_char c \<and> c \<noteq> CHR '','' \<and> c \<noteq> CHR '':''"
proof -
  assume c: "is_lower_hex c"
  have "\<not> is_lower_hex x" if "x \<in> set '',:<>&'' \<union> {CHR 0x22, CHR 0x5C}" for x
    using that by (auto simp: is_lower_hex_def less_eq_char_def)
  then have "c \<notin> set '',:<>&'' \<union> {CHR 0x22, CHR 0x5C}" using c by blast
  moreover have "48 \<le> (of_char c :: nat)" "(of_char c :: nat) \<le> 102"
    using c by (auto simp: is_lower_hex_def less_eq_char_def)
  ultimately show ?thesis by (simp add: plain_char_def)
qed

text \<open>Strings that survive the comma and colon rewriting of \<open>ToBlob\<close>.\<close>

definition tidy :: "string \<Rightarrow> bool" where
  "tidy s \<longleftrightarrow> plain s \<and> CHR '','' \<notin> set s \<and> CHR '':'' \<notin> set s"

lemma tidy_hex [simp]: "tidy (hex_encode b)"
  using set_hex_encode [of b] hex_chars_plain by (auto simp: tidy_def list_all_iff)

fun tidy_json :: "json \<Rightarrow> bool" where
  "tidy_json (JStr s) = tidy s"
| "tidy_json (JNum l) = (\<exists>i. l = Itoa i)"
| "tidy_json (JArr xs) = list_all tidy_json xs"
| "tidy_json (JObj kvs) = list_all (\<lambda>(k, v). tidy k \<and> tidy_json v) kvs"
| "tidy_json _ = True"

lemma tidy_json_plain: "tidy_json j \<Longrightarrow> plain_json j"
  by (induction j rule: tidy_json.induct) (fastforce simp: list_all_iff tidy_def)+

definition py_pad :: "token \<Rightarrow> nat" where
  "py_pad t = (if t = TComma \<or> t = TColon then 1 else 0)"

definition py_spacing :: "string \<Rightarrow> string" where
  "py_spacing s = replace_char CHR '':'' '': '' (replace_char CHR '','' '', '' s)"

lemma replace_char_append [simp]: "replace_char c n (a @ b) = replace_char c n a @ replace_char c n b"
  by (simp add: replace_char_def)

lemma replace_char_id: "c \<notin> set s \<Longrightarrow> replace_char c n s = s"
  by (induction s) (auto simp: replace_char_def)

lemma py_spacing_append [simp]: "py_spacing (a @ b) = py_spacing a @ py_spacing b"
  by (simp add: py_spacing_def)

lemma py_spacing_id: "CHR '','' \<notin> set s \<Longrightarrow> CHR '':'' \<notin> set s \<Longrightarrow> py_spacing s = s"
  by (simp add: py_spacing_def replace_char_id)

fun sep_free :: "token \<Rightarrow> bool" where
  "sep_free (TStr raw) \<longleftrightarrow> CHR '','' \<notin> set raw \<and> CHR '':'' \<notin> set raw"
| "sep_free (TNum l) \<longleftrightarrow> CHR '','' \<notin> set l \<and> CHR '':'' \<notin> set l"
| "sep_free _ = True"

lemma py_spacing_token: "sep_free t \<Longrightarrow> py_spacing (token_text t) = token_text t @ replicate (py_pad t) CHR '' ''"
proof (cases t)
  case (TStr raw)
  moreover assume "sep_free t"
  ultimately show ?thesis using py_spacing_id [of "token_text t"] by (simp add: py_pad_def)
next
  case (TNum l)
  moreover assume "sep_free t"
  ultimately show ?thesis using py_spacing_id [of l] by (simp add: py_pad_def)
qed (simp_all add: py_pad_def py_spacing_def replace_char_def)

lemma py_spacing_padded:
  "list_all sep_free ts \<Longrightarrow> py_spacing (padded (\<lambda>_. 0) ts) = padded py_pad ts"
  by (induction ts) (auto simp: padded_def py_spacing_token, simp add: py_spacing_def replace_char_def)

lemma Itoa_sep_free: "CHR '','' \<notin> set (Itoa i)" "CHR '':'' \<notin> set (Itoa i)"
proof -
  have "\<not> is_digit CHR '',''" "\<not> is_digit CHR '':''" by (simp_all add: is_digit_def less_eq_char_def)
  then have "CHR '','' \<notin> set (nat_text n)" "CHR '':'' \<notin> set (nat_text n)" for n
    using nat_text_digits [of n] by (auto simp: list_all_iff)
  then show "CHR '','' \<notin> set (Itoa i)" "CHR '':'' \<notin> set (Itoa i)" by (simp_all add: Itoa_def)
qed

lemma sep_free_separate:
  "(\<And>ts. ts \<in> set tss \<Longrightarrow> list_all sep_free ts) \<Longrightarrow> list_all sep_free (separate tss)"
  by (induction tss rule: separate.induct) auto

lemma sep_free_tokens: "tidy_json j \<Longrightarrow> list_all sep_free (tokens j)"
proof (induction j rule: tokens.induct)
  case (5 xs)
  then show ?case by (auto simp: list_all_iff [of tidy_json] intro!: sep_free_separate)
next
  case (6 kvs)
  have "list_all sep_free (TStr (quote k) # TColon # tokens v)" if "(k, v) \<in> set kvs" for k v
    using 6 that by (fastforce simp: list_all_iff [of "\<lambda>(k, v). _ k v"] tidy_def quote_plain)
  then show ?case by (auto intro!: sep_free_separate)
qed (auto simp: tidy_def quote_plain Itoa_sep_free)

lemma json_parse_ToBlob_text:
  assumes "tidy_json j" "jdepth j \<le> maxNestingDepth"
  shows "py_spacing (json_print j) = padded py_pad (tokens j)"
    and "json_parse (py_spacing (json_print j)) = Some j"
proof -
  show "py_spacing (json_print j) = padded py_pad (tokens j)"
    using py_spacing_padded [OF sep_free_tokens [OF assms(1)]] by (simp add: json_print_padded)
  then show "json_parse (py_spacing (json_print j)) = Some j"
    using assms by (simp add: json_parse_padded tidy_json_plain)
qed

section \<open>Field round trip\<close>

lemma field_names [simp]:
  "lower_name ''length''" "lower_name ''blob_num''" "lower_name ''blob_hash''" "lower_name ''iv''"
  "lower_name ''stream_name''" "lower_name ''blobs''" "lower_name ''stream_type''" "lower_name ''key''"
  "lower_name ''suggested_file_name''" "lower_name ''stream_hash''"
  by (simp_all add: lower_name_def less_eq_char_def)

lemma tidy_field_names [simp]:
  "tidy ''length''" "tidy ''blob_num''" "tidy ''blob_hash''" "tidy ''iv''"
  "tidy ''stream_name''" "tidy ''blobs''" "tidy ''stream_type''" "tidy ''key''"
  "tidy ''suggested_file_name''" "tidy ''stream_hash''"
  by (simp_all add: tidy_def plain_char_def)

definition ints_ok :: "SDBlob \<Rightarrow> bool" where
  "ints_ok s \<longleftrightarrow> (\<forall>bi \<in> set (BlobInfos s). in_i64 (Length bi) \<and> in_i64 (BlobNum bi))"

lemma decode_jsonBlobInfo:
  assumes "in_i64 (jb_Length b)" "in_i64 (jb_BlobNum b)"
  shows "decode_struct fieldBlobInfo zeroJSONBlobInfo (jsonBlobInfoNewSort b) = Some b"
    and "decode_struct fieldBlobInfo zeroJSONBlobInfo (jsonBlobInfoOldSort b) = Some b"
  using assms
  by (simp_all add: decode_struct_def jsonBlobInfoNewSort_def jsonBlobInfoOldSort_def hash_member_def fieldBlobInfo_def
      names_lower decode_int_def decode_str_def ParseInt_Itoa zeroJSONBlobInfo_def)

definition toJSONSDBlob :: "SDBlob \<Rightarrow> JSONSDBlob" where
  "toJSONSDBlob s = \<lparr>js_StreamName = hex_encode (bytes_of (StreamName s)), js_Blobs = map toJSONBlobInfo (BlobInfos s),
     js_StreamType = StreamType s, js_Key = hex_encode (Key s),
     js_SuggestedFileName = hex_encode (bytes_of (SuggestedFileName s)), js_StreamHash = hex_encode (StreamHash s)\<rparr>"

lemma decode_marshal:
  assumes "ints_ok s"
  shows "decode_struct fieldSDBlob zeroJSONSDBlob (SDBlob_MarshalJSON s) = Some (toJSONSDBlob s)"
proof -
  have "in_i64 (jb_Length b) \<and> in_i64 (jb_BlobNum b)" if "b \<in> set (map toJSONBlobInfo (BlobInfos s))" for b
    using that assms by (auto simp: ints_ok_def toJSONBlobInfo_def encodeBlobInfoCommon_def)
  then have elems:
    "decode_elems (decode_struct fieldBlobInfo) zeroJSONBlobInfo [] (map jsonBlobInfoNewSort (map toJSONBlobInfo (BlobInfos s))) =
       Some (map toJSONBlobInfo (BlobInfos s))"
    "decode_elems (decode_struct fieldBlobInfo) zeroJSONBlobInfo [] (map jsonBlobInfoOldSort (map toJSONBlobInfo (BlobInfos s))) =
       Some (map toJSONBlobInfo (BlobInfos s))"
    using decode_jsonBlobInfo by (intro decode_elems_map; blast)+
  show ?thesis
    by (cases "sd_profile s")
       (simp_all add: SDBlob_MarshalJSON_def marshalSDBlobNewSort_def marshalSDBlobOldSort_def encodeSDBlobCommon_def
          encodeBlobInfosAsNewSort_def encodeBlobInfosAsOldSort_def decode_struct_def fieldSDBlob_def names_lower
          decode_str_def decodeJSONBlobInfos_def elems [simplified] zeroJSONSDBlob_def toJSONSDBlob_def)
qed

lemma hex_encode_empty [simp]: "hex_encode b = [] \<longleftrightarrow> b = []"
  using length_hex_encode [of b] by fastforce

lemma decodeHex_encode [simp]: "decodeHex (hex_encode b) = Inr b" "decodeHexString (hex_encode (bytes_of t)) = Inr t"
proof -
  show "decodeHex (hex_encode b) = Inr b" by (simp add: decodeHex_def)
  have "bytes_of t = [] \<longleftrightarrow> t = []" by (metis length_bytes_of length_0_conv)
  then show "decodeHexString (hex_encode (bytes_of t)) = Inr t" by (simp add: decodeHexString_def)
qed

lemma decodeBlobInfo_to: "decodeBlobInfo p (toJSONBlobInfo bi) = Inr (bi\<lparr>bi_profile := p\<rparr>)"
  by (auto simp: decodeBlobInfo_def toJSONBlobInfo_def encodeBlobInfoCommon_def)

lemma BlobInfo_roundtrip:
  assumes "in_i64 (Length bi)" "in_i64 (BlobNum bi)"
  shows "BlobInfo_UnmarshalJSON (BlobInfo_MarshalJSON bi) = Inr (bi\<lparr>bi_profile := ProfileNewSort\<rparr>)"
proof -
  have "in_i64 (jb_Length (toJSONBlobInfo bi))" "in_i64 (jb_BlobNum (toJSONBlobInfo bi))"
    using assms by (simp_all add: toJSONBlobInfo_def encodeBlobInfoCommon_def)
  from decode_jsonBlobInfo [OF this] show ?thesis
    by (cases "bi_profile bi") (simp_all add: BlobInfo_UnmarshalJSON_def BlobInfo_MarshalJSON_def decodeBlobInfo_to)
qed

lemma decodeBlobInfos_map: "(\<And>x. f (g x) = Inr (h x)) \<Longrightarrow> decodeBlobInfos f (map g xs) = Inr (map h xs)"
  by (induction xs) auto

lemma fromJSONSDBlob_to: "fromJSONSDBlob p (decodeBlobInfo p) (toJSONSDBlob s) = Inr (SetProfile p s)"
  using decodeBlobInfos_map [of "decodeBlobInfo p" toJSONBlobInfo "\<lambda>bi. bi\<lparr>bi_profile := p\<rparr>", OF decodeBlobInfo_to]
  by (simp add: fromJSONSDBlob_def toJSONSDBlob_def decodeSDBlobFields_def SetProfile_def)

lemma tidy_json_BlobInfo: "tidy_json (jsonBlobInfoNewSort (toJSONBlobInfo bi))" "tidy_json (jsonBlobInfoOldSort (toJSONBlobInfo bi))"
  by (auto simp: jsonBlobInfoNewSort_def jsonBlobInfoOldSort_def toJSONBlobInfo_def encodeBlobInfoCommon_def hash_member_def)

lemma jdepth_BlobInfo: "jdepth (jsonBlobInfoNewSort b) = 1" "jdepth (jsonBlobInfoOldSort b) = 1"
  by (simp_all add: jsonBlobInfoNewSort_def jsonBlobInfoOldSort_def hash_member_def)

lemma foldr_max_const: "foldr max (map (\<lambda>_. 1) xs) (0::nat) \<le> 1"
  by (induction xs) auto

lemma SDBlob_MarshalJSON_tidy:
  assumes "tidy (StreamType s)"
  shows "tidy_json (SDBlob_MarshalJSON s)" "jdepth (SDBlob_MarshalJSON s) \<le> maxNestingDepth"
proof -
  show "tidy_json (SDBlob_MarshalJSON s)"
    using assms by (cases "sd_profile s") (auto simp: SDBlob_MarshalJSON_def marshalSDBlobNewSort_def marshalSDBlobOldSort_def
      encodeSDBlobCommon_def encodeBlobInfosAsNewSort_def encodeBlobInfosAsOldSort_def list_all_iff tidy_json_BlobInfo)
  have "foldr max (map (jdepth \<circ> f) xs) 0 \<le> 1" if "\<And>x. jdepth (f x) = 1" for f and xs :: "BlobInfo list"
    using that foldr_max_const [of xs] by (simp add: comp_def)
  from this [of "jsonBlobInfoNewSort \<circ> toJSONBlobInfo" "BlobInfos s"] this [of "jsonBlobInfoOldSort \<circ> toJSONBlobInfo" "BlobInfos s"]
  show "jdepth (SDBlob_MarshalJSON s) \<le> maxNestingDepth"
    by (cases "sd_profile s") (simp_all add: SDBlob_MarshalJSON_def marshalSDBlobNewSort_def marshalSDBlobOldSort_def
      encodeSDBlobCommon_def encodeBlobInfosAsNewSort_def encodeBlobInfosAsOldSort_def maxNestingDepth_def jdepth_BlobInfo comp_def)
qed

text \<open>What the ordered map documents, on printed objects: the raw keys, quotes included, in order.\<close>

definition okeys_ok :: "(string \<Rightarrow> string list option) \<Rightarrow> bool" where
  "okeys_ok okeys \<longleftrightarrow>
     (\<forall>pad kvs. plain_json (JObj kvs) \<longrightarrow> jdepth (JObj kvs) \<le> maxNestingDepth \<longrightarrow>
        okeys (padded pad (tokens (JObj kvs))) = Some (map (\<lambda>(k, v). CHR 0x22 # k @ [CHR 0x22]) kvs))"

lemma first_match_blobs:
  assumes "set reg = {ProfileNewSort, ProfileOldSort}"
  shows "first_match reg ((CHR 0x22 # ''blobs'' @ [CHR 0x22]) # ks) = ProfileNewSort"
    and "first_match reg ((CHR 0x22 # ''stream_name'' @ [CHR 0x22]) # ks) = ProfileOldSort"
proof -
  show "first_match reg ((CHR 0x22 # ''blobs'' @ [CHR 0x22]) # ks) = ProfileNewSort"
  proof (induction reg)
    case (Cons p reg)
    then show ?case by (cases p) simp_all
  qed simp
  have "ProfileOldSort \<in> set reg" using assms by simp
  then show "first_match reg ((CHR 0x22 # ''stream_name'' @ [CHR 0x22]) # ks) = ProfileOldSort"
  proof (induction reg)
    case (Cons p reg)
    then show ?case by (cases p) simp_all
  qed simp
qed

lemma detect_ToBlob:
  assumes "okeys_ok okeys" "set reg = {ProfileNewSort, ProfileOldSort}" "tidy (StreamType s)"
  shows "detectSerializationProfile okeys reg (padded py_pad (tokens (SDBlob_MarshalJSON s))) = sd_profile s"
proof -
  have ok: "plain_json (SDBlob_MarshalJSON s)" "jdepth (SDBlob_MarshalJSON s) \<le> maxNestingDepth"
    using SDBlob_MarshalJSON_tidy [OF assms(3)] by (simp_all add: tidy_json_plain)
  obtain kvs where kvs: "SDBlob_MarshalJSON s = JObj kvs"
      "fst (hd kvs) = (case sd_profile s of ProfileNewSort \<Rightarrow> ''blobs'' | ProfileOldSort \<Rightarrow> ''stream_name'')" "kvs \<noteq> []"
    by (cases "sd_profile s") (simp_all add: SDBlob_MarshalJSON_def marshalSDBlobNewSort_def marshalSDBlobOldSort_def encodeSDBlobCommon_def)
  then obtain v kvs' where "kvs = (case sd_profile s of ProfileNewSort \<Rightarrow> ''blobs'' | ProfileOldSort \<Rightarrow> ''stream_name'', v) # kvs'"
    by (cases kvs) auto
  moreover have "okeys (padded py_pad (tokens (JObj kvs))) = Some (map (\<lambda>(k, v). CHR 0x22 # k @ [CHR 0x22]) kvs)"
    using assms(1) ok kvs(1) by (simp add: okeys_ok_def)
  ultimately show ?thesis
    using first_match_blobs [OF assms(2)] kvs(1)
    by (cases "sd_profile s") (simp_all add: detectSerializationProfile_def)
qed

section \<open>The validation loop\<close>

definition info_ok :: "cid_lib \<Rightarrow> nat \<Rightarrow> BlobInfo \<Rightarrow> bool" where
  "info_ok L i b \<longleftrightarrow> BlobNum b = int i \<and> 0 \<le> Length b \<and> IV b \<noteq> [] \<and>
     (0 < Length b \<longrightarrow> BlobHash b \<noteq> [] \<and> ValidateHash L (hex_encode (BlobHash b)))"

fun zeros :: "nat \<Rightarrow> BlobInfo list \<Rightarrow> nat list" where
  "zeros i [] = []"
| "zeros i (b # bs) = (if Length b = 0 then [i] else []) @ zeros (Suc i) bs"

lemma zeros_append: "zeros i (as @ bs) = zeros i as @ zeros (i + length as) bs"
  by (induction as arbitrary: i) auto

lemma zeros_bound: "z \<in> set (zeros i bs) \<Longrightarrow> i \<le> z \<and> z < i + length bs"
  by (induction bs arbitrary: i) (fastforce split: if_splits)+

lemma zeros_empty: "zeros i bs = [] \<longleftrightarrow> (\<forall>b \<in> set bs. Length b \<noteq> 0)"
  by (induction bs arbitrary: i) auto

lemma validate_infos_Inr:
  "validate_infos L i found bs = Inr f \<longleftrightarrow>
     (\<forall>k < length bs. info_ok L (i + k) (bs ! k)) \<and>
     (case found of
        None \<Rightarrow> zeros i bs = [] \<and> f = None \<or> (\<exists>z. zeros i bs = [z] \<and> f = Some z)
      | Some z \<Rightarrow> zeros i bs = [] \<and> f = Some z)"
proof (induction bs arbitrary: i found)
  case Nil
  then show ?case by (auto split: option.splits)
next
  case (Cons b bs)
  have nth: "(\<forall>k < length (b # bs). info_ok L (i + k) ((b # bs) ! k)) \<longleftrightarrow>
      info_ok L i b \<and> (\<forall>k < length bs. info_ok L (Suc i + k) (bs ! k))"
    by (simp add: All_less_Suc2)
  show ?case
    unfolding nth using Cons.IH [of "Suc i"]
    by (cases "Length b = 0"; cases found) (auto simp: info_ok_def)
qed

lemma zeros_at_end:
  assumes "bs \<noteq> []"
  shows "zeros 0 bs = [] \<or> zeros 0 bs = [length bs - 1] \<longleftrightarrow> (\<forall>k < length bs - 1. Length (bs ! k) \<noteq> 0)"
proof -
  obtain as b where bs: "bs = as @ [b]" using assms by (metis rev_exhaust)
  have "zeros 0 bs = [] \<or> zeros 0 bs = [length bs - 1] \<longleftrightarrow> zeros 0 as = []"
    using zeros_bound [of "length as" 0 as] by (auto simp: bs zeros_append append_eq_Cons_conv)
  also have "\<dots> \<longleftrightarrow> (\<forall>k < length as. Length (as ! k) \<noteq> 0)"
    unfolding zeros_empty by (simp add: all_set_conv_all_nth)
  finally show ?thesis by (auto simp: bs nth_append)
qed

lemma FromBlob_ToBlob_lemma:
  assumes "okeys_ok okeys" "set reg = {ProfileNewSort, ProfileOldSort}" "tidy (StreamType s)" "ints_ok s"
  shows "FromBlob okeys reg (ToBlob s) = Inr (SetProfile (sd_profile s) s)"
proof -
  let ?j = "SDBlob_MarshalJSON s"
  have t: "string_of (ToBlob s) = py_spacing (json_print ?j)" by (simp add: ToBlob_def py_spacing_def)
  note parse = json_parse_ToBlob_text [OF SDBlob_MarshalJSON_tidy [OF assms(3)]]
  have "SDBlob_UnmarshalJSON okeys reg (padded py_pad (tokens ?j)) ?j = Inr (SetProfile (sd_profile s) s)"
    using detect_ToBlob [OF assms(1-3)] decode_marshal [OF assms(4)] fromJSONSDBlob_to
    by (cases "sd_profile s") (simp_all add: SDBlob_UnmarshalJSON_def unmarshalSDBlobNewSort_def unmarshalSDBlobOldSort_def
        decodeBlobInfoFromNewSort_def decodeBlobInfoFromOldSort_def)
  then show ?thesis using parse by (simp add: FromBlob_def t)
qed

lemma validateSDBlob_iff_lemma:
  "validateSDBlob sha L sd = None \<longleftrightarrow>
     StreamType sd \<noteq> [] \<and> BlobInfos sd \<noteq> [] \<and> length (Key sd) \<in> {16, 32} \<and>
     (\<forall>i < length (BlobInfos sd). let b = BlobInfos sd ! i in
        BlobNum b = int i \<and> 0 \<le> Length b \<and> IV b \<noteq> [] \<and>
        (0 < Length b \<longrightarrow> BlobHash b \<noteq> [] \<and> ValidateHash L (hex_encode (BlobHash b))) \<and>
        (Length b = 0 \<longrightarrow> i = length (BlobInfos sd) - 1)) \<and>
     StreamHash sd \<noteq> [] \<and> StreamHash sd = computeStreamHash sha sd"
    (is "?lhs \<longleftrightarrow> ?rhs")
proof -
  let ?bs = "BlobInfos sd"
  define f where "f = validate_infos L 0 None ?bs"
  have "(\<exists>z. f = Inr z \<and> (z = None \<or> z = Some (length ?bs - 1))) \<longleftrightarrow>
      (\<forall>k < length ?bs. info_ok L k (?bs ! k)) \<and> (zeros 0 ?bs = [] \<or> zeros 0 ?bs = [length ?bs - 1])"
    unfolding f_def validate_infos_Inr by auto
  moreover have "validateSDBlob sha L sd = None \<longleftrightarrow> StreamType sd \<noteq> [] \<and> ?bs \<noteq> [] \<and> length (Key sd) \<in> {16, 32} \<and>
      (\<exists>z. f = Inr z \<and> (z = None \<or> z = Some (length ?bs - 1))) \<and> StreamHash sd \<noteq> [] \<and> StreamHash sd = computeStreamHash sha sd"
    unfolding validateSDBlob_def f_def [symmetric] by (cases f) auto
  moreover have "(\<forall>k < length ?bs - 1. Length (?bs ! k) \<noteq> 0) \<longleftrightarrow>
      (\<forall>i < length ?bs. Length (?bs ! i) = 0 \<longrightarrow> i = length ?bs - 1)" if "?bs \<noteq> []"
  proof -
    have "k < length ?bs - 1 \<longleftrightarrow> k < length ?bs \<and> k \<noteq> length ?bs - 1" for k using that by (cases ?bs) auto
    then show ?thesis by blast
  qed
  ultimately have "?lhs \<longleftrightarrow> StreamType sd \<noteq> [] \<and> ?bs \<noteq> [] \<and> length (Key sd) \<in> {16, 32} \<and>
      (\<forall>i < length ?bs. info_ok L i (?bs ! i) \<and> (Length (?bs ! i) = 0 \<longrightarrow> i = length ?bs - 1)) \<and>
      StreamHash sd \<noteq> [] \<and> StreamHash sd = computeStreamHash sha sd"
    using zeros_at_end [of ?bs] by blast
  then show ?thesis unfolding info_ok_def Let_def by simp
qed

section \<open>Properties\<close>

text \<open>
  C20. Validation accepts a descriptor exactly when it has a stream type, a key of 16 or 32 bytes and at
  least one blob, the blobs are numbered by position, carry an IV and, unless empty, a valid hash, no
  length is negative, only the last blob may be empty, and the stored stream hash is the computed one.
\<close>

theorem validateSDBlob_iff:
  "validateSDBlob sha L sd = None \<longleftrightarrow>
     StreamType sd \<noteq> [] \<and> BlobInfos sd \<noteq> [] \<and> length (Key sd) \<in> {16, 32} \<and>
     (\<forall>i < length (BlobInfos sd). let b = BlobInfos sd ! i in
        BlobNum b = int i \<and> 0 \<le> Length b \<and> IV b \<noteq> [] \<and>
        (0 < Length b \<longrightarrow> BlobHash b \<noteq> [] \<and> ValidateHash L (hex_encode (BlobHash b))) \<and>
        (Length b = 0 \<longrightarrow> i = length (BlobInfos sd) - 1)) \<and>
     StreamHash sd \<noteq> [] \<and> StreamHash sd = computeStreamHash sha sd"
  by (rule validateSDBlob_iff_lemma)

text \<open>
  C18. A stream descriptor survives serialisation, in either field order and for any iteration order of
  the profile registry: parsing the bytes \<open>ToBlob\<close> writes gives back the descriptor, its profile detected
  from the first key and stamped on every blob info. The lengths and numbers have to be 64-bit integers
  and the stream type free of characters that JSON escapes or the spacing rewrite touches.
\<close>

theorem FromBlob_ToBlob:
  assumes "okeys_ok okeys" "set reg = {ProfileNewSort, ProfileOldSort}" "tidy (StreamType s)" "ints_ok s"
  shows "FromBlob okeys reg (ToBlob s) = Inr (SetProfile (sd_profile s) s)"
  using assms by (rule FromBlob_ToBlob_lemma)

definition sample_okeys :: "string \<Rightarrow> string list option" where
  "sample_okeys t =
     (case json_parse t of
        Some (JObj kvs) \<Rightarrow> Some (map (\<lambda>(k, v). CHR 0x22 # k @ [CHR 0x22]) kvs)
      | _ \<Rightarrow> None)"

lemma sample_okeys_ok: "okeys_ok sample_okeys"
  by (simp add: okeys_ok_def sample_okeys_def json_parse_padded del: tokens.simps plain_json.simps jdepth.simps)

definition sample_sd :: SDBlob where
  "sample_sd = \<lparr>StreamName = ''a'', BlobInfos = [\<lparr>Length = 0, BlobNum = 0, BlobHash = [], IV = [1, 2], bi_profile = ProfileNewSort\<rparr>],
     StreamType = StreamTypeLBRYFile, Key = [3], SuggestedFileName = [], StreamHash = [4], sd_profile = ProfileOldSort\<rparr>"

theorem FromBlob_ToBlob_witness:
  "FromBlob sample_okeys [ProfileOldSort, ProfileNewSort] (ToBlob sample_sd) = Inr (SetProfile (sd_profile sample_sd) sample_sd)"
  by (rule FromBlob_ToBlob [OF sample_okeys_ok])
     (auto simp: sample_sd_def StreamTypeLBRYFile_def tidy_def plain_char_def ints_ok_def)

theorem validateSDBlob_iff_witness:
  "validateSDBlob (\<lambda>_. [4]) sample_cid_lib (sample_sd\<lparr>Key := replicate 16 0\<rparr>) = None"
  unfolding validateSDBlob_iff
  by (simp add: sample_sd_def StreamTypeLBRYFile_def computeStreamHash_def streamHash_def)

end
