(* ===== verification/Encoder.thy ===== *)
theory Encoder
  imports SDBlob
begin

text \<open>
  The stream encoder and decoder (\<open>stream/encoder.go\<close>, \<open>stream/stream.go\<close>, \<open>stream/config.go\<close>,
  \<open>stream/result.go\<close>, \<open>stream/manifest.go\<close>).

  An \<open>io.Reader\<close> is the list of what its reads deliver, bytes and possibly an error, split when the
  buffer is smaller; an exhausted list reads as end of file. The digest is \<open>sha\<close>, the block cipher
  \<open>enc\<close> and \<open>dec\<close>, and \<open>rng i n\<close> the \<open>i\<close>-th draw of \<open>n\<close> bytes from \<open>crypto/rand\<close>, which in the
  Go version of the build returns no error.
\<close>

section \<open>Readers\<close>

datatype rerr = EOF | Err error

type_synonym reader = "(bytes \<times> rerr option) list"

fun Read :: "nat \<Rightarrow> reader \<Rightarrow> (bytes \<times> rerr option) \<times> reader" where
  "Read k [] = (([], Some EOF), [])"
| "Read k ((b, e) # r) = (if length b > k then ((take k b, None), (drop k b, e) # r) else ((b, e), r))"

text \<open>Reads are repeated while they deliver nothing and no error; buffers are never empty.\<close>

fun read_some :: "nat \<Rightarrow> reader \<Rightarrow> (bytes \<times> rerr option) \<times> reader" where
  "read_some k [] = Read k []"
| "read_some k ((b, e) # r) = (if b = [] \<and> e = None then read_some k r else Read k ((b, e) # r))"

section \<open>The encoder\<close>

definition maxBlobDataSize :: nat where
  "maxBlobDataSize = MaxBlobSize - 1"

record Encoder =
  src :: reader
  ivs :: "bytes list"
  srcSizeHint :: int
  buf :: nat
  sd :: SDBlob
  srcLen :: int
  srcHash :: bytes
  rngPos :: nat

definition emptySDBlob :: SDBlob where
  "emptySDBlob = \<lparr>StreamName = [], BlobInfos = [], StreamType = [], Key = [], SuggestedFileName = [],
                  StreamHash = [], sd_profile = ProfileNewSort\<rparr>"

definition newEncoderInternal :: "reader \<Rightarrow> bytes \<Rightarrow> Encoder" where
  "newEncoderInternal r key = \<lparr>src = r, ivs = [], srcSizeHint = 0, buf = maxBlobDataSize,
     sd = emptySDBlob\<lparr>StreamType := StreamTypeLBRYFile, Key := key\<rparr>, srcLen = 0, srcHash = [], rngPos = 0\<rparr>"

definition generateRandomBytes :: "(nat \<Rightarrow> nat \<Rightarrow> bytes) \<Rightarrow> nat \<Rightarrow> int \<Rightarrow> error + bytes" where
  "generateRandomBytes rng pos n =
     (if n \<le> 0 then Inl (Plain ''invalid size for random bytes'') else Inr (rng pos (nat n)))"

definition generateKey :: "(nat \<Rightarrow> nat \<Rightarrow> bytes) \<Rightarrow> nat \<Rightarrow> error + bytes" where
  "generateKey rng pos = generateRandomBytes rng pos 32"

definition randIV :: "(nat \<Rightarrow> nat \<Rightarrow> bytes) \<Rightarrow> nat \<Rightarrow> error + bytes" where
  "randIV rng pos = generateRandomBytes rng pos (int aes_BlockSize)"

definition NewEncoder :: "(nat \<Rightarrow> nat \<Rightarrow> bytes) \<Rightarrow> nat \<Rightarrow> reader \<Rightarrow> Encoder option" where
  "NewEncoder rng pos r =
     (case generateKey rng pos of
        Inl _ \<Rightarrow> None
      | Inr key \<Rightarrow> Some ((newEncoderInternal r key)\<lparr>rngPos := Suc pos\<rparr>))"

definition NewEncoderWithIVs :: "reader \<Rightarrow> bytes \<Rightarrow> bytes list \<Rightarrow> Encoder option" where
  "NewEncoderWithIVs r key vs =
     (if length key \<noteq> 32 \<and> length key \<noteq> 16 then None
      else Some ((newEncoderInternal r key)\<lparr>ivs := vs\<rparr>))"

definition NewEncoderFromSD :: "reader \<Rightarrow> SDBlob \<Rightarrow> Encoder option" where
  "NewEncoderFromSD r sdBlob =
     (case NewEncoderWithIVs r (Key sdBlob) (map IV (BlobInfos sdBlob)) of
        None \<Rightarrow> None
      | Some e \<Rightarrow> Some (e\<lparr>sd := SetProfile (GetProfile sdBlob)
          ((sd e)\<lparr>StreamName := StreamName sdBlob, SuggestedFileName := SuggestedFileName sdBlob\<rparr>)\<rparr>))"

definition nextIV :: "(nat \<Rightarrow> nat \<Rightarrow> bytes) \<Rightarrow> Encoder \<Rightarrow> error + (bytes \<times> Encoder)" where
  "nextIV rng e =
     (case ivs e of
        [] \<Rightarrow> (case randIV rng (rngPos e) of Inl er \<Rightarrow> Inl er | Inr iv \<Rightarrow> Inr (iv, e\<lparr>rngPos := Suc (rngPos e)\<rparr>))
      | iv # rest \<Rightarrow> Inr (iv, e\<lparr>ivs := rest\<rparr>))"

definition isTerminated :: "Encoder \<Rightarrow> bool" where
  "isTerminated e \<longleftrightarrow> length (BlobInfos (sd e)) \<ge> 1 \<and> Length (last (BlobInfos (sd e))) = 0"

definition ensureTerminated :: "(nat \<Rightarrow> nat \<Rightarrow> bytes) \<Rightarrow> (bytes \<Rightarrow> bytes) \<Rightarrow> Encoder \<Rightarrow> error option \<times> Encoder" where
  "ensureTerminated rng sha e =
     (if isTerminated e then (None, e)
      else (case nextIV rng e of
              Inl er \<Rightarrow> (Some er, e)
            | Inr (iv, e1) \<Rightarrow>
                (case addBlob sha (sd e1) [] iv of
                   Inl er \<Rightarrow> (Some er, e1)
                 | Inr sd' \<Rightarrow> (None, e1\<lparr>sd := sd'\<rparr>))))"

definition Next ::
    "(nat \<Rightarrow> nat \<Rightarrow> bytes) \<Rightarrow> (bytes \<Rightarrow> bytes) \<Rightarrow> (bytes \<Rightarrow> bytes \<Rightarrow> bytes) \<Rightarrow> Encoder \<Rightarrow> (rerr + bytes) \<times> Encoder" where
  "Next rng sha enc e0 =
     (case read_some (buf e0) (src e0) of ((d, readErr), src') \<Rightarrow>
      let e = e0\<lparr>src := src'\<rparr> in
      if length d > 0 then
        (let e1 = e\<lparr>srcLen := i64 (srcLen e + int (length d)), srcHash := srcHash e @ d\<rparr> in
         (case nextIV rng e1 of
            Inl er \<Rightarrow> (Inl (Err er), e1)
          | Inr (iv, e2) \<Rightarrow>
              (case NewBlob enc d (Key (sd e2)) iv of
                 Inl er \<Rightarrow> (Inl (Err er), e2)
               | Inr b \<Rightarrow>
                   (case addBlob sha (sd e2) b iv of
                      Inl er \<Rightarrow> (Inl (Err er), e2)
                    | Inr sd' \<Rightarrow> (Inr b, e2\<lparr>sd := sd'\<rparr>)))))
      else
        (case readErr of
           Some EOF \<Rightarrow>
             (case ensureTerminated rng sha e of
                (Some er, e1) \<Rightarrow> (Inl (Err er), e1)
              | (None, e1) \<Rightarrow> (Inl EOF, e1))
         | Some er \<Rightarrow> (Inl er, e)
         | None \<Rightarrow> (Inl EOF, e)))"

definition SDBlob_of :: "(bytes \<Rightarrow> bytes) \<Rightarrow> Encoder \<Rightarrow> Encoder" where
  "SDBlob_of sha e = e\<lparr>sd := UpdateStreamHash sha (sd e)\<rparr>"

definition SourceLen :: "Encoder \<Rightarrow> int" where
  "SourceLen e = srcLen e"

definition SourceHash :: "(bytes \<Rightarrow> bytes) \<Rightarrow> Encoder \<Rightarrow> bytes" where
  "SourceHash sha e = sha (srcHash e)"

definition SourceSizeHint :: "int \<Rightarrow> Encoder \<Rightarrow> Encoder" where
  "SourceSizeHint hint e = e\<lparr>srcSizeHint := hint\<rparr>"

definition pending_bytes :: "reader \<Rightarrow> nat" where
  "pending_bytes r = sum_list (map (length \<circ> fst) r)"

lemma read_some_shorter:
  "read_some k r = ((d, e), r') \<Longrightarrow> pending_bytes r = length d + pending_bytes r'"
  by (induction k r rule: read_some.induct) (auto simp: pending_bytes_def split: if_splits)

lemma nextIV_src: "nextIV rng e = Inr (iv, e') \<Longrightarrow> src e' = src e \<and> sd e' = sd e \<and> buf e' = buf e"
  by (auto simp: nextIV_def split: list.splits sum.splits)

lemma Next_shorter:
  assumes "Next rng sha enc e = (Inr b, e')"
  shows "pending_bytes (src e') < pending_bytes (src e)"
proof -
  obtain d re src' where r: "read_some (buf e) (src e) = ((d, re), src')" by (metis surj_pair)
  then have "0 < length d" "src e' = src'"
    using assms by (auto simp: Next_def Let_def split: if_splits sum.splits prod.splits option.splits rerr.splits
        dest: nextIV_src)
  then show ?thesis using read_some_shorter [OF r] by simp
qed

text \<open>The loop shared by \<open>Stream\<close>, \<open>Encode\<close> and \<open>CreateManifestFromSource\<close>: blobs until the end or an error.\<close>

function next_all ::
    "(nat \<Rightarrow> nat \<Rightarrow> bytes) \<Rightarrow> (bytes \<Rightarrow> bytes) \<Rightarrow> (bytes \<Rightarrow> bytes \<Rightarrow> bytes) \<Rightarrow> Encoder \<Rightarrow> bytes list \<times> error option \<times> Encoder" where
  "next_all rng sha enc e =
     (case Next rng sha enc e of
        (Inr b, e') \<Rightarrow> (let (bs, er, e'') = next_all rng sha enc e' in (b # bs, er, e''))
      | (Inl EOF, e') \<Rightarrow> ([], None, e')
      | (Inl (Err er), e') \<Rightarrow> ([], Some er, e'))"
  by pat_completeness auto
termination
  by (relation "measure (\<lambda>(rng, sha, enc, e). pending_bytes (src e))") (auto dest: Next_shorter [OF sym])

declare next_all.simps [simp del]

text \<open>\<open>make\<close> with a negative hint has a capacity below the length and panics (\<open>None\<close>).\<close>

definition ceil_div :: "int \<Rightarrow> int \<Rightarrow> int" where
  "ceil_div a b = - ((- a) div b)"

definition Encoder_Stream ::
    "(nat \<Rightarrow> nat \<Rightarrow> bytes) \<Rightarrow> (bytes \<Rightarrow> bytes) \<Rightarrow> (bytes \<Rightarrow> bytes \<Rightarrow> bytes) \<Rightarrow> Encoder \<Rightarrow> (error + bytes list) option \<times> Encoder" where
  "Encoder_Stream rng sha enc e =
     (if 1 + ceil_div (srcSizeHint e) (int maxBlobDataSize) < 1 then (None, e)
      else (case next_all rng sha enc e of
              (bs, Some er, e1) \<Rightarrow> (Some (Inl er), e1)
            | (bs, None, e1) \<Rightarrow>
                (let e2 = SDBlob_of sha e1 in (Some (Inr (ToBlob (sd e2) # bs)), e2))))"

definition New ::
    "(nat \<Rightarrow> nat \<Rightarrow> bytes) \<Rightarrow> (bytes \<Rightarrow> bytes) \<Rightarrow> (bytes \<Rightarrow> bytes \<Rightarrow> bytes) \<Rightarrow> reader \<Rightarrow> (error + bytes list) option" where
  "New rng sha enc r = (case NewEncoder rng 0 r of None \<Rightarrow> None | Some e \<Rightarrow> fst (Encoder_Stream rng sha enc e))"

section \<open>Decoding\<close>

fun decode_blobs ::
    "(bytes \<Rightarrow> bytes) \<Rightarrow> (bytes \<Rightarrow> bytes \<Rightarrow> bytes) \<Rightarrow> bytes \<Rightarrow> bytes list \<Rightarrow> nat \<Rightarrow> nat \<Rightarrow> bytes \<Rightarrow> BlobInfo list
       \<Rightarrow> (error + bytes) option" where
  "decode_blobs sha dec key s nInfos i file [] = Some (Inr file)"
| "decode_blobs sha dec key s nInfos i file (bi # bis) =
     (if Length bi = 0 then
        (if i \<noteq> nInfos - 1 then Some (Inl (Plain ''got 0-length blob before end of stream''))
         else Some (Inr file))
      else if BlobNum bi \<noteq> int i then Some (Inl (Plain ''blobs are out of order in sd blob''))
      else (case nth_opt s (i + 1) of
              None \<Rightarrow> None
            | Some b \<Rightarrow>
                (if Blob_Hash sha b \<noteq> BlobHash bi then Some (Inl (Plain ''blob hash doesn't match hash in blobInfo''))
                 else (case Blob_Plaintext dec b key (IV bi) of
                         Inl er \<Rightarrow> Some (Inl er)
                       | Inr data \<Rightarrow> decode_blobs sha dec key s nInfos (Suc i) (file @ data) bis))))"

definition Decode ::
    "(bytes \<Rightarrow> bytes) \<Rightarrow> (bytes \<Rightarrow> bytes \<Rightarrow> bytes) \<Rightarrow> (string \<Rightarrow> string list option) \<Rightarrow> serializationProfile list \<Rightarrow> bytes list
       \<Rightarrow> (error + bytes) option" where
  "Decode sha dec okeys reg s =
     (if length s < 2 then Some (Inl (Plain ''stream must be at least 2 blobs long''))
      else (case FromBlob okeys reg (s ! 0) of
              Inl er \<Rightarrow> Some (Inl er)
            | Inr sdBlob \<Rightarrow>
                (if \<not> SDBlob_IsValid sha sdBlob then Some (Inl (Plain ''sd blob is not valid''))
                 else if BlobInfos sdBlob = [] then None
                 else if Length (last (BlobInfos sdBlob)) \<noteq> 0
                      then Some (Inl (Plain ''sd blob is missing the terminating 0-length blob''))
                 else if length (tl s) \<noteq> length (BlobInfos sdBlob) - 1
                      then Some (Inl (Plain ''number of blobs in stream does not match number of blobs in sd info''))
                 else decode_blobs sha dec (Key sdBlob) s (length (BlobInfos sdBlob)) 0 [] (BlobInfos sdBlob))))"

definition Data ::
    "(bytes \<Rightarrow> bytes) \<Rightarrow> (bytes \<Rightarrow> bytes \<Rightarrow> bytes) \<Rightarrow> (string \<Rightarrow> string list option) \<Rightarrow> serializationProfile list \<Rightarrow> bytes list
       \<Rightarrow> (error + bytes) option" where
  "Data sha dec okeys reg s = Decode sha dec okeys reg s"

section \<open>Encoding with a configuration\<close>

record Chunk =
  ch_Number :: nat
  ch_Hash :: string
  ch_Data :: bytes
  ch_Size :: nat
  ch_StreamID :: string

record StreamConfig =
  ChunkHandler :: "(Chunk \<Rightarrow> error option) option"
  ChunkSize :: int
  ExistingSDBlob :: bytes
  SDHandler :: "(SDBlob \<Rightarrow> bytes \<Rightarrow> error option) option"
  cfg_StreamName :: string
  cfg_SuggestedFileName :: string

record StreamResult =
  res_SDBlob :: SDBlob
  res_SDBlobData :: bytes
  res_SDBlobHash :: string
  res_StreamHash :: string
  res_SourceSize :: int
  res_ContentBlobs :: "bytes list"
  res_ContentHashes :: "string list"
  res_TotalChunks :: int
  res_ChunkSizes :: "int list"

definition zeroConfig :: StreamConfig where
  "zeroConfig = \<lparr>ChunkHandler = None, ChunkSize = 0, ExistingSDBlob = [], SDHandler = None,
                 cfg_StreamName = [], cfg_SuggestedFileName = []\<rparr>"

definition ErrUnexpectedEOF :: error where
  "ErrUnexpectedEOF = Plain ''unexpected EOF''"

definition chunkSize_of :: "StreamConfig \<Rightarrow> nat" where
  "chunkSize_of config =
     (if ChunkSize config > 0
      then (if ChunkSize config \<ge> int MaxBlobSize then maxBlobDataSize else nat (ChunkSize config))
      else maxBlobDataSize)"

definition handle_chunk :: "(bytes \<Rightarrow> bytes) \<Rightarrow> (Chunk \<Rightarrow> error option) option \<Rightarrow> nat \<Rightarrow> bytes \<Rightarrow> error option" where
  "handle_chunk sha h n b =
     (case h of
        None \<Rightarrow> None
      | Some f \<Rightarrow>
          (case f \<lparr>ch_Number = n, ch_Hash = Blob_HashHex sha b, ch_Data = b, ch_Size = length b, ch_StreamID = []\<rparr> of
             None \<Rightarrow> None
           | Some er \<Rightarrow> (if er = ErrUnexpectedEOF then Some er else Some (Wrapped ''chunk handler failed for chunk'' er))))"

function encode_all ::
    "(nat \<Rightarrow> nat \<Rightarrow> bytes) \<Rightarrow> (bytes \<Rightarrow> bytes) \<Rightarrow> (bytes \<Rightarrow> bytes \<Rightarrow> bytes) \<Rightarrow> (Chunk \<Rightarrow> error option) option \<Rightarrow> nat \<Rightarrow> Encoder
       \<Rightarrow> bytes list \<times> error option \<times> Encoder" where
  "encode_all rng sha enc h n e =
     (case Next rng sha enc e of
        (Inr b, e') \<Rightarrow>
          (case handle_chunk sha h n b of
             Some er \<Rightarrow> ([b], Some er, e')
           | None \<Rightarrow> (let (bs, er, e'') = encode_all rng sha enc h (Suc n) e' in (b # bs, er, e'')))
      | (Inl EOF, e') \<Rightarrow> ([], None, e')
      | (Inl (Err er), e') \<Rightarrow> ([], Some er, e'))"
  by pat_completeness auto
termination
  by (relation "measure (\<lambda>(rng, sha, enc, h, n, e). pending_bytes (src e))") (auto dest: Next_shorter [OF sym])

declare encode_all.simps [simp del]

text \<open>The first part of \<open>Encode\<close>: take over an existing descriptor; the flag says that it has blob infos.\<close>

definition adopt_existing ::
    "(nat \<Rightarrow> nat \<Rightarrow> bytes) \<Rightarrow> (string \<Rightarrow> string list option) \<Rightarrow> serializationProfile list \<Rightarrow> StreamConfig \<Rightarrow> Encoder
       \<Rightarrow> error + (bool \<times> Encoder)" where
  "adopt_existing rng okeys reg config e =
     (if length (ExistingSDBlob config) = 0 then Inr (False, e)
      else (case FromBlob okeys reg (ExistingSDBlob config) of
              Inl er \<Rightarrow> Inl (Wrapped ''failed to parse existing SD blob'' er)
            | Inr sdBlob \<Rightarrow>
                (let has = length (BlobInfos sdBlob) > 0;
                     adopt = (\<lambda>sdB e. e\<lparr>sd := sdB, ivs := map IV (BlobInfos sdB)\<rparr>)
                 in if length (Key sdBlob) = 0 then
                      (case generateKey rng (rngPos e) of
                         Inl er \<Rightarrow> Inl (Wrapped ''failed to generate new key for existing SD blob'' er)
                       | Inr newKey \<Rightarrow> Inr (has, adopt (sdBlob\<lparr>Key := newKey\<rparr>) (e\<lparr>rngPos := Suc (rngPos e)\<rparr>)))
                    else if length (Key sdBlob) \<noteq> 32 then Inl (Plain ''existing SD blob has invalid key size'')
                    else Inr (has, adopt sdBlob e))))"

definition existing_chunks :: "Encoder \<Rightarrow> int list \<times> string list" where
  "existing_chunks e =
     (let bis = filter (\<lambda>bi. Length bi \<noteq> 0) (BlobInfos (sd e))
      in (map Length bis, map (\<lambda>bi. hex_encode (BlobHash bi)) (filter (\<lambda>bi. length (BlobHash bi) > 0) bis)))"

definition finish_encode ::
    "(bytes \<Rightarrow> bytes) \<Rightarrow> StreamConfig \<Rightarrow> int list \<Rightarrow> string list \<Rightarrow> bytes list \<Rightarrow> Encoder \<Rightarrow> (error + StreamResult) \<times> Encoder" where
  "finish_encode sha config sizes hashes contents e =
     (let sd1 = (if cfg_StreamName config \<noteq> [] then (sd e)\<lparr>StreamName := cfg_StreamName config\<rparr> else sd e);
          sd2 = (if cfg_SuggestedFileName config \<noteq> [] then sd1\<lparr>SuggestedFileName := cfg_SuggestedFileName config\<rparr> else sd1);
          e2 = SDBlob_of sha (e\<lparr>sd := sd2\<rparr>);
          sdBlobData = ToBlob (sd e2)
      in case (case SDHandler config of None \<Rightarrow> None | Some f \<Rightarrow> f (sd e2) sdBlobData) of
           Some er \<Rightarrow> (Inl (Wrapped ''SD handler failed'' er), e2)
         | None \<Rightarrow>
             (case ComputeBlobHash sha sdBlobData of
                Inl er \<Rightarrow> (Inl (Wrapped ''failed to compute SD blob hash'' er), e2)
              | Inr blobHash \<Rightarrow>
                  (Inr \<lparr>res_SDBlob = sd e2, res_SDBlobData = sdBlobData, res_SDBlobHash = hex_encode blobHash,
                        res_StreamHash = hex_encode (StreamHash (sd e2)), res_SourceSize = SourceLen e2,
                        res_ContentBlobs = (if ChunkHandler config = None then contents else []),
                        res_ContentHashes = hashes, res_TotalChunks = int (length (BlobInfos (sd e2))) - 1,
                        res_ChunkSizes = sizes\<rparr>, e2)))"

definition Encode ::
    "(nat \<Rightarrow> nat \<Rightarrow> bytes) \<Rightarrow> (bytes \<Rightarrow> bytes) \<Rightarrow> (bytes \<Rightarrow> bytes \<Rightarrow> bytes) \<Rightarrow> (string \<Rightarrow> string list option) \<Rightarrow>
       serializationProfile list \<Rightarrow> StreamConfig option \<Rightarrow> Encoder \<Rightarrow> (error + StreamResult) \<times> Encoder" where
  "Encode rng sha enc okeys reg cfg e0 =
     (let config = (case cfg of None \<Rightarrow> zeroConfig | Some c \<Rightarrow> c) in
      case adopt_existing rng okeys reg config e0 of
        Inl er \<Rightarrow> (Inl er, e0)
      | Inr (has, e1) \<Rightarrow>
          (let e = e1\<lparr>buf := chunkSize_of config\<rparr> in
           if has then (let (sizes, hashes) = existing_chunks e in finish_encode sha config sizes hashes [] e)
           else (case encode_all rng sha enc (ChunkHandler config) 0 e of
                   (bs, Some er, e2) \<Rightarrow> (Inl er, e2)
                 | (bs, None, e2) \<Rightarrow>
                     finish_encode sha config (map (int \<circ> length) bs) (map (Blob_HashHex sha) bs) bs e2)))"

section \<open>Creating streams\<close>

text \<open>
  \<open>stream/creator.go\<close>: a source is \<open>None\<close> for a nil reader. Options are functions on the configuration,
  applied in order. The progress callback observes the reads and does not change them.
\<close>

type_synonym StreamOption = "StreamConfig \<Rightarrow> StreamConfig"

definition applyOpts :: "StreamConfig \<Rightarrow> StreamOption list \<Rightarrow> StreamConfig" where
  "applyOpts config opts = foldl (\<lambda>c opt. opt c) config opts"

definition WithStreamName :: "string \<Rightarrow> StreamOption" where
  "WithStreamName name config = config\<lparr>cfg_StreamName := name\<rparr>"

definition WithSuggestedFileName :: "string \<Rightarrow> StreamOption" where
  "WithSuggestedFileName name config = config\<lparr>cfg_SuggestedFileName := name\<rparr>"

definition WithChunkSize :: "int \<Rightarrow> StreamOption" where
  "WithChunkSize n config = config\<lparr>ChunkSize := n\<rparr>"

definition WithExistingSDBlob :: "bytes \<Rightarrow> StreamOption" where
  "WithExistingSDBlob b config = config\<lparr>ExistingSDBlob := b\<rparr>"

definition WithChunkHandler :: "(Chunk \<Rightarrow> error option) \<Rightarrow> StreamOption" where
  "WithChunkHandler h config = config\<lparr>ChunkHandler := Some h\<rparr>"

definition WithSDHandler :: "(SDBlob \<Rightarrow> bytes \<Rightarrow> error option) \<Rightarrow> StreamOption" where
  "WithSDHandler h config = config\<lparr>SDHandler := Some h\<rparr>"

definition generateStreamID :: "(nat \<Rightarrow> nat \<Rightarrow> bytes) \<Rightarrow> nat \<Rightarrow> string" where
  "generateStreamID rng pos = hex_encode (rng pos 16)"

definition CreateStream ::
    "(nat \<Rightarrow> nat \<Rightarrow> bytes) \<Rightarrow> (bytes \<Rightarrow> bytes) \<Rightarrow> (bytes \<Rightarrow> bytes \<Rightarrow> bytes) \<Rightarrow> (string \<Rightarrow> string list option) \<Rightarrow>
       serializationProfile list \<Rightarrow> reader option \<Rightarrow> int \<Rightarrow> StreamOption list \<Rightarrow> (error + StreamResult) option" where
  "CreateStream rng sha enc okeys reg source n opts =
     (case source of
        None \<Rightarrow> Some (Inl (Plain ''source reader cannot be nil''))
      | Some r \<Rightarrow>
          (let config = applyOpts zeroConfig opts;
               streamID = generateStreamID rng 0
           in (case NewEncoder rng 1 r of
                 None \<Rightarrow> None
               | Some e0 \<Rightarrow>
                   (let e1 = (if n > 0 then SourceSizeHint n e0 else e0);
                        config1 = (case ChunkHandler config of
                                     None \<Rightarrow> config
                                   | Some h \<Rightarrow> config\<lparr>ChunkHandler := Some (\<lambda>ch. h (ch\<lparr>ch_StreamID := streamID\<rparr>))\<rparr>)
                    in (case Encode rng sha enc okeys reg (Some config1) e1 of
                          (Inl er, _) \<Rightarrow> Some (Inl (Wrapped ''failed to encode stream'' er))
                        | (Inr result, _) \<Rightarrow> Some (Inr result))))))"

definition appendOption :: "StreamOption list \<Rightarrow> StreamOption \<Rightarrow> StreamOption list" where
  "appendOption opts opt = opts @ [opt]"

definition createStreamWithMetadata ::
    "(nat \<Rightarrow> nat \<Rightarrow> bytes) \<Rightarrow> (bytes \<Rightarrow> bytes) \<Rightarrow> (bytes \<Rightarrow> bytes \<Rightarrow> bytes) \<Rightarrow> (string \<Rightarrow> string list option) \<Rightarrow>
       serializationProfile list \<Rightarrow> reader option \<Rightarrow> int \<Rightarrow> string \<Rightarrow> StreamOption list \<Rightarrow> (error + StreamResult) option" where
  "createStreamWithMetadata rng sha enc okeys reg source n filename opts =
     (let newOpts = appendOption (appendOption opts (WithStreamName filename)) (WithSuggestedFileName filename)
      in CreateStream rng sha enc okeys reg source n newOpts)"

section \<open>Manifests\<close>

text \<open>\<open>stream/manifest.go\<close>.\<close>

definition ParseManifest :: "(string \<Rightarrow> string list option) \<Rightarrow> serializationProfile list \<Rightarrow> bytes \<Rightarrow> error + SDBlob" where
  "ParseManifest okeys reg data =
     (case FromBlob okeys reg data of
        Inl er \<Rightarrow> Inl (Wrapped ''failed to parse SD blob'' er)
      | Inr s \<Rightarrow> Inr s)"

record buildManifestConfig =
  bm_streamType :: string
  bm_streamName :: string
  bm_suggestedFileName :: string

definition BuildManifest ::
    "(bytes \<Rightarrow> bytes) \<Rightarrow> BlobInfo list \<Rightarrow> bytes \<Rightarrow> (buildManifestConfig \<Rightarrow> buildManifestConfig) list \<Rightarrow> error + SDBlob" where
  "BuildManifest sha blobInfos key opts =
     (if length blobInfos = 0 then Inl (Plain ''blob infos cannot be empty'')
      else if length key \<noteq> 32 \<and> length key \<noteq> 16 then Inl (Plain ''invalid key size'')
      else (let config = foldl (\<lambda>c opt. opt c)
                  \<lparr>bm_streamType = StreamTypeLBRYFile, bm_streamName = [], bm_suggestedFileName = []\<rparr> opts
            in Inr (UpdateStreamHash sha
                 \<lparr>StreamName = bm_streamName config, BlobInfos = blobInfos, StreamType = bm_streamType config, Key = key,
                  SuggestedFileName = bm_suggestedFileName config, StreamHash = [], sd_profile = ProfileNewSort\<rparr>)))"

definition WithEncoderChunkSize :: "int \<Rightarrow> Encoder \<Rightarrow> Encoder" where
  "WithEncoderChunkSize n e = SourceSizeHint n e"

definition WithSerializationProfile :: "serializationProfile \<Rightarrow> Encoder \<Rightarrow> Encoder" where
  "WithSerializationProfile p e = e\<lparr>sd := SetProfile p (sd e)\<rparr>"

definition CreateManifestFromSource ::
    "(nat \<Rightarrow> nat \<Rightarrow> bytes) \<Rightarrow> (bytes \<Rightarrow> bytes) \<Rightarrow> (bytes \<Rightarrow> bytes \<Rightarrow> bytes) \<Rightarrow> reader \<Rightarrow> int \<Rightarrow> (Encoder \<Rightarrow> Encoder) list
       \<Rightarrow> (error + SDBlob \<times> bytes) option" where
  "CreateManifestFromSource rng sha enc source n opts =
     (let key = rng 0 32 in
      if n > 2147483647 then Some (Inl (Plain ''size hint overflows int''))
      else (case NewEncoderWithIVs source key [] of
              None \<Rightarrow> None
            | Some e0 \<Rightarrow>
                (let e1 = foldl (\<lambda>e opt. opt e) (SourceSizeHint n (e0\<lparr>rngPos := 1\<rparr>)) opts in
                 case next_all rng sha enc e1 of
                   (_, Some er, e2) \<Rightarrow> Some (Inl (Wrapped ''failed to read blob'' er))
                 | (_, None, e2) \<Rightarrow> (let e3 = SDBlob_of sha e2 in Some (Inr (sd e3, ToBlob (sd e3)))))))"

end
