(* ===== verification/Stream_Roundtrip.thy ===== *)
theory Stream_Roundtrip
  imports Encoder
begin

text \<open>
  Correctness of the stream encoder: what \<open>Next\<close> does on a source that ends normally, the shape of the
  descriptor the loop builds, and that decoding the stream returns the source.
\<close>

section \<open>Sources\<close>

text \<open>A source that ends normally: no read fails, and end of file comes with the last delivery or after it.\<close>

fun clean :: "reader \<Rightarrow> bool" where
  "clean [] = True"
| "clean ((b, None) # r) = clean r"
| "clean ((b, Some EOF) # r) = (r = [])"
| "clean ((b, Some (Err _)) # r) = False"

definition source :: "reader \<Rightarrow> bytes" where
  "source r = concat (map fst r)"

lemma read_some_clean:
  assumes "clean r" "0 < k" "read_some k r = ((d, e), r')"
  shows "clean r' \<and> source r = d @ source r' \<and> length d \<le> k \<and> (d = [] \<longrightarrow> e = Some EOF \<and> source r' = [])"
  using assms
proof (induction k r rule: read_some.induct)
  case (2 k b e' r)
  show ?case
  proof (cases "b = [] \<and> e' = None")
    case True
    then show ?thesis using 2 by (simp add: source_def)
  next
    case False
    then have rd: "Read k ((b, e') # r) = ((d, e), r')" using "2.prems"(3) by auto
    have c: "clean r \<and> (e' = None \<or> e' = Some EOF \<and> r = [])"
      using "2.prems"(1) by (cases "(b, e') # r" rule: clean.cases) auto
    show ?thesis
    proof (cases "k < length b")
      case True
      then show ?thesis using rd c "2.prems"(2) by (auto simp: source_def)
    next
      case short: False
      then show ?thesis using rd c False by (auto simp: source_def)
    qed
  qed
qed (auto simp: source_def)

text \<open>The pieces in which a buffer of a given size reads the source.\<close>

function splits :: "nat \<Rightarrow> reader \<Rightarrow> bytes list" where
  "splits k r = (case read_some k r of ((d, _), r') \<Rightarrow> if d = [] then [] else d # splits k r')"
  by pat_completeness auto
termination
  by (relation "measure (\<lambda>(k, r). pending_bytes r)") (auto dest: read_some_shorter [OF sym])

declare splits.simps [simp del]

section \<open>One step\<close>

text \<open>What one blob of a stream consists of: the plaintext, its IV and the encrypted blob.\<close>

type_synonym piece = "bytes \<times> bytes \<times> bytes"

definition piece_ok :: "(bytes \<Rightarrow> bytes \<Rightarrow> bytes) \<Rightarrow> bytes \<Rightarrow> nat \<Rightarrow> piece \<Rightarrow> bool" where
  "piece_ok enc key k t \<longleftrightarrow> (case t of (d, iv, b) \<Rightarrow>
     d \<noteq> [] \<and> length d \<le> k \<and> length iv = aes_BlockSize \<and> NewBlob enc d key iv = Inr b)"

definition info_of :: "(bytes \<Rightarrow> bytes) \<Rightarrow> nat \<Rightarrow> piece \<Rightarrow> BlobInfo" where
  "info_of sha i t = (case t of (d, iv, b) \<Rightarrow>
     \<lparr>Length = int (length b), BlobNum = int i, BlobHash = Blob_Hash sha b, IV = iv, bi_profile = ProfileNewSort\<rparr>)"

definition enc_ok :: "(nat \<Rightarrow> nat \<Rightarrow> bytes) \<Rightarrow> Encoder \<Rightarrow> bool" where
  "enc_ok rng e \<longleftrightarrow> valid_key_size (Key (sd e)) \<and> 0 < buf e \<and> (\<forall>iv \<in> set (ivs e). length iv = aes_BlockSize) \<and>
     (\<forall>i n. length (rng i n) = n)"

lemma nextIV_ok:
  assumes "enc_ok rng e"
  shows "\<exists>iv e'. nextIV rng e = Inr (iv, e') \<and> length iv = aes_BlockSize \<and> enc_ok rng e' \<and>
           src e' = src e \<and> sd e' = sd e \<and> buf e' = buf e \<and> (ivs e \<noteq> [] \<longrightarrow> iv = hd (ivs e) \<and> ivs e' = tl (ivs e))"
  using assms
  by (cases "ivs e") (auto simp: nextIV_def randIV_def generateRandomBytes_def enc_ok_def aes_BlockSize_def)

lemma addBlob_ok: "iv \<noteq> [] \<Longrightarrow> addBlob sha s b iv = Inr (s\<lparr>BlobInfos := BlobInfos s @ [info_of sha (length (BlobInfos s)) (d, iv, b)]\<rparr>)"
  by (simp add: addBlob_def info_of_def)

lemma NewBlob_ok:
  "valid_key_size key \<Longrightarrow> length iv = aes_BlockSize \<Longrightarrow> d \<noteq> [] \<Longrightarrow> \<exists>b. NewBlob enc d key iv = Inr b"
  by (simp add: NewBlob_def encryptData_Inr)

lemma aes_nonempty: "length iv = aes_BlockSize \<Longrightarrow> iv \<noteq> []"
  by (auto simp: aes_BlockSize_def)

lemma Next_data:
  assumes ok: "enc_ok rng e" and "clean (src e)" "source (src e) \<noteq> []"
  shows "\<exists>d iv b e'. Next rng sha enc e = (Inr b, e') \<and> source (src e) = d @ source (src e') \<and> clean (src e') \<and>
           piece_ok enc (Key (sd e)) (buf e) (d, iv, b) \<and> enc_ok rng e' \<and> buf e' = buf e \<and>
           sd e' = (sd e)\<lparr>BlobInfos := BlobInfos (sd e) @ [info_of sha (length (BlobInfos (sd e))) (d, iv, b)]\<rparr> \<and>
           (ivs e \<noteq> [] \<longrightarrow> iv = hd (ivs e) \<and> ivs e' = tl (ivs e)) \<and>
           (\<exists>re. read_some (buf e) (src e) = ((d, re), src e'))"
proof -
  obtain d re r' where r: "read_some (buf e) (src e) = ((d, re), r')" by (metis surj_pair)
  have rd: "clean r'" "source (src e) = d @ source r'" "length d \<le> buf e" "d = [] \<Longrightarrow> source r' = []"
    using read_some_clean [OF assms(2) _ r] ok by (auto simp: enc_ok_def)
  have d: "d \<noteq> []" using rd(2,4) assms(3) by auto
  define e1 where "e1 = e\<lparr>src := r', srcLen := i64 (srcLen e + int (length d)), srcHash := srcHash e @ d\<rparr>"
  have e1: "enc_ok rng e1" "sd e1 = sd e" "buf e1 = buf e" "src e1 = r'" "ivs e1 = ivs e"
    using ok by (simp_all add: e1_def enc_ok_def)
  obtain iv e2 where iv: "nextIV rng e1 = Inr (iv, e2)" "length iv = aes_BlockSize" "enc_ok rng e2" "src e2 = r'"
      "sd e2 = sd e" "buf e2 = buf e" "ivs e \<noteq> [] \<longrightarrow> iv = hd (ivs e) \<and> ivs e2 = tl (ivs e)"
    using nextIV_ok [OF e1(1)] e1(2-5) by auto
  obtain b where b: "NewBlob enc d (Key (sd e)) iv = Inr b"
    using NewBlob_ok [OF _ iv(2) d] ok unfolding enc_ok_def by blast
  have a: "addBlob sha (sd e) b iv = Inr ((sd e)\<lparr>BlobInfos := BlobInfos (sd e) @ [info_of sha (length (BlobInfos (sd e))) (d, iv, b)]\<rparr>)"
    using addBlob_ok [OF aes_nonempty [OF iv(2)]] by blast
  have "Next rng sha enc e = (Inr b, e2\<lparr>sd := (sd e)\<lparr>BlobInfos := BlobInfos (sd e) @ [info_of sha (length (BlobInfos (sd e))) (d, iv, b)]\<rparr>\<rparr>)"
    using d iv(1) b a iv(5) by (simp add: Next_def r e1_def)
  moreover have "piece_ok enc (Key (sd e)) (buf e) (d, iv, b)"
    using d rd(3) iv(2) b by (simp add: piece_ok_def)
  ultimately show ?thesis
    using rd(1,2) iv(3-7) r by (intro exI [of _ d] exI [of _ iv] exI [of _ b] exI) (auto simp: enc_ok_def)
qed

definition term_of :: "nat \<Rightarrow> bytes \<Rightarrow> BlobInfo" where
  "term_of i iv = \<lparr>Length = 0, BlobNum = int i, BlobHash = [], IV = iv, bi_profile = ProfileNewSort\<rparr>"

lemma Next_end:
  assumes ok: "enc_ok rng e" and "clean (src e)" "source (src e) = []" "\<not> isTerminated e"
  shows "\<exists>iv e'. Next rng sha enc e = (Inl EOF, e') \<and> length iv = aes_BlockSize \<and>
           sd e' = (sd e)\<lparr>BlobInfos := BlobInfos (sd e) @ [term_of (length (BlobInfos (sd e))) iv]\<rparr> \<and>
           (ivs e \<noteq> [] \<longrightarrow> iv = hd (ivs e))"
proof -
  obtain d re r' where r: "read_some (buf e) (src e) = ((d, re), r')" by (metis surj_pair)
  have rd: "d = []" "re = Some EOF"
    using read_some_clean [OF assms(2) _ r] ok assms(3) by (auto simp: enc_ok_def)
  define e1 where "e1 = e\<lparr>src := r'\<rparr>"
  have e1: "enc_ok rng e1" "sd e1 = sd e" "ivs e1 = ivs e" "\<not> isTerminated e1"
    using ok assms(4) by (simp_all add: e1_def enc_ok_def isTerminated_def)
  obtain iv e2 where iv: "nextIV rng e1 = Inr (iv, e2)" "length iv = aes_BlockSize" "sd e2 = sd e"
      "ivs e \<noteq> [] \<longrightarrow> iv = hd (ivs e)"
    using nextIV_ok [OF e1(1)] e1(2,3) by auto
  have "Next rng sha enc e = (Inl EOF, e2\<lparr>sd := (sd e)\<lparr>BlobInfos := BlobInfos (sd e) @ [term_of (length (BlobInfos (sd e))) iv]\<rparr>\<rparr>)"
    using rd iv(1,3) e1(4) aes_nonempty [OF iv(2)]
    by (simp add: Next_def r e1_def [symmetric] ensureTerminated_def addBlob_def term_of_def Blob_Hash_def)
  then show ?thesis using iv(2,4) by auto
qed

section \<open>The loop\<close>

lemma NewBlob_length:
  assumes "block_cipher enc dec" "NewBlob enc d key iv = Inr b"
  shows "length b = 16 * (length d div 16 + 1)"
proof -
  have d: "d \<noteq> []" using assms(2) by (auto simp: NewBlob_def)
  then have "encryptData enc d key iv = Inr b" using assms(2) by (simp add: NewBlob_def)
  then have ki: "valid_key_size key" "length iv = aes_BlockSize"
    by (auto simp: encryptData_def split: if_splits)
  then have c: "length (enc key x) = aes_BlockSize" if "length x = aes_BlockSize" for x
    using assms(1) that by (simp add: block_cipher_def)
  show ?thesis
    using assms(2) d encryptData_Inr [OF ki, of enc d] cbc_encrypt_length [OF c ki(2)] pkcs7_padded_length [of 16 "length d"]
    by (auto simp: NewBlob_def aes_BlockSize_def)
qed

definition infos :: "(bytes \<Rightarrow> bytes) \<Rightarrow> nat \<Rightarrow> piece list \<Rightarrow> BlobInfo list" where
  "infos sha n ts = map (\<lambda>(i, t). info_of sha i t) (List.enumerate n ts)"

lemma infos_Cons [simp]: "infos sha n (t # ts) = info_of sha n t # infos sha (Suc n) ts" "infos sha n [] = []"
  by (simp_all add: infos_def)

lemma length_infos [simp]: "length (infos sha n ts) = length ts"
  by (simp add: infos_def)

text \<open>
  From an encoder whose descriptor is not terminated yet, the loop cuts the rest of the source into
  pieces, returns their blobs and leaves a descriptor with one info per piece and a terminator. Preset
  IVs are used in order.
\<close>

lemma next_all_spec:
  assumes cipher: "block_cipher enc dec"
    and "enc_ok rng e" "clean (src e)" "\<not> isTerminated e"
  shows "\<exists>ts iv e'. next_all rng sha enc e = (map (snd \<circ> snd) ts, None, e') \<and> concat (map fst ts) = source (src e) \<and>
           list_all (piece_ok enc (Key (sd e)) (buf e)) ts \<and> length iv = aes_BlockSize \<and>
           sd e' = (sd e)\<lparr>BlobInfos := BlobInfos (sd e) @ infos sha (length (BlobInfos (sd e))) ts @
                     [term_of (length (BlobInfos (sd e)) + length ts) iv]\<rparr> \<and>
           (length ts < length (ivs e) \<longrightarrow> map (fst \<circ> snd) ts @ [iv] = take (Suc (length ts)) (ivs e)) \<and>
           map fst ts = splits (buf e) (src e)"
  using assms(2-4)
proof (induction "length (source (src e))" arbitrary: e rule: less_induct)
  case less
  show ?case
  proof (cases "source (src e) = []")
    case True
    obtain iv e' where n: "Next rng sha enc e = (Inl EOF, e')" "length iv = aes_BlockSize"
        "sd e' = (sd e)\<lparr>BlobInfos := BlobInfos (sd e) @ [term_of (length (BlobInfos (sd e))) iv]\<rparr>"
        "ivs e \<noteq> [] \<longrightarrow> iv = hd (ivs e)"
      using Next_end [OF less.prems(1,2) True less.prems(3)] by blast
    have "next_all rng sha enc e = ([], None, e')" using n(1) by (simp add: next_all.simps)
    moreover have "splits (buf e) (src e) = []"
    proof -
      obtain d re r' where r: "read_some (buf e) (src e) = ((d, re), r')" by (metis surj_pair)
      then have "d = []" using read_some_clean [OF less.prems(2) _ r] less.prems(1) True by (simp add: enc_ok_def)
      then show ?thesis using r by (simp add: splits.simps)
    qed
    ultimately show ?thesis using n True
      by (intro exI [of _ "[]"] exI [of _ iv] exI [of _ e']) (auto simp: take_Suc)
  next
    case False
    obtain d iv b e' where n: "Next rng sha enc e = (Inr b, e')" "source (src e) = d @ source (src e')" "clean (src e')"
        and p: "piece_ok enc (Key (sd e)) (buf e) (d, iv, b)" and ok: "enc_ok rng e'" "buf e' = buf e"
        and sd: "sd e' = (sd e)\<lparr>BlobInfos := BlobInfos (sd e) @ [info_of sha (length (BlobInfos (sd e))) (d, iv, b)]\<rparr>"
        and ivs: "ivs e \<noteq> [] \<longrightarrow> iv = hd (ivs e) \<and> ivs e' = tl (ivs e)"
        and rd: "\<exists>re. read_some (buf e) (src e) = ((d, re), src e')"
      using Next_data [OF less.prems(1,2) False, where sha = sha and enc = enc] by (elim exE conjE) (rule that, assumption+, blast)
    have d: "d \<noteq> []" and blob: "NewBlob enc d (Key (sd e)) iv = Inr b" using p by (simp_all add: piece_ok_def)
    have "\<not> isTerminated e'" using NewBlob_length [OF cipher blob] by (simp add: sd isTerminated_def info_of_def)
    moreover have "length (source (src e')) < length (source (src e))" using d n(2) by simp
    ultimately obtain ts iv' e'' where IH: "next_all rng sha enc e' = (map (snd \<circ> snd) ts, None, e'')"
        "concat (map fst ts) = source (src e')" "list_all (piece_ok enc (Key (sd e')) (buf e')) ts"
        "length iv' = aes_BlockSize"
        "sd e'' = (sd e')\<lparr>BlobInfos := BlobInfos (sd e') @ infos sha (length (BlobInfos (sd e'))) ts @
                   [term_of (length (BlobInfos (sd e')) + length ts) iv']\<rparr>"
        "length ts < length (ivs e') \<longrightarrow> map (fst \<circ> snd) ts @ [iv'] = take (Suc (length ts)) (ivs e')"
        "map fst ts = splits (buf e') (src e')"
      using less.hyps [of e'] ok n(3) by blast
    have "next_all rng sha enc e = (b # map (snd \<circ> snd) ts, None, e'')"
      by (subst next_all.simps) (simp add: n(1) IH(1))
    moreover have "length (BlobInfos (sd e')) = Suc (length (BlobInfos (sd e)))" by (simp add: sd)
    moreover have "length ((d, iv, b) # ts) < length (ivs e) \<longrightarrow>
        map (fst \<circ> snd) ((d, iv, b) # ts) @ [iv'] = take (Suc (length ((d, iv, b) # ts))) (ivs e)"
      using ivs IH(6) by (cases "ivs e") auto
    moreover have sp: "map fst ((d, iv, b) # ts) = splits (buf e) (src e)"
      using rd d IH(7) ok(2) by (subst splits.simps) auto
    moreover have "concat (splits (buf e) (src e)) = d @ source (src e')"
      unfolding sp [symmetric] using IH(2) by simp
    ultimately show ?thesis
      using IH(2-5) n(2) p ok(2) sd
      by (intro exI [of _ "(d, iv, b) # ts"] exI [of _ iv'] exI [of _ e'']) (simp add: add.commute)
  qed
qed

section \<open>Decoding what was encoded\<close>

lemma piece_decrypts:
  assumes "block_cipher enc dec" "piece_ok enc key k (d, iv, b)" "valid_key_size key"
  shows "Blob_Plaintext dec b key iv = Inr d"
proof -
  have "\<exists>b. NewBlob enc d key iv = Inr b \<and> length b = aes_BlockSize * (length d div aes_BlockSize + 1) \<and>
      DecryptBlob dec b key iv = Inr d"
    using assms by (intro NewBlob_Plaintext_lemma) (simp_all add: piece_ok_def)
  then show ?thesis using assms(2) by (auto simp: piece_ok_def DecryptBlob_def)
qed

lemma decode_blobs_pieces:
  assumes cipher: "block_cipher enc dec" and key: "valid_key_size key"
    and "list_all (piece_ok enc key k) ts" "s = x # bs @ map (snd \<circ> snd) ts" "nInfos = Suc (length bs + length ts)"
  shows "decode_blobs sha dec key s nInfos (length bs) acc (infos sha (length bs) ts @ [term_of (length bs + length ts) iv]) =
           Some (Inr (acc @ concat (map fst ts)))"
  using assms(3-)
proof (induction ts arbitrary: bs acc)
  case Nil
  then show ?case by (simp add: term_of_def)
next
  case (Cons t ts)
  obtain d v b where t: "t = (d, v, b)" by (metis surj_pair)
  have ok: "piece_ok enc key k (d, v, b)" using Cons.prems(1) t by simp
  then have "length b \<noteq> 0" using NewBlob_length [OF cipher, of d key v b] by (simp add: piece_ok_def)
  moreover have "nth_opt s (length bs + 1) = Some b"
    using Cons.prems(2) t by (simp add: nth_append)
  moreover have "decode_blobs sha dec key s nInfos (length (bs @ [b])) (acc @ d)
      (infos sha (length (bs @ [b])) ts @ [term_of (length (bs @ [b]) + length ts) iv]) =
      Some (Inr ((acc @ d) @ concat (map fst ts)))"
    using Cons.prems t by (intro Cons.IH) simp_all
  ultimately show ?case
    using piece_decrypts [OF cipher ok key] by (simp add: t info_of_def del: nth_opt_Some)
qed

lemma decode_blobs_profile:
  "decode_blobs sha dec key s n i acc (map (\<lambda>bi. bi\<lparr>bi_profile := p\<rparr>) bis) = decode_blobs sha dec key s n i acc bis"
  by (induction bis arbitrary: i acc) (simp_all del: nth_opt_None split: option.split sum.split)

lemma BlobInfo_Hash_profile [simp]: "BlobInfo_Hash sha (bi\<lparr>bi_profile := p\<rparr>) = BlobInfo_Hash sha bi"
  by (cases bi) (simp add: BlobInfo_Hash_def)

lemma computeStreamHash_profile: "computeStreamHash sha (SetProfile p s) = computeStreamHash sha s"
  by (simp add: computeStreamHash_def streamHash_def SetProfile_def comp_def)

lemma computeStreamHash_StreamHash [simp]: "computeStreamHash sha (s\<lparr>StreamHash := h\<rparr>) = computeStreamHash sha s"
  by (simp add: computeStreamHash_def)

text \<open>
  A fresh encoder: nothing encoded yet, a key and IVs of the right sizes, a buffer that leaves room for
  padding and a stream type that survives the text.
\<close>

definition fresh :: "(nat \<Rightarrow> nat \<Rightarrow> bytes) \<Rightarrow> Encoder \<Rightarrow> bool" where
  "fresh rng e \<longleftrightarrow> enc_ok rng e \<and> BlobInfos (sd e) = [] \<and> buf e \<le> maxBlobDataSize \<and> tidy (StreamType (sd e)) \<and>
     0 \<le> srcSizeHint e"

definition stream_sd :: "(bytes \<Rightarrow> bytes) \<Rightarrow> SDBlob \<Rightarrow> piece list \<Rightarrow> bytes \<Rightarrow> SDBlob" where
  "stream_sd sha s ts iv = UpdateStreamHash sha (s\<lparr>BlobInfos := infos sha 0 ts @ [term_of (length ts) iv]\<rparr>)"

lemma Encoder_Stream_spec:
  assumes "block_cipher enc dec" "fresh rng e" "clean (src e)"
  shows "\<exists>ts iv e'. Encoder_Stream rng sha enc e = (Some (Inr (ToBlob (stream_sd sha (sd e) ts iv) # map (snd \<circ> snd) ts)), e') \<and>
           sd e' = stream_sd sha (sd e) ts iv \<and> concat (map fst ts) = source (src e) \<and>
           list_all (piece_ok enc (Key (sd e)) (buf e)) ts \<and> length iv = aes_BlockSize \<and>
           (length ts < length (ivs e) \<longrightarrow> map (fst \<circ> snd) ts @ [iv] = take (Suc (length ts)) (ivs e)) \<and>
           map fst ts = splits (buf e) (src e)"
proof -
  have "\<not> isTerminated e" using assms(2) by (simp add: isTerminated_def fresh_def)
  then obtain ts iv e' where n: "next_all rng sha enc e = (map (snd \<circ> snd) ts, None, e')"
      "concat (map fst ts) = source (src e)" "list_all (piece_ok enc (Key (sd e)) (buf e)) ts" "length iv = aes_BlockSize"
      "sd e' = (sd e)\<lparr>BlobInfos := infos sha 0 ts @ [term_of (length ts) iv]\<rparr>"
      "length ts < length (ivs e) \<longrightarrow> map (fst \<circ> snd) ts @ [iv] = take (Suc (length ts)) (ivs e)"
      "map fst ts = splits (buf e) (src e)"
    using next_all_spec [OF assms(1), of rng e sha] assms(2,3) by (auto simp: fresh_def)
  have "0 \<le> ceil_div (srcSizeHint e) (int maxBlobDataSize)"
    using assms(2) by (simp add: fresh_def ceil_div_def maxBlobDataSize_def MaxBlobSize_def div_nonpos_pos_le0)
  then have "Encoder_Stream rng sha enc e =
      (Some (Inr (ToBlob (stream_sd sha (sd e) ts iv) # map (snd \<circ> snd) ts)), e'\<lparr>sd := stream_sd sha (sd e) ts iv\<rparr>)"
    using n(1,5) by (simp add: Encoder_Stream_def SDBlob_of_def stream_sd_def)
  then show ?thesis using n
    by (intro exI [of _ ts] exI [of _ iv] exI [of _ "e'\<lparr>sd := stream_sd sha (sd e) ts iv\<rparr>"]) simp
qed

lemma pieces_count:
  assumes "list_all (piece_ok enc key k) ts"
  shows "length ts \<le> length (concat (map fst ts))" and "t \<in> set ts \<Longrightarrow> length (fst t) \<le> length (concat (map fst ts))"
proof -
  show "length ts \<le> length (concat (map fst ts))"
    using assms
  proof (induction ts)
    case (Cons t ts)
    then have "1 \<le> length (fst t)" by (cases t) (auto simp: piece_ok_def Suc_le_eq)
    then show ?case using Cons by simp
  qed simp
  show "t \<in> set ts \<Longrightarrow> length (fst t) \<le> length (concat (map fst ts))"
    by (induction ts) auto
qed

lemma set_infos: "bi \<in> set (infos sha n ts) \<Longrightarrow> \<exists>i t. t \<in> set ts \<and> i < n + length ts \<and> bi = info_of sha i t"
proof -
  assume "bi \<in> set (infos sha n ts)"
  then obtain i t where "(i, t) \<in> set (List.enumerate n ts)" "bi = info_of sha i t" by (auto simp: infos_def)
  moreover from this have "t \<in> set ts" "i < n + length ts"
    by (auto simp: in_set_enumerate_eq)
  ultimately show ?thesis by blast
qed

lemma stream_sd_ints:
  assumes "block_cipher enc dec" "list_all (piece_ok enc key k) ts" "length (concat (map fst ts)) < 2 ^ 62"
  shows "ints_ok (stream_sd sha s ts iv)"
proof -
  have n: "length ts < 2 ^ 62" using pieces_count(1) [OF assms(2)] assms(3) by simp
  have "in_i64 (Length bi) \<and> in_i64 (BlobNum bi)" if bi: "bi \<in> set (infos sha 0 ts)" for bi
  proof -
    obtain i d v b where t: "(d, v, b) \<in> set ts" "i < length ts" "bi = info_of sha i (d, v, b)"
      using set_infos [OF bi] by auto
    have "NewBlob enc d key v = Inr b" using assms(2) t(1) by (auto simp: list_all_iff piece_ok_def)
    then have "length b \<le> length d + 16" using NewBlob_length [OF assms(1)] by fastforce
    moreover have "length d < 2 ^ 62" using pieces_count(2) [OF assms(2) t(1)] assms(3) by simp
    ultimately show ?thesis using t(2,3) n by (simp add: info_of_def in_i64_def)
  qed
  moreover have "in_i64 (int (length ts))" using n by (simp add: in_i64_def)
  ultimately show ?thesis
    by (auto simp: ints_ok_def stream_sd_def UpdateStreamHash_def term_of_def)
qed

lemma Decode_pieces:
  assumes "block_cipher enc dec" "okeys_ok okeys" "set reg = {ProfileNewSort, ProfileOldSort}"
    and "valid_key_size (Key s)" "tidy (StreamType s)" "list_all (piece_ok enc (Key s) k) ts" "ts \<noteq> []"
    and "length (concat (map fst ts)) < 2 ^ 62"
  shows "Decode sha dec okeys reg (ToBlob (stream_sd sha s ts iv) # map (snd \<circ> snd) ts) = Some (Inr (concat (map fst ts)))"
proof -
  let ?sd = "stream_sd sha s ts iv"
  define sd' where "sd' = SetProfile (sd_profile ?sd) ?sd"
  have fb: "FromBlob okeys reg (ToBlob ?sd) = Inr sd'"
    using FromBlob_ToBlob_lemma [OF assms(2,3)] stream_sd_ints [OF assms(1,6,8)] assms(5)
    by (simp add: sd'_def stream_sd_def UpdateStreamHash_def)
  have valid: "SDBlob_IsValid sha sd'"
    by (simp add: SDBlob_IsValid_def sd'_def computeStreamHash_profile) (simp add: SetProfile_def stream_sd_def UpdateStreamHash_def)
  have bi: "BlobInfos sd' = map (\<lambda>bi. bi\<lparr>bi_profile := sd_profile s\<rparr>) (infos sha 0 ts @ [term_of (length ts) iv])"
    by (simp add: sd'_def SetProfile_def stream_sd_def UpdateStreamHash_def)
  have last: "Length (last (BlobInfos sd')) = 0" unfolding bi by (simp add: term_of_def)
  have key: "Key sd' = Key s" by (simp add: sd'_def SetProfile_def stream_sd_def UpdateStreamHash_def)
  have "decode_blobs sha dec (Key s) (ToBlob ?sd # map (snd \<circ> snd) ts) (Suc (length ts)) 0 [] (BlobInfos sd') =
      decode_blobs sha dec (Key s) (ToBlob ?sd # map (snd \<circ> snd) ts) (Suc (length ts)) 0 [] (infos sha 0 ts @ [term_of (length ts) iv])"
    unfolding bi by (rule decode_blobs_profile)
  also have "\<dots> = Some (Inr (concat (map fst ts)))"
    using decode_blobs_pieces [OF assms(1,4,6), of "ToBlob ?sd # map (snd \<circ> snd) ts" "ToBlob ?sd" "[]" "Suc (length ts)" sha "[]" iv]
    by simp
  finally have dec: "decode_blobs sha dec (Key sd') (ToBlob ?sd # map (snd \<circ> snd) ts) (length (BlobInfos sd')) 0 [] (BlobInfos sd') =
      Some (Inr (concat (map fst ts)))" by (simp add: key bi)
  have "2 \<le> length (ToBlob ?sd # map (snd \<circ> snd) ts)" using assms(7) by (cases ts) simp_all
  moreover have "BlobInfos sd' \<noteq> []" "length (BlobInfos sd') - 1 = length ts" unfolding bi by simp_all
  ultimately show ?thesis using fb valid last dec assms(7) by (simp add: Decode_def)
qed

lemma map_IV_infos: "map IV (infos sha n ts) = map (fst \<circ> snd) ts"
proof (induction ts arbitrary: n)
  case (Cons t ts)
  then show ?case by (cases t) (simp add: info_of_def)
qed simp

text \<open>A piece is determined by its plaintext and its IV.\<close>

lemma pieces_unique:
  assumes "list_all (piece_ok enc key k) ts" "key = key'" "list_all (piece_ok enc key' k') us"
    and "map fst ts = map fst us" "map (fst \<circ> snd) ts = map (fst \<circ> snd) us"
  shows "ts = us"
  using assms
proof (induction ts arbitrary: us)
  case (Cons t ts)
  then obtain u us' where us: "us = u # us'" by (cases us) auto
  have "t = u" using Cons.prems us by (cases t; cases u) (auto simp: piece_ok_def)
  then show ?case using Cons us by simp
qed simp

section \<open>Validity of the stream\<close>

lemma piece_ValidForSend:
  assumes "block_cipher enc dec" "piece_ok enc key k (d, iv, b)" "k \<le> maxBlobDataSize"
  shows "ValidForSend b = None"
proof -
  have "length b = 16 * (length d div 16 + 1)" "length d \<le> 2097151"
    using NewBlob_length [OF assms(1)] assms(2,3) by (auto simp: piece_ok_def maxBlobDataSize_def MaxBlobSize_def)
  moreover from this have "length d div 16 \<le> 131071" using div_le_mono [of "length d" 2097151 16] by simp
  ultimately show ?thesis by (simp add: ValidForSend_def MaxBlobSize_def)
qed

lemma nth_infos: "i < length ts \<Longrightarrow> infos sha n ts ! i = info_of sha (n + i) (ts ! i)"
  by (simp add: infos_def nth_enumerate_eq)

lemma stream_sd_valid:
  assumes "block_cipher enc dec" "list_all (piece_ok enc (Key s) k) ts" "length iv = aes_BlockSize"
    and "\<And>x. length (sha x) = 48" "StreamType s \<noteq> []" "length (Key s) \<in> {16, 32}"
  shows "validateSDBlob sha L (SetProfile p (stream_sd sha s ts iv)) = None"
proof -
  let ?sd = "SetProfile p (stream_sd sha s ts iv)"
  let ?bis = "infos sha 0 ts @ [term_of (length ts) iv]"
  have bi: "BlobInfos ?sd = map (\<lambda>bi. bi\<lparr>bi_profile := p\<rparr>) ?bis"
    by (simp add: SetProfile_def stream_sd_def UpdateStreamHash_def)
  have info: "BlobNum b = int i \<and> 0 < Length b \<and> IV b \<noteq> [] \<and> BlobHash b \<noteq> [] \<and> ValidateHash L (hex_encode (BlobHash b))"
    if i: "i < length ts" and b: "b = infos sha 0 ts ! i" for i b
  proof -
    obtain d v c where t: "ts ! i = (d, v, c)" by (metis surj_pair)
    then have ok: "piece_ok enc (Key s) k (d, v, c)" using assms(2) i by (metis list_all_length)
    then have nb: "NewBlob enc d (Key s) v = Inr c" and v: "length v = aes_BlockSize" by (simp_all add: piece_ok_def)
    have c: "0 < length c" "v \<noteq> []" using NewBlob_length [OF assms(1) nb] aes_nonempty [OF v] by simp_all
    moreover have "length (sha c) = 48" by (rule assms(4))
    moreover from this have "ValidateHash L (hex_encode (sha c))"
      using Hasher_IsValid_Hash [of sha c] by (simp add: Hasher_Hash_def)
    ultimately show ?thesis using i t b by (auto simp: nth_infos info_of_def Blob_Hash_def)
  qed
  have "let b = BlobInfos ?sd ! i in BlobNum b = int i \<and> 0 \<le> Length b \<and> IV b \<noteq> [] \<and>
      (0 < Length b \<longrightarrow> BlobHash b \<noteq> [] \<and> ValidateHash L (hex_encode (BlobHash b))) \<and>
      (Length b = 0 \<longrightarrow> i = length (BlobInfos ?sd) - 1)" if "i < length (BlobInfos ?sd)" for i
  proof (cases "i < length ts")
    case True
    then have "BlobInfos ?sd ! i = (infos sha 0 ts ! i)\<lparr>bi_profile := p\<rparr>" unfolding bi by (simp add: nth_append)
    then show ?thesis using info [OF True refl] by (simp add: Let_def)
  next
    case False
    then have "i = length ts" using that bi by simp
    then have "BlobInfos ?sd ! i = (term_of (length ts) iv)\<lparr>bi_profile := p\<rparr>" unfolding bi by (simp add: nth_append)
    then show ?thesis using \<open>i = length ts\<close> aes_nonempty [OF assms(3)] by (simp add: Let_def term_of_def bi)
  qed
  moreover have "StreamHash ?sd = computeStreamHash sha ?sd"
    by (simp add: computeStreamHash_profile) (simp add: SetProfile_def stream_sd_def UpdateStreamHash_def)
  moreover have "computeStreamHash sha ?sd \<noteq> []"
    unfolding computeStreamHash_def streamHash_def using assms(4) by (metis length_0_conv zero_neq_numeral)
  moreover have "StreamType ?sd = StreamType s" "Key ?sd = Key s" "BlobInfos ?sd \<noteq> []"
    by (simp_all add: SetProfile_def stream_sd_def UpdateStreamHash_def)
  ultimately show ?thesis unfolding validateSDBlob_iff_lemma using assms(5,6) by simp
qed

section \<open>Properties\<close>

text \<open>What \<open>New\<close> makes of a source that ends normally: the pieces and the descriptor that lists them.\<close>

lemma New_pieces:
  assumes "block_cipher enc dec" "\<And>i n. length (rng i n) = n" "clean r"
  obtains s ts iv where "New rng sha enc r = Some (Inr (ToBlob (stream_sd sha s ts iv) # map (snd \<circ> snd) ts))"
    "concat (map fst ts) = source r" "list_all (piece_ok enc (Key s) maxBlobDataSize) ts" "length iv = aes_BlockSize"
    "length (Key s) = 32" "StreamType s = StreamTypeLBRYFile" "StreamName s = []" "SuggestedFileName s = []" "sd_profile s = ProfileNewSort"
proof -
  define e where "e = (newEncoderInternal r (rng 0 32))\<lparr>rngPos := 1\<rparr>"
  have New: "New rng sha enc r = fst (Encoder_Stream rng sha enc e)"
    by (simp add: New_def NewEncoder_def generateKey_def generateRandomBytes_def e_def)
  have e: "fresh rng e" "src e = r" "length (Key (sd e)) = 32" "StreamType (sd e) = StreamTypeLBRYFile" "buf e = maxBlobDataSize"
      "StreamName (sd e) = []" "SuggestedFileName (sd e) = []" "sd_profile (sd e) = ProfileNewSort"
    using assms(2) by (simp_all add: e_def fresh_def newEncoderInternal_def enc_ok_def emptySDBlob_def valid_key_size_def
      maxBlobDataSize_def MaxBlobSize_def StreamTypeLBRYFile_def tidy_def plain_char_def)
  show ?thesis using Encoder_Stream_spec [OF assms(1) e(1), of sha] assms(3) e New by (auto intro: that [of "sd e"])
qed

lemma StreamTypeLBRYFile_tidy: "tidy StreamTypeLBRYFile"
  by (simp add: StreamTypeLBRYFile_def tidy_def plain_char_def)

lemma FromBlob_stream_sd:
  assumes "block_cipher enc dec" "okeys_ok okeys" "set reg = {ProfileNewSort, ProfileOldSort}" "tidy (StreamType s)"
    and "list_all (piece_ok enc (Key s) k) ts" "length (concat (map fst ts)) < 2 ^ 62"
  shows "FromBlob okeys reg (ToBlob (stream_sd sha s ts iv)) = Inr (SetProfile (sd_profile (stream_sd sha s ts iv)) (stream_sd sha s ts iv))"
  using FromBlob_ToBlob_lemma [OF assms(2,3)] stream_sd_ints [OF assms(1,5,6)] assms(4) by (simp add: stream_sd_def UpdateStreamHash_def)

lemma stream_sd_bytes_valid:
  assumes "block_cipher enc dec" "okeys_ok okeys" "set reg = {ProfileNewSort, ProfileOldSort}" "\<And>x. length (sha x) = 48"
    and "StreamType s = StreamTypeLBRYFile" "length (Key s) = 32" "length iv = aes_BlockSize"
    and "list_all (piece_ok enc (Key s) k) ts" "length (concat (map fst ts)) < 2 ^ 62"
  shows "json_parse (string_of (ToBlob (stream_sd sha s ts iv))) \<noteq> None" "ToBlob (stream_sd sha s ts iv) \<noteq> []"
    and "ValidateSDBlobBytes sha L okeys reg (ToBlob (stream_sd sha s ts iv)) = None"
proof -
  let ?sd = "stream_sd sha s ts iv"
  have fb: "FromBlob okeys reg (ToBlob ?sd) = Inr (SetProfile (sd_profile ?sd) ?sd)"
    using FromBlob_stream_sd [OF assms(1-3) _ assms(8,9)] assms(5) StreamTypeLBRYFile_tidy by simp
  then show "json_parse (string_of (ToBlob ?sd)) \<noteq> None" "ToBlob ?sd \<noteq> []"
    by (auto simp: FromBlob_def json_parse_def string_of_def lex.simps [of "[]"] split: option.splits)
  moreover have "validateSDBlob sha L (SetProfile (sd_profile ?sd) ?sd) = None"
    using assms(4-6) by (intro stream_sd_valid [OF assms(1,8,7)]) (simp_all add: StreamTypeLBRYFile_def)
  ultimately show "ValidateSDBlobBytes sha L okeys reg (ToBlob ?sd) = None"
    using fb by (simp add: ValidateSDBlobBytes_def)
qed

lemma Decode_New_lemma:
  assumes "block_cipher enc dec" "okeys_ok okeys" "set reg = {ProfileNewSort, ProfileOldSort}"
    and "\<And>i n. length (rng i n) = n" "clean r" "source r \<noteq> []" "length (source r) < 2 ^ 62"
  shows "\<exists>s. New rng sha enc r = Some (Inr s) \<and> Decode sha dec okeys reg s = Some (Inr (source r))"
proof -
  obtain s ts iv where S: "New rng sha enc r = Some (Inr (ToBlob (stream_sd sha s ts iv) # map (snd \<circ> snd) ts))"
      "concat (map fst ts) = source r" "list_all (piece_ok enc (Key s) maxBlobDataSize) ts" "length iv = aes_BlockSize"
      "length (Key s) = 32" "StreamType s = StreamTypeLBRYFile" "StreamName s = []" "SuggestedFileName s = []" "sd_profile s = ProfileNewSort"
    by (rule New_pieces [where sha = sha, OF assms(1,4,5)])
  have "ts \<noteq> []" using S(2) assms(6) by auto
  then have "Decode sha dec okeys reg (ToBlob (stream_sd sha s ts iv) # map (snd \<circ> snd) ts) = Some (Inr (source r))"
    using Decode_pieces [OF assms(1-3) _ _ S(3)] S(2,5,6) assms(7) StreamTypeLBRYFile_tidy by (simp add: valid_key_size_def)
  then show ?thesis using S(1) by simp
qed

text \<open>
  C2. Encoding a non-empty source and decoding the resulting stream returns the source, however the
  reader splits its deliveries, with fresh random keys and IVs: the call succeeds and the decoded file is
  the concatenation of what the reader delivered.
\<close>

theorem Decode_New:
  assumes "block_cipher enc dec" "okeys_ok okeys" "set reg = {ProfileNewSort, ProfileOldSort}"
    and "\<And>i n. length (rng i n) = n" "clean r" "source r \<noteq> []" "length (source r) < 2 ^ 62"
  shows "\<exists>s. New rng sha enc r = Some (Inr s) \<and> Decode sha dec okeys reg s = Some (Inr (source r))"
  using assms by (rule Decode_New_lemma)

theorem Decode_New_witness:
  "\<exists>s. New (\<lambda>i n. replicate n 7) (\<lambda>_. [1]) xor_cipher [([1, 2], None), ([], None), ([3], Some EOF)] = Some (Inr s) \<and>
       Decode (\<lambda>_. [1]) xor_cipher sample_okeys [ProfileNewSort, ProfileOldSort] s =
         Some (Inr (source [([1, 2], None), ([], None), ([3], Some EOF)]))"
  by (rule Decode_New [OF block_cipher_xor sample_okeys_ok]) (simp_all add: source_def)

text \<open>
  C19. A stream made from any source that ends normally is publishable: its descriptor passes
  \<open>ValidateSDBlobBytes\<close> and every content blob is within the size limits.
\<close>

theorem New_valid:
  assumes "block_cipher enc dec" "okeys_ok okeys" "set reg = {ProfileNewSort, ProfileOldSort}"
    and "\<And>i n. length (rng i n) = n" "\<And>x. length (sha x) = 48" "clean r" "length (source r) < 2 ^ 62"
  shows "\<exists>sdData bs. New rng sha enc r = Some (Inr (sdData # bs)) \<and> ValidateSDBlobBytes sha L okeys reg sdData = None \<and>
           (\<forall>b \<in> set bs. ValidForSend b = None)"
proof -
  obtain s ts iv where S: "New rng sha enc r = Some (Inr (ToBlob (stream_sd sha s ts iv) # map (snd \<circ> snd) ts))"
      "concat (map fst ts) = source r" "list_all (piece_ok enc (Key s) maxBlobDataSize) ts" "length iv = aes_BlockSize"
      "length (Key s) = 32" "StreamType s = StreamTypeLBRYFile" "StreamName s = []" "SuggestedFileName s = []" "sd_profile s = ProfileNewSort"
    by (rule New_pieces [where sha = sha, OF assms(1,4,6)])
  have "ValidateSDBlobBytes sha L okeys reg (ToBlob (stream_sd sha s ts iv)) = None"
    using stream_sd_bytes_valid(3) [OF assms(1-3,5) S(6,5,4,3)] S(2) assms(7) by simp
  moreover have "ValidForSend b = None" if "b \<in> set (map (snd \<circ> snd) ts)" for b
    using that S(3) piece_ValidForSend [OF assms(1) _ order_refl] by (fastforce simp: list_all_iff)
  ultimately show ?thesis using S(1) by auto
qed

theorem New_valid_witness:
  "\<exists>sdData bs. New (\<lambda>i n. replicate n 7) (\<lambda>_. replicate 48 1) xor_cipher [([1, 2], None), ([3], Some EOF)] = Some (Inr (sdData # bs)) \<and>
     ValidateSDBlobBytes (\<lambda>_. replicate 48 1) sample_cid_lib sample_okeys [ProfileNewSort, ProfileOldSort] sdData = None \<and>
     (\<forall>b \<in> set bs. ValidForSend b = None)"
  by (rule New_valid [OF block_cipher_xor sample_okeys_ok]) (simp_all add: source_def)

text \<open>
  C22. The only input on which decoding panics is a stream of at least two blobs whose descriptor parses,
  has the right stream hash and lists no blobs at all; every other stream is decoded or refused with an
  error.
\<close>

theorem Decode_panics_iff:
  "Decode sha dec okeys reg s = None \<longleftrightarrow>
     2 \<le> length s \<and> (\<exists>sd. FromBlob okeys reg (s ! 0) = Inr sd \<and> SDBlob_IsValid sha sd \<and> BlobInfos sd = [])"
proof -
  have safe: "decode_blobs sha dec key s n i acc bis \<noteq> None"
    if "bis \<noteq> []" "Length (last bis) = 0" "n = i + length bis" "length s = n" for key n i acc bis
    using that
  proof (induction bis arbitrary: i acc)
    case (Cons bi bis)
    show ?case
    proof (cases "Length bi = 0")
      case False
      then have "bis \<noteq> []" using Cons.prems(2) by auto
      moreover from this have "Suc i < length s" using Cons.prems(3,4) by (cases bis) auto
      ultimately show ?thesis using False Cons.prems Cons.IH [of "Suc i"] by (simp split: sum.splits)
    qed simp
  qed simp
  have "decode_blobs sha dec key s (length bis) 0 [] bis \<noteq> None"
    if "bis \<noteq> []" "Length (last bis) = 0" "length s - Suc 0 = length bis - Suc 0" "2 \<le> length s" for key bis
  proof -
    have "length s = length bis" using that(1,3,4) by (cases bis; cases s) auto
    then show ?thesis using safe [of bis "length bis" 0] that(1,2) by simp
  qed
  then show ?thesis
    by (auto simp: Decode_def not_less split: sum.splits if_splits)
qed

text \<open>
  C21. A stream can be rebuilt from its descriptor: running the encoder made by \<open>NewEncoderFromSD\<close> on the
  same source reproduces the stream exactly, descriptor included, whatever the random generator returns.
\<close>

theorem NewEncoderFromSD_reproduces:
  assumes "block_cipher enc dec" "fresh rng e" "clean (src e)"
    and "StreamType (sd e) = StreamTypeLBRYFile" "buf e = maxBlobDataSize" "length (Key (sd e)) \<in> {16, 32}"
    and "Encoder_Stream rng sha enc e = (Some (Inr s), e')" "\<And>i n. length (rng' i n) = n"
  shows "\<exists>e2. NewEncoderFromSD (src e) (sd e') = Some e2 \<and> fst (Encoder_Stream rng' sha enc e2) = Some (Inr s)"
proof -
  obtain ts iv where S: "s = ToBlob (stream_sd sha (sd e) ts iv) # map (snd \<circ> snd) ts" "sd e' = stream_sd sha (sd e) ts iv"
      "list_all (piece_ok enc (Key (sd e)) (buf e)) ts" "length iv = aes_BlockSize" "map fst ts = splits (buf e) (src e)"
    using Encoder_Stream_spec [OF assms(1-3), of sha] assms(7) by auto
  have vs: "map IV (BlobInfos (sd e')) = map (fst \<circ> snd) ts @ [iv]"
    using map_IV_infos [of sha 0 ts] by (simp add: S(2) stream_sd_def UpdateStreamHash_def term_of_def)
  obtain e2 where e2: "NewEncoderFromSD (src e) (sd e') = Some e2" "src e2 = src e" "ivs e2 = map (fst \<circ> snd) ts @ [iv]"
      "buf e2 = maxBlobDataSize" "srcSizeHint e2 = 0" "sd e2 = (sd e)\<lparr>BlobInfos := [], StreamHash := []\<rparr>"
    using assms(4,6) by (simp add: NewEncoderFromSD_def NewEncoderWithIVs_def vs)
      (auto simp: newEncoderInternal_def emptySDBlob_def S(2) stream_sd_def UpdateStreamHash_def SetProfile_def GetProfile_def)
  have "fresh rng' e2"
    using assms(2,4,8) e2 S(3,4) by (auto simp: fresh_def enc_ok_def list_all_iff piece_ok_def maxBlobDataSize_def MaxBlobSize_def)
  then obtain ts2 iv2 e3 where T: "Encoder_Stream rng' sha enc e2 = (Some (Inr (ToBlob (stream_sd sha (sd e2) ts2 iv2) # map (snd \<circ> snd) ts2)), e3)"
      "list_all (piece_ok enc (Key (sd e2)) (buf e2)) ts2" "map fst ts2 = splits (buf e2) (src e2)"
      "length ts2 < length (ivs e2) \<longrightarrow> map (fst \<circ> snd) ts2 @ [iv2] = take (Suc (length ts2)) (ivs e2)"
    using Encoder_Stream_spec [OF assms(1) _, of rng' e2 sha] assms(3) e2(2) by auto
  have fst_eq: "map fst ts2 = map fst ts" using T(3) S(5) e2(2,4) assms(5) by simp
  then have "length ts2 = length ts" by (metis length_map)
  then have "map (fst \<circ> snd) ts2 @ [iv2] = map (fst \<circ> snd) ts @ [iv]" using T(4) e2(3) by simp
  then have "iv2 = iv" "map (fst \<circ> snd) ts2 = map (fst \<circ> snd) ts" by simp_all
  moreover from this have "ts2 = ts" using pieces_unique [OF T(2), of "Key (sd e)" "buf e" ts] S(3) fst_eq e2(6) by simp
  moreover have "stream_sd sha (sd e2) ts iv = stream_sd sha (sd e) ts iv"
    by (simp add: e2(6) stream_sd_def UpdateStreamHash_def computeStreamHash_def)
  ultimately show ?thesis using T(1) e2(1) S(1) by simp
qed

lemma sample_Encoder_fresh: "fresh (\<lambda>i n. replicate n 7) (newEncoderInternal [([1, 2], None)] (replicate 16 9))"
  by (simp add: fresh_def newEncoderInternal_def enc_ok_def emptySDBlob_def valid_key_size_def
      maxBlobDataSize_def MaxBlobSize_def StreamTypeLBRYFile_def tidy_def plain_char_def)

theorem NewEncoderFromSD_reproduces_witness:
  "\<exists>s e' e2. Encoder_Stream (\<lambda>i n. replicate n 7) (\<lambda>_. [1]) xor_cipher (newEncoderInternal [([1, 2], None)] (replicate 16 9)) =
       (Some (Inr s), e') \<and>
     NewEncoderFromSD [([1, 2], None)] (sd e') = Some e2 \<and>
     fst (Encoder_Stream (\<lambda>i n. replicate n 8) (\<lambda>_. [1]) xor_cipher e2) = Some (Inr s)"
proof -
  let ?e = "newEncoderInternal [([1, 2], None)] (replicate 16 9)"
  have e: "src ?e = [([1, 2], None)]" "StreamType (sd ?e) = StreamTypeLBRYFile" "buf ?e = maxBlobDataSize"
      "length (Key (sd ?e)) \<in> {16, 32}"
    by (simp_all add: newEncoderInternal_def emptySDBlob_def)
  then have c: "clean (src ?e)" by simp
  obtain s e' where s: "Encoder_Stream (\<lambda>i n. replicate n 7) (\<lambda>_. [1]) xor_cipher ?e = (Some (Inr s), e')"
    using Encoder_Stream_spec [OF block_cipher_xor sample_Encoder_fresh c, of "\<lambda>_. [1]"] by blast
  obtain e2 where "NewEncoderFromSD (src ?e) (sd e') = Some e2"
      "fst (Encoder_Stream (\<lambda>i n. replicate n 8) (\<lambda>_. [1]) xor_cipher e2) = Some (Inr s)"
    using NewEncoderFromSD_reproduces [OF block_cipher_xor sample_Encoder_fresh c e(2-4) s, of "\<lambda>i n. replicate n 8"] by auto
  then show ?thesis using s e(1) by auto
qed

end
