(* ===== verification/Chain.thy ===== *)
theory Chain
  imports Hash
begin

unbundle bit_operations_syntax

text \<open>
  Claim identifiers, claim scripts and transaction building (\<open>chain/claimid.go\<close>, \<open>chain/script.go\<close>,
  \<open>chain/tx.go\<close>, \<open>chain/params.go\<close>). The lbcd packages are the record \<open>lbcd\<close>: address decoding, the
  script templates, prefix stripping and signing; SHA-256 and RIPEMD-160 are parameters. Addresses and
  keys are type variables of that record.
\<close>

section \<open>Claim identifiers\<close>

definition ClaimIDSize :: nat where
  "ClaimIDSize = 20"

type_synonym ClaimID = bytes

definition be_uint32 :: "32 word \<Rightarrow> bytes" where
  "be_uint32 w = map (\<lambda>k. ucast (drop_bit k w) :: byte) [24, 16, 8, 0]"

definition hash160Claim :: "(bytes \<Rightarrow> bytes) \<Rightarrow> (bytes \<Rightarrow> bytes) \<Rightarrow> bytes \<Rightarrow> ClaimID" where
  "hash160Claim sha256 ripemd data = ripemd (sha256 data)"

definition NewClaimID :: "(bytes \<Rightarrow> bytes) \<Rightarrow> (bytes \<Rightarrow> bytes) \<Rightarrow> bytes \<times> 32 word \<Rightarrow> ClaimID" where
  "NewClaimID sha256 ripemd op = hash160Claim sha256 ripemd (fst op @ be_uint32 (snd op))"

definition NewClaimIDFromTxVout ::
    "(string \<Rightarrow> bytes option) \<Rightarrow> (bytes \<Rightarrow> bytes) \<Rightarrow> (bytes \<Rightarrow> bytes) \<Rightarrow> string \<Rightarrow> 32 word \<Rightarrow> error + ClaimID" where
  "NewClaimIDFromTxVout newHashFromStr sha256 ripemd txidHex vout =
     (case newHashFromStr txidHex of
        None \<Rightarrow> Inl (Plain ''parse txid'')
      | Some h \<Rightarrow> Inr (NewClaimID sha256 ripemd (h, vout)))"

definition NewClaimIDFromBytes :: "bytes \<Rightarrow> error + ClaimID" where
  "NewClaimIDFromBytes b =
     (if length b \<noteq> ClaimIDSize then Inl (Plain ''invalid claim ID length'') else Inr b)"

text \<open>
  The reversal loop over the index pairs \<open>i < j\<close>, from a zero array: with an even size every index is
  visited.
\<close>

function reverse_loop :: "nat \<Rightarrow> nat \<Rightarrow> bytes \<Rightarrow> bytes \<Rightarrow> bytes" where
  "reverse_loop i j b out =
     (if i < j then reverse_loop (i + 1) (j - 1) b (out[i := b ! j, j := b ! i]) else out)"
  by pat_completeness auto
termination by (relation "measure (\<lambda>(i, j, _, _). j - i)") auto

declare reverse_loop.simps [simp del]

definition NewClaimIDFromString :: "string \<Rightarrow> error + ClaimID" where
  "NewClaimIDFromString s =
     (if length s \<noteq> 40 then Inl (Plain ''invalid claim ID hex length'')
      else (case hex_decode s of
              None \<Rightarrow> Inl (Plain ''decode claim ID hex'')
            | Some b \<Rightarrow> Inr (reverse_loop 0 (ClaimIDSize - 1) b (replicate ClaimIDSize 0))))"

definition ClaimID_String :: "ClaimID \<Rightarrow> string" where
  "ClaimID_String i = hex_encode (reverse_loop 0 (ClaimIDSize - 1) i (replicate ClaimIDSize 0))"

definition ClaimID_Equal :: "ClaimID \<Rightarrow> ClaimID \<Rightarrow> bool" where
  "ClaimID_Equal a b \<longleftrightarrow> a = b"

fun ClaimID_IsZero :: "ClaimID \<Rightarrow> bool" where
  "ClaimID_IsZero [] = True"
| "ClaimID_IsZero (b # bs) = (if b \<noteq> 0 then False else ClaimID_IsZero bs)"

section \<open>Opcodes\<close>

definition OP_0 :: byte where "OP_0 = 0x00"
definition OP_DATA_1 :: byte where "OP_DATA_1 = 0x01"
definition OP_DATA_75 :: byte where "OP_DATA_75 = 0x4b"
definition OP_PUSHDATA1 :: byte where "OP_PUSHDATA1 = 0x4c"
definition OP_PUSHDATA2 :: byte where "OP_PUSHDATA2 = 0x4d"
definition OP_PUSHDATA4 :: byte where "OP_PUSHDATA4 = 0x4e"
definition OP_1NEGATE :: byte where "OP_1NEGATE = 0x4f"
definition OP_1 :: byte where "OP_1 = 0x51"
definition OP_16 :: byte where "OP_16 = 0x60"
definition OP_TRUE :: byte where "OP_TRUE = OP_1"
definition OP_2DROP :: byte where "OP_2DROP = 0x6d"
definition OP_DROP :: byte where "OP_DROP = 0x75"
definition OP_CLAIMNAME :: byte where "OP_CLAIMNAME = 0xb5"
definition OP_SUPPORTCLAIM :: byte where "OP_SUPPORTCLAIM = 0xb6"
definition OP_UPDATECLAIM :: byte where "OP_UPDATECLAIM = 0xb7"

lemmas opcode_defs = OP_0_def OP_DATA_1_def OP_DATA_75_def OP_PUSHDATA1_def OP_PUSHDATA2_def OP_PUSHDATA4_def
  OP_1NEGATE_def OP_1_def OP_16_def OP_TRUE_def OP_2DROP_def OP_DROP_def OP_CLAIMNAME_def OP_SUPPORTCLAIM_def
  OP_UPDATECLAIM_def

section \<open>Reading pushes\<close>

definition le_uint :: "bytes \<Rightarrow> nat" where
  "le_uint bs = foldr (\<lambda>b n. unat b + 256 * n) bs 0"

text \<open>One push of \<open>n\<close> bytes: the data and the rest, \<open>None\<close> when it exceeds the script.\<close>

definition take_push :: "nat \<Rightarrow> bytes \<Rightarrow> (bytes \<times> bytes) option" where
  "take_push n data = (if n > length data then None else Some (take n data, drop n data))"

text \<open>The switch of the scanner: the push and the rest, \<open>Inr None\<close> at an opcode that pushes nothing.\<close>

definition read_push :: "byte \<Rightarrow> bytes \<Rightarrow> error + (bytes \<times> bytes) option" where
  "read_push op data =
     (if op = OP_0 then Inr (Some ([], data))
      else if op \<ge> OP_1 \<and> op \<le> OP_16 then Inr (Some ([op - (OP_1 - 1)], data))
      else if op = OP_1NEGATE then Inr (Some ([0x81], data))
      else if op \<ge> OP_DATA_1 \<and> op \<le> OP_DATA_75 then
        (case take_push (unat (op - (OP_DATA_1 - 1))) data of
           None \<Rightarrow> Inl (Plain ''push exceeds script length'')
         | Some p \<Rightarrow> Inr (Some p))
      else if op = OP_PUSHDATA1 then
        (if length data < 1 then Inl (Plain ''truncated OP_PUSHDATA1'')
         else (case take_push (unat (hd data)) (drop 1 data) of
                 None \<Rightarrow> Inl (Plain ''OP_PUSHDATA1 length exceeds script'')
               | Some p \<Rightarrow> Inr (Some p)))
      else if op = OP_PUSHDATA2 then
        (if length data < 2 then Inl (Plain ''truncated OP_PUSHDATA2'')
         else (case take_push (le_uint (take 2 data)) (drop 2 data) of
                 None \<Rightarrow> Inl (Plain ''OP_PUSHDATA2 length exceeds script'')
               | Some p \<Rightarrow> Inr (Some p)))
      else if op = OP_PUSHDATA4 then
        (if length data < 4 then Inl (Plain ''truncated OP_PUSHDATA4'')
         else (case take_push (le_uint (take 4 data)) (drop 4 data) of
                 None \<Rightarrow> Inl (Plain ''OP_PUSHDATA4 length exceeds script'')
               | Some p \<Rightarrow> Inr (Some p)))
      else Inr None)"

lemma read_push_shorter: "read_push op data = Inr (Some (p, rest)) \<Longrightarrow> length rest \<le> length data"
  by (auto simp: read_push_def take_push_def split: if_splits)

function readPushes :: "bytes \<Rightarrow> error + bytes list" where
  "readPushes data =
     (case data of
        [] \<Rightarrow> Inr []
      | op # r \<Rightarrow>
          (case read_push op r of
             Inl e \<Rightarrow> Inl e
           | Inr None \<Rightarrow> Inr []
           | Inr (Some (push, rest)) \<Rightarrow>
               (case readPushes rest of Inl e \<Rightarrow> Inl e | Inr pushes \<Rightarrow> Inr (push # pushes))))"
  by pat_completeness auto
termination by (relation "measure length") (auto dest: read_push_shorter)

declare readPushes.simps [simp del]

definition IsClaimScript :: "bytes \<Rightarrow> bool" where
  "IsClaimScript script \<longleftrightarrow> length script > 0 \<and>
     (script ! 0 = OP_CLAIMNAME \<or> script ! 0 = OP_UPDATECLAIM \<or> script ! 0 = OP_SUPPORTCLAIM)"

definition ExtractClaimValue :: "bytes \<Rightarrow> error + bytes" where
  "ExtractClaimValue script =
     (case script of
        [] \<Rightarrow> Inl (Plain ''empty script'')
      | op # rest \<Rightarrow>
          (case (if op = OP_CLAIMNAME then Some 1 else if op = OP_UPDATECLAIM then Some (2 :: nat) else None) of
             None \<Rightarrow> Inl (Plain ''unexpected opcode in claim script'')
           | Some valueIndex \<Rightarrow>
               (case readPushes rest of
                  Inl e \<Rightarrow> Inl (Wrapped ''parse script pushes'' e)
                | Inr pushes \<Rightarrow>
                    (if length pushes \<le> valueIndex then Inl (Plain ''expected more pushes in claim script'')
                     else Inr (pushes ! valueIndex)))))"

section \<open>Building scripts\<close>

record 'a lbcd =
  DecodeAddress :: "string \<Rightarrow> 'a option"
  PayToAddrScript :: "'a \<Rightarrow> bytes option"
  ClaimNameScript :: "string \<Rightarrow> bytes \<Rightarrow> bytes option"
  ClaimUpdateScript :: "string \<Rightarrow> bytes \<Rightarrow> bytes \<Rightarrow> bytes option"
  ClaimSupportScript :: "string \<Rightarrow> bytes \<Rightarrow> bytes \<Rightarrow> bytes option"
  StripClaimScriptPrefix :: "bytes \<Rightarrow> bytes"
  NewHashFromStr :: "string \<Rightarrow> bytes option"
  MaxClaimNameSize :: nat
  TxVersion :: int
  MaxTxInSequenceNum :: "32 word"

definition BuildP2PKHScript :: "'a lbcd \<Rightarrow> string \<Rightarrow> error + bytes" where
  "BuildP2PKHScript T address =
     (case DecodeAddress T address of
        None \<Rightarrow> Inl (Plain ''decode address'')
      | Some addr \<Rightarrow> (case PayToAddrScript T addr of None \<Rightarrow> Inl (Plain ''unsupported address'') | Some s \<Rightarrow> Inr s))"

definition strip_true :: "bytes \<Rightarrow> bytes" where
  "strip_true pre = (if length pre > 0 \<and> last pre = OP_TRUE then butlast pre else pre)"

text \<open>The common part of the three builders: name checks, address, and the template with its prefix.\<close>

definition build_claim :: "'a lbcd \<Rightarrow> string \<Rightarrow> bytes option \<Rightarrow> string \<Rightarrow> string \<Rightarrow> error + bytes" where
  "build_claim T name pre err address =
     (if length name = 0 then Inl (Plain ''claim name cannot be empty'')
      else if length name > MaxClaimNameSize T then Inl (Plain ''claim name too long'')
      else (case DecodeAddress T address of
              None \<Rightarrow> Inl (Plain ''decode address'')
            | Some addr \<Rightarrow>
                (case PayToAddrScript T addr of
                   None \<Rightarrow> Inl (Plain ''build P2PKH script'')
                 | Some pkScript \<Rightarrow>
                     (case pre of
                        None \<Rightarrow> Inl (Plain err)
                      | Some p \<Rightarrow> Inr (strip_true p @ pkScript)))))"

definition BuildClaimNameScript :: "'a lbcd \<Rightarrow> string \<Rightarrow> bytes \<Rightarrow> string \<Rightarrow> error + bytes" where
  "BuildClaimNameScript T name val address =
     build_claim T name (ClaimNameScript T name val) ''build claim name prefix'' address"

definition BuildUpdateClaimScript :: "'a lbcd \<Rightarrow> string \<Rightarrow> ClaimID \<Rightarrow> bytes \<Rightarrow> string \<Rightarrow> error + bytes" where
  "BuildUpdateClaimScript T name claimID val address =
     build_claim T name (ClaimUpdateScript T name claimID val) ''build update claim prefix'' address"

definition BuildSupportClaimScript :: "'a lbcd \<Rightarrow> string \<Rightarrow> ClaimID \<Rightarrow> bytes \<Rightarrow> string \<Rightarrow> error + bytes" where
  "BuildSupportClaimScript T name claimID val address =
     build_claim T name (ClaimSupportScript T name claimID val) ''build support claim prefix'' address"

section \<open>Transactions\<close>

record Input =
  TxID :: string
  Vout :: "32 word"
  in_Amount :: int
  in_Script :: bytes

datatype ClaimType = ClaimTypeNone | ClaimTypeName | ClaimTypeUpdate | ClaimTypeSupport

record Output =
  Address :: string
  out_Amount :: int
  out_Script :: bytes
  IsClaim :: bool
  ClaimName :: string
  ClaimValue :: bytes
  out_ClaimID :: ClaimID
  out_ClaimType :: ClaimType

record TxIn =
  PreviousOutPoint :: "bytes \<times> 32 word"
  SignatureScript :: bytes
  Sequence :: "32 word"

record TxOut =
  Value :: int
  PkScript :: bytes

record MsgTx =
  tx_Version :: int
  TxIns :: "TxIn list"
  TxOuts :: "TxOut list"

definition output_script :: "'a lbcd \<Rightarrow> nat \<Rightarrow> Output \<Rightarrow> error + bytes" where
  "output_script T i out =
     (let wrap = (\<lambda>r. case r of Inl e \<Rightarrow> Inl (Wrapped ''build output script'' e) | Inr s \<Rightarrow> Inr s) in
      if length (out_Script out) > 0 then Inr (out_Script out)
      else if IsClaim out \<and> out_ClaimType out = ClaimTypeName
        then wrap (BuildClaimNameScript T (ClaimName out) (ClaimValue out) (Address out))
      else if IsClaim out \<and> out_ClaimType out = ClaimTypeUpdate
        then wrap (BuildUpdateClaimScript T (ClaimName out) (out_ClaimID out) (ClaimValue out) (Address out))
      else if IsClaim out \<and> out_ClaimType out = ClaimTypeSupport
        then wrap (BuildSupportClaimScript T (ClaimName out) (out_ClaimID out) (ClaimValue out) (Address out))
      else if IsClaim out then Inl (Plain ''IsClaim is true but ClaimType is unspecified or unknown'')
      else wrap (BuildP2PKHScript T (Address out)))"

fun add_inputs :: "'a lbcd \<Rightarrow> Input list \<Rightarrow> MsgTx \<Rightarrow> error + MsgTx" where
  "add_inputs T [] tx = Inr tx"
| "add_inputs T (i # is) tx =
     (case NewHashFromStr T (TxID i) of
        None \<Rightarrow> Inl (Plain ''parse txid'')
      | Some h \<Rightarrow>
          add_inputs T is (tx\<lparr>TxIns := TxIns tx @
            [\<lparr>PreviousOutPoint = (h, Vout i), SignatureScript = [], Sequence = MaxTxInSequenceNum T\<rparr>]\<rparr>))"

fun add_outputs :: "'a lbcd \<Rightarrow> nat \<Rightarrow> Output list \<Rightarrow> MsgTx \<Rightarrow> error + MsgTx" where
  "add_outputs T n [] tx = Inr tx"
| "add_outputs T n (out # outs) tx =
     (case output_script T n out of
        Inl e \<Rightarrow> Inl e
      | Inr s \<Rightarrow> add_outputs T (Suc n) outs (tx\<lparr>TxOuts := TxOuts tx @ [\<lparr>Value = out_Amount out, PkScript = s\<rparr>]\<rparr>))"

text \<open>\<open>sign tx i subscript key\<close> is \<open>txscript.SignatureScript\<close> with \<open>SigHashAll\<close>.\<close>

fun sign_inputs ::
    "'a lbcd \<Rightarrow> (MsgTx \<Rightarrow> nat \<Rightarrow> bytes \<Rightarrow> 'k \<Rightarrow> bytes option) \<Rightarrow> (nat \<Rightarrow> Input \<Rightarrow> error + 'k) \<Rightarrow> nat \<Rightarrow> Input list \<Rightarrow> MsgTx
       \<Rightarrow> error + MsgTx" where
  "sign_inputs T sign keyFn n [] tx = Inr tx"
| "sign_inputs T sign keyFn n (i # is) tx =
     (case keyFn n i of
        Inl e \<Rightarrow> Inl (Wrapped ''get key for input'' e)
      | Inr privKey \<Rightarrow>
          (case sign tx n (StripClaimScriptPrefix T (in_Script i)) privKey of
             None \<Rightarrow> Inl (Plain ''sign input'')
           | Some sig \<Rightarrow>
               sign_inputs T sign keyFn (Suc n) is (tx\<lparr>TxIns := (TxIns tx)[n := (TxIns tx ! n)\<lparr>SignatureScript := sig\<rparr>]\<rparr>)))"

definition Build ::
    "'a lbcd \<Rightarrow> (MsgTx \<Rightarrow> nat \<Rightarrow> bytes \<Rightarrow> 'k \<Rightarrow> bytes option) \<Rightarrow> Input list \<Rightarrow> Output list \<Rightarrow> (nat \<Rightarrow> Input \<Rightarrow> error + 'k)
       \<Rightarrow> error + MsgTx" where
  "Build T sign inputs outputs keyFn =
     (case add_inputs T inputs \<lparr>tx_Version = TxVersion T, TxIns = [], TxOuts = []\<rparr> of
        Inl e \<Rightarrow> Inl e
      | Inr tx1 \<Rightarrow>
          (case add_outputs T 0 outputs tx1 of
             Inl e \<Rightarrow> Inl e
           | Inr tx2 \<Rightarrow> sign_inputs T sign keyFn 0 inputs tx2))"

definition chain_EstimateFee :: "int \<Rightarrow> int \<Rightarrow> int" where
  "chain_EstimateFee sz feePerByte = i64 (sz * feePerByte)"

definition EstimateTxSize :: "int \<Rightarrow> int \<Rightarrow> int" where
  "EstimateTxSize numInputs numOutputs = i64 (10 + i64 (numInputs * 250) + i64 (numOutputs * 40))"

section \<open>Lemmas\<close>

lemma reverse_loop_rev:
  assumes "length b = n" "length out = n" "i + j = n - 1" "even n" "i \<le> j + 1" "n \<noteq> 0"
    and "\<And>k. k < n \<Longrightarrow> k < i \<or> j < k \<Longrightarrow> out ! k = b ! (n - 1 - k)"
  shows "reverse_loop i j b out = rev b"
  using assms
proof (induction i j b out rule: reverse_loop.induct)
  case (1 i j b out)
  show ?case
  proof (cases "i < j")
    case True
    let ?out = "out[i := b ! j, j := b ! i]"
    have ij: "n - 1 - i = j" "n - 1 - j = i" "i < n" "j < n" "1 \<le> j" using "1.prems"(3,6) True by arith+
    have "?out ! k = b ! (n - 1 - k)" if k: "k < n" "k < i + 1 \<or> j - 1 < k" for k
    proof (cases "k = i \<or> k = j")
      case True
      then show ?thesis using ij \<open>i < j\<close> "1.prems"(2) by (auto simp: nth_list_update)
    next
      case False
      then have "k < i \<or> j < k" using k(2) ij(5) by arith
      then show ?thesis using "1.prems"(7) [OF k(1)] False by simp
    qed
    moreover have "(i + 1) + (j - 1) = n - 1" "i + 1 \<le> (j - 1) + 1" using "1.prems"(3) ij(5) True by arith+
    ultimately have "reverse_loop (i + 1) (j - 1) b ?out = rev b"
      using "1.prems"(1,2,4,6) by (intro "1.IH" [OF True]) simp_all
    then show ?thesis using True by (subst reverse_loop.simps) simp
  next
    case False
    have "i \<noteq> j" using "1.prems"(3,4,6) by (cases n) (auto simp: mult_2 [symmetric])
    then have "\<forall>k < n. k < i \<or> j < k" using False by arith
    then have "out = rev b" using "1.prems"(1,2,7) by (intro nth_equalityI) (simp_all add: rev_nth)
    then show ?thesis using False by (subst reverse_loop.simps) simp
  qed
qed

lemma reverse_loop_claim: "length b = 20 \<Longrightarrow> reverse_loop 0 19 b (replicate 20 0) = rev b"
  by (rule reverse_loop_rev [where n = 20]) simp_all

text \<open>The canonical pushes that \<open>ScriptBuilder.AddData\<close> documents.\<close>

definition le_bytes :: "nat \<Rightarrow> nat \<Rightarrow> bytes" where
  "le_bytes k n = map (\<lambda>i. of_nat (n div 256 ^ i)) [0..<k]"

definition add_data :: "bytes \<Rightarrow> bytes" where
  "add_data d =
     (if d = [] \<or> d = [0] then [OP_0]
      else if length d = 1 \<and> unat (d ! 0) \<le> 16 then [OP_1 - 1 + d ! 0]
      else if d = [0x81] then [OP_1NEGATE]
      else if length d \<le> 75 then of_nat (length d) # d
      else if length d \<le> 255 then OP_PUSHDATA1 # of_nat (length d) # d
      else if length d \<le> 65535 then OP_PUSHDATA2 # le_bytes 2 (length d) @ d
      else OP_PUSHDATA4 # le_bytes 4 (length d) @ d)"

definition pushed :: "bytes \<Rightarrow> bytes" where
  "pushed d = (if d = [0] then [] else d)"

lemma unat_byte_of_nat: "unat (of_nat n :: byte) = n mod 256"
  by (simp add: unat_of_nat)

lemma le_uint_le_bytes: "n < 256 ^ k \<Longrightarrow> le_uint (le_bytes k n) = n"
proof (induction k arbitrary: n)
  case (Suc k)
  have "le_bytes (Suc k) n = of_nat n # le_bytes k (n div 256)"
    by (simp add: le_bytes_def upt_conv_Cons map_Suc_upt [symmetric] del: upt_Suc) (simp add: div_mult2_eq)
  moreover have "n div 256 < 256 ^ k" using Suc.prems by (simp add: less_mult_imp_div_less mult.commute)
  ultimately show ?case using Suc.IH by (simp add: le_uint_def unat_byte_of_nat)
qed (simp add: le_uint_def le_bytes_def)

lemma length_le_bytes [simp]: "length (le_bytes k n) = k"
  by (simp add: le_bytes_def)

lemma small_int_push:
  assumes "unat (v :: byte) \<le> 16" "v \<noteq> 0"
  shows "read_push (OP_1 - 1 + v) data = Inr (Some ([v], data))"
proof -
  have n: "unat v \<in> set [1..<17]" using assms by (auto simp: Suc_le_eq unat_gt_0)
  have v: "v = of_nat (unat v)" by simp
  have "\<forall>n \<in> set [1..<17]. read_push (OP_1 - 1 + of_nat n) data = Inr (Some ([of_nat n :: byte], data))"
    by (simp add: upt_rec numeral_eq_Suc [symmetric] read_push_def opcode_defs)
  then show ?thesis using n v by metis
qed

lemma short_push:
  assumes "1 \<le> length d" "length d \<le> 75"
  shows "read_push (of_nat (length d)) (d @ rest) = Inr (Some (d, rest))"
proof -
  have u: "unat (of_nat (length d) :: byte) = length d" using assms by (simp add: unat_byte_of_nat)
  have "(of_nat (length d) :: byte) \<noteq> OP_0" "\<not> (of_nat (length d) :: byte) \<ge> OP_1" "(of_nat (length d) :: byte) \<noteq> OP_1NEGATE"
      "(of_nat (length d) :: byte) \<ge> OP_DATA_1" "(of_nat (length d) :: byte) \<le> OP_DATA_75"
    using assms u by (auto simp: opcode_defs word_le_nat_alt dest: arg_cong [where f = unat])
  then show ?thesis using u by (simp add: read_push_def take_push_def OP_DATA_1_def)
qed

lemma read_push_add_data:
  assumes "length d < 2 ^ 32"
  shows "\<exists>op r. add_data d = op # r \<and> read_push op (r @ rest) = Inr (Some (pushed d, rest))"
proof -
  consider "d = [] \<or> d = [0]" | "length d = 1" "unat (d ! 0) \<le> 16" "d \<noteq> [0]" | "d = [0x81]"
    | "\<not> (length d = 1 \<and> unat (d ! 0) \<le> 16)" "d \<noteq> [0x81]" "1 \<le> length d" "length d \<le> 75"
    | "75 < length d" "length d \<le> 255" | "255 < length d" "length d \<le> 65535" | "65535 < length d"
    by (cases "length d = 0") (fastforce simp: Suc_le_eq)+
  then show ?thesis
  proof cases
    case 1
    then show ?thesis by (auto simp: add_data_def pushed_def read_push_def)
  next
    case 2
    then obtain v where v: "d = [v]" by (auto simp: length_Suc_conv)
    then show ?thesis using 2 small_int_push [of v rest] by (simp add: add_data_def pushed_def)
  next
    case 3
    then show ?thesis by (simp add: add_data_def pushed_def read_push_def opcode_defs)
  next
    case 4
    moreover have "d \<noteq> [0]" "d \<noteq> []" using 4 by auto
    ultimately show ?thesis using short_push [of d rest] by (auto simp: add_data_def pushed_def)
  next
    case 5
    then have "d \<noteq> [0]" "d \<noteq> []" "d \<noteq> [0x81]" "length d \<noteq> 1" by auto
    then show ?thesis using 5
      by (simp add: add_data_def pushed_def read_push_def take_push_def opcode_defs unat_byte_of_nat)
  next
    case 6
    then have "d \<noteq> [0]" "d \<noteq> []" "d \<noteq> [0x81]" "length d \<noteq> 1" "le_uint (le_bytes 2 (length d)) = length d"
      by (auto intro: le_uint_le_bytes)
    then show ?thesis using 6
      by (simp add: add_data_def pushed_def read_push_def take_push_def opcode_defs)
  next
    case 7
    then have "d \<noteq> [0]" "d \<noteq> []" "d \<noteq> [0x81]" "length d \<noteq> 1" "le_uint (le_bytes 4 (length d)) = length d"
      using assms by (auto intro: le_uint_le_bytes)
    then show ?thesis using 7
      by (simp add: add_data_def pushed_def read_push_def take_push_def opcode_defs)
  qed
qed

lemma readPushes_add_data:
  "length d < 2 ^ 32 \<Longrightarrow>
     readPushes (add_data d @ rest) = (case readPushes rest of Inl e \<Rightarrow> Inl e | Inr ps \<Rightarrow> Inr (pushed d # ps))"
  using read_push_add_data [of d rest] by (subst readPushes.simps) auto

text \<open>
  What lbcd documents of its claim templates: when they build a script it is the claim opcode, the
  pushes, the drops and \<open>OP_TRUE\<close>.
\<close>

definition lbcd_ok :: "'a lbcd \<Rightarrow> bool" where
  "lbcd_ok T \<longleftrightarrow>
     (\<forall>name v s. ClaimNameScript T name v = Some s \<longrightarrow>
        s = [OP_CLAIMNAME] @ add_data (bytes_of name) @ add_data v @ [OP_2DROP, OP_DROP, OP_TRUE]) \<and>
     (\<forall>name c v s. ClaimUpdateScript T name c v = Some s \<longrightarrow>
        s = [OP_UPDATECLAIM] @ add_data (bytes_of name) @ add_data c @ add_data v @ [OP_2DROP, OP_2DROP, OP_TRUE])"

lemma strip_true_snoc [simp]: "strip_true (p @ [OP_TRUE]) = p"
  by (simp add: strip_true_def)

lemma readPushes_stop: "readPushes (OP_2DROP # r) = Inr []"
  by (simp add: readPushes.simps [of "_ # _"] read_push_def opcode_defs)

lemma build_claim_Inr:
  "build_claim T name pre err address = Inr s \<Longrightarrow>
     \<exists>p pk. pre = Some p \<and> s = strip_true p @ pk \<and> 0 < length name \<and> length name \<le> MaxClaimNameSize T"
  by (auto simp: build_claim_def split: if_splits option.splits)

subsection \<open>Transactions\<close>

lemma add_inputs_Inr:
  assumes "add_inputs T is tx = Inr tx'"
  shows "tx_Version tx' = tx_Version tx \<and> TxOuts tx' = TxOuts tx \<and>
         (\<exists>new. TxIns tx' = TxIns tx @ new \<and> length new = length is \<and>
            (\<forall>k < length is. NewHashFromStr T (TxID (is ! k)) = Some (fst (PreviousOutPoint (new ! k))) \<and>
               snd (PreviousOutPoint (new ! k)) = Vout (is ! k)))"
  using assms
proof (induction "is" arbitrary: tx)
  case (Cons i "is")
  obtain h where h: "NewHashFromStr T (TxID i) = Some h" using Cons.prems by (auto split: option.splits)
  define x where "x = \<lparr>PreviousOutPoint = (h, Vout i), SignatureScript = [], Sequence = MaxTxInSequenceNum T\<rparr>"
  have "add_inputs T is (tx\<lparr>TxIns := TxIns tx @ [x]\<rparr>) = Inr tx'" using Cons.prems h by (simp add: x_def)
  from Cons.IH [OF this] obtain new where new: "TxIns tx' = TxIns tx @ [x] @ new" "length new = length is"
      "\<forall>k < length is. NewHashFromStr T (TxID (is ! k)) = Some (fst (PreviousOutPoint (new ! k))) \<and>
         snd (PreviousOutPoint (new ! k)) = Vout (is ! k)"
    and rest: "tx_Version tx' = tx_Version tx" "TxOuts tx' = TxOuts tx" by auto
  have "\<forall>k < length (i # is). NewHashFromStr T (TxID ((i # is) ! k)) = Some (fst (PreviousOutPoint ((x # new) ! k))) \<and>
         snd (PreviousOutPoint ((x # new) ! k)) = Vout ((i # is) ! k)"
    using new(3) h by (auto simp: x_def less_Suc_eq_0_disj)
  then show ?case using new(1,2) rest by (intro conjI exI [of _ "x # new"]) simp_all
qed simp

lemma add_outputs_Inr:
  assumes "add_outputs T n outs tx = Inr tx'"
  shows "tx_Version tx' = tx_Version tx \<and> TxIns tx' = TxIns tx \<and>
         (\<exists>new. TxOuts tx' = TxOuts tx @ new \<and> map Value new = map out_Amount outs \<and>
            (\<forall>k < length outs. output_script T (n + k) (outs ! k) = Inr (PkScript (new ! k))))"
  using assms
proof (induction outs arbitrary: n tx)
  case (Cons out outs)
  obtain s where s: "output_script T n out = Inr s" using Cons.prems by (auto split: sum.splits)
  define x where "x = \<lparr>Value = out_Amount out, PkScript = s\<rparr>"
  have "add_outputs T (Suc n) outs (tx\<lparr>TxOuts := TxOuts tx @ [x]\<rparr>) = Inr tx'" using Cons.prems s by (simp add: x_def)
  from Cons.IH [OF this] obtain new where new: "TxOuts tx' = TxOuts tx @ [x] @ new" "map Value new = map out_Amount outs"
      "\<forall>k < length outs. output_script T (Suc n + k) (outs ! k) = Inr (PkScript (new ! k))"
    and rest: "tx_Version tx' = tx_Version tx" "TxIns tx' = TxIns tx" by auto
  have "\<forall>k < length (out # outs). output_script T (n + k) ((out # outs) ! k) = Inr (PkScript ((x # new) ! k))"
    using new(3) s by (auto simp: x_def less_Suc_eq_0_disj)
  then show ?case using new(1,2) rest by (intro conjI exI [of _ "x # new"]) (simp_all add: x_def)
qed simp

text \<open>Signing leaves everything but the signature scripts, and signs every input with the key it asked for.\<close>

lemma sign_inputs_Inr:
  assumes "sign_inputs T sign keyFn n is tx = Inr tx'" "length (TxIns tx) = n + length is"
  shows "tx_Version tx' = tx_Version tx \<and> TxOuts tx' = TxOuts tx \<and> length (TxIns tx') = length (TxIns tx) \<and>
         map PreviousOutPoint (TxIns tx') = map PreviousOutPoint (TxIns tx) \<and>
         (\<forall>k < n. TxIns tx' ! k = TxIns tx ! k) \<and>
         (\<forall>k < length is. \<exists>key partial. keyFn (n + k) (is ! k) = Inr key \<and> TxOuts partial = TxOuts tx \<and>
            map PreviousOutPoint (TxIns partial) = map PreviousOutPoint (TxIns tx) \<and>
            sign partial (n + k) (StripClaimScriptPrefix T (in_Script (is ! k))) key = Some (SignatureScript (TxIns tx' ! (n + k))))"
  using assms
proof (induction "is" arbitrary: n tx)
  case (Cons i "is")
  obtain key sig where ks: "keyFn n i = Inr key" "sign tx n (StripClaimScriptPrefix T (in_Script i)) key = Some sig"
    using Cons.prems(1) by (auto split: sum.splits option.splits)
  define tx1 where "tx1 = tx\<lparr>TxIns := (TxIns tx)[n := (TxIns tx ! n)\<lparr>SignatureScript := sig\<rparr>]\<rparr>"
  have po: "map PreviousOutPoint (TxIns tx1) = map PreviousOutPoint (TxIns tx)"
    using Cons.prems(2) by (intro nth_equalityI) (simp_all add: tx1_def nth_list_update)
  have step: "sign_inputs T sign keyFn (Suc n) is tx1 = Inr tx'" "length (TxIns tx1) = Suc n + length is"
    using Cons.prems ks by (simp_all add: tx1_def)
  note IH = Cons.IH [OF step]
  have "SignatureScript (TxIns tx' ! n) = sig" using IH Cons.prems(2) by (simp add: tx1_def)
  then have head: "\<exists>key partial. keyFn n i = Inr key \<and> TxOuts partial = TxOuts tx \<and>
      map PreviousOutPoint (TxIns partial) = map PreviousOutPoint (TxIns tx) \<and>
      sign partial n (StripClaimScriptPrefix T (in_Script i)) key = Some (SignatureScript (TxIns tx' ! n))"
    using ks by blast
  have tl: "\<exists>key partial. keyFn (n + Suc k) (is ! k) = Inr key \<and> TxOuts partial = TxOuts tx \<and>
      map PreviousOutPoint (TxIns partial) = map PreviousOutPoint (TxIns tx) \<and>
      sign partial (n + Suc k) (StripClaimScriptPrefix T (in_Script (is ! k))) key = Some (SignatureScript (TxIns tx' ! (n + Suc k)))"
    if "k < length is" for k
    using IH that po by (simp add: tx1_def)
  have "\<forall>k < length (i # is). \<exists>key partial. keyFn (n + k) ((i # is) ! k) = Inr key \<and> TxOuts partial = TxOuts tx \<and>
      map PreviousOutPoint (TxIns partial) = map PreviousOutPoint (TxIns tx) \<and>
      sign partial (n + k) (StripClaimScriptPrefix T (in_Script ((i # is) ! k))) key = Some (SignatureScript (TxIns tx' ! (n + k)))"
    (is "\<forall>k < _. ?P k")
  proof (intro allI impI)
    fix k assume "k < length (i # is)"
    then show "?P k" using head tl by (cases k) (simp_all only: add_0_right nth_Cons_0 nth_Cons_Suc length_Cons Suc_less_eq)
  qed
  then show ?case using IH po by (simp add: tx1_def)
qed simp

definition parse_claim_id :: "string \<Rightarrow> ClaimID option" where
  "parse_claim_id s = (case NewClaimIDFromString s of Inl _ \<Rightarrow> None | Inr i \<Rightarrow> Some i)"

interpretation claimid: round_trip ClaimID_String parse_claim_id "\<lambda>i. length i = ClaimIDSize"
  by unfold_locales
     (simp add: parse_claim_id_def NewClaimIDFromString_def ClaimID_String_def ClaimIDSize_def reverse_loop_claim)

section \<open>Properties\<close>

text \<open>
  The display form of claim identifiers is a bijection between 20-byte identifiers and lower-case
  hexadecimal strings of 40 characters: parsing the string of an identifier returns it, the string of a
  parsed lower-case identifier is the input, and distinct identifiers have distinct strings.
\<close>

theorem ClaimID_roundtrip:
  "(length i = ClaimIDSize \<longrightarrow> NewClaimIDFromString (ClaimID_String i) = Inr i) \<and>
   (NewClaimIDFromString s = Inr i \<and> list_all is_lower_hex s \<longrightarrow> length i = ClaimIDSize \<and> ClaimID_String i = s) \<and>
   (length i = ClaimIDSize \<and> length j = ClaimIDSize \<and> ClaimID_String i = ClaimID_String j \<longrightarrow> i = j)"
proof (intro conjI impI)
  assume "length i = ClaimIDSize"
  then show "NewClaimIDFromString (ClaimID_String i) = Inr i"
    using claimid.decode_encode [of i] by (simp add: parse_claim_id_def split: sum.splits)
next
  assume s: "NewClaimIDFromString s = Inr i \<and> list_all is_lower_hex s"
  then have len: "length s = 40" by (auto simp: NewClaimIDFromString_def split: if_splits)
  obtain b where b: "hex_decode s = Some b" "hex_encode b = s" using hex_decode_lower [of s] s len by auto
  then have lb: "length b = ClaimIDSize" using hex_decode_length [of s b] len by (simp add: ClaimIDSize_def)
  then have i: "i = rev b" using s len b by (simp add: NewClaimIDFromString_def ClaimIDSize_def reverse_loop_claim)
  then show "length i = ClaimIDSize" "ClaimID_String i = s"
    using lb b(2) by (simp_all add: ClaimID_String_def ClaimIDSize_def reverse_loop_claim)
next
  assume "length i = ClaimIDSize \<and> length j = ClaimIDSize \<and> ClaimID_String i = ClaimID_String j"
  then show "i = j" using claimid.encode_inj by blast
qed

theorem ClaimID_roundtrip_witness:
  "NewClaimIDFromString (ClaimID_String (replicate 20 7)) = Inr (replicate 20 7)"
  using ClaimID_roundtrip [of "replicate 20 7"] by (simp add: ClaimIDSize_def)

text \<open>
  C38. The value put into a claim-name or update-claim script can be extracted from it, whatever the
  length class of its push, including the values that are pushed as small-integer opcodes; the one
  exception is the single zero byte, which comes back empty.
\<close>

theorem ExtractClaimValue_Build:
  assumes "lbcd_ok T" "length name < 2 ^ 32" "length v < 2 ^ 32" "length c < 2 ^ 32"
    and "BuildClaimNameScript T name v address = Inr s \<or> BuildUpdateClaimScript T name c v address = Inr s"
  shows "IsClaimScript s \<and> ExtractClaimValue s = Inr (if v = [0] then [] else v)"
  using assms(5)
proof
  assume "BuildClaimNameScript T name v address = Inr s"
  then obtain p pk where "ClaimNameScript T name v = Some p" "s = strip_true p @ pk"
    unfolding BuildClaimNameScript_def by (blast dest: build_claim_Inr)
  then have "s = OP_CLAIMNAME # add_data (bytes_of name) @ add_data v @ OP_2DROP # OP_DROP # pk"
    using assms(1) strip_true_snoc [of "[OP_CLAIMNAME] @ add_data (bytes_of name) @ add_data v @ [OP_2DROP, OP_DROP]"]
    by (auto simp: lbcd_ok_def)
  then show ?thesis
    using assms(2,3) by (simp add: IsClaimScript_def ExtractClaimValue_def readPushes_add_data readPushes_stop pushed_def)
next
  assume "BuildUpdateClaimScript T name c v address = Inr s"
  then obtain p pk where "ClaimUpdateScript T name c v = Some p" "s = strip_true p @ pk"
    unfolding BuildUpdateClaimScript_def by (blast dest: build_claim_Inr)
  then have "s = OP_UPDATECLAIM # add_data (bytes_of name) @ add_data c @ add_data v @ OP_2DROP # OP_2DROP # pk"
    using assms(1) strip_true_snoc [of "[OP_UPDATECLAIM] @ add_data (bytes_of name) @ add_data c @ add_data v @ [OP_2DROP, OP_2DROP]"]
    by (auto simp: lbcd_ok_def)
  moreover have "OP_UPDATECLAIM \<noteq> OP_CLAIMNAME" by (simp add: opcode_defs)
  ultimately show ?thesis
    using assms(2-4) by (simp add: IsClaimScript_def ExtractClaimValue_def readPushes_add_data readPushes_stop pushed_def)
qed

definition sample_lbcd :: "bytes lbcd" where
  "sample_lbcd = \<lparr>DecodeAddress = (\<lambda>s. Some (bytes_of s)), PayToAddrScript = (\<lambda>h. Some ([0x76, 0xa9, 0x14] @ h @ [0x88, 0xac])),
     ClaimNameScript = (\<lambda>n v. Some ([OP_CLAIMNAME] @ add_data (bytes_of n) @ add_data v @ [OP_2DROP, OP_DROP, OP_TRUE])),
     ClaimUpdateScript = (\<lambda>n c v. Some ([OP_UPDATECLAIM] @ add_data (bytes_of n) @ add_data c @ add_data v @ [OP_2DROP, OP_2DROP, OP_TRUE])),
     ClaimSupportScript = (\<lambda>n c v. None), StripClaimScriptPrefix = (\<lambda>s. s), NewHashFromStr = hex_decode,
     MaxClaimNameSize = 255, TxVersion = 1, MaxTxInSequenceNum = 0xffffffff\<rparr>"

lemma sample_lbcd_ok: "lbcd_ok sample_lbcd"
  by (simp add: lbcd_ok_def sample_lbcd_def)

theorem ExtractClaimValue_Build_witness:
  "IsClaimScript ([OP_CLAIMNAME] @ add_data (bytes_of ''n'') @ add_data [5] @ [OP_2DROP, OP_DROP] @ [0x76, 0xa9, 0x14, 97, 0x88, 0xac]) \<and>
   ExtractClaimValue ([OP_CLAIMNAME] @ add_data (bytes_of ''n'') @ add_data [5] @ [OP_2DROP, OP_DROP] @ [0x76, 0xa9, 0x14, 97, 0x88, 0xac]) =
     Inr (if [5 :: byte] = [0] then [] else [5])"
  by (rule ExtractClaimValue_Build [OF sample_lbcd_ok, of "''n''" "[5]" "[]" "''a''"])
     (simp_all add: BuildClaimNameScript_def build_claim_def strip_true_def butlast_append sample_lbcd_def bytes_of_def byte_of_char_def)

text \<open>
  C39. A built transaction is the one that was asked for: it spends the given outpoints in order, pays the
  given amounts in order to the scripts of the outputs, and every input carries a signature made with the
  key of that input over its stripped script on a transaction with the same outpoints and outputs.
\<close>

theorem Build_correct:
  assumes "Build T sign inputs outputs keyFn = Inr tx"
  shows "length (TxIns tx) = length inputs \<and> map Value (TxOuts tx) = map out_Amount outputs \<and>
         (\<forall>k < length outputs. output_script T k (outputs ! k) = Inr (PkScript (TxOuts tx ! k))) \<and>
         (\<forall>k < length inputs.
            NewHashFromStr T (TxID (inputs ! k)) = Some (fst (PreviousOutPoint (TxIns tx ! k))) \<and>
            snd (PreviousOutPoint (TxIns tx ! k)) = Vout (inputs ! k) \<and>
            (\<exists>key partial. keyFn k (inputs ! k) = Inr key \<and> TxOuts partial = TxOuts tx \<and>
               map PreviousOutPoint (TxIns partial) = map PreviousOutPoint (TxIns tx) \<and>
               sign partial k (StripClaimScriptPrefix T (in_Script (inputs ! k))) key = Some (SignatureScript (TxIns tx ! k))))"
proof -
  let ?tx0 = "\<lparr>tx_Version = TxVersion T, TxIns = [], TxOuts = []\<rparr>"
  obtain tx1 tx2 where steps: "add_inputs T inputs ?tx0 = Inr tx1" "add_outputs T 0 outputs tx1 = Inr tx2"
      "sign_inputs T sign keyFn 0 inputs tx2 = Inr tx"
    using assms by (auto simp: Build_def split: sum.splits)
  have ins: "length (TxIns tx1) = length inputs" "TxOuts tx1 = []"
      "\<forall>k < length inputs. NewHashFromStr T (TxID (inputs ! k)) = Some (fst (PreviousOutPoint (TxIns tx1 ! k))) \<and>
         snd (PreviousOutPoint (TxIns tx1 ! k)) = Vout (inputs ! k)"
    using add_inputs_Inr [OF steps(1)] by auto
  have outs: "TxIns tx2 = TxIns tx1" "map Value (TxOuts tx2) = map out_Amount outputs"
      "\<forall>k < length outputs. output_script T k (outputs ! k) = Inr (PkScript (TxOuts tx2 ! k))"
    using add_outputs_Inr [OF steps(2)] ins(2) by auto
  have len: "length (TxIns tx2) = 0 + length inputs" using ins(1) outs(1) by simp
  note sg = sign_inputs_Inr [OF steps(3) len]
  have po: "map PreviousOutPoint (TxIns tx) = map PreviousOutPoint (TxIns tx1)" using sg outs(1) by simp
  have "PreviousOutPoint (TxIns tx ! k) = PreviousOutPoint (TxIns tx1 ! k)" if "k < length inputs" for k
    using that po ins(1) sg len by (metis nth_map add_0)
  then show ?thesis using ins outs sg po by auto
qed

definition sample_input :: Input where
  "sample_input = \<lparr>TxID = ''0a0b'', Vout = 1, in_Amount = 9, in_Script = [0x76]\<rparr>"

definition sample_output :: Output where
  "sample_output = \<lparr>Address = ''a'', out_Amount = 5, out_Script = [], IsClaim = False, ClaimName = [], ClaimValue = [],
     out_ClaimID = [], out_ClaimType = ClaimTypeNone\<rparr>"

lemma Build_sample:
  "\<exists>tx. Build sample_lbcd (\<lambda>tx n s k. Some [3]) [sample_input] [sample_output] (\<lambda>_ _. Inr ()) = Inr tx"
  by (simp add: Build_def sample_input_def sample_output_def output_script_def BuildP2PKHScript_def sample_lbcd_def hex_value_def)

theorem Build_correct_witness:
  "\<exists>tx. Build sample_lbcd (\<lambda>tx n s k. Some [3]) [sample_input] [sample_output] (\<lambda>_ _. Inr ()) = Inr tx \<and>
        length (TxIns tx) = 1 \<and> map Value (TxOuts tx) = [5] \<and> SignatureScript (TxIns tx ! 0) = [3]"
proof -
  obtain tx where tx: "Build sample_lbcd (\<lambda>tx n s k. Some [3]) [sample_input] [sample_output] (\<lambda>_ _. Inr ()) = Inr tx"
    using Build_sample by blast
  note B = Build_correct [OF tx]
  have "length (TxIns tx) = 1" "map Value (TxOuts tx) = [5]" using B by (simp_all add: sample_output_def)
  moreover have "SignatureScript (TxIns tx ! 0) = [3]" using B by (metis length_Cons option.inject zero_less_Suc)
  ultimately show ?thesis using tx by (intro exI [of _ tx] conjI)
qed

end
