(* ===== verification/Claim.thy ===== *)
theory Claim
  imports Chain
begin

text \<open>
  Claim values (\<open>claim/claim.go\<close>): construction, compilation into the bytes of a claim script, signing
  by a channel and parsing. The generated protobuf code is the pair \<open>marshal\<close>, \<open>unmarshal\<close>; a claim has
  the fields of the message that the package sets. ECDSA, SHA-256 and the txid parser are parameters, \<open>N\<close>
  is the order of the curve's group. Big integers are \<open>int\<close>.
\<close>

section \<open>Claims\<close>

datatype claim_body =
    Claim_Channel bytes
  | Claim_Stream bytes string
  | Claim_Repost bytes
  | Claim_Collection "bytes list"

record PbClaim =
  Title :: string
  Description :: string
  Body :: "claim_body option"

datatype HelperType = TypeNone | TypeStream | TypeChannel | TypeRepost | TypeCollection

definition NoSig :: byte where "NoSig = 0"
definition WithSig :: byte where "WithSig = 1"

record Helper =
  h_Claim :: "PbClaim option"
  h_ClaimType :: HelperType
  h_ClaimID :: bytes
  h_Version :: byte
  h_Signature :: bytes

definition NewChannel :: "string \<Rightarrow> bytes \<Rightarrow> error + Helper" where
  "NewChannel title publicKey =
     (if length publicKey \<noteq> 33 then Inl (Plain ''publicKey must be 33 bytes'')
      else Inr \<lparr>h_Claim = Some \<lparr>Title = title, Description = [], Body = Some (Claim_Channel publicKey)\<rparr>,
                h_ClaimType = TypeChannel, h_ClaimID = [], h_Version = NoSig, h_Signature = []\<rparr>)"

definition NewStream :: "string \<Rightarrow> string \<Rightarrow> string \<Rightarrow> string \<Rightarrow> bytes \<Rightarrow> error + Helper" where
  "NewStream title description sdHash mediaType channelClaimID =
     (case hex_decode sdHash of
        None \<Rightarrow> Inl (Plain ''decode sdhash'')
      | Some sdHashBytes \<Rightarrow>
          (if length sdHashBytes \<noteq> 48 then Inl (Plain ''sdhash must be 48 bytes'')
           else Inr \<lparr>h_Claim = Some \<lparr>Title = title, Description = description, Body = Some (Claim_Stream sdHashBytes mediaType)\<rparr>,
                     h_ClaimType = TypeStream, h_ClaimID = channelClaimID, h_Version = NoSig, h_Signature = []\<rparr>))"

definition TrimPrefix0x :: "string \<Rightarrow> string" where
  "TrimPrefix0x s = (if take 2 s = ''0x'' then drop 2 s else s)"

definition normalizeClaimID :: "string \<Rightarrow> error + bytes" where
  "normalizeClaimID i =
     (let s = TrimPrefix0x i in
      if length s \<noteq> 40 then Inl (Plain ''claim ID must be 40 hex characters'')
      else (case hex_decode s of
              None \<Rightarrow> Inl (Plain ''decode claim ID'')
            | Some b \<Rightarrow> (if length b \<noteq> 20 then Inl (Plain ''claim ID must be 20 bytes'') else Inr b)))"

fun normalize_all :: "string list \<Rightarrow> error + bytes list" where
  "normalize_all [] = Inr []"
| "normalize_all (i # is) =
     (case normalizeClaimID i of
        Inl e \<Rightarrow> Inl (Wrapped ''claim'' e)
      | Inr b \<Rightarrow> (case normalize_all is of Inl e \<Rightarrow> Inl e | Inr bs \<Rightarrow> Inr (b # bs)))"

definition NewCollection :: "string \<Rightarrow> string list \<Rightarrow> error + Helper" where
  "NewCollection title claimIDHexes =
     (case normalize_all claimIDHexes of
        Inl e \<Rightarrow> Inl e
      | Inr refs \<Rightarrow>
          Inr \<lparr>h_Claim = Some \<lparr>Title = title, Description = [], Body = Some (Claim_Collection refs)\<rparr>,
               h_ClaimType = TypeCollection, h_ClaimID = [], h_Version = NoSig, h_Signature = []\<rparr>)"

definition NewRepost :: "string \<Rightarrow> string \<Rightarrow> error + Helper" where
  "NewRepost title claimIDHex =
     (case normalizeClaimID claimIDHex of
        Inl e \<Rightarrow> Inl e
      | Inr c \<Rightarrow>
          Inr \<lparr>h_Claim = Some \<lparr>Title = title, Description = [], Body = Some (Claim_Repost c)\<rparr>,
               h_ClaimType = TypeRepost, h_ClaimID = [], h_Version = NoSig, h_Signature = []\<rparr>)"

section \<open>Values\<close>

definition serialize :: "(PbClaim \<Rightarrow> bytes option) \<Rightarrow> Helper \<Rightarrow> error + bytes" where
  "serialize marshal h =
     (case h_Claim h of
        None \<Rightarrow> Inl (Plain ''claim not initialized'')
      | Some c \<Rightarrow>
          (if Body c = None then Inl (Plain ''claim type not set'')
           else (case marshal c of None \<Rightarrow> Inl (Plain ''marshal'') | Some b \<Rightarrow> Inr b)))"

definition CompileValue :: "(PbClaim \<Rightarrow> bytes option) \<Rightarrow> Helper \<Rightarrow> error + bytes" where
  "CompileValue marshal h =
     (case serialize marshal h of
        Inl e \<Rightarrow> Inl e
      | Inr payload \<Rightarrow>
          (if h_Version h = WithSig \<and> length (h_ClaimID h) = 0 then Inl (Plain ''signed claim value requires claimID'')
           else if h_Version h = WithSig \<and> length (h_Signature h) = 0 then Inl (Plain ''signed claim value requires signature'')
           else Inr ([h_Version h] @ (if h_Version h = WithSig then h_ClaimID h @ h_Signature h else []) @ payload)))"

definition ParseClaimValue :: "(bytes \<Rightarrow> PbClaim option) \<Rightarrow> bytes \<Rightarrow> error + Helper" where
  "ParseClaimValue unmarshal data =
     (case data of
        [] \<Rightarrow> Inl (Plain ''claim value too short'')
      | version # rest \<Rightarrow>
          (if version = NoSig then
             (case unmarshal rest of
                None \<Rightarrow> Inl (Plain ''unmarshal unsigned claim'')
              | Some c \<Rightarrow> Inr \<lparr>h_Claim = Some c, h_ClaimType = TypeNone, h_ClaimID = [], h_Version = NoSig, h_Signature = []\<rparr>)
           else if version = WithSig then
             (if length data < 1 + 20 + 64 then Inl (Plain ''signed claim value too short'')
              else (case unmarshal (drop 85 data) of
                      None \<Rightarrow> Inl (Plain ''unmarshal signed claim'')
                    | Some c \<Rightarrow> Inr \<lparr>h_Claim = Some c, h_ClaimType = TypeNone, h_ClaimID = take 20 (drop 1 data),
                                    h_Version = WithSig, h_Signature = take 64 (drop 21 data)\<rparr>))
           else Inl (Plain ''unsupported claim version'')))"

section \<open>Signatures\<close>

text \<open>\<open>big.Int.Bytes\<close> and \<open>SetBytes\<close>: the magnitude in big-endian order without leading zeros.\<close>

fun nat_be :: "nat \<Rightarrow> bytes" where
  "nat_be n = (if n = 0 then [] else nat_be (n div 256) @ [of_nat (n mod 256)])"

declare nat_be.simps [simp del]

definition big_Bytes :: "int \<Rightarrow> bytes" where
  "big_Bytes i = nat_be (nat \<bar>i\<bar>)"

definition big_SetBytes :: "bytes \<Rightarrow> int" where
  "big_SetBytes bs = foldl (\<lambda>n b. 256 * n + int (unat b)) 0 bs"

text \<open>The result is \<open>None\<close> when a component has more than 32 bytes: the slice bounds are negative.\<close>

definition CompactSignature :: "int \<Rightarrow> int \<times> int \<Rightarrow> bytes option" where
  "CompactSignature N sig =
     (let (R, S) = sig;
          sigS = (if S > N div 2 then N - S else S);
          rBytes = big_Bytes R;
          sBytes = big_Bytes sigS
      in if length rBytes > 32 \<or> length sBytes > 32 then None
         else Some (replicate (32 - length rBytes) 0 @ rBytes @ replicate (32 - length sBytes) 0 @ sBytes))"

definition ParseCompactSignature :: "bytes \<Rightarrow> error + int \<times> int" where
  "ParseCompactSignature compact =
     (if length compact \<noteq> 64 then Inl (Plain ''compact signature must be 64 bytes'')
      else Inr (big_SetBytes (take 32 compact), big_SetBytes (drop 32 compact)))"

definition is_stream :: "Helper \<Rightarrow> bool" where
  "is_stream h \<longleftrightarrow> (case h_Claim h of Some c \<Rightarrow> (case Body c of Some (Claim_Stream _ _) \<Rightarrow> True | _ \<Rightarrow> False) | None \<Rightarrow> False)"

text \<open>The error, if any, and the helper afterwards; \<open>None\<close> for the panic of \<open>CompactSignature\<close>.\<close>

definition SignStream ::
    "(PbClaim \<Rightarrow> bytes option) \<Rightarrow> (string \<Rightarrow> bytes option) \<Rightarrow> (bytes \<Rightarrow> bytes) \<Rightarrow> int \<Rightarrow> ('k \<Rightarrow> bytes \<Rightarrow> (int \<times> int) option) \<Rightarrow>
       Helper \<Rightarrow> 'k \<Rightarrow> string \<Rightarrow> bytes \<Rightarrow> (error option \<times> Helper) option" where
  "SignStream marshal newHash sha256 N sign h privKey firstInputTxID channelClaimID =
     (if \<not> is_stream h then Some (Some (Plain ''helper does not contain a stream claim''), h)
      else if length channelClaimID \<noteq> 20 then Some (Some (Plain ''channel claim ID must be 20 bytes''), h)
      else if length firstInputTxID \<noteq> 64 then Some (Some (Plain ''first input txid must be 64 hex characters''), h)
      else (case newHash firstInputTxID of
              None \<Rightarrow> Some (Some (Plain ''parse txid''), h)
            | Some txidBytes \<Rightarrow>
                (case serialize marshal h of
                   Inl e \<Rightarrow> Some (Some (Wrapped ''serialize claim'' e), h)
                 | Inr metadataBytes \<Rightarrow>
                     (case sign privKey (sha256 (txidBytes @ channelClaimID @ metadataBytes)) of
                        None \<Rightarrow> Some (Some (Plain ''sign claim''), h)
                      | Some sig \<Rightarrow>
                          (case CompactSignature N sig of
                             None \<Rightarrow> None
                           | Some sigBytes \<Rightarrow>
                               (if length (h_ClaimID h) > 0 \<and> h_ClaimID h \<noteq> channelClaimID
                                then Some (Some (Plain ''channel claim ID mismatch''), h)
                                else Some (None, h\<lparr>h_Signature := sigBytes, h_ClaimID := channelClaimID, h_Version := WithSig\<rparr>)))))))"

section \<open>Lemmas\<close>

lemma big_SetBytes_snoc: "big_SetBytes (bs @ [b]) = 256 * big_SetBytes bs + int (unat b)"
  by (simp add: big_SetBytes_def)

lemma big_SetBytes_nat_be: "big_SetBytes (nat_be n) = int n"
proof (induction n rule: nat_be.induct)
  case (1 n)
  show ?case
  proof (cases "n = 0")
    case True
    then show ?thesis by (simp add: nat_be.simps big_SetBytes_def)
  next
    case False
    have "big_SetBytes (nat_be n) = 256 * int (n div 256) + int (n mod 256)"
      using False 1 by (subst nat_be.simps) (simp add: big_SetBytes_snoc unat_byte_of_nat)
    also have "\<dots> = int n" by (simp add: zdiv_int zmod_int)
    finally show ?thesis .
  qed
qed

lemma foldl_zeros: "foldl (\<lambda>n b. 256 * n + int (unat (b :: byte))) 0 (replicate k 0 @ bs) = foldl (\<lambda>n b. 256 * n + int (unat b)) 0 bs"
  by (induction k) simp_all

lemma big_SetBytes_zeros: "big_SetBytes (replicate k 0 @ bs) = big_SetBytes bs"
  unfolding big_SetBytes_def by (rule foldl_zeros)

lemma length_nat_be: "n < 256 ^ k \<Longrightarrow> length (nat_be n) \<le> k"
proof (induction n arbitrary: k rule: nat_be.induct)
  case (1 n)
  show ?case
  proof (cases "n = 0")
    case True
    then show ?thesis by (simp add: nat_be.simps)
  next
    case False
    then obtain j where k: "k = Suc j" using "1.prems" by (cases k) auto
    then have "n div 256 < 256 ^ j" using "1.prems" by (simp add: less_mult_imp_div_less mult.commute)
    then have "length (nat_be (n div 256)) \<le> j" using 1 False by blast
    then show ?thesis using False k by (subst nat_be.simps) simp
  qed
qed

lemma CompactSignature_length: "CompactSignature N sig = Some b \<Longrightarrow> length b = 64"
  by (auto simp: CompactSignature_def Let_def split: prod.splits if_splits)

lemma serialize_version:
  "serialize marshal (h\<lparr>h_Signature := s, h_ClaimID := c, h_Version := v\<rparr>) = serialize marshal h"
  by (simp add: serialize_def)

text \<open>What the generated code documents: unmarshalling undoes marshalling.\<close>

definition pb_ok :: "(PbClaim \<Rightarrow> bytes option) \<Rightarrow> (bytes \<Rightarrow> PbClaim option) \<Rightarrow> bool" where
  "pb_ok marshal unmarshal \<longleftrightarrow> (\<forall>c b. marshal c = Some b \<longrightarrow> unmarshal b = Some c)"

section \<open>Properties\<close>

text \<open>
  C40. Compiled claim values parse back: an unsigned value to the same claim, a signed one to the same
  claim, channel identifier and signature, provided those have their fixed sizes.
\<close>

theorem ParseClaimValue_CompileValue:
  assumes "pb_ok marshal unmarshal" "CompileValue marshal h = Inr v" "h_Version h = NoSig \<or> h_Version h = WithSig"
    and "h_Version h = WithSig \<longrightarrow> length (h_ClaimID h) = 20 \<and> length (h_Signature h) = 64"
  shows "\<exists>h'. ParseClaimValue unmarshal v = Inr h' \<and> h_Claim h' = h_Claim h \<and> h_Version h' = h_Version h \<and>
              (h_Version h = WithSig \<longrightarrow> h_ClaimID h' = h_ClaimID h \<and> h_Signature h' = h_Signature h)"
proof -
  obtain c payload where c: "h_Claim h = Some c" "marshal c = Some payload" "serialize marshal h = Inr payload"
    using assms(2) by (auto simp: CompileValue_def serialize_def split: option.splits if_splits sum.splits)
  then have u: "unmarshal payload = Some c" using assms(1) by (simp add: pb_ok_def)
  have ne: "NoSig \<noteq> WithSig" by (simp add: NoSig_def WithSig_def)
  from assms(3) show ?thesis
  proof
    assume "h_Version h = NoSig"
    then show ?thesis using assms(2) c u ne by (auto simp: CompileValue_def ParseClaimValue_def)
  next
    assume v: "h_Version h = WithSig"
    have "v = WithSig # h_ClaimID h @ h_Signature h @ payload"
      using assms(2) c(3) v by (auto simp: CompileValue_def split: if_splits)
    then show ?thesis using v assms(4) c u ne by (auto simp: ParseClaimValue_def)
  qed
qed

text \<open>
  Signatures in compact form have 64 bytes, keep \<open>R\<close>, and have \<open>S\<close> in the lower half of the group
  order: parsing them returns \<open>R\<close> and the smaller of \<open>S\<close> and \<open>N - S\<close>.
\<close>

theorem CompactSignature_low_S:
  assumes "0 < N" "N \<le> 2 ^ 256" "0 \<le> R" "R < 2 ^ 256" "0 \<le> S" "S < N"
  shows "\<exists>b s. CompactSignature N (R, S) = Some b \<and> length b = 64 \<and> ParseCompactSignature b = Inr (R, s) \<and>
               (s = S \<or> s = N - S) \<and> s \<le> N div 2"
proof -
  define s where "s = (if S > N div 2 then N - S else S)"
  have s: "0 \<le> s" "s < 2 ^ 256" "s = S \<or> s = N - S" "s \<le> N div 2" using assms by (auto simp: s_def)
  have len: "length (big_Bytes x) \<le> 32" if "0 \<le> x" "x < 2 ^ 256" for x
    unfolding big_Bytes_def using that by (intro length_nat_be) (simp add: nat_less_iff)
  define b where "b = (replicate (32 - length (big_Bytes R)) 0 @ big_Bytes R) @ (replicate (32 - length (big_Bytes s)) 0 @ big_Bytes s)"
  have lr: "length (big_Bytes R) \<le> 32" "length (big_Bytes s) \<le> 32" using len assms(3,4) s(1,2) by blast+
  then have "CompactSignature N (R, S) = Some b"
    by (simp add: CompactSignature_def s_def [symmetric] b_def Let_def)
  moreover have "length b = 64" "take 32 b = replicate (32 - length (big_Bytes R)) 0 @ big_Bytes R"
      "drop 32 b = replicate (32 - length (big_Bytes s)) 0 @ big_Bytes s"
    using lr by (simp_all add: b_def)
  moreover from this have "ParseCompactSignature b = Inr (R, s)"
    using assms(3) s(1) by (simp add: ParseCompactSignature_def big_SetBytes_zeros big_Bytes_def big_SetBytes_nat_be)
  ultimately show ?thesis using s(3,4) by blast
qed

theorem CompactSignature_low_S_witness:
  "\<exists>b s. CompactSignature 1000 (5, 900) = Some b \<and> length b = 64 \<and> ParseCompactSignature b = Inr (5, s) \<and>
         (s = 900 \<or> s = 1000 - 900) \<and> s \<le> 1000 div 2"
  by (rule CompactSignature_low_S) simp_all

text \<open>
  Signing a stream either fails and leaves the claim as it was, or attaches the channel and a 64-byte
  signature of SHA-256 over transaction, channel and claim, after which the claim compiles to its
  version byte, channel, signature and payload; a claim prepared for another channel is refused.
\<close>

theorem SignStream_correct:
  assumes "SignStream marshal newHash sha256 N sign h key txid channel = Some (r, h')"
  shows "case r of
           Some e \<Rightarrow> h' = h
         | None \<Rightarrow> is_stream h \<and> length channel = 20 \<and> (h_ClaimID h = [] \<or> h_ClaimID h = channel) \<and> h_Claim h' = h_Claim h \<and>
             (\<exists>hash payload sig b. newHash txid = Some hash \<and> serialize marshal h = Inr payload \<and>
                sign key (sha256 (hash @ channel @ payload)) = Some sig \<and> CompactSignature N sig = Some b \<and> length b = 64 \<and>
                CompileValue marshal h' = Inr ([WithSig] @ channel @ b @ payload))"
proof (cases r)
  case None
  obtain hash payload sig b where p: "newHash txid = Some hash" "serialize marshal h = Inr payload"
      "sign key (sha256 (hash @ channel @ payload)) = Some sig" "CompactSignature N sig = Some b"
      "is_stream h" "length channel = 20" "h_ClaimID h = [] \<or> h_ClaimID h = channel"
      "h' = h\<lparr>h_Signature := b, h_ClaimID := channel, h_Version := WithSig\<rparr>"
    using assms None by (auto simp: SignStream_def split: if_splits option.splits sum.splits)
  moreover have "length b = 64" using p(4) by (rule CompactSignature_length)
  moreover from this have "b \<noteq> []" "channel \<noteq> []" using p(6) by auto
  moreover have "serialize marshal h' = Inr payload" using p(2,8) by (simp add: serialize_version)
  ultimately have "CompileValue marshal h' = Inr ([WithSig] @ channel @ b @ payload)"
    by (simp add: CompileValue_def)
  then show ?thesis using None p \<open>length b = 64\<close> by (cases sig) auto
next
  case (Some e)
  then show ?thesis using assms by (auto simp: SignStream_def split: if_splits option.splits sum.splits)
qed

definition sample_helper :: Helper where
  "sample_helper = \<lparr>h_Claim = Some \<lparr>Title = [], Description = [], Body = Some (Claim_Stream [] [])\<rparr>, h_ClaimType = TypeStream,
     h_ClaimID = [], h_Version = NoSig, h_Signature = []\<rparr>"

lemma SignStream_sample:
  "SignStream (\<lambda>_. Some [9]) (\<lambda>_. Some [8]) (\<lambda>x. x) 1000 (\<lambda>_ _. Some (0, 0)) sample_helper () (replicate 64 CHR ''a'') (replicate 20 1) =
     Some (None, sample_helper\<lparr>h_Signature := replicate 64 0, h_ClaimID := replicate 20 1, h_Version := WithSig\<rparr>)"
proof -
  have "CompactSignature 1000 (0, 0) = Some (replicate 32 0 @ replicate 32 0)"
    by (simp add: CompactSignature_def big_Bytes_def nat_be.simps [of 0])
  then have "CompactSignature 1000 (0, 0) = Some (replicate 64 0)" by (simp add: replicate_add [symmetric])
  then show ?thesis by (simp add: SignStream_def sample_helper_def is_stream_def serialize_def)
qed

theorem SignStream_correct_witness:
  "CompileValue (\<lambda>_. Some [9]) (sample_helper\<lparr>h_Signature := replicate 64 0, h_ClaimID := replicate 20 1, h_Version := WithSig\<rparr>) =
     Inr ([WithSig] @ replicate 20 1 @ replicate 64 0 @ [9])"
  using SignStream_correct [OF SignStream_sample] by (auto simp: serialize_def sample_helper_def CompileValue_def)

theorem ParseClaimValue_CompileValue_witness:
  "\<exists>h'. ParseClaimValue (\<lambda>_. h_Claim sample_helper) [NoSig, 9] = Inr h' \<and> h_Claim h' = h_Claim sample_helper \<and>
        h_Version h' = h_Version sample_helper \<and>
        (h_Version sample_helper = WithSig \<longrightarrow> h_ClaimID h' = h_ClaimID sample_helper \<and> h_Signature h' = h_Signature sample_helper)"
  by (rule ParseClaimValue_CompileValue [of "\<lambda>c. if Some c = h_Claim sample_helper then Some [9] else None"])
     (auto simp: pb_ok_def CompileValue_def serialize_def sample_helper_def NoSig_def WithSig_def)

end
