(* ===== verification/Mnemonic.thy ===== *)
theory Mnemonic
  imports Wordlist Claim
begin

text \<open>
  Electrum mnemonics (\<open>wallet/mnemonic.go\<close>). A Go string is here the sequence of its runes, code points
  as natural numbers; \<open>utf8\<close> gives its bytes. The Unicode tables (NFKD of golang.org/x/text, the category
  Mn, lower case) are the record \<open>unicode\<close>, of which only the behaviour on ASCII is used; white space and
  the CJK intervals are written out. HMAC-SHA512 and PBKDF2 are parameters. Random buffers are a list of
  draws and the search for a seed has fuel, one unit per nonce.
\<close>

type_synonym rune = nat
type_synonym runes = "nat list"

record unicode =
  NFKD :: "runes \<Rightarrow> runes"
  is_Mn :: "rune \<Rightarrow> bool"
  to_lower :: "rune \<Rightarrow> rune"

section \<open>Text\<close>

definition to_runes :: "string \<Rightarrow> runes" where
  "to_runes s = map of_char s"

definition utf8_rune :: "rune \<Rightarrow> nat list" where
  "utf8_rune r =
     (if r < 0x80 then [r]
      else if r < 0x800 then [0xC0 + r div 0x40, 0x80 + r mod 0x40]
      else if r < 0x10000 then [0xE0 + r div 0x1000, 0x80 + r div 0x40 mod 0x40, 0x80 + r mod 0x40]
      else [0xF0 + r div 0x40000, 0x80 + r div 0x1000 mod 0x40, 0x80 + r div 0x40 mod 0x40, 0x80 + r mod 0x40])"

definition utf8 :: "runes \<Rightarrow> bytes" where
  "utf8 rs = map of_nat (concat (map utf8_rune rs))"

definition isWhitespace :: "rune \<Rightarrow> bool" where
  "isWhitespace r \<longleftrightarrow> (9 \<le> r \<and> r \<le> 13) \<or> r \<in> {0x20, 0x85, 0xA0, 0x1680, 0x2028, 0x2029, 0x202F, 0x205F, 0x3000} \<or>
     (0x2000 \<le> r \<and> r \<le> 0x200A)"

definition isCJK :: "rune \<Rightarrow> bool" where
  "isCJK r = list_ex (\<lambda>(lo, hi). r \<ge> lo \<and> r \<le> hi)
     [(0x4E00, 0x9FFF), (0x3400, 0x4DBF), (0x20000, 0x2A6DF), (0x2A700, 0x2B73F), (0x2B740, 0x2B81F),
      (0xF900, 0xFAFF), (0x2F800, 0x2FA1D), (0x3190, 0x319F), (0x2E80, 0x2EFF), (0x2F00, 0x2FDF),
      (0x31C0, 0x31EF), (0x2FF0, 0x2FFF), (0xE0100, 0xE01EF), (0x3100, 0x312F), (0x31A0, 0x31BF),
      (0xFF00, 0xFFEF), (0x3040, 0x309F), (0x30A0, 0x30FF), (0x31F0, 0x31FF), (0x1B000, 0x1B0FF),
      (0xAC00, 0xD7AF), (0x1100, 0x11FF), (0xA960, 0xA97F), (0xD7B0, 0xD7FF), (0x3130, 0x318F),
      (0xA4D0, 0xA4FF), (0x16F00, 0x16F9F), (0xA000, 0xA48F), (0xA490, 0xA4CF)]"

text \<open>\<open>strings.Fields\<close>, with the word being read, and \<open>strings.Join\<close> with a space.\<close>

fun fields_from :: "runes \<Rightarrow> runes \<Rightarrow> runes list" where
  "fields_from cur [] = (if cur = [] then [] else [cur])"
| "fields_from cur (r # rs) =
     (if isWhitespace r then (if cur = [] then fields_from [] rs else cur # fields_from [] rs)
      else fields_from (cur @ [r]) rs)"

definition Fields :: "runes \<Rightarrow> runes list" where
  "Fields s = fields_from [] s"

fun join_space :: "runes list \<Rightarrow> runes" where
  "join_space [] = []"
| "join_space [w] = w"
| "join_space (w # ws) = w @ 0x20 # join_space ws"

text \<open>White space between two CJK runes is dropped; the neighbours are those of the unfiltered text.\<close>

fun strip_cjk :: "rune option \<Rightarrow> runes \<Rightarrow> runes" where
  "strip_cjk prev [] = []"
| "strip_cjk prev (r # rs) =
     (if isWhitespace r \<and> (case prev of None \<Rightarrow> False | Some p \<Rightarrow> rs \<noteq> [] \<and> isCJK p \<and> isCJK (hd rs))
      then strip_cjk (Some r) rs
      else r # strip_cjk (Some r) rs)"

definition NormalizeText :: "unicode \<Rightarrow> runes \<Rightarrow> runes" where
  "NormalizeText U seed =
     (let b = filter (\<lambda>r. \<not> is_Mn U r) (NFKD U seed);
          lowered = map (to_lower U) b;
          joined = join_space (Fields lowered)
      in strip_cjk None joined)"

section \<open>Seeds\<close>

definition SeedPrefix :: bytes where
  "SeedPrefix = bytes_of ''01''"

definition Passphrase :: string where
  "Passphrase = ''lbryum''"

definition MnemonicToSeed :: "unicode \<Rightarrow> (bytes \<Rightarrow> bytes \<Rightarrow> nat \<Rightarrow> nat \<Rightarrow> bytes) \<Rightarrow> runes \<Rightarrow> runes \<Rightarrow> bytes" where
  "MnemonicToSeed U pbkdf2 mnemonic passphrase =
     pbkdf2 (utf8 (NormalizeText U mnemonic)) (utf8 (NormalizeText U passphrase)) 2048 64"

definition IsNewSeed :: "unicode \<Rightarrow> (bytes \<Rightarrow> bytes \<Rightarrow> bytes) \<Rightarrow> runes \<Rightarrow> bytes \<Rightarrow> bool" where
  "IsNewSeed U hmac seed pre \<longleftrightarrow>
     Sublist.prefix (string_of pre) (hex_encode (hmac (bytes_of ''Seed version'') (utf8 (NormalizeText U seed))))"

definition buildWordIndexMap :: "string list \<Rightarrow> runes \<rightharpoonup> nat" where
  "buildWordIndexMap ws = foldl (\<lambda>m (i, w). m(to_runes w \<mapsto> i)) Map.empty (enumerate 0 ws)"

definition wordIndexMap :: "runes \<rightharpoonup> nat" where
  "wordIndexMap = buildWordIndexMap wordlist"

function encode_words :: "nat \<Rightarrow> runes list" where
  "encode_words n =
     (if n = 0 then [] else to_runes (wordlist ! (n mod length wordlist)) # encode_words (n div length wordlist))"
  by pat_completeness auto
termination by (relation "measure id") (simp_all add: length_wordlist)

declare encode_words.simps [simp del]

definition MnemonicEncode :: "int \<Rightarrow> runes" where
  "MnemonicEncode i = join_space (encode_words (nat i))"

fun decode_words :: "int \<Rightarrow> runes list \<Rightarrow> error + int" where
  "decode_words i [] = Inr i"
| "decode_words i (w # ws) =
     (case wordIndexMap w of
        None \<Rightarrow> Inl (Plain ''word not in wordlist'')
      | Some idx \<Rightarrow> decode_words (i * int (length wordlist) + int idx) ws)"

definition MnemonicDecode :: "unicode \<Rightarrow> runes \<Rightarrow> error + int" where
  "MnemonicDecode U seed = decode_words 0 (rev (Fields (NormalizeText U seed)))"

definition IsValid :: "unicode \<Rightarrow> (bytes \<Rightarrow> bytes \<Rightarrow> bytes) \<Rightarrow> runes \<Rightarrow> bool" where
  "IsValid U hmac seed =
     (let seed' = NormalizeText U seed; words = Fields seed' in
      if length words = 0 then False
      else if list_ex (\<lambda>w. wordIndexMap w = None) words then False
      else IsNewSeed U hmac seed' SeedPrefix)"

section \<open>Making seeds\<close>

text \<open>
  \<open>math.Log2\<close> of 2048 is exactly 11 and 132 is a multiple of it, so the floating-point expressions are
  exact and written over the naturals.
\<close>

definition numBits :: nat where "numBits = 132"
definition bpw :: nat where "bpw = 11"
definition seedBits :: nat where "seedBits = (numBits + bpw - 1) div bpw * bpw"
definition maxEntropy :: int where "maxEntropy = 2 ^ seedBits"
definition minEntropy :: int where "minEntropy = 2 ^ (seedBits - bpw)"

lemma bpw_wordlist: "2 ^ bpw = length wordlist"
  by (simp add: bpw_def length_wordlist)

text \<open>The entropy loop over the results of \<open>rand.Read\<close>; the outer \<open>None\<close> is a loop that goes on.\<close>

fun draw_entropy :: "bytes option list \<Rightarrow> (error + int) option" where
  "draw_entropy [] = None"
| "draw_entropy (None # ds) = Some (Inl (Plain ''generate entropy''))"
| "draw_entropy (Some buf # ds) =
     (let entropy = big_SetBytes buf mod maxEntropy in
      if entropy > 0 \<and> entropy < minEntropy then draw_entropy ds
      else if entropy > 0 \<and> entropy < maxEntropy then Some (Inr entropy)
      else draw_entropy ds)"

text \<open>\<open>entropy AND (2 ^ n - 1)\<close> is the remainder modulo \<open>2 ^ n\<close>.\<close>

fun find_seed ::
    "unicode \<Rightarrow> (bytes \<Rightarrow> bytes \<Rightarrow> bytes) \<Rightarrow> bytes \<Rightarrow> int \<Rightarrow> nat \<Rightarrow> nat \<Rightarrow> (error + runes) option" where
  "find_seed U hmac pre entropy nonce 0 = None"
| "find_seed U hmac pre entropy nonce (Suc fuel) =
     (let nonce' = nonce + 1;
          i = entropy + int nonce';
          seed = MnemonicEncode i
      in case MnemonicDecode U seed of
           Inl e \<Rightarrow> Some (Inl e)
         | Inr decoded \<Rightarrow>
             (if decoded \<noteq> i then Some (Inl (Plain ''cannot extract same entropy from mnemonic''))
              else if IsNewSeed U hmac seed pre then Some (Inr seed)
              else find_seed U hmac pre entropy nonce' fuel))"

definition MakeSeedWithPrefix ::
    "unicode \<Rightarrow> (bytes \<Rightarrow> bytes \<Rightarrow> bytes) \<Rightarrow> bytes option list \<Rightarrow> nat \<Rightarrow> bytes \<Rightarrow> (error + runes) option" where
  "MakeSeedWithPrefix U hmac draws fuel pre =
     (case draw_entropy draws of
        None \<Rightarrow> None
      | Some (Inl e) \<Rightarrow> Some (Inl e)
      | Some (Inr entropy) \<Rightarrow> find_seed U hmac pre entropy 0 fuel)"

definition MakeSeed :: "unicode \<Rightarrow> (bytes \<Rightarrow> bytes \<Rightarrow> bytes) \<Rightarrow> bytes option list \<Rightarrow> nat \<Rightarrow> (error + runes) option" where
  "MakeSeed U hmac draws fuel = MakeSeedWithPrefix U hmac draws fuel SeedPrefix"

section \<open>Normalised text\<close>

text \<open>What the coding relies on of the Unicode tables: their behaviour on ASCII.\<close>

definition ascii :: "runes \<Rightarrow> bool" where
  "ascii s = list_all (\<lambda>r. r < 128) s"

definition ascii_lower :: "rune \<Rightarrow> rune" where
  "ascii_lower r = (if 65 \<le> r \<and> r \<le> 90 then r + 32 else r)"

definition unicode_ok :: "unicode \<Rightarrow> bool" where
  "unicode_ok U \<longleftrightarrow> (\<forall>s. ascii s \<longrightarrow> NFKD U s = s) \<and> (\<forall>r < 128. \<not> is_Mn U r \<and> to_lower U r = ascii_lower r)"

definition word_ok :: "runes \<Rightarrow> bool" where
  "word_ok w \<longleftrightarrow> w \<noteq> [] \<and> list_all (\<lambda>r. \<not> isWhitespace r) w"

lemma isWhitespace_space [simp]: "isWhitespace 32"
  by (simp add: isWhitespace_def)

lemma isWhitespace_ascii_lower: "isWhitespace (ascii_lower r) = isWhitespace r"
  by (auto simp: isWhitespace_def ascii_lower_def)

lemma ascii_lower_less: "r < 128 \<Longrightarrow> ascii_lower r < 128"
  by (simp add: ascii_lower_def)

lemma ascii_not_CJK: "r < 128 \<Longrightarrow> \<not> isCJK r"
  by (simp add: isCJK_def)

lemma strip_cjk_ascii:
  "ascii s \<Longrightarrow> (case prev of None \<Rightarrow> True | Some p \<Rightarrow> p < 128) \<Longrightarrow> strip_cjk prev s = s"
  by (induction prev s rule: strip_cjk.induct) (auto simp: ascii_def ascii_not_CJK split: option.splits)

lemma fields_from_map:
  "\<forall>r \<in> set s. isWhitespace (f r) = isWhitespace r \<Longrightarrow> fields_from (map f cur) (map f s) = map (map f) (fields_from cur s)"
  by (induction cur s rule: fields_from.induct) auto

lemma fields_from_ok:
  "list_all (\<lambda>r. \<not> isWhitespace r) cur \<Longrightarrow> w \<in> set (fields_from cur s) \<Longrightarrow> word_ok w"
  by (induction cur s rule: fields_from.induct) (auto simp: word_ok_def split: if_splits)

lemma fields_from_word:
  "list_all (\<lambda>r. \<not> isWhitespace r) w \<Longrightarrow> fields_from cur (w @ s) = fields_from (cur @ w) s"
  by (induction w arbitrary: cur) auto

lemma Fields_ok: "w \<in> set (Fields s) \<Longrightarrow> word_ok w"
  using fields_from_ok [of "[]"] by (simp add: Fields_def)

lemma Fields_join: "list_all word_ok ws \<Longrightarrow> Fields (join_space ws) = ws"
proof (induction ws rule: join_space.induct)
  case (2 w)
  then show ?case using fields_from_word [of w "[]" "[]"] by (simp add: Fields_def word_ok_def)
next
  case (3 w v ws)
  then show ?case using fields_from_word [of w "[]"] by (simp add: Fields_def word_ok_def)
qed (simp add: Fields_def)

lemma fields_from_subset: "w \<in> set (fields_from cur s) \<Longrightarrow> set w \<subseteq> set cur \<union> set s"
  by (induction cur s rule: fields_from.induct) (auto split: if_splits)

lemma ascii_join: "\<forall>w \<in> set ws. ascii w \<Longrightarrow> ascii (join_space ws)"
  by (induction ws rule: join_space.induct) (auto simp: ascii_def)

lemma ascii_Fields: "ascii s \<Longrightarrow> w \<in> set (Fields s) \<Longrightarrow> ascii w"
  using fields_from_subset [of w "[]" s] by (auto simp: Fields_def ascii_def list_all_iff)

lemma Fields_lower: "Fields (map ascii_lower s) = map (map ascii_lower) (Fields s)"
  using fields_from_map [of s ascii_lower "[]"] by (simp add: Fields_def isWhitespace_ascii_lower)

lemma NormalizeText_ascii:
  assumes "unicode_ok U" "ascii s"
  shows "NormalizeText U s = join_space (map (map ascii_lower) (Fields s))"
proof -
  have "filter (\<lambda>r. \<not> is_Mn U r) (NFKD U s) = s"
    using assms by (auto simp: unicode_ok_def ascii_def list_all_iff intro: filter_True)
  moreover have "map (to_lower U) s = map ascii_lower s"
    using assms by (auto simp: unicode_ok_def ascii_def list_all_iff)
  moreover have "ascii (join_space (map (map ascii_lower) (Fields s)))"
  proof (rule ascii_join, rule ballI)
    fix w assume "w \<in> set (map (map ascii_lower) (Fields s))"
    then obtain v where "w = map ascii_lower v" "ascii v" using ascii_Fields [OF assms(2)] by auto
    then show "ascii w" by (auto simp: ascii_def list_all_iff ascii_lower_less)
  qed
  ultimately show ?thesis unfolding NormalizeText_def Let_def by (simp only: Fields_lower strip_cjk_ascii option.case)
qed

lemma Fields_NormalizeText:
  assumes "unicode_ok U" "ascii s"
  shows "Fields (NormalizeText U s) = map (map ascii_lower) (Fields s)"
proof -
  have "list_all word_ok (map (map ascii_lower) (Fields s))"
    using Fields_ok by (fastforce simp: list_all_iff word_ok_def isWhitespace_ascii_lower)
  then show ?thesis by (simp add: NormalizeText_ascii [OF assms] Fields_join)
qed

section \<open>Words and numbers\<close>

lemma to_runes_inj: "to_runes v = to_runes w \<Longrightarrow> v = w"
  unfolding to_runes_def by (simp add: inj_map_eq_map [OF inj_of_char])

lemma buildWordIndexMap_snoc:
  "buildWordIndexMap (ws @ [w]) = (buildWordIndexMap ws)(to_runes w \<mapsto> length ws)"
  by (simp add: buildWordIndexMap_def enumerate_append_eq)

lemma buildWordIndexMap_iff:
  assumes "distinct ws"
  shows "buildWordIndexMap ws v = Some i \<longleftrightarrow> i < length ws \<and> v = to_runes (ws ! i)"
  using assms
proof (induction ws rule: rev_induct)
  case (snoc w ws)
  have "w \<noteq> ws ! i" if "i < length ws" using snoc.prems that by auto
  then show ?case
    using snoc by (auto simp: buildWordIndexMap_snoc nth_append less_Suc_eq dest: to_runes_inj)
qed (simp add: buildWordIndexMap_def)

lemma wordIndexMap_iff: "wordIndexMap v = Some i \<longleftrightarrow> i < 2048 \<and> v = to_runes (wordlist ! i)"
  by (simp add: wordIndexMap_def buildWordIndexMap_iff distinct_wordlist length_wordlist)

lemma wordIndexMap_nth [simp]: "i < 2048 \<Longrightarrow> wordIndexMap (to_runes (wordlist ! i)) = Some i"
  by (simp add: wordIndexMap_iff)

lemma of_char_letter: "CHR ''a'' \<le> c \<Longrightarrow> c \<le> CHR ''z'' \<Longrightarrow> 97 \<le> (of_char c :: nat) \<and> (of_char c :: nat) \<le> 122"
  by (simp add: less_eq_char_def)

lemma wordlist_runes:
  assumes "i < 2048"
  shows "word_ok (to_runes (wordlist ! i)) \<and> ascii (to_runes (wordlist ! i)) \<and>
         map ascii_lower (to_runes (wordlist ! i)) = to_runes (wordlist ! i)"
proof -
  have "97 \<le> r \<and> r \<le> 122" if "r \<in> set (to_runes (wordlist ! i))" for r
    using lower_wordlist_nth [OF assms] that of_char_letter
    by (auto simp: lower_word_def to_runes_def list_all_iff)
  then have "r < 128 \<and> \<not> isWhitespace r \<and> ascii_lower r = r" if "r \<in> set (to_runes (wordlist ! i))" for r
    using that by (fastforce simp: isWhitespace_def ascii_lower_def)
  moreover have "to_runes (wordlist ! i) \<noteq> []" using lower_wordlist_nth [OF assms] by (simp add: lower_word_def to_runes_def)
  ultimately show ?thesis by (auto simp: word_ok_def ascii_def list_all_iff intro!: map_idI)
qed

lemma encode_words_index: "w \<in> set (encode_words n) \<Longrightarrow> \<exists>i < 2048. w = to_runes (wordlist ! i)"
proof (induction n rule: encode_words.induct)
  case (1 n)
  have "\<exists>i < 2048. to_runes (wordlist ! (n mod 2048)) = to_runes (wordlist ! i)" by (rule exI [of _ "n mod 2048"]) simp
  then show ?case using 1 encode_words.simps [of n] by (cases "n = 0") (auto simp: length_wordlist)
qed

lemma encode_words_pos: "n \<noteq> 0 \<Longrightarrow> encode_words n = to_runes (wordlist ! (n mod 2048)) # encode_words (n div 2048)"
  by (simp add: encode_words.simps [of n] length_wordlist)

lemma encode_words_0 [simp]: "encode_words 0 = []"
  by (simp add: encode_words.simps)

lemma decode_words_append:
  "decode_words i (xs @ ys) = (case decode_words i xs of Inl e \<Rightarrow> Inl e | Inr j \<Rightarrow> decode_words j ys)"
  by (induction i xs rule: decode_words.induct) (auto split: option.splits)

lemma decode_encode_words: "decode_words 0 (rev (encode_words n)) = Inr (int n)"
proof (induction n rule: encode_words.induct)
  case (1 n)
  show ?case
  proof (cases "n = 0")
    case False
    have "int (n div 2048) * 2048 + int (n mod 2048) = int n" unfolding zdiv_int zmod_int by simp
    then show ?thesis using 1 False by (simp add: encode_words_pos decode_words_append length_wordlist)
  qed simp
qed

lemma encode_decode_words:
  "decode_words 0 (rev ws) = Inr i \<Longrightarrow> ws = [] \<or> last ws \<noteq> to_runes (wordlist ! 0) \<Longrightarrow>
     0 \<le> i \<and> (ws \<noteq> [] \<longrightarrow> 0 < i) \<and> encode_words (nat i) = ws"
proof (induction ws arbitrary: i)
  case (Cons w ws)
  then obtain j idx where j: "decode_words 0 (rev ws) = Inr j" and idx: "wordIndexMap w = Some idx"
      and i: "i = j * 2048 + int idx"
    by (auto simp: decode_words_append length_wordlist split: sum.splits option.splits)
  have w: "idx < 2048" "w = to_runes (wordlist ! idx)" using idx by (simp_all add: wordIndexMap_iff)
  have IH: "0 \<le> j \<and> (ws \<noteq> [] \<longrightarrow> 0 < j) \<and> encode_words (nat j) = ws"
    using Cons.IH [OF j] Cons.prems(2) by (auto split: if_splits)
  have pos: "0 < i"
  proof (cases "ws = []")
    case True
    then have "idx \<noteq> 0" using Cons.prems(2) w(2) by (cases idx) auto
    then show ?thesis using i IH by simp
  qed (use i IH in simp)
  have "nat i = nat j * 2048 + idx" using i IH by (simp add: nat_add_distrib nat_mult_distrib)
  then have "nat i mod 2048 = idx" "nat i div 2048 = nat j" using w(1) by simp_all
  then show ?case using pos IH w(2) encode_words_pos [of "nat i"] by simp
qed simp

section \<open>Encoded phrases\<close>

lemma encode_words_ok:
  assumes "w \<in> set (encode_words n)"
  shows "word_ok w \<and> ascii w \<and> map ascii_lower w = w"
  using encode_words_index [OF assms] wordlist_runes by auto

lemma ascii_MnemonicEncode: "ascii (MnemonicEncode i)"
  unfolding MnemonicEncode_def using encode_words_ok by (intro ascii_join) blast

lemma Fields_MnemonicEncode: "Fields (MnemonicEncode i) = encode_words (nat i)"
  unfolding MnemonicEncode_def using encode_words_ok by (intro Fields_join) (auto simp: list_all_iff)

lemma NormalizeText_MnemonicEncode:
  assumes "unicode_ok U"
  shows "NormalizeText U (MnemonicEncode i) = MnemonicEncode i"
proof -
  have "map (map ascii_lower) (encode_words (nat i)) = encode_words (nat i)"
    by (rule map_idI) (use encode_words_ok in blast)
  then show ?thesis
    unfolding NormalizeText_ascii [OF assms ascii_MnemonicEncode] Fields_MnemonicEncode
    by (simp add: MnemonicEncode_def)
qed

lemma MnemonicDecode_Encode:
  "unicode_ok U \<Longrightarrow> MnemonicDecode U (MnemonicEncode i) = Inr (max 0 i)"
  by (simp add: MnemonicDecode_def NormalizeText_MnemonicEncode Fields_MnemonicEncode decode_encode_words)

lemma length_encode_words: "2048 ^ k \<le> n \<Longrightarrow> k < length (encode_words n)"
proof (induction k arbitrary: n)
  case 0
  then show ?case by (simp add: encode_words_pos)
next
  case (Suc k)
  then have "2048 ^ k \<le> n div 2048" using div_le_mono [of "2048 ^ Suc k" n 2048] by simp
  moreover have "n \<noteq> 0" using Suc.prems by (cases "n = 0") simp_all
  ultimately show ?case using Suc.IH by (simp add: encode_words_pos)
qed

lemma IsValid_MnemonicEncode:
  assumes "unicode_ok U" "0 < i"
  shows "IsValid U hmac (MnemonicEncode i) = IsNewSeed U hmac (MnemonicEncode i) SeedPrefix"
proof -
  have "encode_words (nat i) \<noteq> []" using assms(2) by (simp add: encode_words_pos)
  moreover have "\<not> list_ex (\<lambda>w. wordIndexMap w = None) (encode_words (nat i))"
    using encode_words_index by (fastforce simp: list_ex_iff)
  ultimately show ?thesis
    by (simp add: IsValid_def Let_def NormalizeText_MnemonicEncode [OF assms(1)] Fields_MnemonicEncode)
qed

section \<open>The search for a seed\<close>

lemma draw_entropy_bounds: "draw_entropy ds = Some (Inr e) \<Longrightarrow> minEntropy \<le> e \<and> e < maxEntropy \<and> 0 < e"
  by (induction ds rule: draw_entropy.induct) (auto simp: Let_def split: if_splits)

text \<open>The search returns the first nonce that passes, and never fails to decode its own phrase.\<close>

lemma find_seed_eq:
  assumes "unicode_ok U" "0 < e"
  shows "find_seed U hmac pre e k fuel =
     map_option (\<lambda>j. Inr (MnemonicEncode (e + int j)))
       (List.find (\<lambda>j. IsNewSeed U hmac (MnemonicEncode (e + int j)) pre) [Suc k ..< Suc k + fuel])"
proof (induction fuel arbitrary: k)
  case (Suc fuel)
  have range: "[Suc k ..< Suc k + Suc fuel] = Suc k # [Suc (Suc k) ..< Suc (Suc k) + fuel]"
    by (simp add: upt_rec)
  show ?case
    unfolding range using assms Suc.IH [of "Suc k"] by (simp add: Let_def MnemonicDecode_Encode add.commute)
qed simp

lemma MakeSeedWithPrefix_Inr:
  assumes "unicode_ok U" "MakeSeedWithPrefix U hmac draws fuel pre = Some (Inr s)"
  obtains i where "2 ^ 121 < i" "s = MnemonicEncode i" "IsNewSeed U hmac s pre"
proof -
  obtain e where e: "draw_entropy draws = Some (Inr e)" "find_seed U hmac pre e 0 fuel = Some (Inr s)"
    using assms(2) by (auto simp: MakeSeedWithPrefix_def split: option.splits sum.splits)
  have pos: "0 < e" "2 ^ 121 \<le> e"
    using draw_entropy_bounds [OF e(1)] by (simp_all add: minEntropy_def seedBits_def numBits_def bpw_def)
  obtain j where j: "List.find (\<lambda>j. IsNewSeed U hmac (MnemonicEncode (e + int j)) pre) [Suc 0 ..< Suc 0 + fuel] = Some j"
      and s: "s = MnemonicEncode (e + int j)"
    using e(2) by (auto simp: find_seed_eq [OF assms(1) pos(1)])
  have "IsNewSeed U hmac s pre" "0 < j" using j s by (auto simp: find_Some_iff simp del: upt_Suc)
  then show thesis using that [of "e + int j"] s pos(2) by simp
qed

section \<open>Properties\<close>

text \<open>
  C36. Mnemonic coding is a bijection: decoding the phrase of a number gives the number (negative numbers
  have the empty phrase), and an ASCII phrase that decodes and does not end in the zero word is, up to case and
  spacing, the phrase of its number.
\<close>

theorem Mnemonic_roundtrip:
  assumes "unicode_ok U"
  shows "MnemonicDecode U (MnemonicEncode i) = Inr (max 0 i) \<and>
         (ascii s \<and> MnemonicDecode U s = Inr i \<and>
          (Fields s = [] \<or> map ascii_lower (last (Fields s)) \<noteq> to_runes ''abandon'') \<longrightarrow>
          MnemonicEncode i = NormalizeText U s)"
proof (intro conjI impI)
  show "MnemonicDecode U (MnemonicEncode i) = Inr (max 0 i)" using assms by (rule MnemonicDecode_Encode)
next
  assume s: "ascii s \<and> MnemonicDecode U s = Inr i \<and>
    (Fields s = [] \<or> map ascii_lower (last (Fields s)) \<noteq> to_runes ''abandon'')"
  let ?ws = "map (map ascii_lower) (Fields s)"
  have "decode_words 0 (rev ?ws) = Inr i" using s Fields_NormalizeText [OF assms, of s] by (simp add: MnemonicDecode_def)
  moreover have "?ws = [] \<or> last ?ws \<noteq> to_runes (wordlist ! 0)"
    using s by (auto simp: last_map wordlist_def nth_append blocks words_0_def)
  ultimately have "encode_words (nat i) = ?ws" by (blast dest: encode_decode_words)
  then show "MnemonicEncode i = NormalizeText U s" using s NormalizeText_ascii [OF assms, of s] by (simp add: MnemonicEncode_def)
qed

definition sample_unicode :: unicode where
  "sample_unicode = \<lparr>NFKD = id, is_Mn = (\<lambda>_. False), to_lower = ascii_lower\<rparr>"

lemma sample_unicode_ok: "unicode_ok sample_unicode"
  by (simp add: unicode_ok_def sample_unicode_def)

theorem Mnemonic_roundtrip_witness:
  "unicode_ok sample_unicode \<and> MnemonicDecode sample_unicode (MnemonicEncode 5000) = Inr 5000"
  using sample_unicode_ok Mnemonic_roundtrip [OF sample_unicode_ok, of 5000] by simp

text \<open>
  Only the words of a phrase matter, not the case of its letters or the white space between and
  around them: two ASCII phrases with the same words in lower case have the same number, the same
  validity and the same seed.
\<close>

theorem phrase_variants:
  assumes "unicode_ok U" "ascii s" "ascii t" "map (map ascii_lower) (Fields s) = map (map ascii_lower) (Fields t)"
  shows "MnemonicDecode U s = MnemonicDecode U t \<and> IsValid U hmac s = IsValid U hmac t \<and>
         MnemonicToSeed U pbkdf2 s p = MnemonicToSeed U pbkdf2 t p"
proof -
  have "NormalizeText U s = NormalizeText U t" using assms by (simp add: NormalizeText_ascii)
  then show ?thesis by (simp add: MnemonicDecode_def IsValid_def MnemonicToSeed_def)
qed

theorem phrase_variants_witness:
  "MnemonicDecode sample_unicode (to_runes '' Able  zoo'') = MnemonicDecode sample_unicode (to_runes ''able ZOO '')"
  using phrase_variants [OF sample_unicode_ok, of "to_runes '' Able  zoo''" "to_runes ''able ZOO ''"]
  by (simp add: ascii_def to_runes_def Fields_def isWhitespace_def ascii_lower_def)

text \<open>
  C37. A made seed is a phrase of at least twelve words that passes the seed check it was made for, is the
  phrase of a number above the entropy bound, and with the standard prefix is a valid mnemonic; the search
  succeeds as soon as one of the nonces it may try passes the check.
\<close>

theorem MakeSeed_correct:
  assumes "unicode_ok U"
  shows "(MakeSeedWithPrefix U hmac draws fuel pre = Some (Inr s) \<longrightarrow>
            IsNewSeed U hmac s pre \<and> 12 \<le> length (Fields s) \<and>
            (\<exists>i > 2 ^ 121. s = MnemonicEncode i \<and> MnemonicDecode U s = Inr i)) \<and>
         (MakeSeed U hmac draws fuel = Some (Inr s) \<longrightarrow> IsValid U hmac s) \<and>
         (draw_entropy draws = Some (Inr e) \<and> 0 < j \<and> j \<le> fuel \<and> IsNewSeed U hmac (MnemonicEncode (e + int j)) pre \<longrightarrow>
            (\<exists>phrase. MakeSeedWithPrefix U hmac draws fuel pre = Some (Inr phrase)))"
proof (intro conjI impI)
  assume m: "MakeSeedWithPrefix U hmac draws fuel pre = Some (Inr s)"
  obtain i where i: "2 ^ 121 < i" "s = MnemonicEncode i" "IsNewSeed U hmac s pre"
    using MakeSeedWithPrefix_Inr [OF assms m] by blast
  show "IsNewSeed U hmac s pre" by (fact i(3))
  have "2048 ^ 11 \<le> nat i" using i(1) by (simp add: le_nat_iff)
  from length_encode_words [OF this] show "12 \<le> length (Fields s)" by (simp add: i(2) Fields_MnemonicEncode)
  show "\<exists>i > 2 ^ 121. s = MnemonicEncode i \<and> MnemonicDecode U s = Inr i"
    using i MnemonicDecode_Encode [OF assms] by (intro exI [of _ i]) simp
next
  assume "MakeSeed U hmac draws fuel = Some (Inr s)"
  then obtain i where "2 ^ 121 < i" "s = MnemonicEncode i" "IsNewSeed U hmac s SeedPrefix"
    unfolding MakeSeed_def using MakeSeedWithPrefix_Inr [OF assms] by blast
  then show "IsValid U hmac s" using IsValid_MnemonicEncode [OF assms, of i] by simp
next
  assume h: "draw_entropy draws = Some (Inr e) \<and> 0 < j \<and> j \<le> fuel \<and> IsNewSeed U hmac (MnemonicEncode (e + int j)) pre"
  have "List.find (\<lambda>j. IsNewSeed U hmac (MnemonicEncode (e + int j)) pre) [Suc 0 ..< Suc 0 + fuel] \<noteq> None"
    using h by (auto simp: find_None_iff simp del: upt_Suc intro!: exI [of _ j])
  then show "\<exists>phrase. MakeSeedWithPrefix U hmac draws fuel pre = Some (Inr phrase)"
    using h draw_entropy_bounds [of draws e] by (auto simp: MakeSeedWithPrefix_def find_seed_eq [OF assms])
qed

theorem MakeSeed_correct_witness:
  "\<exists>phrase. MakeSeedWithPrefix sample_unicode (\<lambda>_ _. [1]) [Some [8, 0, 0, 0, 0, 0, 0, 0, 0, 0, 0, 0, 0, 0, 0, 0, 0]] 1 SeedPrefix = Some (Inr phrase)"
proof -
  have "draw_entropy [Some [8, 0, 0, 0, 0, 0, 0, 0, 0, 0, 0, 0, 0, 0, 0, 0, 0]] = Some (Inr (2 ^ 131))"
    by (simp add: Let_def big_SetBytes_def maxEntropy_def minEntropy_def seedBits_def numBits_def bpw_def)
  moreover have "IsNewSeed sample_unicode (\<lambda>_ _. [1]) phrase SeedPrefix" for phrase
    by (simp add: IsNewSeed_def SeedPrefix_def hex_encode_def hex_byte_def hex_digit_def)
  ultimately show ?thesis using MakeSeed_correct [OF sample_unicode_ok, of "\<lambda>_ _. [1]" _ 1 SeedPrefix "[]" "2 ^ 131" 1]
    by simp
qed

end
