(* ===== verification/Wallet.thy ===== *)
theory Wallet
  imports Mnemonic
begin

text \<open>
  The HD wallet: addresses (\<open>wallet/params.go\<close>), BIP32 extended keys (\<open>wallet/hdkey.go\<close>) and the wallet
  (\<open>wallet/wallet.go\<close>). The curve, the key codecs of btcec, the digests and Base58 are the record \<open>prims\<close>.
  A private key is its scalar, a public key a point of type \<open>'p\<close>, an address its 20-byte hash. A pointer
  that may be nil is an \<open>option\<close>; a result pair \<open>(value, err)\<close> whose two halves are set independently is a
  pair of options; a run-time panic is the outer \<open>None\<close>.
\<close>

record 'p prims =
  curveN :: int
  ScalarBaseMult :: "bytes \<Rightarrow> 'p"
  curve_Add :: "'p \<Rightarrow> 'p \<Rightarrow> 'p"
  zero_coordinate :: "'p \<Rightarrow> bool"
  SerializeCompressed :: "'p \<Rightarrow> bytes"
  PrivKeyFromBytes :: "bytes \<Rightarrow> int"
  priv_Serialize :: "int \<Rightarrow> bytes"
  PubKey :: "int \<Rightarrow> 'p"
  hmac512 :: "bytes \<Rightarrow> bytes \<Rightarrow> bytes"
  sha256 :: "bytes \<Rightarrow> bytes"
  ripemd160 :: "bytes \<Rightarrow> bytes"
  base58_Encode :: "bytes \<Rightarrow> string"

section \<open>Addresses\<close>

type_synonym Address = bytes

definition P2PKHAddrID :: byte where "P2PKHAddrID = 0x55"

definition hash160 :: "'p prims \<Rightarrow> bytes \<Rightarrow> bytes" where
  "hash160 P data = take 20 (ripemd160 P (sha256 P data) @ replicate 20 0)"

definition base58CheckEncode :: "'p prims \<Rightarrow> bytes \<Rightarrow> string" where
  "base58CheckEncode P data = base58_Encode P (data @ take 4 (sha256 P (sha256 P data)))"

definition EncodeAddress :: "'p prims \<Rightarrow> Address \<Rightarrow> string" where
  "EncodeAddress P a = base58CheckEncode P ([P2PKHAddrID] @ a)"

definition AddressFromPubKey :: "'p prims \<Rightarrow> 'p \<Rightarrow> Address" where
  "AddressFromPubKey P pubKey = hash160 P (SerializeCompressed P pubKey)"

definition AddressFromPrivKey :: "'p prims \<Rightarrow> int \<Rightarrow> Address" where
  "AddressFromPrivKey P privKey = AddressFromPubKey P (PubKey P privKey)"

definition PubKeyScript :: "Address \<Rightarrow> bytes" where
  "PubKeyScript a = [0x76] @ [0xa9] @ [0x14] @ a @ [0x88] @ [0xac]"

section \<open>Extended keys\<close>

definition HardenedKeyStart :: "32 word" where "HardenedKeyStart = 0x80000000"

definition masterKey :: bytes where "masterKey = bytes_of ''Bitcoin seed''"

record 'p ExtendedKey =
  privKey :: "int option"
  pubKey :: "'p option"
  chainCode :: "bytes option"
  parentFP :: bytes
  depth :: "8 word"
  childNum :: "32 word"
  isPrivate :: bool

definition fingerprint :: "'p prims \<Rightarrow> 'p \<Rightarrow> bytes" where
  "fingerprint P pub = take 4 (hash160 P (SerializeCompressed P pub))"

definition NewMaster :: "'p prims \<Rightarrow> bytes \<Rightarrow> error + 'p ExtendedKey" where
  "NewMaster P seed =
     (if length seed < 16 \<or> length seed > 64 then Inl (Plain ''invalid seed length'')
      else
        (let lr = hmac512 P masterKey seed;
             secretKey = take 32 lr;
             keyNum = big_SetBytes secretKey
         in if keyNum = 0 \<or> keyNum \<ge> curveN P then Inl (Plain ''unusable seed: derived key is out of range'')
            else
              (let priv = PrivKeyFromBytes P secretKey in
               Inr \<lparr>privKey = Some priv, pubKey = Some (PubKey P priv), chainCode = Some (drop 32 lr),
                    parentFP = replicate 4 0, depth = 0, childNum = 0, isPrivate = True\<rparr>)))"

text \<open>\<open>copy\<close> into a zeroed 37-byte buffer whose last four bytes are then the index.\<close>

definition derive_data :: "bytes \<Rightarrow> 32 word \<Rightarrow> bytes" where
  "derive_data key i = take 33 (key @ replicate 33 0) @ be_uint32 i"

text \<open>The child scalar is below \<open>N\<close>, so its bytes fit the 32-byte buffer.\<close>

definition pad32 :: "bytes \<Rightarrow> bytes" where
  "pad32 b = replicate (32 - length b) 0 @ b"

definition deriveLocked :: "'p prims \<Rightarrow> 'p ExtendedKey \<Rightarrow> 32 word \<Rightarrow> error + 'p ExtendedKey" where
  "deriveLocked P k i =
     (if depth k = 255 then Inl (Plain ''derivation depth exceeds maximum (255)'')
      else
        (let isHardened = (i \<ge> HardenedKeyStart) in
         if \<not> isPrivate k \<and> isHardened then Inl (Plain ''cannot derive hardened child from public key'')
         else if isHardened \<and> privKey k = None then Inl (Plain ''extended key has been zeroed'')
         else (case (pubKey k, chainCode k) of
             (Some pub, Some code) \<Rightarrow>
               (let data = (if isHardened then derive_data (0 # priv_Serialize P (the (privKey k))) i
                            else derive_data (SerializeCompressed P pub) i);
                    ilr = hmac512 P code data;
                    il = take 32 ilr;
                    childChainCode = drop 32 ilr;
                    ilNum = big_SetBytes il
                in if ilNum = 0 \<or> ilNum \<ge> curveN P then Inl (Plain ''invalid child (extremely rare, try next)'')
                   else if isPrivate k then
                     (case privKey k of
                        None \<Rightarrow> Inl (Plain ''extended key has been zeroed'')
                      | Some d \<Rightarrow>
                          (let sum = (ilNum + big_SetBytes (priv_Serialize P d)) mod curveN P;
                               priv = PrivKeyFromBytes P (pad32 (big_Bytes sum))
                           in Inr \<lparr>privKey = Some priv, pubKey = Some (PubKey P priv), chainCode = Some childChainCode,
                                   parentFP = fingerprint P pub, depth = depth k + 1, childNum = i, isPrivate = True\<rparr>))
                   else
                     (let q = ScalarBaseMult P il in
                      if zero_coordinate P q then Inl (Plain ''invalid child'')
                      else Inr \<lparr>privKey = None, pubKey = Some (curve_Add P pub q), chainCode = Some childChainCode,
                                parentFP = fingerprint P pub, depth = depth k + 1, childNum = i, isPrivate = False\<rparr>))
           | _ \<Rightarrow> Inl (Plain ''extended key has been zeroed''))))"

definition Derive :: "'p prims \<Rightarrow> 'p ExtendedKey \<Rightarrow> 32 word \<Rightarrow> error + 'p ExtendedKey" where
  "Derive P k i = deriveLocked P k i"

text \<open>
  The closure's error is the result of \<open>withRLock\<close>, which \<open>ECPrivKey\<close> drops: its own error result is never
  assigned.
\<close>

definition ECPrivKey :: "'p ExtendedKey \<Rightarrow> int option \<times> error option" where
  "ECPrivKey k =
     (case (if \<not> isPrivate k then Inl (Plain ''extended key is public-only'')
            else (case privKey k of None \<Rightarrow> Inl (Plain ''extended key has been zeroed'') | Some d \<Rightarrow> Inr d)) of
        Inl e \<Rightarrow> (None, None)
      | Inr d \<Rightarrow> (Some d, None))"

definition ExtendedKey_String :: "'p prims \<Rightarrow> 'p ExtendedKey \<Rightarrow> string option" where
  "ExtendedKey_String P k =
     (let buf = (if isPrivate k then [0x04, 0x88, 0xad, 0xe4] else [0x04, 0x88, 0xb2, 0x1e]) @
                [depth k] @ parentFP k @ be_uint32 (childNum k)
      in case chainCode k of
           None \<Rightarrow> Some []
         | Some code \<Rightarrow>
             (if isPrivate k then
                (case privKey k of
                   None \<Rightarrow> Some []
                 | Some d \<Rightarrow> Some (base58CheckEncode P (buf @ code @ [0x00] @ priv_Serialize P d)))
              else
                (case pubKey k of
                   None \<Rightarrow> None
                 | Some pub \<Rightarrow> Some (base58CheckEncode P (buf @ code @ SerializeCompressed P pub)))))"

definition ExtendedKey_Hex :: "'p prims \<Rightarrow> 'p ExtendedKey \<Rightarrow> string" where
  "ExtendedKey_Hex P k =
     (if \<not> isPrivate k then []
      else (case privKey k of None \<Rightarrow> [] | Some d \<Rightarrow> hex_encode (priv_Serialize P d)))"

definition ExtendedKey_Zero :: "'p ExtendedKey \<Rightarrow> 'p ExtendedKey" where
  "ExtendedKey_Zero k = k\<lparr>privKey := None, chainCode := None\<rparr>"

section \<open>The wallet\<close>

record 'p Wallet =
  mnemonic :: runes
  seed :: "bytes option"
  w_masterKey :: "'p ExtendedKey option"
  w_privKey :: "int option"
  w_pubKey :: "'p option"
  w_address :: "Address option"

text \<open>\<open>None\<close> is the panic of \<open>privKey.PubKey()\<close> on a nil key.\<close>

definition deriveAccount0 :: "'p prims \<Rightarrow> 'p ExtendedKey \<Rightarrow> 'p Wallet \<Rightarrow> (error + 'p Wallet) option" where
  "deriveAccount0 P master w =
     (case Derive P master 0 of
        Inl e \<Rightarrow> Some (Inl (Wrapped ''derive receiving chain'' e))
      | Inr receiving \<Rightarrow>
          (case Derive P receiving 0 of
             Inl e \<Rightarrow> Some (Inl (Wrapped ''derive child'' e))
           | Inr child \<Rightarrow>
               (case ECPrivKey child of
                  (_, Some e) \<Rightarrow> Some (Inl (Wrapped ''get private key'' e))
                | (None, None) \<Rightarrow> None
                | (Some priv, None) \<Rightarrow>
                    Some (Inr (w\<lparr>w_privKey := Some priv, w_pubKey := Some (PubKey P priv),
                                 w_address := Some (AddressFromPubKey P (PubKey P priv))\<rparr>)))))"

definition newFromSeed :: "'p prims \<Rightarrow> bytes \<Rightarrow> runes \<Rightarrow> (error + 'p Wallet) option" where
  "newFromSeed P s mnemonicStr =
     (case NewMaster P s of
        Inl e \<Rightarrow> Some (Inl (Wrapped ''derive master key'' e))
      | Inr master \<Rightarrow>
          deriveAccount0 P master
            \<lparr>mnemonic = mnemonicStr, seed = Some s, w_masterKey = Some master,
             w_privKey = None, w_pubKey = None, w_address = None\<rparr>)"

definition NewFromSeed :: "'p prims \<Rightarrow> bytes \<Rightarrow> (error + 'p Wallet) option" where
  "NewFromSeed P s = newFromSeed P s []"

definition NewFromMnemonic ::
    "unicode \<Rightarrow> (bytes \<Rightarrow> bytes \<Rightarrow> nat \<Rightarrow> nat \<Rightarrow> bytes) \<Rightarrow> 'p prims \<Rightarrow> runes \<Rightarrow> (error + 'p Wallet) option" where
  "NewFromMnemonic U pbkdf2 P mnemonicStr =
     (if \<not> IsValid U (hmac512 P) mnemonicStr
      then Some (Inl (Plain ''invalid mnemonic: failed Electrum seed checksum or unknown words''))
      else newFromSeed P (MnemonicToSeed U pbkdf2 mnemonicStr (to_runes Passphrase)) mnemonicStr)"

definition deriveKeyLocked :: "'p prims \<Rightarrow> 'p Wallet \<Rightarrow> 32 word \<Rightarrow> 32 word \<Rightarrow> error + 'p ExtendedKey" where
  "deriveKeyLocked P w chain index =
     (case w_masterKey w of
        None \<Rightarrow> Inl (Plain ''wallet has been zeroed'')
      | Some master \<Rightarrow>
          (case Derive P master chain of
             Inl e \<Rightarrow> Inl (Wrapped ''derive chain'' e)
           | Inr chainKey \<Rightarrow> Derive P chainKey index))"

definition DeriveKey :: "'p prims \<Rightarrow> 'p Wallet \<Rightarrow> 32 word \<Rightarrow> 32 word \<Rightarrow> error + 'p ExtendedKey" where
  "DeriveKey P w chain index = deriveKeyLocked P w chain index"

definition AddressString :: "'p prims \<Rightarrow> 'p Wallet \<Rightarrow> string" where
  "AddressString P w = (case w_address w of None \<Rightarrow> [] | Some a \<Rightarrow> EncodeAddress P a)"

text \<open>
  The closures of \<open>AddressAt\<close> and \<open>PrivateKeyAt\<close> return their errors to \<open>withRLock\<close>, whose result is
  dropped, so a failed derivation is the pair of two nils.
\<close>

definition AddressAt :: "'p prims \<Rightarrow> 'p Wallet \<Rightarrow> 32 word \<Rightarrow> 32 word \<Rightarrow> (Address option \<times> error option) option" where
  "AddressAt P w chain index =
     (case deriveKeyLocked P w chain index of
        Inl e \<Rightarrow> Some (None, None)
      | Inr child \<Rightarrow>
          (case ECPrivKey child of
             (_, Some e) \<Rightarrow> Some (None, None)
           | (None, None) \<Rightarrow> None
           | (Some priv, None) \<Rightarrow> Some (Some (AddressFromPrivKey P priv), None)))"

definition AddressStringAt :: "'p prims \<Rightarrow> 'p Wallet \<Rightarrow> 32 word \<Rightarrow> 32 word \<Rightarrow> (error + string) option" where
  "AddressStringAt P w chain index =
     (case AddressAt P w chain index of
        None \<Rightarrow> None
      | Some (_, Some e) \<Rightarrow> Some (Inl e)
      | Some (None, None) \<Rightarrow> None
      | Some (Some addr, None) \<Rightarrow> Some (Inr (EncodeAddress P addr)))"

definition PubKeyScriptAt :: "'p prims \<Rightarrow> 'p Wallet \<Rightarrow> 32 word \<Rightarrow> 32 word \<Rightarrow> (error + bytes) option" where
  "PubKeyScriptAt P w chain index =
     (case AddressAt P w chain index of
        None \<Rightarrow> None
      | Some (_, Some e) \<Rightarrow> Some (Inl e)
      | Some (None, None) \<Rightarrow> None
      | Some (Some addr, None) \<Rightarrow> Some (Inr (PubKeyScript addr)))"

definition PrivateKeyAt :: "'p prims \<Rightarrow> 'p Wallet \<Rightarrow> 32 word \<Rightarrow> 32 word \<Rightarrow> int option \<times> error option" where
  "PrivateKeyAt P w chain index =
     (case deriveKeyLocked P w chain index of
        Inl e \<Rightarrow> (None, None)
      | Inr child \<Rightarrow> ECPrivKey child)"

definition PrivateKeyHex :: "'p prims \<Rightarrow> 'p Wallet \<Rightarrow> string" where
  "PrivateKeyHex P w = (case w_privKey w of None \<Rightarrow> [] | Some d \<Rightarrow> hex_encode (priv_Serialize P d))"

definition PublicKeyHex :: "'p prims \<Rightarrow> 'p Wallet \<Rightarrow> string" where
  "PublicKeyHex P w = (case w_pubKey w of None \<Rightarrow> [] | Some q \<Rightarrow> hex_encode (SerializeCompressed P q))"

text \<open>
  What the wallet holds afterwards. The code also overwrites the seed, the scalar and the master key where they are
  stored, which only a holder of the same memory can observe; the model's values are not shared.
\<close>

definition Wallet_Zero :: "'p Wallet \<Rightarrow> 'p Wallet" where
  "Wallet_Zero w = w\<lparr>mnemonic := [], seed := None, w_privKey := None, w_masterKey := None, w_pubKey := None, w_address := None\<rparr>"

section \<open>What the wallet relies on\<close>

text \<open>
  Documented behaviour of btcec, of the digests and of Base58: keys are big-endian 32-byte numbers, the
  public key of a scalar is its multiple of the base point, point addition is addition of scalars modulo
  the group order, no multiple of the base point but the neutral element has a zero coordinate, and
  Base58 is injective.
\<close>

definition prims_ok :: "'p prims \<Rightarrow> bool" where
  "prims_ok P \<longleftrightarrow>
     0 < curveN P \<and> curveN P \<le> 2 ^ 256 \<and>
     (\<forall>b. PrivKeyFromBytes P b = big_SetBytes b) \<and>
     (\<forall>d. 0 \<le> d \<and> d < 2 ^ 256 \<longrightarrow> priv_Serialize P d = pad32 (big_Bytes d)) \<and>
     (\<forall>b. ScalarBaseMult P b = PubKey P (big_SetBytes b)) \<and>
     (\<forall>a b. 0 \<le> a \<and> a < curveN P \<and> 0 \<le> b \<and> b < curveN P \<longrightarrow>
        curve_Add P (PubKey P a) (PubKey P b) = PubKey P ((a + b) mod curveN P)) \<and>
     (\<forall>a. 0 < a \<and> a < curveN P \<longrightarrow> \<not> zero_coordinate P (PubKey P a)) \<and>
     (\<forall>k m. length (hmac512 P k m) = 64) \<and>
     (\<forall>x y. base58_Encode P x = base58_Encode P y \<longrightarrow> x = y)"

definition key_ok :: "'p prims \<Rightarrow> 'p ExtendedKey \<Rightarrow> bool" where
  "key_ok P k \<longleftrightarrow> isPrivate k \<and> length (parentFP k) = 4 \<and>
     (\<exists>d code. privKey k = Some d \<and> 0 \<le> d \<and> d < curveN P \<and> pubKey k = Some (PubKey P d) \<and>
        chainCode k = Some code \<and> length code = 32)"

text \<open>The public half of a key, as a holder of the extended public key has it.\<close>

definition neuter :: "'p ExtendedKey \<Rightarrow> 'p ExtendedKey" where
  "neuter k = k\<lparr>privKey := None, isPrivate := False\<rparr>"

text \<open>Keys reached from a key along a path of indices.\<close>

inductive reached :: "'p prims \<Rightarrow> 'p ExtendedKey \<Rightarrow> 32 word list \<Rightarrow> 'p ExtendedKey \<Rightarrow> bool" for P m where
  root: "reached P m [] m"
| child: "reached P m path k \<Longrightarrow> Derive P k i = Inr c \<Longrightarrow> reached P m (path @ [i]) c"

lemma big_SetBytes_pad32 [simp]: "0 \<le> n \<Longrightarrow> big_SetBytes (pad32 (big_Bytes n)) = n"
  by (simp add: pad32_def big_SetBytes_zeros big_Bytes_def big_SetBytes_nat_be)

lemma length_pad32: "0 \<le> n \<Longrightarrow> n < 2 ^ 256 \<Longrightarrow> length (pad32 (big_Bytes n)) = 32"
  using length_nat_be [of "nat n" 32] by (simp add: pad32_def big_Bytes_def nat_less_iff)

lemma big_SetBytes_nonneg: "0 \<le> big_SetBytes b"
proof (induction b rule: rev_induct)
  case (snoc x xs)
  then show ?case by (simp add: big_SetBytes_snoc)
qed (simp add: big_SetBytes_def)

lemma length_hash160 [simp]: "length (hash160 P data) = 20"
  by (simp add: hash160_def)

lemma length_fingerprint [simp]: "length (fingerprint P q) = 4"
  by (simp add: fingerprint_def)

lemma prims_okD:
  assumes "prims_ok P"
  shows "0 < curveN P" "curveN P \<le> 2 ^ 256" "PrivKeyFromBytes P b = big_SetBytes b"
    "ScalarBaseMult P b = PubKey P (big_SetBytes b)" "length (hmac512 P k m) = 64"
    "base58_Encode P x = base58_Encode P y \<longleftrightarrow> x = y"
    "0 \<le> d \<Longrightarrow> d < curveN P \<Longrightarrow> priv_Serialize P d = pad32 (big_Bytes d)"
    "0 < d \<Longrightarrow> d < curveN P \<Longrightarrow> \<not> zero_coordinate P (PubKey P d)"
    "0 \<le> d \<Longrightarrow> d < curveN P \<Longrightarrow> 0 \<le> e \<Longrightarrow> e < curveN P \<Longrightarrow>
       curve_Add P (PubKey P d) (PubKey P e) = PubKey P ((d + e) mod curveN P)"
  using assms unfolding prims_ok_def by (blast | force)+

lemma NewMaster_key_ok:
  assumes "prims_ok P" "NewMaster P s = Inr m"
  shows "key_ok P m \<and> depth m = 0 \<and> privKey m \<noteq> Some 0"
  using assms(2) big_SetBytes_nonneg [of "take 32 (hmac512 P masterKey s)"]
  by (auto simp: NewMaster_def Let_def key_ok_def prims_okD [OF assms(1)] split: if_splits)

text \<open>The derivation of a well-formed private key, with its two outcomes.\<close>

definition child_num :: "'p prims \<Rightarrow> 'p ExtendedKey \<Rightarrow> 32 word \<Rightarrow> bytes" where
  "child_num P k i = hmac512 P (the (chainCode k))
     (if i \<ge> HardenedKeyStart then derive_data (0 # priv_Serialize P (the (privKey k))) i
      else derive_data (SerializeCompressed P (the (pubKey k))) i)"

lemma Derive_private:
  fixes i :: "32 word"
  assumes "prims_ok P" "key_ok P k" "privKey k = Some d" "depth k \<noteq> 255"
  defines "il \<equiv> big_SetBytes (take 32 (child_num P k i))"
  shows "Derive P k i =
     (if il = 0 \<or> il \<ge> curveN P then Inl (Plain ''invalid child (extremely rare, try next)'')
      else Inr \<lparr>privKey = Some ((il + d) mod curveN P), pubKey = Some (PubKey P ((il + d) mod curveN P)),
                chainCode = Some (drop 32 (child_num P k i)), parentFP = fingerprint P (PubKey P d),
                depth = depth k + 1, childNum = i, isPrivate = True\<rparr>)"
proof -
  have d: "0 \<le> d" "d < curveN P" "pubKey k = Some (PubKey P d)" "isPrivate k" and "chainCode k \<noteq> None"
    using assms(2,3) by (auto simp: key_ok_def)
  then obtain code where code: "chainCode k = Some code" by auto
  have sum: "0 \<le> (il + d) mod curveN P" using prims_okD(1) [OF assms(1)] by simp
  have "big_SetBytes (priv_Serialize P d) = d" using d by (simp add: prims_okD(7) [OF assms(1)])
  then show ?thesis
    using d code sum assms(3,4) unfolding il_def child_num_def
    by (auto simp: Derive_def deriveLocked_def Let_def prims_okD(3) [OF assms(1)])
qed

lemma Derive_key_ok:
  assumes "prims_ok P" "key_ok P k" "Derive P k i = Inr c"
  shows "key_ok P c \<and> depth k \<noteq> 255 \<and> depth c = depth k + 1 \<and> childNum c = i"
proof -
  have ne: "depth k \<noteq> 255" using assms(3) by (auto simp: Derive_def deriveLocked_def)
  obtain d where d: "privKey k = Some d" using assms(2) by (auto simp: key_ok_def)
  have "length (child_num P k i) = 64" by (simp add: child_num_def prims_okD(5) [OF assms(1)])
  then show ?thesis
    using assms(3) ne prims_okD(1) [OF assms(1)] unfolding Derive_private [OF assms(1,2) d ne]
    by (auto simp: key_ok_def split: if_splits)
qed

text \<open>The sum of two scalars in range is the neutral element only for inverse scalars.\<close>

lemma Derive_zero:
  assumes "prims_ok P" "key_ok P k" "privKey k = Some d" "Derive P k i = Inr c"
  shows "privKey c = Some 0 \<longleftrightarrow> big_SetBytes (take 32 (child_num P k i)) = curveN P - d"
proof -
  let ?il = "big_SetBytes (take 32 (child_num P k i))" and ?N = "curveN P"
  have ne: "depth k \<noteq> 255" using Derive_key_ok [OF assms(1,2,4)] by simp
  have c: "0 < ?il" "?il < ?N" "privKey c = Some ((?il + d) mod ?N)"
    using assms(4) big_SetBytes_nonneg [of "take 32 (child_num P k i)"] unfolding Derive_private [OF assms(1-3) ne] by (auto split: if_splits)
  have d: "0 \<le> d" "d < ?N" using assms(2,3) by (auto simp: key_ok_def)
  have "(?il + d) mod ?N = (if ?il + d < ?N then ?il + d else ?il + d - ?N)"
    using c d mod_pos_pos_trivial [of "?il + d - ?N" ?N] minus_mod_self2 [of "?il + d" ?N] by auto
  then show ?thesis using c d by auto
qed

lemma reached_key_ok:
  assumes "prims_ok P" "key_ok P m" "depth m = 0" "reached P m path k"
  shows "key_ok P k \<and> unat (depth k) = length path \<and> length path \<le> 255 \<and> (path \<noteq> [] \<longrightarrow> childNum k = last path)"
  using assms(4)
proof induction
  case root
  then show ?case using assms by simp
next
  case (child path k i c)
  then have c: "key_ok P c" "depth k \<noteq> 255" "depth c = depth k + 1" "childNum c = i"
    using Derive_key_ok [OF assms(1)] by blast+
  have "unat (depth k) \<noteq> 255" using c(2) by (simp add: word_unat_eq_iff)
  moreover have "unat (depth k) \<le> 255" using unat_byte_less [of "depth k"] by linarith
  ultimately have lt: "unat (depth k) < 255" by simp
  then have "unat (depth c) = Suc (unat (depth k))" unfolding c(3) by (subst unat_word_ariths) simp
  then show ?case using child.IH c lt by simp
qed

lemma key_payload:
  assumes "prims_ok P" "key_ok P k"
  obtains d code where "privKey k = Some d" "0 \<le> d" "d < curveN P" "pubKey k = Some (PubKey P d)"
    "chainCode k = Some code" "length code = 32" "length (parentFP k) = 4" "isPrivate k"
    "ExtendedKey_String P k = Some (base58CheckEncode P
       ([0x04, 0x88, 0xad, 0xe4, depth k] @ parentFP k @ be_uint32 (childNum k) @ code @ [0] @ pad32 (big_Bytes d)))"
    "length (pad32 (big_Bytes d)) = 32"
proof -
  obtain d code where k: "privKey k = Some d" "0 \<le> d" "d < curveN P" "pubKey k = Some (PubKey P d)"
      "chainCode k = Some code" "length code = 32" "length (parentFP k) = 4" "isPrivate k"
    using assms(2) by (auto simp: key_ok_def)
  have "d < 2 ^ 256" using k(3) prims_okD(2) [OF assms(1)] by linarith
  from length_pad32 [OF k(2) this] show thesis
    using k by (intro that) (simp_all add: ExtendedKey_String_def prims_okD(7) [OF assms(1)])
qed

lemma length_be_uint32 [simp]: "length (be_uint32 w) = 4"
  by (simp add: be_uint32_def)

lemma be_uint32_inj: "be_uint32 v = be_uint32 w \<Longrightarrow> v = w"
proof (rule bit_word_eqI)
  fix n
  assume eq: "be_uint32 v = be_uint32 w" and n: "n < LENGTH(32)"
  have bytes: "bit (ucast (drop_bit m v) :: byte) j = bit (ucast (drop_bit m w) :: byte) j" if "m \<in> {0, 8, 16, 24}" for m j
    using eq that by (auto simp: be_uint32_def)
  have "n div 8 * 8 \<in> {0, 8, 16, 24}" using n by auto
  from bytes [OF this, of "n mod 8"] show "bit v n = bit w n"
    by (simp add: bit_ucast_iff bit_drop_bit_eq)
qed

lemma base58CheckEncode_inj:
  assumes "prims_ok P" "base58CheckEncode P x = base58CheckEncode P y" "length x = length y"
  shows "x = y"
  using assms by (simp add: base58CheckEncode_def prims_okD(6) [OF assms(1)])

section \<open>A concrete instance\<close>

text \<open>A group of 101 elements in place of the curve, for the witnesses.\<close>

definition sample_prims :: "int prims" where
  "sample_prims = \<lparr>curveN = 101, ScalarBaseMult = (\<lambda>b. big_SetBytes b mod 101), curve_Add = (\<lambda>a b. (a + b) mod 101),
     zero_coordinate = (\<lambda>q. q = 0), SerializeCompressed = (\<lambda>q. replicate 32 2 @ [of_int q]),
     PrivKeyFromBytes = big_SetBytes, priv_Serialize = (\<lambda>d. pad32 (big_Bytes d)), PubKey = (\<lambda>d. d mod 101),
     hmac512 = (\<lambda>k m. replicate 31 0 @ [5] @ replicate 32 7), sha256 = id, ripemd160 = id, base58_Encode = string_of\<rparr>"

lemma sample_prims_ok: "prims_ok sample_prims"
proof -
  have "x = y" if "string_of x = string_of y" for x y using that by (metis bytes_of_string_of)
  then show ?thesis by (auto simp: prims_ok_def sample_prims_def mod_add_eq)
qed

definition sample_master :: "int ExtendedKey" where
  "sample_master = \<lparr>privKey = Some 5, pubKey = Some 5, chainCode = Some (replicate 32 7), parentFP = replicate 4 0,
     depth = 0, childNum = 0, isPrivate = True\<rparr>"

lemma big_SetBytes_sample: "big_SetBytes (replicate 31 0 @ [5]) = 5"
  by (simp add: big_SetBytes_zeros) (simp add: big_SetBytes_def)

lemma sample_master_New: "NewMaster sample_prims (replicate 16 1) = Inr sample_master"
  using big_SetBytes_sample by (simp add: NewMaster_def sample_prims_def sample_master_def Let_def)

lemma sample_master_ok: "key_ok sample_prims sample_master"
  using NewMaster_key_ok [OF sample_prims_ok sample_master_New] by simp

lemma sample_Derive:
  assumes "key_ok sample_prims k" "depth k \<noteq> 255"
  shows "\<exists>c. Derive sample_prims k i = Inr c"
proof -
  obtain d where d: "privKey k = Some d" using assms(1) by (auto simp: key_ok_def)
  have "take 32 (child_num sample_prims k i) = replicate 31 0 @ [5]"
    by (simp add: child_num_def sample_prims_def)
  then show ?thesis
    unfolding Derive_private [OF sample_prims_ok assms(1) d assms(2)]
    using big_SetBytes_sample by (simp add: sample_prims_def)
qed

lemma sample_master_Derive: "\<exists>c. Derive sample_prims sample_master i = Inr c"
  by (rule sample_Derive [OF sample_master_ok]) (simp add: sample_master_def)

lemma sample_newFromSeed: "\<exists>w. newFromSeed sample_prims (replicate 16 1) [] = Some (Inr w)"
proof -
  obtain r where r: "Derive sample_prims sample_master 0 = Inr r" using sample_master_Derive by blast
  then have ok: "key_ok sample_prims r" "depth r = 1"
    using Derive_key_ok [OF sample_prims_ok sample_master_ok] by (auto simp: sample_master_def)
  then obtain c where c: "Derive sample_prims r 0 = Inr c" using sample_Derive [of r 0] by auto
  then obtain d where "ECPrivKey c = (Some d, None)"
    using Derive_key_ok [OF sample_prims_ok ok(1)] by (fastforce simp: key_ok_def ECPrivKey_def)
  then show ?thesis using r c sample_master_New by (simp add: newFromSeed_def deriveAccount0_def)
qed

section \<open>Properties\<close>

text \<open>
  C30. Every key derived from a master key is a well-formed private key: its scalar is below the group order, its
  public key belongs to it, the chain code has 32 bytes, the recorded depth is the length of the path, which is
  at most 255, and the child number is the last index of the path. The scalar of the master key is not zero; that of a
  child is zero, which is no private key and is not checked, exactly when the left half of the digest is
  the negative of the parent's scalar.
\<close>

theorem derived_keys_ok:
  assumes "prims_ok P" "NewMaster P s = Inr m" "reached P m path k"
  shows "key_ok P k \<and> unat (depth k) = length path \<and> length path \<le> 255 \<and> (path \<noteq> [] \<longrightarrow> childNum k = last path) \<and>
    privKey m \<noteq> Some 0 \<and>
    (\<forall>d i c. privKey k = Some d \<longrightarrow> Derive P k i = Inr c \<longrightarrow>
       (privKey c = Some 0 \<longleftrightarrow> big_SetBytes (take 32 (child_num P k i)) = curveN P - d))"
  using reached_key_ok [OF assms(1) _ _ assms(3)] NewMaster_key_ok [OF assms(1,2)] Derive_zero [OF assms(1), of k] by simp

text \<open>A digest for which the first child of a master key has the scalar zero.\<close>

definition sample_unlucky :: "int prims" where
  "sample_unlucky = sample_prims\<lparr>hmac512 := (\<lambda>k m. replicate 31 0 @ [if k = masterKey then 96 else 5] @ replicate 32 7)\<rparr>"

lemma sample_unlucky_ok: "prims_ok sample_unlucky"
  using sample_prims_ok by (simp add: prims_ok_def sample_unlucky_def sample_prims_def)

theorem derived_keys_ok_witness:
  "\<exists>m c. NewMaster sample_unlucky (replicate 16 1) = Inr m \<and> Derive sample_unlucky m 3 = Inr c \<and> privKey m = Some 96 \<and>
     privKey c = Some 0 \<and> key_ok sample_unlucky c \<and> unat (depth c) = 1 \<and> childNum c = 3"
proof -
  have byte: "big_SetBytes (replicate 31 0 @ [b]) = uint b" for b by (simp add: big_SetBytes_zeros) (simp add: big_SetBytes_def)
  have "\<exists>m. NewMaster sample_unlucky (replicate 16 1) = Inr m \<and> privKey m = Some 96 \<and> depth m = 0 \<and> chainCode m = Some (replicate 32 7)"
    using byte [of 96] by (simp add: NewMaster_def sample_unlucky_def sample_prims_def Let_def)
  then obtain m where m: "NewMaster sample_unlucky (replicate 16 1) = Inr m" "privKey m = Some 96" "depth m = 0" "chainCode m = Some (replicate 32 7)"
    by blast
  note master = derived_keys_ok [OF sample_unlucky_ok m(1) reached.root]
  have il: "big_SetBytes (take 32 (child_num sample_unlucky m 3)) = 5"
  proof -
    have "replicate 32 (7 :: byte) \<noteq> masterKey" by (simp add: masterKey_def bytes_of_def list_eq_iff_nth_eq)
    then show ?thesis using byte [of 5] m(4) by (simp add: child_num_def sample_unlucky_def)
  qed
  obtain c where c: "Derive sample_unlucky m 3 = Inr c"
    using il Derive_private [OF sample_unlucky_ok _ m(2), of 3] master m(3) by (simp add: sample_unlucky_def sample_prims_def)
  have "reached sample_unlucky m ([] @ [3]) c" using reached.root c by (rule reached.child)
  from derived_keys_ok [OF sample_unlucky_ok m(1) this] master show ?thesis
    using m c il by (auto simp: sample_unlucky_def sample_prims_def)
qed

text \<open>
  C31. Deriving publicly and deriving privately agree: for every non-hardened index, the public half of
  the child of a key is the child of its public half, and one derivation fails exactly when the other
  does, with the same error.
\<close>

theorem Derive_public_private:
  assumes "prims_ok P" "key_ok P k" "i < HardenedKeyStart"
  shows "Derive P (neuter k) i = (case Derive P k i of Inl e \<Rightarrow> Inl e | Inr c \<Rightarrow> Inr (neuter c))"
proof (cases "depth k = 255")
  case True
  then show ?thesis by (simp add: Derive_def deriveLocked_def neuter_def)
next
  case False
  obtain d code where k: "privKey k = Some d" "0 \<le> d" "d < curveN P" "pubKey k = Some (PubKey P d)" "chainCode k = Some code"
    using key_payload [OF assms(1,2)] by blast
  define il where "il = big_SetBytes (take 32 (child_num P k i))"
  have data: "hmac512 P code (derive_data (SerializeCompressed P (PubKey P d)) i) = child_num P k i"
    using assms(3) k by (auto simp: child_num_def)
  have il0: "0 \<le> il" unfolding il_def by (rule big_SetBytes_nonneg)
  show ?thesis
  proof (cases "il = 0 \<or> il \<ge> curveN P")
    case True
    then show ?thesis unfolding Derive_private [OF assms(1,2) k(1) False]
      using k assms(3) False data by (auto simp: Derive_def deriveLocked_def neuter_def il_def Let_def)
  next
    case il: False
    have "curve_Add P (PubKey P d) (PubKey P il) = PubKey P ((il + d) mod curveN P)"
      using prims_okD(9) [OF assms(1) k(2,3) il0] il by (simp add: add.commute)
    moreover have "\<not> zero_coordinate P (PubKey P il)" using prims_okD(8) [OF assms(1), of il] il il0 by simp
    ultimately show ?thesis unfolding Derive_private [OF assms(1,2) k(1) False]
      using k assms(3) False data il
      by (auto simp: Derive_def deriveLocked_def neuter_def prims_okD(4) [OF assms(1)] Let_def simp flip: il_def)
  qed
qed

theorem Derive_public_private_witness:
  "\<exists>c. Derive sample_prims sample_master 3 = Inr c \<and> Derive sample_prims (neuter sample_master) 3 = Inr (neuter c)"
proof -
  obtain c where c: "Derive sample_prims sample_master 3 = Inr c" using sample_master_Derive by blast
  have "3 < HardenedKeyStart" by (simp add: HardenedKeyStart_def)
  from Derive_public_private [OF sample_prims_ok sample_master_ok this] show ?thesis using c by auto
qed

text \<open>
  The text form of an extended private key determines the key: two well-formed keys with the same
  string are equal, and no private key has the string of a public half.
\<close>

theorem ExtendedKey_String_inj:
  assumes "prims_ok P" "key_ok P k" "key_ok P l" "\<forall>q. length (SerializeCompressed P q) = 33"
  shows "(ExtendedKey_String P k = ExtendedKey_String P l \<longrightarrow> k = l) \<and>
         ExtendedKey_String P k \<noteq> ExtendedKey_String P (neuter l)"
proof -
  obtain d code where k: "privKey k = Some d" "0 \<le> d" "d < curveN P" "pubKey k = Some (PubKey P d)"
      "chainCode k = Some code" "length code = 32" "length (parentFP k) = 4" "isPrivate k"
      "ExtendedKey_String P k = Some (base58CheckEncode P
         ([0x04, 0x88, 0xad, 0xe4, depth k] @ parentFP k @ be_uint32 (childNum k) @ code @ [0] @ pad32 (big_Bytes d)))"
      "length (pad32 (big_Bytes d)) = 32"
    using key_payload [OF assms(1,2)] by blast
  obtain e code' where l: "privKey l = Some e" "0 \<le> e" "e < curveN P" "pubKey l = Some (PubKey P e)"
      "chainCode l = Some code'" "length code' = 32" "length (parentFP l) = 4" "isPrivate l"
      "ExtendedKey_String P l = Some (base58CheckEncode P
         ([0x04, 0x88, 0xad, 0xe4, depth l] @ parentFP l @ be_uint32 (childNum l) @ code' @ [0] @ pad32 (big_Bytes e)))"
      "length (pad32 (big_Bytes e)) = 32"
    using key_payload [OF assms(1,3)] by blast
  have "k = l" if "ExtendedKey_String P k = ExtendedKey_String P l"
  proof -
    have "[0x04, 0x88, 0xad, 0xe4, depth k] @ parentFP k @ be_uint32 (childNum k) @ code @ [0] @ pad32 (big_Bytes d) =
          [0x04, 0x88, 0xad, 0xe4, depth l] @ parentFP l @ be_uint32 (childNum l) @ code' @ [0] @ pad32 (big_Bytes e)"
      by (rule base58CheckEncode_inj [OF assms(1)]) (use that k l in simp_all)
    then have "depth k = depth l" "parentFP k = parentFP l" "be_uint32 (childNum k) = be_uint32 (childNum l)"
        "code = code'" and pd: "pad32 (big_Bytes d) = pad32 (big_Bytes e)"
      using k l by simp_all
    moreover have "d = e" using pd k(2) l(2) by (metis big_SetBytes_pad32)
    ultimately show "k = l" using k l by (intro ExtendedKey.equality) (auto dest: be_uint32_inj)
  qed
  moreover have "ExtendedKey_String P k \<noteq> ExtendedKey_String P (neuter l)"
  proof
    assume "ExtendedKey_String P k = ExtendedKey_String P (neuter l)"
    then have "base58CheckEncode P ([0x04, 0x88, 0xad, 0xe4, depth k] @ parentFP k @ be_uint32 (childNum k) @ code @ [0] @ pad32 (big_Bytes d)) =
        base58CheckEncode P ([0x04, 0x88, 0xb2, 0x1e, depth l] @ parentFP l @ be_uint32 (childNum l) @ code' @ SerializeCompressed P (PubKey P e))"
      using k(9) l by (simp add: ExtendedKey_String_def neuter_def)
    from base58CheckEncode_inj [OF assms(1) this] show False using assms(4) k l by simp
  qed
  ultimately show ?thesis by blast
qed

theorem ExtendedKey_String_inj_witness:
  "ExtendedKey_String sample_prims sample_master \<noteq> ExtendedKey_String sample_prims (neuter sample_master)"
  using ExtendedKey_String_inj [OF sample_prims_ok sample_master_ok sample_master_ok]
  by (simp add: sample_prims_def)

text \<open>
  C32. The account of a new wallet is the one at path 0/0: construction never panics, and afterwards the
  cached address, private key and script are those that the derivation at chain 0 and index 0 returns, and
  the address is the hash of the public key of the private key.
\<close>

theorem newFromSeed_account:
  assumes "prims_ok P"
  shows "newFromSeed P s m \<noteq> None \<and>
         (newFromSeed P s m = Some (Inr w) \<longrightarrow>
            (\<exists>d. PrivateKeyAt P w 0 0 = (Some d, None) \<and> w_privKey w = Some d \<and> w_pubKey w = Some (PubKey P d) \<and>
               w_address w = Some (AddressFromPrivKey P d) \<and> AddressAt P w 0 0 = Some (w_address w, None) \<and>
               AddressStringAt P w 0 0 = Some (Inr (AddressString P w)) \<and>
               PubKeyScriptAt P w 0 0 = Some (Inr (PubKeyScript (AddressFromPrivKey P d)))) \<and>
            mnemonic w = m \<and> seed w = Some s)"
proof (cases "NewMaster P s")
  case (Inl e)
  then show ?thesis by (simp add: newFromSeed_def)
next
  case (Inr master)
  show ?thesis
  proof (cases "Derive P master 0")
    case (Inl e)
    then show ?thesis using Inr by (simp add: newFromSeed_def deriveAccount0_def)
  next
    case rc: (Inr receiving)
    show ?thesis
    proof (cases "Derive P receiving 0")
      case (Inl e)
      then show ?thesis using Inr rc by (simp add: newFromSeed_def deriveAccount0_def)
    next
      case ch: (Inr c)
      have "key_ok P c"
        using Derive_key_ok [OF assms] NewMaster_key_ok [OF assms Inr] rc ch by blast
      then obtain d where d: "ECPrivKey c = (Some d, None)" by (auto simp: key_ok_def ECPrivKey_def)
      then show ?thesis using Inr rc ch
        by (auto simp: newFromSeed_def deriveAccount0_def PrivateKeyAt_def AddressAt_def AddressStringAt_def
            PubKeyScriptAt_def AddressString_def deriveKeyLocked_def AddressFromPrivKey_def)
    qed
  qed
qed

theorem newFromSeed_account_witness:
  "\<exists>w. newFromSeed sample_prims (replicate 16 1) [] = Some (Inr w) \<and>
       AddressAt sample_prims w 0 0 = Some (w_address w, None) \<and> w_address w \<noteq> None"
proof -
  obtain w where w: "newFromSeed sample_prims (replicate 16 1) [] = Some (Inr w)" using sample_newFromSeed by blast
  then show ?thesis using newFromSeed_account [OF sample_prims_ok, of "replicate 16 1" "[]" w] by (intro exI [of _ w]) auto
qed

end
