(* ===== verification/Account.thy ===== *)
theory Account
  imports Wallet
begin

text \<open>
  Address management with a gap limit (\<open>wallet/account.go\<close>). The manager is a record; its operations
  return the updated manager with their result, and \<open>None\<close> when the derivation panics. \<open>int\<close> values are
  integers with \<open>i64\<close> at the additions that may overflow, \<open>uint32(i)\<close> is the reduction to a 32-bit word.
  The address entries are values here; the code shares them by pointer with its callers.
\<close>

definition DefaultGapLimit :: int where "DefaultGapLimit = 20"

type_synonym ChainType = "32 word"

record AddressInfo =
  info_Address :: string
  info_Chain :: ChainType
  info_Index :: "32 word"
  Used :: bool

record 'p AddressManager =
  am_wallet :: "'p Wallet"
  am_chain :: ChainType
  gapLimit :: int
  addresses :: "AddressInfo list"
  lastUsedIndex :: int

definition NewAddressManager :: "'p Wallet \<Rightarrow> ChainType \<Rightarrow> int \<Rightarrow> 'p AddressManager" where
  "NewAddressManager w chain gap =
     \<lparr>am_wallet = w, am_chain = chain, gapLimit = (if gap \<le> 0 then DefaultGapLimit else gap),
      addresses = [], lastUsedIndex = - 1\<rparr>"

text \<open>
  Both loops derive and append the address at the index \<open>len(am.addresses)\<close> until enough are there;
  \<open>n\<close> is the number still missing. The entries appended before an error stay.
\<close>

fun derive_more ::
    "'p prims \<Rightarrow> string \<Rightarrow> 'p AddressManager \<Rightarrow> nat \<Rightarrow> ('p AddressManager \<times> (error + AddressInfo list)) option" where
  "derive_more P err am 0 = Some (am, Inr [])"
| "derive_more P err am (Suc n) =
     (let i = of_nat (length (addresses am)) in
      case AddressStringAt P (am_wallet am) (am_chain am) i of
        None \<Rightarrow> None
      | Some (Inl e) \<Rightarrow> Some (am, Inl (Wrapped err e))
      | Some (Inr addr) \<Rightarrow>
          (let info = \<lparr>info_Address = addr, info_Chain = am_chain am, info_Index = i, Used = False\<rparr> in
           case derive_more P err (am\<lparr>addresses := addresses am @ [info]\<rparr>) n of
             None \<Rightarrow> None
           | Some (am', Inl e) \<Rightarrow> Some (am', Inl e)
           | Some (am', Inr newAddrs) \<Rightarrow> Some (am', Inr (info # newAddrs))))"

definition gap_needed :: "'p AddressManager \<Rightarrow> int" where
  "gap_needed am = (if lastUsedIndex am \<ge> 0 then i64 (i64 (lastUsedIndex am + 1) + gapLimit am) else gapLimit am)"

definition EnsureGap ::
    "'p prims \<Rightarrow> 'p AddressManager \<Rightarrow> ('p AddressManager \<times> (error + AddressInfo list)) option" where
  "EnsureGap P am =
     derive_more P ''derive address at chain and index'' am (nat (gap_needed am - int (length (addresses am))))"

definition MarkUsed ::
    "'p prims \<Rightarrow> 'p AddressManager \<Rightarrow> int \<Rightarrow> ('p AddressManager \<times> (error + AddressInfo list)) option" where
  "MarkUsed P am index =
     (if index < 0 then Some (am, Inl (Plain ''index must be non-negative''))
      else
        (let needed = i64 (index + 1) in
         case derive_more P ''derive address at index'' am (nat (needed - int (length (addresses am)))) of
           None \<Rightarrow> None
         | Some (am', Inl e) \<Rightarrow> Some (am', Inl e)
         | Some (am', Inr _) \<Rightarrow>
             (if nat index \<ge> length (addresses am') then None
              else EnsureGap P
                (am'\<lparr>addresses := (addresses am')[nat index := (addresses am' ! nat index)\<lparr>Used := True\<rparr>],
                     lastUsedIndex := (if index > lastUsedIndex am' then index else lastUsedIndex am')\<rparr>))))"

definition UnusedAddresses :: "'p AddressManager \<Rightarrow> AddressInfo list" where
  "UnusedAddresses am = filter (\<lambda>a. \<not> Used a) (addresses am)"

fun first_unused :: "AddressInfo list \<Rightarrow> error + AddressInfo" where
  "first_unused [] = Inl (Plain ''no unused addresses available (gap exhausted)'')"
| "first_unused (a # as) = (if \<not> Used a then Inr a else first_unused as)"

definition NextUnusedAddress :: "'p AddressManager \<Rightarrow> error + AddressInfo" where
  "NextUnusedAddress am = first_unused (addresses am)"

section \<open>Histories\<close>

text \<open>The managers that calls produce from a new one, with the set of indices marked so far.\<close>

inductive managed :: "'p prims \<Rightarrow> 'p AddressManager \<Rightarrow> int set \<Rightarrow> 'p AddressManager \<Rightarrow> bool" for P am0 where
  new: "managed P am0 {} am0"
| gap: "managed P am0 M am \<Longrightarrow> EnsureGap P am = Some (am', Inr new) \<Longrightarrow> managed P am0 M am'"
| mark: "managed P am0 M am \<Longrightarrow> MarkUsed P am index = Some (am', Inr new) \<Longrightarrow> managed P am0 (insert index M) am'"

definition entry_ok :: "'p prims \<Rightarrow> 'p AddressManager \<Rightarrow> nat \<Rightarrow> bool" where
  "entry_ok P am i \<longleftrightarrow>
     (let a = addresses am ! i in
      AddressStringAt P (am_wallet am) (am_chain am) (of_nat i) = Some (Inr (info_Address a)) \<and>
      info_Chain a = am_chain am \<and> info_Index a = of_nat i)"

definition am_ok :: "'p prims \<Rightarrow> int set \<Rightarrow> 'p AddressManager \<Rightarrow> bool" where
  "am_ok P M am \<longleftrightarrow>
     finite M \<and> M \<subseteq> {0 ..< int (length (addresses am))} \<and>
     (\<forall>i < length (addresses am). entry_ok P am i \<and> (Used (addresses am ! i) \<longleftrightarrow> int i \<in> M)) \<and>
     lastUsedIndex am = (if M = {} then - 1 else Max M)"

section \<open>Lemmas\<close>

lemma AddressStringAt_no_error [simp]: "AddressStringAt P w chain i \<noteq> Some (Inl e)"
  by (auto simp: AddressStringAt_def AddressAt_def split: option.splits sum.splits prod.splits)

lemma derive_more_spec:
  assumes "derive_more P err am n = Some (am', r)"
  shows "\<exists>new. r = Inr new \<and> length new = n \<and> am' = am\<lparr>addresses := addresses am @ new\<rparr> \<and> (\<forall>a \<in> set new. \<not> Used a) \<and>
           (\<forall>k < n. entry_ok P am' (length (addresses am) + k))"
  using assms
proof (induction n arbitrary: am r)
  case (Suc n)
  let ?i = "of_nat (length (addresses am)) :: 32 word"
  obtain addr where addr: "AddressStringAt P (am_wallet am) (am_chain am) ?i = Some (Inr addr)"
    using Suc.prems by (auto simp: Let_def split: option.splits sum.splits)
  define a where "a = \<lparr>info_Address = addr, info_Chain = am_chain am, info_Index = ?i, Used = False\<rparr>"
  obtain r' where r': "derive_more P err (am\<lparr>addresses := addresses am @ [a]\<rparr>) n = Some (am', r')"
      "r = (case r' of Inl e \<Rightarrow> Inl e | Inr new \<Rightarrow> Inr (a # new))"
    using Suc.prems addr by (auto simp: Let_def a_def split: option.splits sum.splits prod.splits)
  from Suc.IH [OF r'(1)] obtain new where new: "r' = Inr new" "length new = n"
      "am' = am\<lparr>addresses := addresses am @ a # new\<rparr>" "\<forall>a \<in> set new. \<not> Used a"
      "\<forall>k < n. entry_ok P am' (Suc (length (addresses am)) + k)" by auto
  have "entry_ok P am' (length (addresses am))" using new(3) addr by (simp add: entry_ok_def Let_def a_def)
  then have "\<forall>k < Suc n. entry_ok P am' (length (addresses am) + k)"
    using new(5) by (auto simp: less_Suc_eq_0_disj)
  then show ?case using r'(2) new by (intro exI [of _ "a # new"]) (simp add: a_def)
qed simp

lemma derive_more_am_ok:
  assumes "am_ok P M am" "derive_more P err am n = Some (am', r)"
  shows "am_ok P M am'"
proof -
  obtain new where new: "length new = n" "am' = am\<lparr>addresses := addresses am @ new\<rparr>" "\<forall>a \<in> set new. \<not> Used a"
      "\<forall>k < n. entry_ok P am' (length (addresses am) + k)"
    using derive_more_spec [OF assms(2)] by blast
  have "entry_ok P am' i \<and> (Used (addresses am' ! i) \<longleftrightarrow> int i \<in> M)" if i: "i < length (addresses am')" for i
  proof (cases "i < length (addresses am)")
    case True
    then show ?thesis using assms(1) new(2) by (auto simp: am_ok_def entry_ok_def nth_append Let_def)
  next
    case False
    then obtain k where k: "i = length (addresses am) + k" "k < n"
      using i new(1,2) by (auto simp: nat_le_iff_add not_less)
    have "int i \<notin> M" using assms(1) k by (auto simp: am_ok_def)
    then show ?thesis using new k by (simp add: nth_append)
  qed
  then show ?thesis using assms(1) new(2) by (auto simp: am_ok_def)
qed

lemma derive_more_total:
  assumes "\<forall>k < n. \<exists>addr. AddressStringAt P (am_wallet am) (am_chain am) (of_nat (length (addresses am) + k)) = Some (Inr addr)"
  shows "\<exists>am' new. derive_more P err am n = Some (am', Inr new)"
  using assms
proof (induction n arbitrary: am)
  case (Suc n)
  obtain addr where addr: "AddressStringAt P (am_wallet am) (am_chain am) (of_nat (length (addresses am))) = Some (Inr addr)"
    using Suc.prems by fastforce
  let ?am = "am\<lparr>addresses := addresses am @ [\<lparr>info_Address = addr, info_Chain = am_chain am,
    info_Index = of_nat (length (addresses am)), Used = False\<rparr>]\<rparr>"
  have "\<exists>addr. AddressStringAt P (am_wallet ?am) (am_chain ?am) (of_nat (length (addresses ?am) + k)) = Some (Inr addr)"
    if "k < n" for k using Suc.prems [rule_format, of "Suc k"] that by simp
  then obtain am' new where "derive_more P err ?am n = Some (am', Inr new)" using Suc.IH [of ?am] by blast
  then show ?case using addr by (simp add: Let_def)
qed simp

abbreviation set_used :: "'p AddressManager \<Rightarrow> int \<Rightarrow> 'p AddressManager" where
  "set_used am index \<equiv> am\<lparr>addresses := (addresses am)[nat index := (addresses am ! nat index)\<lparr>Used := True\<rparr>],
     lastUsedIndex := (if index > lastUsedIndex am then index else lastUsedIndex am)\<rparr>"

lemma set_used_am_ok:
  assumes "am_ok P M am" "0 \<le> index" "nat index < length (addresses am)"
  shows "am_ok P (insert index M) (set_used am index)"
proof -
  have "(if index > lastUsedIndex am then index else lastUsedIndex am) = Max (insert index M)"
    using assms by (cases "M = {}") (simp_all add: am_ok_def max_def del: Max_less_iff)
  then show ?thesis using assms
    by (auto simp: am_ok_def entry_ok_def Let_def nth_list_update)
qed

lemma EnsureGap_spec:
  assumes "EnsureGap P am = Some (am', r)"
  shows "\<exists>new. r = Inr new \<and> am' = am\<lparr>addresses := addresses am @ new\<rparr> \<and> (\<forall>a \<in> set new. \<not> Used a) \<and>
           gap_needed am \<le> int (length (addresses am'))"
  using derive_more_spec [OF assms [unfolded EnsureGap_def]] by auto

lemma EnsureGap_am_ok: "am_ok P M am \<Longrightarrow> EnsureGap P am = Some (am', r) \<Longrightarrow> am_ok P M am'"
  unfolding EnsureGap_def by (rule derive_more_am_ok)

lemma MarkUsed_Inr:
  assumes "MarkUsed P am index = Some (am', Inr new)"
  obtains am1 more where "0 \<le> index" "nat index < length (addresses am1)" "EnsureGap P (set_used am1 index) = Some (am', Inr new)"
    "derive_more P ''derive address at index'' am (nat (i64 (index + 1) - int (length (addresses am)))) = Some (am1, Inr more)"
proof -
  let ?d = "derive_more P ''derive address at index'' am (nat (i64 (index + 1) - int (length (addresses am))))"
  have pos: "0 \<le> index" using assms by (auto simp: MarkUsed_def split: if_splits)
  obtain am1 r where d: "?d = Some (am1, r)" using assms pos by (cases ?d) (auto simp: MarkUsed_def Let_def)
  then obtain more where r: "r = Inr more" using derive_more_spec by blast
  show thesis using assms pos d r by (intro that [of am1 more]) (auto simp: MarkUsed_def Let_def split: if_splits)
qed

lemma managed_am_ok:
  assumes "managed P (NewAddressManager w chain g) M am"
  shows "am_ok P M am \<and> am_wallet am = w \<and> am_chain am = chain \<and> 0 < gapLimit am"
  using assms
proof induction
  case new
  show ?case by (simp add: am_ok_def NewAddressManager_def DefaultGapLimit_def)
next
  case (gap M am am' new)
  then show ?case using EnsureGap_am_ok [of P M am am'] EnsureGap_spec [of P am am'] by fastforce
next
  case (mark M am index am' new)
  obtain am1 more where am1: "0 \<le> index" "nat index < length (addresses am1)"
      "EnsureGap P (set_used am1 index) = Some (am', Inr new)"
      "derive_more P ''derive address at index'' am (nat (i64 (index + 1) - int (length (addresses am)))) = Some (am1, Inr more)"
    using MarkUsed_Inr [OF mark.hyps(2)] by blast
  have "am_ok P M am1" using mark.IH am1(4) derive_more_am_ok by blast
  note ok = set_used_am_ok [OF this am1(1,2)]
  have "am_wallet am1 = w" "am_chain am1 = chain" "0 < gapLimit am1"
    using derive_more_spec [OF am1(4)] mark.IH by auto
  then show ?case using EnsureGap_am_ok [OF ok am1(3)] EnsureGap_spec [OF am1(3)] by auto
qed

lemma gap_needed_in_range:
  assumes "- 1 \<le> lastUsedIndex am" "0 < gapLimit am" "in_i64 (lastUsedIndex am + 1 + gapLimit am)"
  shows "gap_needed am = lastUsedIndex am + 1 + gapLimit am"
proof -
  have "in_i64 (lastUsedIndex am + 1)" using assms by (intro in_i64_between [OF in_i64_0 assms(3)]) simp_all
  then show ?thesis using assms by (auto simp: gap_needed_def i64_simps)
qed

lemma am_ok_lastUsed:
  assumes "am_ok P M am"
  shows "- 1 \<le> lastUsedIndex am" "lastUsedIndex am < int (length (addresses am))" "i \<in> M \<Longrightarrow> i \<le> lastUsedIndex am"
proof -
  have "M \<noteq> {} \<Longrightarrow> Max M \<in> M" using assms by (simp add: am_ok_def)
  then show "- 1 \<le> lastUsedIndex am" "lastUsedIndex am < int (length (addresses am))"
    using assms by (fastforce simp: am_ok_def)+
  show "i \<in> M \<Longrightarrow> i \<le> lastUsedIndex am" using assms by (auto simp: am_ok_def)
qed

lemma first_unused_least:
  assumes "k < length as" "\<not> Used (as ! k)"
  shows "\<exists>j \<le> k. first_unused as = Inr (as ! j) \<and> \<not> Used (as ! j) \<and> (\<forall>i < j. Used (as ! i))"
  using assms
proof (induction "as" arbitrary: k)
  case (Cons a "as")
  show ?case
  proof (cases "Used a")
    case True
    then obtain k' where k': "k = Suc k'" "k' < length as" "\<not> Used (as ! k')" using Cons.prems by (cases k) auto
    from Cons.IH [OF k'(2,3)] obtain j where "j \<le> k'" "first_unused as = Inr (as ! j)" "\<not> Used (as ! j)"
        "\<forall>i < j. Used (as ! i)" by blast
    then show ?thesis using True k'(1) by (intro exI [of _ "Suc j"]) (auto simp: less_Suc_eq_0_disj)
  qed auto
qed simp

text \<open>A manager with its gap full has a next unused address, the first index that is not marked.\<close>

lemma NextUnusedAddress_ok:
  assumes "am_ok P M am" "lastUsedIndex am + 1 < int (length (addresses am))"
  shows "\<exists>k < length (addresses am). NextUnusedAddress am = Inr (addresses am ! k) \<and> int k \<notin> M \<and> (\<forall>j < k. int j \<in> M)"
proof -
  let ?n = "nat (lastUsedIndex am + 1)"
  have n: "?n < length (addresses am)" "int ?n \<notin> M"
    using assms am_ok_lastUsed [OF assms(1)] by fastforce+
  have used: "Used (addresses am ! i) \<longleftrightarrow> int i \<in> M" if "i < length (addresses am)" for i
    using assms(1) that by (simp add: am_ok_def)
  obtain j where "j \<le> ?n" "first_unused (addresses am) = Inr (addresses am ! j)" "\<not> Used (addresses am ! j)"
      "\<forall>i < j. Used (addresses am ! i)"
    using first_unused_least [OF n(1)] used n by blast
  then show ?thesis using n(1) used by (intro exI [of _ j]) (auto simp: NextUnusedAddress_def)
qed

lemma EnsureGap_full:
  assumes "am_ok P M am" "0 < gapLimit am" "in_i64 (lastUsedIndex am + 1 + gapLimit am)" "EnsureGap P am = Some (am', r)"
  shows "\<exists>new. r = Inr new \<and> addresses am' = addresses am @ new \<and> lastUsedIndex am' = lastUsedIndex am \<and>
           gapLimit am' = gapLimit am \<and> lastUsedIndex am + 1 + gapLimit am \<le> int (length (addresses am'))"
  using EnsureGap_spec [OF assms(4)] gap_needed_in_range [OF am_ok_lastUsed(1) [OF assms(1)] assms(2,3)] by auto

section \<open>Returning\<close>

text \<open>When every address of the chain can be derived, both operations return.\<close>

definition derivable :: "'p prims \<Rightarrow> 'p Wallet \<Rightarrow> ChainType \<Rightarrow> bool" where
  "derivable P w chain \<longleftrightarrow> (\<forall>i. \<exists>addr. AddressStringAt P w chain i = Some (Inr addr))"

lemma EnsureGap_total:
  "derivable P (am_wallet am) (am_chain am) \<Longrightarrow> \<exists>am' new. EnsureGap P am = Some (am', Inr new)"
  unfolding EnsureGap_def derivable_def by (intro derive_more_total) blast

lemma MarkUsed_total:
  assumes "derivable P (am_wallet am) (am_chain am)" "0 \<le> index" "in_i64 (index + 1)"
  shows "\<exists>am' new. MarkUsed P am index = Some (am', Inr new)"
proof -
  let ?d = "derive_more P ''derive address at index'' am (nat (i64 (index + 1) - int (length (addresses am))))"
  obtain am1 more where d: "?d = Some (am1, Inr more)"
    using derive_more_total assms(1) unfolding derivable_def by blast
  have am1: "am1 = am\<lparr>addresses := addresses am @ more\<rparr>" "length more = nat (index + 1 - int (length (addresses am)))"
    using derive_more_spec [OF d] assms(3) by (auto simp: i64_simps)
  then have "nat index < length (addresses am1)" using assms(2) by simp
  moreover obtain am' new where "EnsureGap P (set_used am1 index) = Some (am', Inr new)"
    using EnsureGap_total [of P "set_used am1 index"] assms(1) am1(1) by auto
  ultimately show ?thesis using d assms(2) by (simp add: MarkUsed_def Let_def)
qed

definition sample_wallet :: "int Wallet" where
  "sample_wallet = \<lparr>mnemonic = [], seed = Some (replicate 16 1), w_masterKey = Some sample_master,
     w_privKey = None, w_pubKey = None, w_address = None\<rparr>"

lemma sample_derivable: "derivable sample_prims sample_wallet chain"
  unfolding derivable_def
proof
  fix i
  obtain k where k: "Derive sample_prims sample_master chain = Inr k" using sample_master_Derive by blast
  then have ok: "key_ok sample_prims k" "depth k = 1"
    using Derive_key_ok [OF sample_prims_ok sample_master_ok] by (auto simp: sample_master_def)
  then obtain c where c: "Derive sample_prims k i = Inr c" using sample_Derive [of k i] by auto
  then obtain d where "ECPrivKey c = (Some d, None)"
    using Derive_key_ok [OF sample_prims_ok ok(1)] by (fastforce simp: key_ok_def ECPrivKey_def)
  then show "\<exists>addr. AddressStringAt sample_prims sample_wallet chain i = Some (Inr addr)"
    using k c by (simp add: AddressStringAt_def AddressAt_def deriveKeyLocked_def sample_wallet_def)
qed

abbreviation sample_manager :: "int AddressManager" where
  "sample_manager \<equiv> NewAddressManager sample_wallet 0 3"

lemma sample_MarkUsed: "\<exists>am' new. MarkUsed sample_prims sample_manager 4 = Some (am', Inr new)"
  using sample_derivable by (intro MarkUsed_total) (simp_all add: NewAddressManager_def in_i64_def)

section \<open>Properties\<close>

text \<open>
  C33. After any sequence of calls, the entry at position \<open>i\<close> is the address derived at index \<open>i\<close> of the
  manager's chain, it is flagged used exactly when the index was marked, every marked index has an entry,
  and the last used index is the greatest marked one, or \<open>-1\<close>.
\<close>

theorem AddressManager_invariant:
  assumes "managed P (NewAddressManager w chain g) M am"
  shows "finite M \<and> M \<subseteq> {0 ..< int (length (addresses am))} \<and> lastUsedIndex am = (if M = {} then - 1 else Max M) \<and>
         (\<forall>i < length (addresses am).
            AddressStringAt P w chain (of_nat i) = Some (Inr (info_Address (addresses am ! i))) \<and>
            info_Chain (addresses am ! i) = chain \<and> info_Index (addresses am ! i) = of_nat i \<and>
            (Used (addresses am ! i) \<longleftrightarrow> int i \<in> M))"
  using managed_am_ok [OF assms] by (auto simp: am_ok_def entry_ok_def Let_def)

theorem AddressManager_invariant_witness:
  "\<exists>am. managed sample_prims sample_manager {4} am \<and> lastUsedIndex am = 4 \<and> 4 < int (length (addresses am))"
proof -
  obtain am new where "MarkUsed sample_prims sample_manager 4 = Some (am, Inr new)" using sample_MarkUsed by blast
  then have m: "managed sample_prims sample_manager {4} am"
    using managed.mark [OF managed.new] by fastforce
  then show ?thesis using AddressManager_invariant [OF m] by (intro exI [of _ am]) auto
qed

text \<open>
  C34. Ensuring the gap appends addresses so that at least the gap limit of them lie beyond the last used
  index, all unused; the next unused address is then the first index that was not marked. The call returns
  when every index can be derived. The last used index and the gap limit do not overflow 64 bits.
\<close>

theorem EnsureGap_correct:
  assumes "managed P (NewAddressManager w chain g) M am" "in_i64 (lastUsedIndex am + 1 + gapLimit am)"
  shows "(EnsureGap P am = Some (am', r) \<longrightarrow>
            (\<exists>new. r = Inr new \<and> addresses am' = addresses am @ new \<and> lastUsedIndex am' = lastUsedIndex am \<and>
               lastUsedIndex am + 1 + gapLimit am \<le> int (length (addresses am')) \<and>
               (\<forall>i < length (addresses am'). lastUsedIndex am < int i \<longrightarrow> \<not> Used (addresses am' ! i)) \<and>
               (\<exists>k < length (addresses am'). NextUnusedAddress am' = Inr (addresses am' ! k) \<and> int k \<notin> M \<and> (\<forall>j < k. int j \<in> M)))) \<and>
         (derivable P w chain \<longrightarrow> EnsureGap P am \<noteq> None)"
proof (intro conjI impI)
  note ok = managed_am_ok [OF assms(1)]
  assume e: "EnsureGap P am = Some (am', r)"
  then obtain new where new: "r = Inr new" "addresses am' = addresses am @ new" "lastUsedIndex am' = lastUsedIndex am"
      "lastUsedIndex am + 1 + gapLimit am \<le> int (length (addresses am'))"
    using EnsureGap_full [of P M am am' r] ok assms(2) by blast
  have ok': "am_ok P M am'" using EnsureGap_am_ok e ok by blast
  have "\<not> Used (addresses am' ! i)" if "i < length (addresses am')" "lastUsedIndex am < int i" for i
  proof
    assume "Used (addresses am' ! i)"
    then have "int i \<in> M" using ok' that(1) by (simp add: am_ok_def)
    then show False using am_ok_lastUsed(3) [OF ok'] new(3) that(2) by fastforce
  qed
  moreover have "\<exists>k < length (addresses am'). NextUnusedAddress am' = Inr (addresses am' ! k) \<and> int k \<notin> M \<and> (\<forall>j < k. int j \<in> M)"
    using new(3,4) ok by (intro NextUnusedAddress_ok [OF ok']) linarith
  ultimately show "\<exists>new. r = Inr new \<and> addresses am' = addresses am @ new \<and> lastUsedIndex am' = lastUsedIndex am \<and>
      lastUsedIndex am + 1 + gapLimit am \<le> int (length (addresses am')) \<and>
      (\<forall>i < length (addresses am'). lastUsedIndex am < int i \<longrightarrow> \<not> Used (addresses am' ! i)) \<and>
      (\<exists>k < length (addresses am'). NextUnusedAddress am' = Inr (addresses am' ! k) \<and> int k \<notin> M \<and> (\<forall>j < k. int j \<in> M))"
    using new by blast
next
  assume "derivable P w chain"
  then show "EnsureGap P am \<noteq> None" using EnsureGap_total [of P am] managed_am_ok [OF assms(1)] by auto
qed

theorem EnsureGap_correct_witness:
  "managed sample_prims sample_manager {} sample_manager \<and>
   (\<exists>am' r. EnsureGap sample_prims sample_manager = Some (am', r) \<and> 3 \<le> int (length (addresses am')))"
proof -
  have m: "managed sample_prims sample_manager {} sample_manager" by (rule managed.new)
  have r: "in_i64 (lastUsedIndex sample_manager + 1 + gapLimit sample_manager)"
    by (simp add: NewAddressManager_def in_i64_def)
  have "EnsureGap sample_prims sample_manager \<noteq> None" using EnsureGap_correct [OF m r] sample_derivable by blast
  then obtain am' r' where e: "EnsureGap sample_prims sample_manager = Some (am', r')" by auto
  then have "3 \<le> int (length (addresses am'))"
    using EnsureGap_correct [OF m r, of am' r'] by (auto simp: NewAddressManager_def)
  then show ?thesis using m e by blast
qed

text \<open>
  C35. Marking an index used extends the addresses to cover it, flags that entry and no other, raises the
  last used index to it if it was lower, and restores the gap behind it. A negative index is an error that
  changes nothing, any other index in the range of \<open>int\<close> succeeds when every index can be derived. Index and gap
  limit do not overflow 64 bits.
\<close>

theorem MarkUsed_correct:
  assumes "managed P (NewAddressManager w chain g) M am"
  shows "(MarkUsed P am index = Some (am', Inr new) \<and> in_i64 (max index (lastUsedIndex am) + 1 + gapLimit am) \<longrightarrow>
            0 \<le> index \<and> length (addresses am) \<le> length (addresses am') \<and>
            (\<forall>i < length (addresses am'). Used (addresses am' ! i) \<longleftrightarrow> int i = index \<or> int i \<in> M) \<and>
            lastUsedIndex am' = max index (lastUsedIndex am) \<and>
            lastUsedIndex am' + 1 + gapLimit am' \<le> int (length (addresses am'))) \<and>
         (index < 0 \<longrightarrow> MarkUsed P am index = Some (am, Inl (Plain ''index must be non-negative''))) \<and>
         (0 \<le> index \<and> in_i64 (index + 1) \<and> derivable P w chain \<longrightarrow> (\<exists>am' new. MarkUsed P am index = Some (am', Inr new)))"
proof (intro conjI impI)
  note ok = managed_am_ok [OF assms]
  {
    assume "0 \<le> index \<and> in_i64 (index + 1) \<and> derivable P w chain"
    then show "\<exists>am' new. MarkUsed P am index = Some (am', Inr new)" using MarkUsed_total ok by blast
  }
  {
    assume "index < 0"
    then show "MarkUsed P am index = Some (am, Inl (Plain ''index must be non-negative''))" by (simp add: MarkUsed_def)
  }
  assume a: "MarkUsed P am index = Some (am', Inr new) \<and> in_i64 (max index (lastUsedIndex am) + 1 + gapLimit am)"
  obtain am1 more where am1: "0 \<le> index" "nat index < length (addresses am1)"
      "EnsureGap P (set_used am1 index) = Some (am', Inr new)"
      "derive_more P ''derive address at index'' am (nat (i64 (index + 1) - int (length (addresses am)))) = Some (am1, Inr more)"
    using MarkUsed_Inr a by blast
  have am1_eq: "am1 = am\<lparr>addresses := addresses am @ more\<rparr>" using derive_more_spec [OF am1(4)] by auto
  have "am_ok P M am1" using ok derive_more_am_ok am1(4) by blast
  note ok1 = set_used_am_ok [OF this am1(1,2)]
  have last1: "lastUsedIndex (set_used am1 index) = max index (lastUsedIndex am)" using am1_eq by simp
  have pos: "0 < gapLimit (set_used am1 index)" using ok am1_eq by simp
  have in_range: "in_i64 (lastUsedIndex (set_used am1 index) + 1 + gapLimit (set_used am1 index))"
    using a last1 am1_eq by simp
  note full = EnsureGap_full [OF ok1 pos in_range am1(3)]
  have "am_ok P (insert index M) am'" using EnsureGap_am_ok [OF ok1 am1(3)] .
  then show "\<forall>i < length (addresses am'). Used (addresses am' ! i) \<longleftrightarrow> int i = index \<or> int i \<in> M"
    by (simp add: am_ok_def)
  show "0 \<le> index" by (fact am1(1))
  show "length (addresses am) \<le> length (addresses am')" using full am1_eq by auto
  show "lastUsedIndex am' = max index (lastUsedIndex am)" using full last1 by auto
  then show "lastUsedIndex am' + 1 + gapLimit am' \<le> int (length (addresses am'))" using full last1 by auto
qed

theorem MarkUsed_correct_witness:
  "\<exists>am' new. MarkUsed sample_prims sample_manager 4 = Some (am', Inr new) \<and> lastUsedIndex am' = 4"
proof -
  obtain am' new where m: "MarkUsed sample_prims sample_manager 4 = Some (am', Inr new)" using sample_MarkUsed by blast
  then show ?thesis
    using MarkUsed_correct [OF managed.new [of sample_prims sample_manager], of 4 am' new]
    by (auto simp: NewAddressManager_def in_i64_def)
qed

end
