(* ===== verification/Scanner.thy ===== *)
theory Scanner
  imports Json
begin

text \<open>
  The scanner of Go's \<open>encoding/json\<close>, one byte at a time with its stack of open objects and arrays, as
  \<open>json.Decoder\<close> runs it over the bytes that have arrived so far: it says where a value ends, that more
  bytes are needed, or that the input is malformed.
\<close>

section \<open>The scanner\<close>

datatype parse_state = ObjectKey | ObjectValue | ArrayValue

datatype scan_state =
    BeginValue | BeginValueOrEmpty | BeginStringOrEmpty | BeginString | EndValue | EndTop
  | InString | InStringEsc | InStringEscU nat | Literal string
  | Neg | Num1 | Num0 | Dot | Dot0 | NumE | NumESign | NumE0

type_synonym scanner = "scan_state \<times> parse_state list"

datatype scan_op = Continue scanner | EndComposite scanner | ScanEnd | ScanError

definition push_state :: "scan_state \<Rightarrow> parse_state \<Rightarrow> parse_state list \<Rightarrow> scan_op" where
  "push_state q p st = (if length st < maxNestingDepth then Continue (q, p # st) else ScanError)"

definition pop_state :: "parse_state list \<Rightarrow> scan_op" where
  "pop_state st = EndComposite (if st = [] then EndTop else EndValue, st)"

fun end_value :: "parse_state list \<Rightarrow> char \<Rightarrow> scan_op" where
  "end_value [] c = ScanEnd"
| "end_value (p # st) c =
     (if is_space c then Continue (EndValue, p # st)
      else (case p of
              ObjectKey \<Rightarrow> if c = CHR '':'' then Continue (BeginValue, ObjectValue # st) else ScanError
            | ObjectValue \<Rightarrow>
                if c = CHR '','' then Continue (BeginString, ObjectKey # st)
                else if c = CHR ''}'' then pop_state st else ScanError
            | ArrayValue \<Rightarrow>
                if c = CHR '','' then Continue (BeginValue, ArrayValue # st)
                else if c = CHR '']'' then pop_state st else ScanError))"

definition begin_value :: "parse_state list \<Rightarrow> char \<Rightarrow> scan_op" where
  "begin_value st c =
     (if is_space c then Continue (BeginValue, st)
      else if c = CHR ''{'' then push_state BeginStringOrEmpty ObjectKey st
      else if c = CHR ''['' then push_state BeginValueOrEmpty ArrayValue st
      else if c = CHR 0x22 then Continue (InString, st)
      else if c = CHR ''-'' then Continue (Neg, st)
      else if c = CHR ''0'' then Continue (Num0, st)
      else if c = CHR ''t'' then Continue (Literal ''rue'', st)
      else if c = CHR ''f'' then Continue (Literal ''alse'', st)
      else if c = CHR ''n'' then Continue (Literal ''ull'', st)
      else if is_digit c then Continue (Num1, st)
      else ScanError)"

definition begin_string :: "parse_state list \<Rightarrow> char \<Rightarrow> scan_op" where
  "begin_string st c =
     (if is_space c then Continue (BeginString, st) else if c = CHR 0x22 then Continue (InString, st) else ScanError)"

definition num0 :: "parse_state list \<Rightarrow> char \<Rightarrow> scan_op" where
  "num0 st c =
     (if c = CHR ''.'' then Continue (Dot, st) else if c = CHR ''e'' \<or> c = CHR ''E'' then Continue (NumE, st) else end_value st c)"

fun scan1 :: "scanner \<Rightarrow> char \<Rightarrow> scan_op" where
  "scan1 (BeginValue, st) c = begin_value st c"
| "scan1 (BeginValueOrEmpty, st) c =
     (if is_space c then Continue (BeginValueOrEmpty, st) else if c = CHR '']'' then end_value st c else begin_value st c)"
| "scan1 (BeginStringOrEmpty, st) c =
     (if is_space c then Continue (BeginStringOrEmpty, st)
      else if c = CHR ''}'' then end_value (ObjectValue # tl st) c
      else begin_string st c)"
| "scan1 (BeginString, st) c = begin_string st c"
| "scan1 (EndValue, st) c = end_value st c"
| "scan1 (EndTop, st) c = ScanEnd"
| "scan1 (InString, st) c =
     (if c = CHR 0x22 then Continue (EndValue, st) else if c = CHR 0x5C then Continue (InStringEsc, st)
      else if of_char c < (32 :: nat) then ScanError else Continue (InString, st))"
| "scan1 (InStringEsc, st) c =
     (if c \<in> set ''bfnrt/'' \<or> c = CHR 0x22 \<or> c = CHR 0x5C then Continue (InString, st)
      else if c = CHR ''u'' then Continue (InStringEscU 3, st) else ScanError)"
| "scan1 (InStringEscU n, st) c =
     (if is_digit c \<or> CHR ''a'' \<le> c \<and> c \<le> CHR ''f'' \<or> CHR ''A'' \<le> c \<and> c \<le> CHR ''F''
      then Continue (if n = 0 then InString else InStringEscU (n - 1), st) else ScanError)"
| "scan1 (Literal w, st) c =
     (case w of x # xs \<Rightarrow> if c = x then Continue (if xs = [] then EndValue else Literal xs, st) else ScanError | [] \<Rightarrow> ScanError)"
| "scan1 (Neg, st) c =
     (if c = CHR ''0'' then Continue (Num0, st) else if is_digit c then Continue (Num1, st) else ScanError)"
| "scan1 (Num1, st) c = (if is_digit c then Continue (Num1, st) else num0 st c)"
| "scan1 (Num0, st) c = num0 st c"
| "scan1 (Dot, st) c = (if is_digit c then Continue (Dot0, st) else ScanError)"
| "scan1 (Dot0, st) c =
     (if is_digit c then Continue (Dot0, st) else if c = CHR ''e'' \<or> c = CHR ''E'' then Continue (NumE, st) else end_value st c)"
| "scan1 (NumE, st) c =
     (if c = CHR ''+'' \<or> c = CHR ''-'' then Continue (NumESign, st) else if is_digit c then Continue (NumE0, st) else ScanError)"
| "scan1 (NumESign, st) c = (if is_digit c then Continue (NumE0, st) else ScanError)"
| "scan1 (NumE0, st) c = (if is_digit c then Continue (NumE0, st) else end_value st c)"

text \<open>
  The loop of \<open>Decoder.readValue\<close> over a buffer. The end of an object or array is noticed at its last byte,
  that of any other value at the byte after it.
\<close>

datatype scan_result = More scanner | Value string | Malformed

fun scan :: "scanner \<Rightarrow> string \<Rightarrow> scan_result" where
  "scan s [] = More s"
| "scan s (c # cs) =
     (case scan1 s c of
        Continue s' \<Rightarrow> scan s' cs
      | EndComposite s' \<Rightarrow> if snd s' = [] then Value cs else scan s' cs
      | ScanEnd \<Rightarrow> Value (c # cs)
      | ScanError \<Rightarrow> Malformed)"

definition scan_start :: scanner where
  "scan_start = (BeginValue, [])"

text \<open>\<open>checkValid\<close>, which \<open>json.Valid\<close> and \<open>json.Unmarshal\<close> run: one value, and only blanks after it.\<close>

definition json_valid :: "string \<Rightarrow> bool" where
  "json_valid t \<longleftrightarrow>
     (case scan scan_start t of
        Value rest \<Rightarrow> list_all is_space rest
      | More s \<Rightarrow> scan1 s CHR '' '' = ScanEnd
      | Malformed \<Rightarrow> False)"

section \<open>Chunks\<close>

lemma scan_append:
  "scan s (a @ b) = (case scan s a of More s' \<Rightarrow> scan s' b | Value r \<Rightarrow> Value (r @ b) | Malformed \<Rightarrow> Malformed)"
  by (induction s a rule: scan.induct) (auto split: scan_op.splits)

lemma scan_prefix:
  assumes "scan s (a @ b) = Value []" "b \<noteq> []"
  obtains s' where "scan s a = More s'"
  using assms by (cases "scan s a") (auto simp: scan_append)

lemma scan_Value_suffix: "scan s a = Value r \<Longrightarrow> \<exists>p. a = p @ r"
  by (induction s a rule: scan.induct) (auto split: scan_op.splits if_splits)

text \<open>A prefix of a value that ends at its last byte is not a value itself.\<close>

lemma scan_top:
  "snd s = [] \<Longrightarrow> fst s \<notin> {BeginValue, BeginValueOrEmpty, BeginStringOrEmpty, BeginString} \<Longrightarrow> scan s t \<noteq> Value []"
proof (induction s t rule: scan.induct)
  case (2 s c cs)
  obtain q where s: "s = (q, [])" "q \<notin> {BeginValue, BeginValueOrEmpty, BeginStringOrEmpty, BeginString}" using "2.prems" by (cases s) auto
  have "scan1 s c = ScanEnd \<or> scan1 s c = ScanError \<or>
      (\<exists>q'. scan1 s c = Continue (q', []) \<and> q' \<notin> {BeginValue, BeginValueOrEmpty, BeginStringOrEmpty, BeginString})"
    using s(2) unfolding s(1) by (cases q) (auto simp: num0_def split: list.split)
  then show ?case using "2.IH"(1) by auto
qed simp

lemma scan1_ScanEnd: "scan1 s CHR '' '' = ScanEnd \<Longrightarrow>
    fst s = EndTop \<or> snd s = [] \<and> fst s \<notin> {BeginValue, BeginValueOrEmpty, BeginStringOrEmpty, BeginString}"
proof -
  assume "scan1 s CHR '' '' = ScanEnd"
  moreover obtain q st where "s = (q, st)" by fastforce
  ultimately show ?thesis
    by (cases st; cases q) (auto simp: begin_value_def begin_string_def num0_def is_space_def split: list.splits if_splits)
qed

lemma json_valid_prefix:
  assumes "scan scan_start (a @ b) = Value []"
  shows "json_valid a \<longleftrightarrow> b = []"
proof (cases "b = []")
  case False
  then obtain s' where s': "scan scan_start a = More s'" using scan_prefix [OF assms] by blast
  then have rest: "scan s' b = Value []" using assms by (simp add: scan_append)
  have "scan1 s' CHR '' '' \<noteq> ScanEnd"
  proof
    assume "scan1 s' CHR '' '' = ScanEnd"
    then consider "fst s' = EndTop" | "snd s' = []" "fst s' \<notin> {BeginValue, BeginValueOrEmpty, BeginStringOrEmpty, BeginString}"
      using scan1_ScanEnd by blast
    then show False
    proof cases
      case 1
      then show False using rest False by (cases s'; cases b) auto
    qed (use scan_top rest in blast)
  qed
  then show ?thesis using s' False by (simp add: json_valid_def)
qed (use assms in \<open>simp add: json_valid_def\<close>)

section \<open>Printed values\<close>

abbreviation text_of :: "token list \<Rightarrow> string" where
  "text_of ts \<equiv> concat (map token_text ts)"

definition delimiter :: "char \<Rightarrow> bool" where
  "delimiter c \<longleftrightarrow> c = CHR '','' \<or> c = CHR ''}'' \<or> c = CHR '']''"

lemma delimiter_facts [simp]:
  assumes "delimiter c"
  shows "\<not> is_digit c" "\<not> is_space c" "c \<noteq> CHR ''.''" "c \<noteq> CHR ''e''" "c \<noteq> CHR ''E''"
  using assms by (auto simp: delimiter_def is_digit_def is_space_def)

lemma scan_plain: "plain s \<Longrightarrow> scan (InString, st) (s @ CHR 0x22 # r) = scan (EndValue, st) r"
  by (induction s) (auto simp: plain_char_def)

lemma scan_digits: "list_all is_digit ds \<Longrightarrow> delimiter c \<Longrightarrow> scan (Num1, st) (ds @ c # r) = scan (EndValue, st) (c # r)"
  by (induction ds) (auto simp: num0_def)

lemma not_digits [simp]:
  "\<not> is_digit CHR ''{''" "\<not> is_digit CHR ''[''" "\<not> is_digit CHR 0x22" "\<not> is_digit CHR ''t''" "\<not> is_digit CHR ''f''"
  "\<not> is_digit CHR ''n''" "\<not> is_digit CHR '']''" "\<not> is_digit CHR ''}''"
  by (simp_all add: is_digit_def)

lemma digit_not_space [simp]: "is_digit c \<Longrightarrow> \<not> is_space c"
  by (auto simp: is_space_def is_digit_def)

lemma scan1_digit:
  assumes "is_digit d" "d \<noteq> CHR ''0''"
  shows "scan1 (BeginValue, st) d = Continue (Num1, st)" "scan1 (Neg, st) d = Continue (Num1, st)"
proof -
  have "d \<notin> {CHR ''{'', CHR ''['', CHR 0x22, CHR ''-'', CHR ''t'', CHR ''f'', CHR ''n''}" using assms(1) by auto
  then show "scan1 (BeginValue, st) d = Continue (Num1, st)" using assms by (simp add: begin_value_def)
qed (use assms in simp)

lemma scan_nat_text:
  assumes "delimiter c" "q = BeginValue \<or> q = Neg"
  shows "scan (q, st) (nat_text n @ c # r) = scan (EndValue, st) (c # r)"
proof (cases "n = 0")
  case True
  then show ?thesis using assms by (auto simp: nat_text_0 begin_value_def is_space_def num0_def)
next
  case False
  obtain d ds where n: "nat_text n = d # ds" "is_digit d" using nat_text_Cons by blast
  have "d \<noteq> CHR ''0''" using nat_text_hd [of n] False n by simp
  moreover have "list_all is_digit ds" using nat_text_digits [of n] n by simp
  moreover have "scan1 (q, st) d = Continue (Num1, st)"
    using assms(2) n(2) \<open>d \<noteq> CHR ''0''\<close> scan1_digit by blast
  ultimately show ?thesis using n assms(1) by (simp add: scan_digits del: scan1.simps)
qed

lemma scan_Itoa: "delimiter c \<Longrightarrow> scan (BeginValue, st) (Itoa i @ c # r) = scan (EndValue, st) (c # r)"
  using scan_nat_text [of c Neg st] scan_nat_text [of c BeginValue st]
  by (simp add: Itoa_def begin_value_def is_space_def)

lemma scan_keyword:
  "scan (BeginValue, st) (token_text TNull @ r) = scan (EndValue, st) r"
  "scan (BeginValue, st) (token_text TTrue @ r) = scan (EndValue, st) r"
  "scan (BeginValue, st) (token_text TFalse @ r) = scan (EndValue, st) r"
  by (simp_all add: begin_value_def is_space_def)

lemma scan_string:
  assumes "plain s" "q = BeginValue \<or> q = BeginString \<or> q = BeginStringOrEmpty"
  shows "scan (q, st) (token_text (TStr (quote s)) @ r) = scan (EndValue, st) r"
proof -
  have "scan1 (q, st) CHR 0x22 = Continue (InString, st)"
    using assms(2) by (auto simp: begin_value_def begin_string_def is_space_def)
  then show ?thesis using scan_plain [OF assms(1), of st r] by (simp add: quote_plain [OF assms(1)] del: scan1.simps)
qed

text \<open>What follows a comma, a colon and a closing bracket.\<close>

lemma scan_punct:
  "scan (EndValue, ObjectKey # st) (CHR '':'' # r) = scan (BeginValue, ObjectValue # st) r"
  "scan (EndValue, ObjectValue # st) (CHR '','' # r) = scan (BeginString, ObjectKey # st) r"
  "scan (EndValue, ArrayValue # st) (CHR '','' # r) = scan (BeginValue, ArrayValue # st) r"
  "st \<noteq> [] \<Longrightarrow> scan (EndValue, ObjectValue # st) (CHR ''}'' # r) = scan (EndValue, st) r"
  "st \<noteq> [] \<Longrightarrow> scan (EndValue, ArrayValue # st) (CHR '']'' # r) = scan (EndValue, st) r"
  "scan (EndValue, [ObjectValue]) (CHR ''}'' # r) = Value r"
  by (simp_all add: is_space_def pop_state_def)

lemma scan_elements:
  assumes "\<And>x c r. x \<in> set xs \<Longrightarrow> delimiter c \<Longrightarrow>
      scan (BeginValue, ArrayValue # st) (text_of (tokens x) @ c # r) = scan (EndValue, ArrayValue # st) (c # r)"
    and "xs \<noteq> []"
  shows "scan (BeginValue, ArrayValue # st) (text_of (separate (map tokens xs)) @ CHR '']'' # r) =
         scan (EndValue, ArrayValue # st) (CHR '']'' # r)"
  using assms
proof (induction xs)
  case (Cons x xs)
  show ?case
  proof (cases "xs = []")
    case True
    then show ?thesis using Cons.prems(1) [of x "CHR '']''"] by (simp add: delimiter_def)
  next
    case False
    have "scan (BeginValue, ArrayValue # st) (text_of (tokens x) @ CHR '','' # text_of (separate (map tokens xs)) @ CHR '']'' # r) =
        scan (EndValue, ArrayValue # st) (CHR '','' # text_of (separate (map tokens xs)) @ CHR '']'' # r)"
      using Cons.prems(1) [of x "CHR '',''"] by (simp add: delimiter_def)
    also have "\<dots> = scan (EndValue, ArrayValue # st) (CHR '']'' # r)"
      using Cons False by (simp only: scan_punct) simp
    finally show ?thesis using False by (simp add: separate_Cons)
  qed
qed simp

abbreviation member_tokens :: "string \<times> json \<Rightarrow> token list" where
  "member_tokens \<equiv> (\<lambda>(k, v). TStr (quote k) # TColon # tokens v)"

lemma scan_members:
  assumes "\<And>k v c r. (k, v) \<in> set kvs \<Longrightarrow> delimiter c \<Longrightarrow>
      scan (BeginValue, ObjectValue # st) (text_of (tokens v) @ c # r) = scan (EndValue, ObjectValue # st) (c # r)"
    and "\<And>k v. (k, v) \<in> set kvs \<Longrightarrow> plain k" and "kvs \<noteq> []" and "q = BeginString \<or> q = BeginStringOrEmpty"
  shows "scan (q, ObjectKey # st) (text_of (separate (map member_tokens kvs)) @ CHR ''}'' # r) =
         scan (EndValue, ObjectValue # st) (CHR ''}'' # r)"
  using assms
proof (induction kvs arbitrary: q)
  case (Cons kv kvs)
  obtain k v where kv: "kv = (k, v)" by (cases kv)
  have member: "scan (q, ObjectKey # st) (text_of (member_tokens kv) @ c # r') = scan (EndValue, ObjectValue # st) (c # r')"
    if "delimiter c" for c r'
  proof -
    have "scan (q, ObjectKey # st) (token_text (TStr (quote k)) @ CHR '':'' # text_of (tokens v) @ c # r') =
        scan (EndValue, ObjectKey # st) (CHR '':'' # text_of (tokens v) @ c # r')"
      using Cons.prems(2) [of k v] Cons.prems(4) kv by (intro scan_string) auto
    also have "\<dots> = scan (EndValue, ObjectValue # st) (c # r')"
      using Cons.prems(1) [of k v c r'] kv that by (simp only: scan_punct) simp
    finally show ?thesis by (simp add: kv)
  qed
  show ?case
  proof (cases "kvs = []")
    case True
    then show ?thesis using member [of "CHR ''}''" r] by (simp add: delimiter_def)
  next
    case False
    have "scan (BeginString, ObjectKey # st) (text_of (separate (map member_tokens kvs)) @ CHR ''}'' # r) =
        scan (EndValue, ObjectValue # st) (CHR ''}'' # r)"
      using False by (intro Cons.IH) (blast intro: Cons.prems(1,2) list.set_intros(2))+
    moreover have "scan (q, ObjectKey # st)
          (text_of (member_tokens kv) @ CHR '','' # text_of (separate (map member_tokens kvs)) @ CHR ''}'' # r) =
        scan (EndValue, ObjectValue # st) (CHR '','' # text_of (separate (map member_tokens kvs)) @ CHR ''}'' # r)"
      by (rule member) (simp add: delimiter_def)
    ultimately show ?thesis using False by (simp add: separate_Cons scan_punct del: scan.simps)
  qed
qed simp

lemma text_hd:
  assumes "plain_json j"
  obtains c cs where "text_of (tokens j) = c # cs" "\<not> is_space c" "c \<noteq> CHR '']''"
proof (cases j)
  case (JNum l)
  then obtain i where "l = Itoa i" using assms by auto
  moreover obtain d ds where d: "Itoa i = d # ds" "d = CHR ''-'' \<or> is_digit d" using Itoa_Cons by blast
  moreover have "\<not> is_space d" "d \<noteq> CHR '']''" using d(2) digit_punct [of d] by auto
  ultimately show ?thesis using JNum that by simp
next
  case (JBool b)
  then show ?thesis using that by (cases b) (auto simp: is_space_def)
qed (use that in \<open>auto simp: is_space_def split: if_splits\<close>)

lemma separate_hd: "tss \<noteq> [] \<Longrightarrow> \<exists>ts. text_of (separate tss) = text_of (hd tss) @ ts"
  by (cases tss rule: separate.cases) auto

lemma scan_array_start:
  assumes "list_all plain_json xs" "xs \<noteq> []"
  shows "scan (BeginValueOrEmpty, st) (text_of (separate (map tokens xs)) @ r) =
         scan (BeginValue, st) (text_of (separate (map tokens xs)) @ r)"
proof -
  obtain x ys where xs: "xs = x # ys" using assms(2) by (cases xs) auto
  obtain c cs where c: "text_of (tokens x) = c # cs" "\<not> is_space c" "c \<noteq> CHR '']''" using text_hd [of x] assms(1) xs by auto
  obtain ts where "text_of (separate (map tokens xs)) = text_of (tokens x) @ ts" using separate_hd [of "map tokens xs"] xs by auto
  then show ?thesis using c by simp
qed

lemma scan_json:
  assumes "plain_json j" "jdepth j + length st \<le> maxNestingDepth" "st \<noteq> []" "delimiter c"
  shows "scan (BeginValue, st) (text_of (tokens j) @ c # r) = scan (EndValue, st) (c # r)"
  using assms
proof (induction j arbitrary: st c r)
  case (JArr xs)
  have deep: "length st < maxNestingDepth" using JArr.prems(2) by simp
  have start: "scan (BeginValue, st) (CHR ''['' # r') = scan (BeginValueOrEmpty, ArrayValue # st) r'" for r'
    using deep by (simp add: begin_value_def is_space_def push_state_def)
  show ?case
  proof (cases "xs = []")
    case True
    then show ?thesis using start JArr.prems(3) by (simp add: is_space_def pop_state_def)
  next
    case False
    have "scan (BeginValue, ArrayValue # st) (text_of (tokens x) @ c # r) = scan (EndValue, ArrayValue # st) (c # r)"
      if "x \<in> set xs" "delimiter c" for x c r
    proof (rule JArr.IH)
      have "jdepth x \<le> foldr max (map jdepth xs) 0" using that by (simp add: le_foldr_max)
      then show "jdepth x + length (ArrayValue # st) \<le> maxNestingDepth" using JArr.prems(2) by simp
    qed (use JArr.prems(1) that in \<open>simp_all add: list_all_iff\<close>)
    then show ?thesis
      using False JArr.prems(1,3) by (simp add: start scan_array_start scan_elements scan_punct del: scan.simps)
  qed
next
  case (JObj kvs)
  have deep: "length st < maxNestingDepth" using JObj.prems(2) by simp
  have start: "scan (BeginValue, st) (CHR ''{'' # r') = scan (BeginStringOrEmpty, ObjectKey # st) r'" for r'
    using deep by (simp add: begin_value_def is_space_def push_state_def)
  show ?case
  proof (cases "kvs = []")
    case True
    then show ?thesis using start JObj.prems(3) by (simp add: is_space_def pop_state_def)
  next
    case False
    have "scan (BeginValue, ObjectValue # st) (text_of (tokens v) @ c # r) = scan (EndValue, ObjectValue # st) (c # r)"
      if "(k, v) \<in> set kvs" "delimiter c" for k v c r
    proof (rule JObj.IH [OF that(1)])
      have "jdepth v \<le> foldr max (map (\<lambda>(k, v). jdepth v) kvs) 0" using that by (force intro: le_foldr_max)
      then show "jdepth v + length (ObjectValue # st) \<le> maxNestingDepth" using JObj.prems(2) by simp
    qed (use JObj.prems(1) that in \<open>auto simp: list_all_iff snds.simps\<close>)
    moreover have "plain k" if "(k, v) \<in> set kvs" for k v using JObj.prems(1) that by (auto simp: list_all_iff)
    ultimately have "scan (BeginStringOrEmpty, ObjectKey # st) (text_of (separate (map member_tokens kvs)) @ CHR ''}'' # c # r) =
        scan (EndValue, ObjectValue # st) (CHR ''}'' # c # r)" using False by (intro scan_members) auto
    then show ?thesis using JObj.prems(3) by (simp add: start scan_punct del: scan.simps)
  qed
next
  case (JStr x)
  then show ?case using scan_string [of x BeginValue st] by simp
next
  case (JNum x)
  then show ?case using scan_Itoa by auto
next
  case (JBool x)
  then show ?case using scan_keyword by simp
next
  case JNull
  then show ?case using scan_keyword by simp
qed

text \<open>A printed object is recognised at its last byte, and not before.\<close>

lemma scan_object:
  assumes "plain_json (JObj kvs)" "jdepth (JObj kvs) \<le> maxNestingDepth"
  shows "scan scan_start (json_print (JObj kvs)) = Value []"
proof -
  have start: "scan scan_start (CHR ''{'' # r') = scan (BeginStringOrEmpty, [ObjectKey]) r'" for r'
    by (simp add: scan_start_def begin_value_def is_space_def push_state_def maxNestingDepth_def)
  show ?thesis
  proof (cases "kvs = []")
    case True
    then show ?thesis using start by (simp add: json_print_def is_space_def pop_state_def)
  next
    case False
    have "scan (BeginValue, [ObjectValue]) (text_of (tokens v) @ c # r) = scan (EndValue, [ObjectValue]) (c # r)"
      if "(k, v) \<in> set kvs" "delimiter c" for k v c r
    proof (rule scan_json)
      have "jdepth v \<le> foldr max (map (\<lambda>(k, v). jdepth v) kvs) 0" using that by (force intro: le_foldr_max)
      then show "jdepth v + length [ObjectValue] \<le> maxNestingDepth" using assms(2) by simp
    qed (use assms(1) that in \<open>auto simp: list_all_iff\<close>)
    moreover have "plain k" if "(k, v) \<in> set kvs" for k v using assms(1) that by (auto simp: list_all_iff)
    ultimately have "scan (BeginStringOrEmpty, [ObjectKey]) (text_of (separate (map member_tokens kvs)) @ [CHR ''}'']) =
        scan (EndValue, [ObjectValue]) [CHR ''}'']" using False by (intro scan_members) auto
    then show ?thesis by (simp add: json_print_def start scan_punct del: scan.simps)
  qed
qed

end
