(* ===== verification/Net.thy ===== *)
theory Net
  imports Store Scanner Effect
begin

text \<open>
  A network connection as the servers and clients see it, and the readers of Go's \<open>bufio\<close>, \<open>io\<close> and
  \<open>encoding/json\<close> on top of it. The incoming side is the list of segments the network delivers and the
  error that ends it; one \<open>Read\<close> returns at most one segment. The outgoing side is the list of writes. The
  environment decides for every deadline and write call whether it succeeds, fails after some bytes, or
  writes short, and what each context observes.

  A \<open>json.Decoder\<close> reads ahead of the value it returns. The programs make a new decoder for every message, so
  bytes it has read and not used are lost; the model keeps the sizes of its reads.
\<close>

datatype fate = Fine | Fails error nat | Short nat

record netenv =
  v_fate :: "nat \<Rightarrow> fate"
  v_end :: error
  v_ctx :: "nat \<Rightarrow> ctx"
  v_addr :: string
  v_ParseAddr :: "string \<Rightarrow> string option"

record 's net =
  n_calls :: nat
  n_buf :: bytes
  n_in :: "bytes list"
  n_out :: "bytes list"
  n_store :: 's
  n_storek :: nat
  n_notes :: "(string \<times> string) list"

type_synonym ('s, 'a) proc = "(netenv, 's net, 'a) eff"

definition new_conn :: "bytes list \<Rightarrow> 's \<Rightarrow> 's net" where
  "new_conn segs s = \<lparr>n_calls = 0, n_buf = [], n_in = segs, n_out = [], n_store = s, n_storek = 0, n_notes = []\<rparr>"

text \<open>An environment in which everything succeeds.\<close>

definition sample_netenv :: netenv where
  "sample_netenv = \<lparr>v_fate = (\<lambda>_. Fine), v_end = EOF, v_ctx = (\<lambda>_ _. None), v_addr = ''10.0.0.7:3333'', v_ParseAddr = Some\<rparr>"

section \<open>The connection\<close>

definition set_deadline :: "('s, unit) proc" where
  "set_deadline = (\<lambda>E w. (case v_fate E (n_calls w) of Fails e _ \<Rightarrow> Inl e | _ \<Rightarrow> Inr (), w\<lparr>n_calls := Suc (n_calls w)\<rparr>))"

definition conn_Write :: "bytes \<Rightarrow> ('s, nat) proc" where
  "conn_Write d = (\<lambda>E w.
     let w' = (\<lambda>b. w\<lparr>n_calls := Suc (n_calls w), n_out := n_out w @ [b]\<rparr>) in
     (case v_fate E (n_calls w) of
        Fine \<Rightarrow> (Inr (length d), w' d)
      | Fails e n \<Rightarrow> (Inl e, w' (take n d))
      | Short n \<Rightarrow> (Inr (min n (length d)), w' (take n d))))"

definition conn_Read :: "nat \<Rightarrow> ('s, bytes) proc" where
  "conn_Read n = (\<lambda>E w.
     (case n_in w of
        [] \<Rightarrow> (Inl (v_end E), w)
      | seg # segs \<Rightarrow>
          if length seg \<le> n then (Inr seg, w\<lparr>n_in := segs\<rparr>)
          else (Inr (take n seg), w\<lparr>n_in := drop n seg # segs\<rparr>)))"

section \<open>Buffered reading\<close>

definition bufio_size :: nat where
  "bufio_size = 4096"

definition bufio_Read :: "nat \<Rightarrow> ('s, bytes) proc" where
  "bufio_Read n = (\<lambda>E w.
     if n_buf w \<noteq> [] then (Inr (take n (n_buf w)), w\<lparr>n_buf := drop n (n_buf w)\<rparr>)
     else if bufio_size \<le> n then conn_Read n E w
     else (case conn_Read bufio_size E w of
             (Inl e, w') \<Rightarrow> (Inl e, w')
           | (Inr d, w') \<Rightarrow> (Inr (take n d), w'\<lparr>n_buf := drop n d\<rparr>)))"

text \<open>A decoder reads from the connection or through the buffer.\<close>

datatype source = Direct | Buffered

definition reader_Read :: "source \<Rightarrow> nat \<Rightarrow> ('s, bytes) proc" where
  "reader_Read src n = (case src of Direct \<Rightarrow> conn_Read n | Buffered \<Rightarrow> bufio_Read n)"

text \<open>What is left to read: every successful read makes it smaller.\<close>

definition pending :: "'s net \<Rightarrow> nat" where
  "pending w = length (n_buf w) + sum_list (map (\<lambda>seg. Suc (length seg)) (n_in w))"

lemma conn_Read_pending: "conn_Read n E w = (Inr d, w') \<Longrightarrow> 0 < n \<Longrightarrow> pending w' + length d < Suc (pending w) \<and> pending w' < pending w"
  by (auto simp: conn_Read_def pending_def split: list.splits if_splits)

lemma bufio_Read_pending: "bufio_Read n E w = (Inr d, w') \<Longrightarrow> 0 < n \<Longrightarrow> pending w' < pending w"
  using conn_Read_pending [of n E w d w']
  by (auto simp: bufio_Read_def conn_Read_def pending_def bufio_size_def split: list.splits if_splits)

lemma reader_Read_pending: "reader_Read src n E w = (Inr d, w') \<Longrightarrow> 0 < n \<Longrightarrow> pending w' < pending w"
  by (cases src) (auto simp: reader_Read_def dest: conn_Read_pending bufio_Read_pending)

text \<open>\<open>ReadByte\<close>, \<open>ReadBytes\<close> and \<open>io.ReadFull\<close> on the buffered reader.\<close>

function bufio_ReadByte :: "netenv \<Rightarrow> 's net \<Rightarrow> (error + byte) \<times> 's net" where
  "bufio_ReadByte E w =
     (case n_buf w of
        b # bs \<Rightarrow> (Inr b, w\<lparr>n_buf := bs\<rparr>)
      | [] \<Rightarrow> (case conn_Read bufio_size E w of
                 (Inl e, w') \<Rightarrow> (Inl e, w')
               | (Inr d, w') \<Rightarrow> bufio_ReadByte E (w'\<lparr>n_buf := d\<rparr>)))"
  by pat_completeness auto
termination
  by (relation "measure (\<lambda>(E, w). length (n_buf w) + 2 * sum_list (map (\<lambda>seg. Suc (length seg)) (n_in w)))")
     (auto simp: conn_Read_def bufio_size_def split: list.splits if_splits)

declare bufio_ReadByte.simps [simp del]

function bufio_ReadBytes :: "byte \<Rightarrow> bytes \<Rightarrow> netenv \<Rightarrow> 's net \<Rightarrow> (error + bytes) \<times> 's net" where
  "bufio_ReadBytes delim acc E w =
     (if delim \<in> set (n_buf w)
      then (Inr (acc @ takeWhile (\<lambda>b. b \<noteq> delim) (n_buf w) @ [delim]), w\<lparr>n_buf := tl (dropWhile (\<lambda>b. b \<noteq> delim) (n_buf w))\<rparr>)
      else (case conn_Read bufio_size E w of
              (Inl e, w') \<Rightarrow> (Inl e, w'\<lparr>n_buf := []\<rparr>)
            | (Inr d, w') \<Rightarrow> bufio_ReadBytes delim (acc @ n_buf w) E (w'\<lparr>n_buf := d\<rparr>)))"
  by pat_completeness auto
termination
  by (relation "measure (\<lambda>(delim, acc, E, w). sum_list (map (\<lambda>seg. Suc (length seg)) (n_in w)))")
     (auto simp: conn_Read_def bufio_size_def split: list.splits if_splits)

declare bufio_ReadBytes.simps [simp del]

function io_ReadFull :: "nat \<Rightarrow> bytes \<Rightarrow> netenv \<Rightarrow> 's net \<Rightarrow> (error + bytes) \<times> 's net" where
  "io_ReadFull n acc E w =
     (if n = 0 then (Inr acc, w)
      else (case bufio_Read n E w of
              (Inl e, w') \<Rightarrow> (Inl (if e = EOF \<and> acc \<noteq> [] then UnexpectedEOF else e), w')
            | (Inr d, w') \<Rightarrow> io_ReadFull (n - length d) (acc @ d) E w'))"
  by pat_completeness auto
termination
  by (relation "measure (\<lambda>(n, acc, E, w). pending w)") (auto dest: bufio_Read_pending [OF sym])

declare io_ReadFull.simps [simp del]

section \<open>What is left to read\<close>

text \<open>What a read returns is the beginning of what was left.\<close>

definition unread :: "'s net \<Rightarrow> bytes" where
  "unread w = n_buf w @ concat (n_in w)"

lemma fill_unread: "conn_Read k E w = (Inr d, w') \<Longrightarrow> unread w = n_buf w @ unread (w'\<lparr>n_buf := d\<rparr>)"
  by (auto simp: conn_Read_def unread_def split: list.splits if_splits)

lemma ReadByte_unread: "bufio_ReadByte E w = (Inr b, w') \<Longrightarrow> unread w = b # unread w'"
proof (induction E w rule: bufio_ReadByte.induct)
  case (1 E w)
  show ?case
  proof (cases "n_buf w")
    case Nil
    obtain r1 w1 where c: "conn_Read bufio_size E w = (r1, w1)" by fastforce
    then obtain d where d: "r1 = Inr d" using "1.prems" Nil by (cases r1) (simp_all add: bufio_ReadByte.simps [of E w])
    have "bufio_ReadByte E (w1\<lparr>n_buf := d\<rparr>) = (Inr b, w')" using "1.prems" Nil c d by (simp add: bufio_ReadByte.simps [of E w])
    from "1.IH" [OF Nil c [symmetric] d this] show ?thesis using fill_unread [of bufio_size E w d w1] c d Nil by simp
  qed (use "1.prems" in \<open>auto simp: bufio_ReadByte.simps [of E w] unread_def\<close>)
qed

lemma takeWhile_tl: "x \<in> set xs \<Longrightarrow> takeWhile (\<lambda>y. y \<noteq> x) xs @ x # tl (dropWhile (\<lambda>y. y \<noteq> x) xs) = xs"
  by (induction xs) auto

lemma ReadBytes_unread: "bufio_ReadBytes delim acc E w = (Inr b, w') \<Longrightarrow> acc @ unread w = b @ unread w'"
proof (induction delim acc E w rule: bufio_ReadBytes.induct)
  case (1 delim acc E w)
  show ?case
  proof (cases "delim \<in> set (n_buf w)")
    case True
    then show ?thesis using "1.prems" arg_cong [OF takeWhile_tl [OF True], of "\<lambda>b. b @ concat (n_in w)"]
      by (auto simp: bufio_ReadBytes.simps [of delim acc] unread_def)
  next
    case False
    obtain r1 w1 where c: "conn_Read bufio_size E w = (r1, w1)" by fastforce
    then obtain d where d: "r1 = Inr d" using "1.prems" False by (cases r1) (simp_all add: bufio_ReadBytes.simps [of delim acc])
    have "bufio_ReadBytes delim (acc @ n_buf w) E (w1\<lparr>n_buf := d\<rparr>) = (Inr b, w')"
      using "1.prems" False c d by (simp add: bufio_ReadBytes.simps [of delim acc E w])
    from "1.IH" [OF False c [symmetric] d this] show ?thesis using fill_unread [of bufio_size E w d w1] c d by simp
  qed
qed

section \<open>Decoding a message\<close>

definition ErrSyntax :: error where
  "ErrSyntax = Plain ''json: invalid input''"

text \<open>
  \<open>Decoder.readValue\<close> with \<open>refill\<close>: \<open>free\<close> is the unused capacity of the decoder's buffer, which is grown
  when less than 512 bytes are left. The result is the text of the value.
\<close>

function read_value :: "source \<Rightarrow> scanner \<Rightarrow> string \<Rightarrow> nat \<Rightarrow> netenv \<Rightarrow> 's net \<Rightarrow> (error + string) \<times> 's net" where
  "read_value src s acc free E w =
     (let free' = (if free < 512 then length acc + 2 * free + 512 else free) in
      case reader_Read src free' E w of
        (Inl e, w') \<Rightarrow>
          (if e = EOF \<and> scan1 s CHR '' '' = ScanEnd then Inr acc
           else if e = EOF \<and> \<not> list_all is_space acc then Inl UnexpectedEOF
           else Inl e, w')
      | (Inr chunk, w') \<Rightarrow>
          (case scan s (string_of chunk) of
             More s' \<Rightarrow> read_value src s' (acc @ string_of chunk) (free' - length chunk) E w'
           | Value rest \<Rightarrow> (Inr (acc @ take (length chunk - length rest) (string_of chunk)), w')
           | Malformed \<Rightarrow> (Inl ErrSyntax, w')))"
  by pat_completeness auto
termination
  by (relation "measure (\<lambda>(src, s, acc, free, E, w). pending w)") (auto simp: Let_def dest: reader_Read_pending [OF sym] split: if_splits)

declare read_value.simps [simp del]

definition Decode_msg :: "source \<Rightarrow> (json \<Rightarrow> 'a option) \<Rightarrow> ('s, 'a) proc" where
  "Decode_msg src dec =
     bindE (read_value src scan_start [] 0) (\<lambda>txt.
       case json_parse txt of
         None \<Rightarrow> throw ErrSyntax
       | Some j \<Rightarrow> (case dec j of None \<Rightarrow> throw ErrSyntax | Some v \<Rightarrow> ret v))"

section \<open>Addresses\<close>

text \<open>\<open>net.SplitHostPort\<close>, and the peer's address as the servers read it from the connection.\<close>

definition last_index :: "char \<Rightarrow> string \<Rightarrow> nat" where
  "last_index c s = length s - Suc (length (takeWhile (\<lambda>x. x \<noteq> c) (rev s)))"

definition SplitHostPort :: "string \<Rightarrow> error + (string \<times> string)" where
  "SplitHostPort hp =
     (let i = last_index CHR '':'' hp;
          j = (if hp \<noteq> [] \<and> hd hp = CHR ''['' then 1 else 0);
          e = length (takeWhile (\<lambda>x. x \<noteq> CHR '']'') hp);
          k = (if j = 1 then Suc e else 0);
          host = (if j = 1 then drop 1 (take e hp) else take i hp)
      in if CHR '':'' \<notin> set hp then Inl (Plain ''missing port in address'')
         else if j = 1 \<and> e = length hp then Inl (Plain ''missing ']' in address'')
         else if j = 1 \<and> Suc e \<noteq> i then
           (if Suc e < length hp \<and> hp ! Suc e = CHR '':'' then Inl (Plain ''too many colons in address'')
            else Inl (Plain ''missing port in address''))
         else if j = 0 \<and> CHR '':'' \<in> set host then Inl (Plain ''too many colons in address'')
         else if CHR ''['' \<in> set (drop j hp) then Inl (Plain ''unexpected '[' in address'')
         else if CHR '']'' \<in> set (drop k hp) then Inl (Plain ''unexpected ']' in address'')
         else Inr (host, drop (Suc i) hp))"

definition GetConnectionIP :: "netenv \<Rightarrow> string" where
  "GetConnectionIP E =
     (case SplitHostPort (v_addr E) of
        Inl _ \<Rightarrow> (case v_ParseAddr E (v_addr E) of Some ip \<Rightarrow> ip | None \<Rightarrow> [])
      | Inr (host, _) \<Rightarrow> (case v_ParseAddr E host of Some ip \<Rightarrow> ip | None \<Rightarrow> []))"

lemma SplitHostPort_v4: "SplitHostPort ''10.0.0.7:3333'' = Inr (''10.0.0.7'', ''3333'')"
  and SplitHostPort_v6: "SplitHostPort ''[::1]:3333'' = Inr (''::1'', ''3333'')"
  and SplitHostPort_bare: "SplitHostPort ''::1'' = Inl (Plain ''too many colons in address'')"
  by (simp_all add: SplitHostPort_def last_index_def Let_def)

section \<open>The store and the notifier\<close>

definition store_get :: "(ctx \<Rightarrow> 's \<Rightarrow> error + 'a) \<Rightarrow> ('s, 'a) proc" where
  "store_get f = (\<lambda>E w. (f (v_ctx E (n_storek w)) (n_store w), w\<lparr>n_storek := Suc (n_storek w)\<rparr>))"

definition store_ask :: "('s \<Rightarrow> error + 'a) \<Rightarrow> ('s, 'a) proc" where
  "store_ask f = (\<lambda>E w. (f (n_store w), w))"

definition store_put :: "(ctx \<Rightarrow> 's \<Rightarrow> error option \<times> 's) \<Rightarrow> ('s, unit) proc" where
  "store_put f = (\<lambda>E w.
     case f (v_ctx E (n_storek w)) (n_store w) of
       (r, s) \<Rightarrow> (case r of None \<Rightarrow> Inr () | Some e \<Rightarrow> Inl e, w\<lparr>n_storek := Suc (n_storek w), n_store := s\<rparr>))"

definition NOTIFY_BLOB_ADDED :: string where
  "NOTIFY_BLOB_ADDED = ''blob_added''"

definition NotifyBlob :: "cid_lib \<Rightarrow> bool \<Rightarrow> string \<Rightarrow> string \<Rightarrow> ('s, unit) proc" where
  "NotifyBlob L configured typ hash = (\<lambda>E w.
     (Inr (), if \<not> configured then w
              else w\<lparr>n_notes := n_notes w @ [(typ, case ToMultihash L hash of Inl _ \<Rightarrow> hash | Inr mh \<Rightarrow> mh)]\<rparr>))"

section \<open>What the primitives leave alone\<close>

text \<open>Everything but a write to the store leaves the store alone, and nothing adds input.\<close>

definition calm :: "'s net \<Rightarrow> 's net \<Rightarrow> bool" where
  "calm w w' \<longleftrightarrow> n_store w' = n_store w \<and> pending w' \<le> pending w"

interpretation calm: step_rel calm
  by unfold_locales (auto simp: calm_def)

lemma calm_conn_Read: "preserves E calm (conn_Read n)"
  by (auto simp: preserves_def calm_def conn_Read_def pending_def split: list.splits if_splits)

lemma calm_reader: "preserves E calm (reader_Read src n)"
  by (auto simp: preserves_def calm_def reader_Read_def bufio_Read_def conn_Read_def pending_def
      split: source.splits list.splits if_splits prod.splits sum.splits)

lemma calm_ReadFull: "preserves E calm (io_ReadFull n acc)"
proof (rule preservesI)
  show "io_ReadFull n acc E w = (r, w') \<Longrightarrow> calm w w'" for w :: "'s net" and r w'
  proof (induction n acc E w arbitrary: r w' rule: io_ReadFull.induct)
    case (1 n acc E w)
    obtain r1 w1 where b: "bufio_Read n E w = (r1, w1)" by fastforce
    have "calm w w1" using preservesD [OF calm_reader, of Buffered n E w r1 w1] b by (simp add: reader_Read_def)
    then show ?case using "1.prems" "1.IH" [OF _ b [symmetric]] b
      by (auto simp: io_ReadFull.simps [of n] calm.rel_refl split: if_splits sum.splits intro: calm.rel_trans)
  qed
qed

lemma calm_read_value: "preserves E calm (read_value src s acc free)"
proof (rule preservesI)
  show "read_value src s acc free E w = (r, w') \<Longrightarrow> calm w w'" for w :: "'s net" and r w'
  proof (induction src s acc free E w arbitrary: r w' rule: read_value.induct)
    case (1 src s acc free E w)
    let ?free = "if free < 512 then length acc + 2 * free + 512 else free"
    obtain r1 w1 where b: "reader_Read src ?free E w = (r1, w1)" by fastforce
    have "calm w w1" using preservesD [OF calm_reader b] .
    then show ?case using "1.prems" "1.IH" [OF refl b [symmetric]] b
      by (auto simp: read_value.simps [of src] Let_def split: sum.splits scan_result.splits intro: calm.rel_trans)
  qed
qed

lemma calm_prims:
  "preserves E calm set_deadline" "preserves E calm (conn_Write d)" "preserves E calm (store_get f)"
  "preserves E calm (store_ask g)" "preserves E calm (NotifyBlob L b typ h)"
  by (auto simp: preserves_def calm_def pending_def set_deadline_def conn_Write_def store_get_def store_ask_def NotifyBlob_def Let_def
      split: fate.splits)

lemma calm_Decode: "preserves E calm (Decode_msg src dec)"
  unfolding Decode_msg_def
  by (intro calm.preserves_bind calm_read_value) (auto split: option.split intro: calm.preserves_intros)

lemmas calm_intros = calm.preserves_intros calm_prims calm_ReadFull calm_Decode

text \<open>A full read returns exactly the bytes that were asked for.\<close>

lemma bufio_Read_length: "bufio_Read n E w = (Inr d, w') \<Longrightarrow> length d \<le> n"
  by (auto simp: bufio_Read_def conn_Read_def split: list.splits if_splits prod.splits sum.splits)

lemma ReadFull_length: "returns E (\<lambda>d. length d = length acc + n) (io_ReadFull n acc)"
  unfolding returns_def
proof (intro allI impI)
  show "io_ReadFull n acc E w = (Inr d, w') \<Longrightarrow> length d = length acc + n" for w :: "'s net" and d w'
  proof (induction n acc E w arbitrary: d w' rule: io_ReadFull.induct)
    case (1 n acc E w)
    obtain r1 w1 where b: "bufio_Read n E w = (r1, w1)" by fastforce
    show ?case
    proof (cases "n = 0 \<or> (\<exists>e. r1 = Inl e)")
      case False
      then obtain c where c: "r1 = Inr c" by (cases r1) auto
      then have "length d = length (acc @ c) + (n - length c)"
        using "1.IH" [OF _ b [symmetric] c, of d w'] "1.prems" False b by (simp add: io_ReadFull.simps [of n acc E w])
      then show ?thesis using bufio_Read_length [of n E w c w1] b c by simp
    qed (use "1.prems" b in \<open>auto simp: io_ReadFull.simps [of n acc E w] split: if_splits\<close>)
  qed
qed

text \<open>A message that was decoded has used up some input.\<close>

lemma read_value_pending:
  assumes "scan1 s CHR '' '' \<noteq> ScanEnd" "read_value src s acc free E w = (Inr txt, w')"
  shows "pending w' < pending w"
proof -
  let ?free = "if free < 512 then length acc + 2 * free + 512 else free"
  obtain r1 w1 where b: "reader_Read src ?free E w = (r1, w1)" by fastforce
  obtain c where c: "r1 = Inr c" using assms b by (cases r1) (auto simp: read_value.simps [of src] Let_def split: if_splits)
  have "pending w1 < pending w" using reader_Read_pending [of src ?free E w c w1] b c by auto
  moreover have "pending w' \<le> pending w1"
    using assms(2) b c preservesD [OF calm_read_value, of src _ _ _ E w1]
    by (fastforce simp: read_value.simps [of src s] Let_def calm_def split: scan_result.splits)
  ultimately show ?thesis by simp
qed

lemma Decode_pending: "Decode_msg src dec E w = (Inr v, w') \<Longrightarrow> pending w' < pending w"
  by (auto simp: Decode_msg_def bindE_def ret_def throw_def scan_start_def begin_value_def is_space_def
      split: prod.splits sum.splits option.splits dest!: read_value_pending [rotated])

interpretation shrinks: step_rel "\<lambda>w w'. pending w' \<le> pending w"
  by unfold_locales simp_all

lemma shrinks_calm: "preserves E calm m \<Longrightarrow> preserves E (\<lambda>w w'. pending w' \<le> pending w) m"
  by (erule preserves_mono) (simp add: calm_def)

section \<open>The loop of a connection handler\<close>

text \<open>
  \<open>for { ... }\<close> around one round, which returns from the handler with an error and otherwise goes on. The result
  is the error that ended the loop and the world it leaves; \<open>None\<close> would be a loop that does not end.
\<close>

partial_function (option) loopE :: "('s, unit) proc \<Rightarrow> netenv \<Rightarrow> 's net \<Rightarrow> (error \<times> 's net) option" where
  "loopE m E w =
     (case m E w of
        (Inl e, w') \<Rightarrow> Some (e, w')
      | (Inr _, w') \<Rightarrow> loopE m E w')"

text \<open>A loop whose rounds consume input ends; what each round keeps holds before the last one.\<close>

lemma loopE_invariant:
  assumes "\<And>w u w'. Q w \<Longrightarrow> m E w = (Inr u, w') \<Longrightarrow> pending w' < pending w"
    and "\<And>w u w'. Q w \<Longrightarrow> m E w = (Inr u, w') \<Longrightarrow> Q w'" "\<And>w e w'. Q w \<Longrightarrow> m E w = (Inl e, w') \<Longrightarrow> R e w'" "Q w"
  shows "\<exists>e w'. loopE m E w = Some (e, w') \<and> R e w'"
  using assms(4)
proof (induction "pending w" arbitrary: w rule: less_induct)
  case less
  obtain r w1 where b: "m E w = (r, w1)" by fastforce
  show ?case
  proof (cases r)
    case (Inl e)
    then show ?thesis using assms(3) [OF less.prems] b by (simp add: loopE.simps [of m E w])
  next
    case (Inr u)
    then show ?thesis using less.hyps [of w1] assms(1,2) [OF less.prems] b by (simp add: loopE.simps [of m E w])
  qed
qed

lemma loopE_ends:
  assumes "\<And>w u w'. m E w = (Inr u, w') \<Longrightarrow> pending w' < pending w"
    and "preserves E rel m" "step_rel rel" "raises E Q m"
  shows "\<exists>e w'. loopE m E w = Some (e, w') \<and> rel w w' \<and> Q e"
proof (rule loopE_invariant [where Q = "rel w"])
  show "pending w' < pending w1" if "m E w1 = (Inr u, w')" for w1 u w' using that by (rule assms(1))
  show "rel w w'" if "rel w w1" "m E w1 = (Inr u, w')" for w1 u w'
    using that preservesD [OF assms(2)] step_rel.rel_trans [OF assms(3)] by blast
  show "rel w w' \<and> Q e" if "rel w w1" "m E w1 = (Inl e, w')" for w1 e w'
    using that preservesD [OF assms(2)] step_rel.rel_trans [OF assms(3)] raisesD [OF assms(4)] by blast
  show "rel w w" by (rule step_rel.rel_refl [OF assms(3)])
qed

section \<open>Messages that arrive in segments\<close>

text \<open>A connection on which every call succeeds, under contexts that are never cancelled.\<close>

definition fine :: "netenv \<Rightarrow> bool" where
  "fine E \<longleftrightarrow> (\<forall>k. v_fate E k = Fine) \<and> (\<forall>k. v_ctx E k = (\<lambda>_. None))"

text \<open>
  \<open>incoming src w b rest w'\<close>: the next bytes to read from \<open>w\<close> are \<open>b\<close>, in some segmentation and partly in the buffer
  already, and \<open>w'\<close> is the world after they have been read and nothing else.
\<close>

definition incoming :: "source \<Rightarrow> 's net \<Rightarrow> bytes \<Rightarrow> 's net \<Rightarrow> bool" where
  "incoming src w b w' \<longleftrightarrow>
     (\<exists>segs rest. n_in w = segs @ rest \<and> [] \<notin> set segs \<and> b = n_buf w @ concat segs \<and>
        (src = Direct \<longrightarrow> n_buf w = []) \<and> w' = w\<lparr>n_buf := [], n_in := rest\<rparr>)"

lemma incomingI:
  "n_in w = segs @ rest \<Longrightarrow> [] \<notin> set segs \<Longrightarrow> b = n_buf w @ concat segs \<Longrightarrow> (src = Direct \<Longrightarrow> n_buf w = []) \<Longrightarrow>
     w' = w\<lparr>n_buf := [], n_in := rest\<rparr> \<Longrightarrow> incoming src w b w'"
  by (auto simp: incoming_def)

lemma conn_Read_step:
  assumes "n_in w = segs @ rest" "[] \<notin> set segs" "segs \<noteq> []" "0 < n"
  obtains c segs' where "conn_Read n E w = (Inr c, w\<lparr>n_in := segs' @ rest\<rparr>)" "c \<noteq> []" "concat segs = c @ concat segs'" "[] \<notin> set segs'"
proof -
  obtain seg ss where segs: "segs = seg # ss" "seg \<noteq> []" using assms(2,3) by (cases segs) auto
  show ?thesis
  proof (cases "length seg \<le> n")
    case True
    then show ?thesis using assms segs by (intro that [of seg ss]) (auto simp: conn_Read_def)
  next
    case False
    then show ?thesis using assms segs by (intro that [of "take n seg" "drop n seg # ss"]) (auto simp: conn_Read_def)
  qed
qed

lemma bufio_Read_step:
  assumes "n_in w = segs @ rest" "[] \<notin> set segs" "n_buf w @ concat segs \<noteq> []" "0 < n"
  obtains c buf segs' where "bufio_Read n E w = (Inr c, w\<lparr>n_buf := buf, n_in := segs' @ rest\<rparr>)" "c \<noteq> []"
    "n_buf w @ concat segs = c @ buf @ concat segs'" "[] \<notin> set segs'"
proof (cases "n_buf w = []")
  case True
  then have ne: "segs \<noteq> []" using assms(3) by auto
  show ?thesis
  proof (cases "bufio_size \<le> n")
    case big: True
    obtain c segs' where "conn_Read n E w = (Inr c, w\<lparr>n_in := segs' @ rest\<rparr>)" "c \<noteq> []" "concat segs = c @ concat segs'" "[] \<notin> set segs'"
      using conn_Read_step [OF assms(1,2) ne assms(4)] by metis
    then show ?thesis using True big by (intro that [where c = c and buf = "[]" and segs' = segs']) (auto simp: bufio_Read_def)
  next
    case False
    obtain c segs' where "conn_Read bufio_size E w = (Inr c, w\<lparr>n_in := segs' @ rest\<rparr>)" "c \<noteq> []" "concat segs = c @ concat segs'" "[] \<notin> set segs'"
      using conn_Read_step [OF assms(1,2) ne, of bufio_size] by (metis bufio_size_def zero_less_numeral)
    then show ?thesis using True False assms(4)
      by (intro that [where c = "take n c" and buf = "drop n c" and segs' = segs']) (auto simp: bufio_Read_def)
  qed
next
  case False
  then show ?thesis using assms
    by (intro that [where c = "take n (n_buf w)" and buf = "drop n (n_buf w)" and segs' = segs]) (auto simp: bufio_Read_def)
qed

lemma incoming_step:
  assumes "incoming src w b w'" "b \<noteq> []" "0 < n"
  obtains c b1 w1 where "reader_Read src n E w = (Inr c, w1)" "b = c @ b1" "c \<noteq> []" "incoming src w1 b1 w'"
proof -
  obtain segs rest where segs: "n_in w = segs @ rest" "[] \<notin> set segs" "b = n_buf w @ concat segs"
      "src = Direct \<longrightarrow> n_buf w = []" "w' = w\<lparr>n_buf := [], n_in := rest\<rparr>"
    using assms(1) unfolding incoming_def by blast
  show ?thesis
  proof (cases src)
    case Direct
    then have "segs \<noteq> []" using segs assms(2) by auto
    then obtain c segs' where c: "conn_Read n E w = (Inr c, w\<lparr>n_in := segs' @ rest\<rparr>)" "c \<noteq> []" "concat segs = c @ concat segs'" "[] \<notin> set segs'"
      using conn_Read_step [OF segs(1,2) _ assms(3)] by metis
    have "incoming src (w\<lparr>n_in := segs' @ rest\<rparr>) (concat segs') w'"
      by (rule incomingI [OF _ c(4)]) (use segs Direct in auto)
    then show ?thesis by (rule that [OF _ _ c(2), rotated 2]) (use c segs Direct in \<open>auto simp: reader_Read_def\<close>)
  next
    case Buffered
    obtain c buf segs' where c: "bufio_Read n E w = (Inr c, w\<lparr>n_buf := buf, n_in := segs' @ rest\<rparr>)" "c \<noteq> []"
        "n_buf w @ concat segs = c @ buf @ concat segs'" "[] \<notin> set segs'"
      using bufio_Read_step [OF segs(1,2) _ assms(3)] segs(3) assms(2) by metis
    have "incoming src (w\<lparr>n_buf := buf, n_in := segs' @ rest\<rparr>) (buf @ concat segs') w'"
      by (rule incomingI [OF _ c(4)]) (use segs Buffered in auto)
    then show ?thesis by (rule that [OF _ _ c(2), rotated 2]) (use c segs Buffered in \<open>auto simp: reader_Read_def\<close>)
  qed
qed

lemma incoming_Nil:
  assumes "incoming src w [] w'"
  shows "w' = w"
proof -
  obtain segs rest where segs: "n_in w = segs @ rest" "[] \<notin> set segs" "n_buf w = []" "concat segs = []" "w' = w\<lparr>n_buf := [], n_in := rest\<rparr>"
    using assms by (auto simp: incoming_def)
  have "segs = []" using segs(2,4) by (cases segs) auto
  then show ?thesis using segs by (cases w) simp
qed

text \<open>A full read of what is incoming, and the decoding of an incoming object.\<close>

lemma ReadFull_incoming:
  assumes "incoming Buffered w b w'"
  shows "io_ReadFull (length b) acc E w = (Inr (acc @ b), w')"
  using assms
proof (induction b arbitrary: acc w rule: length_induct)
  case (1 b)
  show ?case
  proof (cases "b = []")
    case True
    then show ?thesis using incoming_Nil "1.prems" by (fastforce simp: io_ReadFull.simps)
  next
    case False
    then obtain c b1 w1 where c: "reader_Read Buffered (length b) E w = (Inr c, w1)" "b = c @ b1" "c \<noteq> []" "incoming Buffered w1 b1 w'"
      using incoming_step [OF "1.prems", of "length b" E] by (metis length_greater_0_conv)
    then have "io_ReadFull (length b1) (acc @ c) E w1 = (Inr ((acc @ c) @ b1), w')" using "1.IH" by simp
    then show ?thesis using c False by (subst io_ReadFull.simps) (simp add: reader_Read_def)
  qed
qed

lemma read_value_incoming:
  assumes "incoming src w b w'" "scan s (string_of b) = Value []" "b \<noteq> []"
  shows "read_value src s acc free E w = (Inr (acc @ string_of b), w')"
  using assms
proof (induction b arbitrary: s acc free w rule: length_induct)
  case (1 b)
  define free' where "free' = (if free < 512 then length acc + 2 * free + 512 else free)"
  have "0 < free'" by (simp add: free'_def)
  then obtain c b1 w1 where c: "reader_Read src free' E w = (Inr c, w1)" "b = c @ b1" "c \<noteq> []" "incoming src w1 b1 w'"
    using incoming_step [OF "1.prems"(1,3)] by metis
  have step: "read_value src s acc free E w =
      (case scan s (string_of c) of
         More s' \<Rightarrow> read_value src s' (acc @ string_of c) (free' - length c) E w1
       | Value rest \<Rightarrow> (Inr (acc @ take (length c - length rest) (string_of c)), w1)
       | Malformed \<Rightarrow> (Inl ErrSyntax, w1))"
    using c(1) by (simp only: read_value.simps [of src s acc free] Let_def flip: free'_def) simp
  show ?case
  proof (cases "b1 = []")
    case True
    then show ?thesis using step c incoming_Nil "1.prems"(2) by fastforce
  next
    case False
    then obtain s' where s': "scan s (string_of c) = More s'"
      using scan_prefix [of s "string_of c" "string_of b1"] "1.prems"(2) c(2) by (auto simp: string_of_def)
    then have "scan s' (string_of b1) = Value []"
      using "1.prems"(2) c(2) scan_append [of s "string_of c" "string_of b1"] by (simp add: string_of_def)
    then have "read_value src s' (acc @ string_of c) (free' - length c) E w1 = (Inr ((acc @ string_of c) @ string_of b1), w')"
      using "1.IH" [rule_format, of b1 w1 s'] c False by simp
    then show ?thesis using step s' c(2) by (simp add: string_of_def)
  qed
qed

lemma Decode_incoming:
  assumes "incoming src w (bytes_of (json_print (JObj kvs))) w'" "plain_json (JObj kvs)" "jdepth (JObj kvs) \<le> maxNestingDepth"
    and "dec (JObj kvs) = Some v"
  shows "Decode_msg src dec E w = (Inr v, w')"
proof -
  have "bytes_of (json_print (JObj kvs)) \<noteq> []" by (simp add: bytes_of_def json_print_def)
  then have "read_value src scan_start [] 0 E w = (Inr (json_print (JObj kvs)), w')"
    using read_value_incoming [OF assms(1), of scan_start "[]" 0 E] scan_object [OF assms(2,3)] by simp
  then show ?thesis using jsonc.decode_encode [of "JObj kvs"] assms(2-4) by (simp add: Decode_msg_def bindE_def ret_def)
qed

end
