(* ===== verification/Reflector.thy ===== *)
theory Reflector
  imports Net
begin

text \<open>
  The reflector server (\<open>protocol/reflector.go\<close>) and its messages (\<open>protocol/reflector_messages.go\<close>): the
  handshake, the upload of a blob with every check, answer and store call in order, and the loop over the
  uploads of a connection.
\<close>

section \<open>Messages\<close>

record HandshakeRequestResponse =
  hs_Version :: "int option"

record SendBlobRequest =
  rq_BlobHash :: string
  rq_BlobSize :: int
  rq_SdBlobHash :: string
  rq_SdBlobSize :: int

datatype SendBlobResponse = SendBlobResponse bool
datatype SendSDBlobResponse = SendSDBlobResponse bool "string list"
datatype BlobTransferResponse = BlobTransferResponse bool
datatype SDBlobTransferResponse = SDBlobTransferResponse bool

definition decode_bool :: "bool \<Rightarrow> json \<Rightarrow> bool option" where
  "decode_bool old j = (case j of JBool b \<Rightarrow> Some b | JNull \<Rightarrow> Some old | _ \<Rightarrow> None)"

definition decode_strings :: "string list \<Rightarrow> json \<Rightarrow> string list option" where
  "decode_strings old j = (case j of JArr js \<Rightarrow> decode_elems decode_str [] old js | JNull \<Rightarrow> Some [] | _ \<Rightarrow> None)"

definition json_Handshake :: "HandshakeRequestResponse \<Rightarrow> json" where
  "json_Handshake h = JObj [(''version'', case hs_Version h of None \<Rightarrow> JNull | Some v \<Rightarrow> JNum (Itoa v))]"

definition fieldHandshake :: "string \<Rightarrow> json \<Rightarrow> HandshakeRequestResponse \<Rightarrow> HandshakeRequestResponse option" where
  "fieldHandshake k v s =
     (if names k ''version''
      then (case v of
              JNull \<Rightarrow> Some (s\<lparr>hs_Version := None\<rparr>)
            | _ \<Rightarrow> map_option (\<lambda>i. s\<lparr>hs_Version := Some i\<rparr>) (decode_int 0 v))
      else Some s)"

definition unmarshalHandshake :: "json \<Rightarrow> HandshakeRequestResponse option" where
  "unmarshalHandshake = decode_struct fieldHandshake \<lparr>hs_Version = None\<rparr>"

definition json_SendBlobRequest :: "SendBlobRequest \<Rightarrow> json" where
  "json_SendBlobRequest r =
     JObj ((if rq_BlobHash r = [] then [] else [(''blob_hash'', JStr (rq_BlobHash r))]) @
           (if rq_BlobSize r = 0 then [] else [(''blob_size'', JNum (Itoa (rq_BlobSize r)))]) @
           (if rq_SdBlobHash r = [] then [] else [(''sd_blob_hash'', JStr (rq_SdBlobHash r))]) @
           (if rq_SdBlobSize r = 0 then [] else [(''sd_blob_size'', JNum (Itoa (rq_SdBlobSize r)))]))"

definition zeroSendBlobRequest :: SendBlobRequest where
  "zeroSendBlobRequest = \<lparr>rq_BlobHash = [], rq_BlobSize = 0, rq_SdBlobHash = [], rq_SdBlobSize = 0\<rparr>"

definition fieldSendBlobRequest :: "string \<Rightarrow> json \<Rightarrow> SendBlobRequest \<Rightarrow> SendBlobRequest option" where
  "fieldSendBlobRequest k v s =
     (if names k ''blob_hash'' then map_option (\<lambda>x. s\<lparr>rq_BlobHash := x\<rparr>) (decode_str (rq_BlobHash s) v)
      else if names k ''blob_size'' then map_option (\<lambda>x. s\<lparr>rq_BlobSize := x\<rparr>) (decode_int (rq_BlobSize s) v)
      else if names k ''sd_blob_hash'' then map_option (\<lambda>x. s\<lparr>rq_SdBlobHash := x\<rparr>) (decode_str (rq_SdBlobHash s) v)
      else if names k ''sd_blob_size'' then map_option (\<lambda>x. s\<lparr>rq_SdBlobSize := x\<rparr>) (decode_int (rq_SdBlobSize s) v)
      else Some s)"

definition unmarshalSendBlobRequest :: "json \<Rightarrow> SendBlobRequest option" where
  "unmarshalSendBlobRequest = decode_struct fieldSendBlobRequest zeroSendBlobRequest"

fun json_SendBlobResponse :: "SendBlobResponse \<Rightarrow> json" where
  "json_SendBlobResponse (SendBlobResponse b) = JObj [(''send_blob'', JBool b)]"

fun json_SendSDBlobResponse :: "SendSDBlobResponse \<Rightarrow> json" where
  "json_SendSDBlobResponse (SendSDBlobResponse b needed) =
     JObj ((''send_sd_blob'', JBool b) # (if needed = [] then [] else [(''needed_blobs'', JArr (map JStr needed))]))"

fun json_BlobTransferResponse :: "BlobTransferResponse \<Rightarrow> json" where
  "json_BlobTransferResponse (BlobTransferResponse b) = JObj [(''received_blob'', JBool b)]"

fun json_SDBlobTransferResponse :: "SDBlobTransferResponse \<Rightarrow> json" where
  "json_SDBlobTransferResponse (SDBlobTransferResponse b) = JObj [(''received_sd_blob'', JBool b)]"

definition Marshal :: "json \<Rightarrow> bytes" where
  "Marshal j = bytes_of (json_print j)"

section \<open>The server\<close>

definition ProtocolVersion1 :: int where
  "ProtocolVersion1 = 0"

definition ProtocolVersion2 :: int where
  "ProtocolVersion2 = 1"

definition errBlobTooBig :: error where
  "errBlobTooBig = Plain ''blob must be at most 2097152 bytes''"

definition ErrProtocolVersion :: error where
  "ErrProtocolVersion = Plain ''protocol version not supported''"

definition ErrHandshakeMissing :: error where
  "ErrHandshakeMissing = Plain ''handshake is missing protocol version''"

definition ErrBlobHashEmpty :: error where
  "ErrBlobHashEmpty = Plain ''blob hash is empty''"

definition ErrZeroByteBlob :: error where
  "ErrZeroByteBlob = Plain ''0-byte blob received''"

definition errHashMismatch :: error where
  "errHashMismatch = Plain ''hash of received blob data does not match hash from send request''"

definition ErrInvalidBlobRequest :: error where
  "ErrInvalidBlobRequest = Plain ''invalid blob request''"

definition ErrNegativeBlobSize :: error where
  "ErrNegativeBlobSize = Plain ''negative blob size received''"

text \<open>
  The optional interfaces of the store, \<open>Blocklister\<close> and \<open>NeededBlobChecker\<close>, are present or not; so is the
  access control. \<open>rs_sha\<close> and \<open>rs_lib\<close> are the digest and the multiformats packages.
\<close>

record 's ReflectorServer =
  rs_store :: "'s BlobStore"
  rs_wants :: "('s \<Rightarrow> string \<Rightarrow> error + bool) option"
  rs_missing :: "('s \<Rightarrow> string \<Rightarrow> error + string list) option"
  rs_access :: "(string \<Rightarrow> string \<Rightarrow> bool) option"
  rs_notifier :: bool
  rs_sha :: "bytes \<Rightarrow> bytes"
  rs_lib :: cid_lib

definition NewReflectorServer :: "'s BlobStore \<Rightarrow> (bytes \<Rightarrow> bytes) \<Rightarrow> cid_lib \<Rightarrow> 's ReflectorServer" where
  "NewReflectorServer B sha L =
     \<lparr>rs_store = B, rs_wants = None, rs_missing = None, rs_access = None, rs_notifier = False, rs_sha = sha, rs_lib = L\<rparr>"

definition WithReflectorAccessControl :: "(string \<Rightarrow> string \<Rightarrow> bool) \<Rightarrow> 's ReflectorServer \<Rightarrow> 's ReflectorServer" where
  "WithReflectorAccessControl allow R = R\<lparr>rs_access := Some allow\<rparr>"

definition WithReflectorNotifier :: "'s ReflectorServer \<Rightarrow> 's ReflectorServer" where
  "WithReflectorNotifier R = R\<lparr>rs_notifier := True\<rparr>"

definition ValidateBlobHash :: "cid_lib \<Rightarrow> string \<Rightarrow> bool" where
  "ValidateBlobHash L hash \<longleftrightarrow> length hash = BlobHashHexLength \<and> ValidateHash L hash"

definition calculateBlobHash :: "'s ReflectorServer \<Rightarrow> bytes \<Rightarrow> string" where
  "calculateBlobHash R d = Hasher_Hash (rs_sha R) d"

text \<open>Durations are counted in nanoseconds.\<close>

definition BaseTimeout :: int where
  "BaseTimeout = 10000000000"

definition TimeoutPerMiB :: int where
  "TimeoutPerMiB = 5000000000"

definition MiB :: int where
  "MiB = 1048576"

definition calculateTimeout :: "int \<Rightarrow> int" where
  "calculateTimeout blobSize =
     (let additionalTime = i64 (blobSize div MiB * TimeoutPerMiB);
          timeout = i64 (BaseTimeout + additionalTime)
      in if timeout > 300000000000 then 300000000000 else timeout)"

definition writeData :: "bytes \<Rightarrow> ('s, unit) proc" where
  "writeData d =
     thenE (mapErr (Joined (NetworkError ErrFailedToSetWriteDeadline)) set_deadline)
       (mapErr (Joined (NetworkError ErrFailedToWriteData))
         (bindE (conn_Write d) (\<lambda>n. if n \<noteq> length d then throw (Plain ''short write'') else ret ())))"

definition writeJSON :: "json \<Rightarrow> ('s, unit) proc" where
  "writeJSON j = writeData (Marshal j)"

definition readJSON :: "(json \<Rightarrow> 'a option) \<Rightarrow> ('s, 'a) proc" where
  "readJSON dec =
     thenE (mapErr (Joined (NetworkError ErrFailedToSetReadDeadline)) set_deadline)
       (mapErr (Joined (NetworkError ErrFailedToDecodeJSON)) (Decode_msg Buffered dec))"

definition readRawBlob :: "int \<Rightarrow> ('s, bytes) proc" where
  "readRawBlob blobSize =
     thenE (mapErr (Joined (NetworkError ErrFailedToSetReadDeadline)) set_deadline)
       (mapErr (Joined (NetworkError ErrFailedToReadBlobData)) (io_ReadFull (nat blobSize) []))"

definition doHandshake :: "('s, unit) proc" where
  "doHandshake =
     bindE (readJSON unmarshalHandshake) (\<lambda>handshake.
       case hs_Version handshake of
         None \<Rightarrow> throw ErrHandshakeMissing
       | Some v \<Rightarrow>
           if v \<noteq> ProtocolVersion1 \<and> v \<noteq> ProtocolVersion2 then throw ErrProtocolVersion
           else writeJSON (json_Handshake \<lparr>hs_Version = Some v\<rparr>))"

definition readBlobRequest :: "'s ReflectorServer \<Rightarrow> ('s, int \<times> string \<times> bool) proc" where
  "readBlobRequest R =
     bindE (mapErr (Joined ErrInvalidBlobRequest) (readJSON unmarshalSendBlobRequest)) (\<lambda>request.
       let isSdBlob = rq_SdBlobHash request \<noteq> [];
           blobSize = (if isSdBlob then rq_SdBlobSize request else rq_BlobSize request);
           blobHash = (if isSdBlob then rq_SdBlobHash request else rq_BlobHash request)
       in if blobHash = [] then throw ErrBlobHashEmpty
          else if \<not> ValidateBlobHash (rs_lib R) blobHash then throw (Joined ErrInvalidBlobRequest (Sentinel ErrInvalidData))
          else if blobSize > int MaxBlobSize then throw errBlobTooBig
          else if blobSize \<le> 0 then throw (if blobSize = 0 then ErrZeroByteBlob else ErrNegativeBlobSize)
          else ret (blobSize, blobHash, isSdBlob))"

definition denies :: "(string \<Rightarrow> string \<Rightarrow> bool) option \<Rightarrow> string \<Rightarrow> string \<Rightarrow> bool" where
  "denies access hash ip \<longleftrightarrow> (case access of None \<Rightarrow> False | Some allow \<Rightarrow> \<not> allow hash ip)"

definition shouldAcceptBlob :: "'s ReflectorServer \<Rightarrow> string \<Rightarrow> bool \<Rightarrow> string \<Rightarrow> ('s, bool \<times> string list) proc" where
  "shouldAcceptBlob R blobHash isSdBlob peerIP =
     (if denies (rs_access R) blobHash peerIP then ret (False, [])
      else
        bindE (mapErr (Joined (StorageError ErrFailedToCheckBlobExistence))
                (case rs_wants R of
                   Some wants \<Rightarrow> bindE (store_ask (\<lambda>s. wants s blobHash)) (\<lambda>b. ret (b, True))
                 | None \<Rightarrow> bindE (store_get (\<lambda>c s. Has (rs_store R) c s blobHash)) (\<lambda>b. ret (\<not> b, False))))
          (\<lambda>(wantsBlob, decidedByBlocklister).
             if isSdBlob \<and> \<not> wantsBlob then
               (case rs_missing R of
                  Some missing \<Rightarrow>
                    bindE (mapErr (Joined (StorageError ErrFailedToCheckNeededBlobs)) (store_ask (\<lambda>s. missing s blobHash)))
                      (\<lambda>needed. ret (wantsBlob, needed))
                | None \<Rightarrow> ret (if decidedByBlocklister then wantsBlob else True, []))
             else ret (wantsBlob, [])))"

definition sendBlobResponse :: "bool \<Rightarrow> bool \<Rightarrow> string list \<Rightarrow> ('s, unit) proc" where
  "sendBlobResponse shouldSend isSdBlob neededBlobs =
     writeData (Marshal (if isSdBlob then json_SendSDBlobResponse (SendSDBlobResponse shouldSend neededBlobs)
                         else json_SendBlobResponse (SendBlobResponse shouldSend)))"

definition sendTransferResponse :: "bool \<Rightarrow> bool \<Rightarrow> ('s, unit) proc" where
  "sendTransferResponse receivedBlob isSdBlob =
     writeData (Marshal (if isSdBlob then json_SDBlobTransferResponse (SDBlobTransferResponse receivedBlob)
                         else json_BlobTransferResponse (BlobTransferResponse receivedBlob)))"

definition peer_host :: "('s, string) proc" where
  "peer_host = (\<lambda>E w. (case SplitHostPort (v_addr E) of
                         Inl e \<Rightarrow> Inl (Joined (NetworkError ErrFailedToParsePeerAddress) e)
                       | Inr (host, _) \<Rightarrow> Inr host, w))"

definition store_blob :: "'s ReflectorServer \<Rightarrow> string \<Rightarrow> bool \<Rightarrow> bytes \<Rightarrow> ('s, unit) proc" where
  "store_blob R blobHash isSdBlob blobData =
     mapErr (\<lambda>e. Joined (NetworkError ErrFailedToStoreBlob) (Wrapped ''failed to store blob'' e))
       (if isSdBlob then store_put (\<lambda>c s. PutSD (rs_store R) c s blobHash blobData)
        else store_put (\<lambda>c s. Put (rs_store R) c s blobHash blobData))"

text \<open>The part of \<open>receiveBlob\<close> that follows a positive answer.\<close>

definition receive_data :: "'s ReflectorServer \<Rightarrow> int \<Rightarrow> string \<Rightarrow> bool \<Rightarrow> ('s, unit) proc" where
  "receive_data R blobSize blobHash isSdBlob =
     bindE (wrapE ''error reading blob'' (onError (readRawBlob blobSize) (sendTransferResponse False isSdBlob))) (\<lambda>blobData.
       if blobHash \<noteq> calculateBlobHash R blobData
       then thenE (tryE (sendTransferResponse False isSdBlob)) (throw errHashMismatch)
       else thenE (store_blob R blobHash isSdBlob blobData)
              (thenE (NotifyBlob (rs_lib R) (rs_notifier R) NOTIFY_BLOB_ADDED blobHash)
                (sendTransferResponse True isSdBlob)))"

definition receiveBlob :: "'s ReflectorServer \<Rightarrow> ('s, unit) proc" where
  "receiveBlob R =
     bindE (readBlobRequest R) (\<lambda>(blobSize, blobHash, isSdBlob).
     bindE peer_host (\<lambda>peerIP.
     bindE (shouldAcceptBlob R blobHash isSdBlob peerIP) (\<lambda>(shouldSend, neededBlobs).
     thenE (sendBlobResponse shouldSend isSdBlob neededBlobs)
       (if \<not> shouldSend then ret () else receive_data R blobSize blobHash isSdBlob))))"

text \<open>
  The loop of \<open>HandleConnection\<close>. The result is the error that ended it, which the server logs unless it is
  \<open>io.EOF\<close>, and the world it leaves.
\<close>

definition receive_loop :: "'s ReflectorServer \<Rightarrow> netenv \<Rightarrow> 's net \<Rightarrow> (error \<times> 's net) option" where
  "receive_loop R E w = loopE (receiveBlob R) E w"

definition HandleReflector :: "'s ReflectorServer \<Rightarrow> netenv \<Rightarrow> 's net \<Rightarrow> (error \<times> 's net) option" where
  "HandleReflector R E w =
     (case doHandshake E w of
        (Inl e, w') \<Rightarrow> Some (e, w')
      | (Inr _, w') \<Rightarrow> receive_loop R E w')"

end
