(* ===== verification/Reflector_Safety.thy ===== *)
theory Reflector_Safety
  imports Reflector Disk_Store
begin

text \<open>
  What a connection can do to the store of a reflector server, for every stream of bytes, every failure of the
  connection and every store that keeps the contract \<open>sd_store\<close>; and that every connection comes to an end.
\<close>

section \<open>Stores that grow by verified blobs\<close>

definition uploaded :: "'s ReflectorServer \<Rightarrow> string \<Rightarrow> string \<Rightarrow> bytes \<Rightarrow> bool" where
  "uploaded R ip h d \<longleftrightarrow> calculateBlobHash R d = h \<and> 0 < length d \<and> length d \<le> MaxBlobSize \<and> \<not> denies (rs_access R) h ip"

definition grown :: "('s \<Rightarrow> string \<Rightarrow> bytes option) \<Rightarrow> ('s \<Rightarrow> bool) \<Rightarrow> (string \<Rightarrow> bytes \<Rightarrow> bool) \<Rightarrow> 's net \<Rightarrow> 's net \<Rightarrow> bool" where
  "grown lookup ok P w w' \<longleftrightarrow> pending w' \<le> pending w \<and>
     (ok (n_store w) \<longrightarrow> ok (n_store w') \<and>
        (\<forall>h. lookup (n_store w') h = lookup (n_store w) h \<or> (\<exists>d. lookup (n_store w') h = Some d \<and> P h d)))"

interpretation grows: step_rel "grown lookup ok P" for lookup :: "'s \<Rightarrow> string \<Rightarrow> bytes option" and ok P
proof
  fix w1 w2 w3 :: "'s net"
  assume "grown lookup ok P w1 w2" "grown lookup ok P w2 w3"
  then show "grown lookup ok P w1 w3" unfolding grown_def by (metis order_trans)
qed (simp add: grown_def)

lemma calm_grown: "calm w w' \<Longrightarrow> grown lookup ok P w w'"
  by (simp add: calm_def grown_def)

lemma grown_calm: "preserves E calm m \<Longrightarrow> preserves E (grown lookup ok P) m"
  by (erule preserves_mono) (rule calm_grown)

lemma grown_weaken: "preserves E (grown lookup ok P) m \<Longrightarrow> (\<And>h d. P h d \<Longrightarrow> Q h d) \<Longrightarrow> preserves E (grown lookup ok Q) m"
  by (erule preserves_mono) (auto simp: grown_def)

text \<open>The steps of an upload that do not write to the store.\<close>

lemma calm_writeData: "preserves E calm (writeData d)"
  unfolding writeData_def by (intro calm_intros) (auto intro: calm_intros)

lemma calm_readJSON: "preserves E calm (readJSON dec)"
  unfolding readJSON_def by (intro calm_intros)

lemma calm_readRawBlob: "preserves E calm (readRawBlob n)"
  unfolding readRawBlob_def by (intro calm_intros)

lemma calm_peer_host: "preserves E calm peer_host"
  by (auto simp: preserves_def peer_host_def calm.rel_refl)

lemmas calm_steps = calm_intros calm_writeData calm_readJSON calm_readRawBlob calm_peer_host

lemma calm_doHandshake: "preserves E calm doHandshake"
  unfolding doHandshake_def writeJSON_def by (intro calm.preserves_bind calm_readJSON) (auto split: option.split intro: calm_steps)

lemma calm_readBlobRequest: "preserves E calm (readBlobRequest R)"
  unfolding readBlobRequest_def by (intro calm_steps) (auto simp: Let_def intro: calm_steps)

lemma calm_shouldAcceptBlob: "preserves E calm (shouldAcceptBlob R h sd ip)"
  unfolding shouldAcceptBlob_def by (auto intro!: calm_steps split: option.split)

lemma calm_responses: "preserves E calm (sendBlobResponse b sd needed)" "preserves E calm (sendTransferResponse b sd)"
  unfolding sendBlobResponse_def sendTransferResponse_def by (intro calm_writeData)+

section \<open>What the steps return\<close>

lemma readRawBlob_length: "returns E (\<lambda>d. length d = nat n) (readRawBlob n)"
  unfolding readRawBlob_def
  by (rule returns_bind [OF returns_True]) (use ReadFull_length [where acc = "[]"] in \<open>auto intro: returns_mapErr\<close>)

lemma readBlobRequest_returns:
  "returns E (\<lambda>(n, h, sd). 0 < n \<and> n \<le> int MaxBlobSize \<and> ValidateBlobHash (rs_lib R) h) (readBlobRequest R)"
  unfolding readBlobRequest_def
  by (rule returns_bind [OF returns_True]) (auto simp: Let_def intro!: returns_ret returns_throw)

lemma peer_host_returns: "returns E (\<lambda>ip. \<exists>port. SplitHostPort (v_addr E) = Inr (ip, port)) peer_host"
  by (auto simp: returns_def peer_host_def split: sum.splits)

lemma shouldAcceptBlob_returns: "returns E (\<lambda>(b, needed). b \<longrightarrow> \<not> denies (rs_access R) h ip) (shouldAcceptBlob R h sd ip)"
proof (cases "denies (rs_access R) h ip")
  case True
  then show ?thesis by (simp add: shouldAcceptBlob_def returns_ret)
qed (simp add: returns_def)

lemma readJSON_pending:
  assumes "readJSON dec E w = (Inr v, w')"
  shows "pending w' < pending w"
proof -
  obtain r1 w1 where d: "set_deadline E w = (r1, w1)" by fastforce
  then have "pending w1 = pending w" by (auto simp: set_deadline_def pending_def)
  moreover obtain r2 w2 where j: "Decode_msg Buffered dec E w1 = (r2, w2)" by fastforce
  moreover have "r2 = Inr v" "w2 = w'"
    using assms d j by (cases r1; cases r2; simp add: readJSON_def bindE_def mapErr_def)+
  ultimately show ?thesis using Decode_pending [of Buffered dec E w1 v w'] j by simp
qed

lemma readBlobRequest_pending:
  assumes "readBlobRequest R E w = (Inr x, w')"
  shows "pending w' < pending w"
proof -
  obtain r w1 where d: "readJSON unmarshalSendBlobRequest E w = (r, w1)" by fastforce
  then obtain v where v: "r = Inr v" using assms by (cases r) (simp_all add: readBlobRequest_def bindE_def mapErr_def)
  then have "w' = w1"
    using assms d by (simp add: readBlobRequest_def bindE_def mapErr_def throw_def ret_def Let_def split: if_splits)
  then show ?thesis using readJSON_pending [of unmarshalSendBlobRequest E w v w1] d v by simp
qed

section \<open>One upload\<close>

context sd_store
begin

lemma store_put_grown:
  assumes "\<And>k. ok_ctx (v_ctx E k)" "P h d"
    and f: "\<And>c s r s'. inv s \<Longrightarrow> ok_ctx c \<Longrightarrow> f c s = (r, s') \<Longrightarrow> inv s' \<and> (lookup s' = lookup s \<or> lookup s' = (lookup s)(h \<mapsto> d))"
  shows "preserves E (grown lookup inv P) (store_put f)"
proof (rule preservesI)
  fix w r w'
  assume run: "store_put f E w = (r, w')"
  obtain q s' where q: "f (v_ctx E (n_storek w)) (n_store w) = (q, s')" by fastforce
  have "n_store w' = s'" "pending w' = pending w" using run q by (auto simp: store_put_def pending_def)
  then show "grown lookup inv P w w'" using f [OF _ assms(1) q] assms(2) by (auto simp: grown_def)
qed

lemma put_result:
  assumes "inv s" "ok_ctx c" "Put B c s h d = (r, s') \<or> PutSD B c s h d = (r, s')"
  shows "inv s' \<and> (lookup s' = lookup s \<or> lookup s' = (lookup s)(h \<mapsto> d))"
proof (cases r)
  case None
  then show ?thesis using Put_ok [of s c h d s'] PutSD_ok [of s c h d s'] assms by auto
next
  case (Some e)
  then have "same s s'" using Put_error [of s c h d e s'] PutSD_error [of s c h d e s'] assms by auto
  then show ?thesis using same_ok assms(1) by simp
qed

lemma store_blob_grown:
  assumes "rs_store R = B" "\<And>k. ok_ctx (v_ctx E k)" "P h d"
  shows "preserves E (grown lookup inv P) (store_blob R h sd d)"
proof -
  have "preserves E (grown lookup inv P) (store_put (\<lambda>c s. Put B c s h d))"
    "preserves E (grown lookup inv P) (store_put (\<lambda>c s. PutSD B c s h d))"
    by (intro store_put_grown [where h = h and d = d] assms(2,3); blast dest: put_result)+
  then show ?thesis unfolding store_blob_def assms(1) by (cases sd) (simp_all add: grows.preserves_mapErr)
qed

lemma receive_data_grown:
  assumes "rs_store R = B" "\<And>k. ok_ctx (v_ctx E k)" "0 < n" "n \<le> int MaxBlobSize" "\<not> denies (rs_access R) h ip"
  shows "preserves E (grown lookup inv (uploaded R ip)) (receive_data R n h sd)"
  unfolding receive_data_def
proof (rule grows.preserves_bindQ [where Q = "\<lambda>d. length d = nat n"])
  show "preserves E (grown lookup inv (uploaded R ip)) (wrapE ''error reading blob'' (onError (readRawBlob n) (sendTransferResponse False sd)))"
    by (rule grown_calm) (intro calm_steps calm_responses)
  show "returns E (\<lambda>d. length d = nat n) (wrapE ''error reading blob'' (onError (readRawBlob n) (sendTransferResponse False sd)))"
    by (intro returns_intros readRawBlob_length)
  fix d :: bytes
  assume d: "length d = nat n"
  show "preserves E (grown lookup inv (uploaded R ip)) (if h \<noteq> calculateBlobHash R d
      then thenE (tryE (sendTransferResponse False sd)) (throw errHashMismatch)
      else thenE (store_blob R h sd d)
        (thenE (NotifyBlob (rs_lib R) (rs_notifier R) NOTIFY_BLOB_ADDED h) (sendTransferResponse True sd)))"
  proof (cases "h = calculateBlobHash R d")
    case True
    then have "uploaded R ip h d" using assms(3-5) d by (simp add: uploaded_def)
    then have "preserves E (grown lookup inv (uploaded R ip)) (thenE (store_blob R h sd d)
        (thenE (NotifyBlob (rs_lib R) (rs_notifier R) NOTIFY_BLOB_ADDED h) (sendTransferResponse True sd)))"
      by (intro grows.preserves_bind store_blob_grown assms(1,2) grown_calm [OF calm_prims(5)] grown_calm [OF calm_responses(2)])
    then show ?thesis using True by (subst if_not_P) simp_all
  next
    case False
    then show ?thesis by (auto intro!: grown_calm calm_steps calm_responses)
  qed
qed

lemma receiveBlob_grown:
  assumes "rs_store R = B" "\<And>k. ok_ctx (v_ctx E k)"
  shows "preserves E (grown lookup inv (\<lambda>h d. \<exists>ip port. SplitHostPort (v_addr E) = Inr (ip, port) \<and> uploaded R ip h d)) (receiveBlob R)"
    (is "preserves E ?G _")
  unfolding receiveBlob_def
proof (rule grows.preserves_bindQ [OF _ readBlobRequest_returns], goal_cases)
  case (2 x)
  obtain n h sd where x: "x = (n, h, sd)" by (cases x)
  have "preserves E ?G (receive_data R n h sd)"
    if "SplitHostPort (v_addr E) = Inr (ip, port)" "\<not> denies (rs_access R) h ip" for ip port
  proof (rule grown_weaken)
    show "preserves E (grown lookup inv (uploaded R ip)) (receive_data R n h sd)"
      using receive_data_grown [OF assms, of n h ip sd] 2 x that by simp
  qed (use that in auto)
  then have step: "preserves E ?G (thenE (sendBlobResponse b sd needed) (if \<not> b then ret () else receive_data R n h sd))"
    if "SplitHostPort (v_addr E) = Inr (ip, port)" "b \<longrightarrow> \<not> denies (rs_access R) h ip" for ip port b needed
    using that by (intro grows.preserves_bind grown_calm [OF calm_responses(1)]) (auto intro: grows.preserves_ret)
  have "preserves E ?G (case y of (b, needed) \<Rightarrow>
      thenE (sendBlobResponse b sd needed) (if \<not> b then ret () else receive_data R n h sd))"
    if ip: "\<exists>port. SplitHostPort (v_addr E) = Inr (ip, port)" and y: "case y of (b, needed) \<Rightarrow> b \<longrightarrow> \<not> denies (rs_access R) h ip" for ip y
  proof -
    obtain port where "SplitHostPort (v_addr E) = Inr (ip, port)" using ip by blast
    moreover obtain b needed where "y = (b, needed)" by (cases y)
    ultimately show ?thesis using y step [of ip port b needed] by simp
  qed
  then show ?case unfolding x prod.case
    by (intro grows.preserves_bindQ [OF grown_calm [OF calm_peer_host] peer_host_returns]
          grows.preserves_bindQ [OF grown_calm [OF calm_shouldAcceptBlob] shouldAcceptBlob_returns])
qed (intro grown_calm calm_readBlobRequest)

end

section \<open>The whole connection\<close>

text \<open>Only \<open>Joined\<close>, \<open>Wrapped\<close> and plain errors leave \<open>receiveBlob\<close> and \<open>doHandshake\<close>, never a bare \<open>io.EOF\<close>.\<close>

lemma raises_writeData: "raises E (\<lambda>e. e \<noteq> EOF) (writeData d)"
  unfolding writeData_def by (intro raises_intros) auto

lemma raises_readJSON: "raises E (\<lambda>e. e \<noteq> EOF) (readJSON dec)"
  unfolding readJSON_def by (intro raises_intros) auto

lemma raises_doHandshake: "raises E (\<lambda>e. e \<noteq> EOF) doHandshake"
  unfolding doHandshake_def writeJSON_def
  by (intro raises_bind raises_readJSON)
     (auto simp: ErrHandshakeMissing_def ErrProtocolVersion_def split: option.split intro: raises_throw raises_writeData)

lemma raises_receiveBlob: "raises E (\<lambda>e. e \<noteq> EOF) (receiveBlob R)"
proof -
  have request: "raises E (\<lambda>e. e \<noteq> EOF) (readBlobRequest R)"
    unfolding readBlobRequest_def
    by (intro raises_bind raises_mapErr)
       (auto simp: Let_def ErrBlobHashEmpty_def errBlobTooBig_def ErrZeroByteBlob_def ErrNegativeBlobSize_def intro!: raises_throw raises_ret)
  have host: "raises E (\<lambda>e. e \<noteq> EOF) peer_host" by (auto simp: raises_def peer_host_def split: sum.splits)
  have accept: "raises E (\<lambda>e. e \<noteq> EOF) (shouldAcceptBlob R h sd ip)" for h sd ip
    unfolding shouldAcceptBlob_def by (auto intro!: raises_intros split: option.split)
  have data: "raises E (\<lambda>e. e \<noteq> EOF) (receive_data R n h sd)" for n h sd
  proof -
    have "raises E (\<lambda>e. e \<noteq> EOF) (tryE m)" for m by (auto simp: raises_def tryE_def split: prod.splits)
    moreover have "raises E (\<lambda>e. e \<noteq> EOF) (NotifyBlob L b t h)" for L b t by (simp add: raises_def NotifyBlob_def)
    ultimately show ?thesis
      unfolding receive_data_def store_blob_def sendTransferResponse_def
      by (auto simp: errHashMismatch_def intro!: raises_intros raises_writeData)
  qed
  show ?thesis unfolding receiveBlob_def
    by (auto intro!: raises_bind request host accept data raises_ret raises_writeData simp: sendBlobResponse_def)
qed

text \<open>An upload that succeeds has consumed input, so the loop ends.\<close>

lemma shrinks_store_blob: "preserves E (\<lambda>w w'. pending w' \<le> pending w) (store_blob R h sd d)"
  by (auto simp: store_blob_def preserves_def mapErr_def store_put_def pending_def split: prod.splits sum.splits)

lemma shrinks_receive_data: "preserves E (\<lambda>w w'. pending w' \<le> pending w) (receive_data R n h sd)"
  unfolding receive_data_def
proof (intro shrinks.preserves_bind)
  fix d
  show "preserves E (\<lambda>w w'. pending w' \<le> pending w) (if h \<noteq> calculateBlobHash R d
      then thenE (tryE (sendTransferResponse False sd)) (throw errHashMismatch)
      else thenE (store_blob R h sd d)
        (thenE (NotifyBlob (rs_lib R) (rs_notifier R) NOTIFY_BLOB_ADDED h) (sendTransferResponse True sd)))"
  proof (cases "h = calculateBlobHash R d")
    case True
    have "preserves E (\<lambda>w w'. pending w' \<le> pending w) (thenE (store_blob R h sd d)
        (thenE (NotifyBlob (rs_lib R) (rs_notifier R) NOTIFY_BLOB_ADDED h) (sendTransferResponse True sd)))"
      by (intro shrinks.preserves_bind shrinks_store_blob shrinks_calm [OF calm_prims(5)] shrinks_calm [OF calm_responses(2)])
    then show ?thesis using True by (subst if_not_P) simp_all
  next
    case False
    then show ?thesis by (auto intro!: shrinks_calm calm_steps calm_responses)
  qed
qed (intro shrinks_calm calm_steps calm_responses)

lemma shrinks_answer:
  "preserves E (\<lambda>w w'. pending w' \<le> pending w)
     (bindE peer_host (\<lambda>peerIP. bindE (shouldAcceptBlob R h sd peerIP) (\<lambda>(shouldSend, neededBlobs).
        thenE (sendBlobResponse shouldSend sd neededBlobs) (if \<not> shouldSend then ret () else receive_data R n h sd))))"
  by (intro shrinks.preserves_bind shrinks_calm [OF calm_peer_host] shrinks_calm [OF calm_shouldAcceptBlob])
     (auto intro!: shrinks.preserves_bind shrinks_calm [OF calm_responses(1)] shrinks_receive_data shrinks.preserves_ret)

lemma shrinks_receiveBlob: "preserves E (\<lambda>w w'. pending w' \<le> pending w) (receiveBlob R)"
  unfolding receiveBlob_def
  by (rule shrinks.preserves_bind [OF shrinks_calm [OF calm_readBlobRequest]]) (clarsimp simp only: split_paired_all prod.case, rule shrinks_answer)

lemma receiveBlob_pending:
  assumes "receiveBlob R E w = (Inr u, w')"
  shows "pending w' < pending w"
proof -
  obtain r1 w1 where b: "readBlobRequest R E w = (r1, w1)" by fastforce
  then obtain n h sd where x: "r1 = Inr (n, h, sd)" using assms by (cases r1) (auto simp: receiveBlob_def bindE_def)
  have "pending w' \<le> pending w1"
    by (rule preservesD [OF shrinks_answer [of E R h sd n]]) (use assms b x in \<open>simp add: receiveBlob_def bindE_def\<close>)
  then show ?thesis using readBlobRequest_pending b x by fastforce
qed

lemma HandleReflector_ends:
  assumes "preserves E rel (receiveBlob R)" "preserves E rel doHandshake" "step_rel rel"
  shows "\<exists>e w'. HandleReflector R E w = Some (e, w') \<and> rel w w' \<and> e \<noteq> EOF"
proof -
  obtain r w1 where h: "doHandshake E w = (r, w1)" by fastforce
  have rel: "rel w w1" using preservesD [OF assms(2) h] .
  show ?thesis
  proof (cases r)
    case (Inl e)
    then show ?thesis using h rel raisesD [OF raises_doHandshake] by (fastforce simp: HandleReflector_def)
  next
    case (Inr u)
    obtain e w' where "receive_loop R E w1 = Some (e, w')" "rel w1 w'" "e \<noteq> EOF"
      using loopE_ends [OF _ assms(1,3) raises_receiveBlob, of w1] receiveBlob_pending unfolding receive_loop_def by blast
    then show ?thesis using h Inr rel step_rel.rel_trans [OF assms(3)] by (auto simp: HandleReflector_def)
  qed
qed

text \<open>
  C17. Every connection to a reflector server ends, whatever bytes arrive in whatever pieces, whichever calls fail
  and whatever store and access control are behind it: the handler returns, with an error that is never a
  bare end of file.
\<close>

theorem reflector_returns:
  "\<exists>e w'. HandleReflector R E w = Some (e, w') \<and> e \<noteq> EOF \<and> pending w' \<le> pending w"
  using HandleReflector_ends [OF shrinks_receiveBlob shrinks_calm [OF calm_doHandshake] shrinks.step_rel_axioms] by blast

text \<open>
  C4. Nothing but verified blobs enters the store: for every store that keeps the contract, every stream of bytes
  and every failure, the store is well-formed after the connection, and under every hash it holds what it
  held before or a blob of 1 to 2097152 bytes whose SHA-384 is that hash, sent by a peer that the access
  control does not reject for it.
\<close>

theorem reflector_stores_verified:
  assumes "sd_store B lookup ok valid storable same ok_ctx" "rs_store R = B" "\<forall>k. ok_ctx (v_ctx E k)" "ok s"
    and "HandleReflector R E (new_conn segs s) = Some (e, w')"
  shows "ok (n_store w') \<and>
    (\<forall>h. lookup (n_store w') h = lookup s h \<or>
       (\<exists>d ip port. lookup (n_store w') h = Some d \<and> Hasher_Hash (rs_sha R) d = h \<and> 0 < length d \<and> length d \<le> MaxBlobSize \<and>
          SplitHostPort (v_addr E) = Inr (ip, port) \<and> \<not> denies (rs_access R) h ip))"
proof -
  let ?G = "grown lookup ok (\<lambda>h d. \<exists>ip port. SplitHostPort (v_addr E) = Inr (ip, port) \<and> uploaded R ip h d)"
  have "preserves E ?G (receiveBlob R)" using sd_store.receiveBlob_grown [OF assms(1,2)] assms(3) by blast
  from HandleReflector_ends [OF this grown_calm [OF calm_doHandshake] grows.step_rel_axioms, of "new_conn segs s"]
  have "?G (new_conn segs s) w'" using assms(5) by auto
  then have "ok (n_store w')" and "\<forall>h. lookup (n_store w') h = lookup s h \<or>
      (\<exists>d. lookup (n_store w') h = Some d \<and> (\<exists>ip port. SplitHostPort (v_addr E) = Inr (ip, port) \<and> uploaded R ip h d))"
    using assms(4) by (simp_all add: grown_def new_conn_def)
  then show ?thesis unfolding uploaded_def calculateBlobHash_def by blast
qed

definition sample_reflector :: "MemoryStore ReflectorServer" where
  "sample_reflector = NewReflectorServer (memory_store sample_cid_lib) (\<lambda>d. take 48 (d @ replicate 48 0)) sample_cid_lib"

theorem reflector_stores_verified_witness:
  "\<exists>e w'. HandleReflector sample_reflector sample_netenv (new_conn [[1, 2], [3]] NewMemoryStore) = Some (e, w') \<and>
     mem_ok sample_cid_lib (n_store w')"
proof -
  obtain e w' where run: "HandleReflector sample_reflector sample_netenv (new_conn [[1, 2], [3]] NewMemoryStore) = Some (e, w')"
    using HandleReflector_ends [OF shrinks_receiveBlob shrinks_calm [OF calm_doHandshake] shrinks.step_rel_axioms] by blast
  then show ?thesis
    using reflector_stores_verified [OF memsd.sd_store_axioms [of sample_cid_lib], where R = sample_reflector and E = sample_netenv
        and s = NewMemoryStore and segs = "[[1, 2], [3]]" and e = e and w' = w']
    by (simp add: sample_reflector_def NewReflectorServer_def)
qed

end
