(* ===== verification/ReflectorClient.thy ===== *)
theory ReflectorClient
  imports Reflector
begin

text \<open>
  The reflector client (\<open>protocol/reflector_client.go\<close>). A client holds at most one connection; an operation
  runs on it and leaves the connection it has used. The mutex is not modelled: the operations are atomic.
\<close>

section \<open>Responses\<close>

definition fieldSendBlobResponse :: "string \<Rightarrow> json \<Rightarrow> SendBlobResponse \<Rightarrow> SendBlobResponse option" where
  "fieldSendBlobResponse k v s =
     (case s of SendBlobResponse b \<Rightarrow> if names k ''send_blob'' then map_option SendBlobResponse (decode_bool b v) else Some s)"

definition fieldSendSDBlobResponse :: "string \<Rightarrow> json \<Rightarrow> SendSDBlobResponse \<Rightarrow> SendSDBlobResponse option" where
  "fieldSendSDBlobResponse k v s =
     (case s of SendSDBlobResponse b needed \<Rightarrow>
        if names k ''send_sd_blob'' then map_option (\<lambda>x. SendSDBlobResponse x needed) (decode_bool b v)
        else if names k ''needed_blobs'' then map_option (\<lambda>x. SendSDBlobResponse b x) (decode_strings needed v)
        else Some s)"

definition fieldBlobTransferResponse :: "string \<Rightarrow> json \<Rightarrow> BlobTransferResponse \<Rightarrow> BlobTransferResponse option" where
  "fieldBlobTransferResponse k v s =
     (case s of BlobTransferResponse b \<Rightarrow>
        if names k ''received_blob'' then map_option BlobTransferResponse (decode_bool b v) else Some s)"

definition fieldSDBlobTransferResponse :: "string \<Rightarrow> json \<Rightarrow> SDBlobTransferResponse \<Rightarrow> SDBlobTransferResponse option" where
  "fieldSDBlobTransferResponse k v s =
     (case s of SDBlobTransferResponse b \<Rightarrow>
        if names k ''received_sd_blob'' then map_option SDBlobTransferResponse (decode_bool b v) else Some s)"

section \<open>Messages on the connection\<close>

definition rc_writeJSON :: "json \<Rightarrow> ('s, unit) proc" where
  "rc_writeJSON j = thenE set_deadline (bindE (conn_Write (Marshal j)) (\<lambda>_. ret ()))"

definition rc_readJSON :: "(json \<Rightarrow> 'a option) \<Rightarrow> ('s, 'a) proc" where
  "rc_readJSON dec = thenE set_deadline (Decode_msg Direct dec)"

definition rc_doHandshake :: "int \<Rightarrow> ('s, unit) proc" where
  "rc_doHandshake version =
     thenE (rc_writeJSON (json_Handshake \<lparr>hs_Version = Some version\<rparr>))
       (bindE (rc_readJSON unmarshalHandshake) (\<lambda>response.
          case hs_Version response of
            None \<Rightarrow> throw (Plain ''invalid handshake response: missing version'')
          | Some v \<Rightarrow> if v \<noteq> version then throw (Plain ''protocol version mismatch'') else ret ()))"

definition sendBlobRequest :: "string \<Rightarrow> nat \<Rightarrow> bool \<Rightarrow> ('s, unit) proc" where
  "sendBlobRequest hash len isSdBlob =
     rc_writeJSON (json_SendBlobRequest
       (if isSdBlob then zeroSendBlobRequest\<lparr>rq_SdBlobHash := hash, rq_SdBlobSize := int len\<rparr>
        else zeroSendBlobRequest\<lparr>rq_BlobHash := hash, rq_BlobSize := int len\<rparr>))"

definition validation_error :: "error \<Rightarrow> error" where
  "validation_error e = (if errIs e EOF then Sentinel ErrServerValidation else e)"

definition readBlobResponse :: "bool \<Rightarrow> ('s, bool) proc" where
  "readBlobResponse isSdBlob =
     mapErr validation_error
       (if isSdBlob
        then bindE (rc_readJSON (decode_struct fieldSendSDBlobResponse (SendSDBlobResponse False [])))
               (\<lambda>r. case r of SendSDBlobResponse b _ \<Rightarrow> ret b)
        else bindE (rc_readJSON (decode_struct fieldSendBlobResponse (SendBlobResponse False)))
               (\<lambda>r. case r of SendBlobResponse b \<Rightarrow> ret b))"

definition sendBlobData :: "bytes \<Rightarrow> ('s, unit) proc" where
  "sendBlobData d = thenE set_deadline (bindE (conn_Write d) (\<lambda>_. ret ()))"

definition readTransferResponse :: "bool \<Rightarrow> ('s, bool) proc" where
  "readTransferResponse isSdBlob =
     (if isSdBlob
      then bindE (rc_readJSON (decode_struct fieldSDBlobTransferResponse (SDBlobTransferResponse False)))
             (\<lambda>r. case r of SDBlobTransferResponse b \<Rightarrow> ret b)
      else bindE (rc_readJSON (decode_struct fieldBlobTransferResponse (BlobTransferResponse False)))
             (\<lambda>r. case r of BlobTransferResponse b \<Rightarrow> ret b))"

definition upload :: "string \<Rightarrow> bytes \<Rightarrow> bool \<Rightarrow> ('s, unit) proc" where
  "upload hash d isSdBlob =
     (if length d > MaxBlobSize then throw (Plain ''blob exceeds maximum size of 2097152 bytes'')
      else thenE (wrapE ''failed to send blob request'' (sendBlobRequest hash (length d) isSdBlob))
        (bindE (wrapE ''failed to read blob response'' (readBlobResponse isSdBlob)) (\<lambda>shouldSend.
           if \<not> shouldSend then throw (Sentinel ErrBlobExists)
           else thenE (wrapE ''failed to send blob data'' (sendBlobData d))
             (bindE (wrapE ''failed to read transfer response'' (readTransferResponse isSdBlob)) (\<lambda>received.
                if \<not> received then throw (Plain ''server failed to receive blob'') else ret ())))))"

section \<open>The client\<close>

record ReflectorClient =
  rc_conn :: "unit net option"
  rc_version :: int

definition NewReflectorClient :: ReflectorClient where
  "NewReflectorClient = \<lparr>rc_conn = None, rc_version = 1\<rparr>"

definition WithReflectorClientVersion :: "int \<Rightarrow> ReflectorClient \<Rightarrow> ReflectorClient" where
  "WithReflectorClientVersion v c = c\<lparr>rc_version := v\<rparr>"

text \<open>\<open>dial\<close> is what dialling the address yields, an error or a new connection.\<close>

definition Connect :: "error + unit net \<Rightarrow> netenv \<Rightarrow> ReflectorClient \<Rightarrow> (error + unit) \<times> ReflectorClient" where
  "Connect dial E c =
     (if rc_conn c \<noteq> None then (Inl (Plain ''connection already established''), c)
      else (case dial of
              Inl e \<Rightarrow> (Inl (Wrapped ''failed to connect'' e), c)
            | Inr conn \<Rightarrow>
                (case rc_doHandshake (rc_version c) E conn of
                   (Inl e, _) \<Rightarrow> (Inl (Wrapped ''handshake failed'' e), c\<lparr>rc_conn := None\<rparr>)
                 | (Inr _, conn') \<Rightarrow> (Inr (), c\<lparr>rc_conn := Some conn'\<rparr>))))"

definition rc_Close :: "netenv \<Rightarrow> ReflectorClient \<Rightarrow> (error + unit) \<times> ReflectorClient" where
  "rc_Close E c =
     (case rc_conn c of
        None \<Rightarrow> (Inr (), c)
      | Some conn \<Rightarrow> (case v_fate E (n_calls conn) of Fails e _ \<Rightarrow> Inl e | _ \<Rightarrow> Inr (), c\<lparr>rc_conn := None\<rparr>))"

definition sendBlob :: "string \<Rightarrow> bytes \<Rightarrow> bool \<Rightarrow> netenv \<Rightarrow> ReflectorClient \<Rightarrow> (error + unit) \<times> ReflectorClient" where
  "sendBlob hash d isSdBlob E c =
     (case rc_conn c of
        None \<Rightarrow> (Inl (Plain ''not connected''), c)
      | Some conn \<Rightarrow> (case upload hash d isSdBlob E conn of (r, conn') \<Rightarrow> (r, c\<lparr>rc_conn := Some conn'\<rparr>)))"

definition SendBlob :: "string \<Rightarrow> bytes \<Rightarrow> netenv \<Rightarrow> ReflectorClient \<Rightarrow> (error + unit) \<times> ReflectorClient" where
  "SendBlob hash d = sendBlob hash d False"

definition SendSDBlob :: "string \<Rightarrow> bytes \<Rightarrow> netenv \<Rightarrow> ReflectorClient \<Rightarrow> (error + unit) \<times> ReflectorClient" where
  "SendSDBlob hash d = sendBlob hash d True"

end
