(* ===== verification/Upload.thy ===== *)
theory Upload
  imports Reflector_Safety ReflectorClient SDBlob
begin

text \<open>
  A client and a server together: the upload of a blob over a connection that works, whatever segments the
  messages arrive in.
\<close>

section \<open>Steps on a working connection\<close>

definition at :: "bytes list \<Rightarrow> bytes list \<Rightarrow> 's \<Rightarrow> 's net \<Rightarrow> bool" where
  "at ins outs s w \<longleftrightarrow> n_buf w = [] \<and> n_in w = ins \<and> n_out w = outs \<and> n_store w = s"

definition segments :: "bytes list \<Rightarrow> bytes \<Rightarrow> bool" where
  "segments segs b \<longleftrightarrow> concat segs = b \<and> [] \<notin> set segs"

lemma at_incoming: "at (segs @ rest) outs s w \<Longrightarrow> segments segs b \<Longrightarrow> incoming src w b (w\<lparr>n_in := rest\<rparr>)"
  by (rule incomingI [of _ segs rest]) (auto simp: at_def segments_def)

lemma runs_deadline: "fine E \<Longrightarrow> runs E (at ins outs s) set_deadline () (at ins outs s)"
  by (simp add: runs_def set_deadline_def fine_def at_def)

lemma runs_Write: "fine E \<Longrightarrow> runs E (at ins outs s) (conn_Write d) (length d) (at ins (outs @ [d]) s)"
  by (simp add: runs_def conn_Write_def fine_def at_def)

lemma runs_writeData: "fine E \<Longrightarrow> runs E (at ins outs s) (writeData d) () (at ins (outs @ [d]) s)"
  unfolding writeData_def
  by (rule runs_bind [OF runs_mapErr [OF runs_deadline] runs_mapErr [OF runs_bind [OF runs_Write]]]) (simp_all add: runs_ret)

lemma runs_Decode:
  assumes "segments segs (Marshal (JObj kvs))" "plain_json (JObj kvs)" "jdepth (JObj kvs) \<le> maxNestingDepth" "dec (JObj kvs) = Some v"
  shows "runs E (at (segs @ rest) outs s) (Decode_msg src dec) v (at rest outs s)"
proof (rule runsI)
  fix w
  assume w: "at (segs @ rest) outs s w"
  have "incoming src w (bytes_of (json_print (JObj kvs))) (w\<lparr>n_in := rest\<rparr>)"
    using at_incoming [OF w assms(1)] by (simp add: Marshal_def)
  then have "Decode_msg src dec E w = (Inr v, w\<lparr>n_in := rest\<rparr>)" using assms by (intro Decode_incoming)
  then show "\<exists>w'. Decode_msg src dec E w = (Inr v, w') \<and> at rest outs s w'" using w by (simp add: at_def)
qed

lemma runs_readJSON:
  assumes "fine E" "segments segs (Marshal (JObj kvs))" "plain_json (JObj kvs)" "jdepth (JObj kvs) \<le> maxNestingDepth" "dec (JObj kvs) = Some v"
  shows "runs E (at (segs @ rest) outs s) (readJSON dec) v (at rest outs s)"
    and "runs E (at (segs @ rest) outs s) (rc_readJSON dec) v (at rest outs s)"
  unfolding readJSON_def rc_readJSON_def
  by (rule runs_bind [OF runs_mapErr [OF runs_deadline [OF assms(1)]] runs_mapErr [OF runs_Decode [where dec = dec, OF assms(2-5)]]],
      rule runs_bind [OF runs_deadline [OF assms(1)] runs_Decode [where dec = dec, OF assms(2-5)]])

lemma runs_readRawBlob:
  assumes "fine E" "segments segs d" "n = int (length d)"
  shows "runs E (at (segs @ rest) outs s) (readRawBlob n) d (at rest outs s)"
  unfolding readRawBlob_def
proof (rule runs_bind [OF runs_mapErr [OF runs_deadline [OF assms(1)]] runs_mapErr [OF runsI]])
  fix w
  assume w: "at (segs @ rest) outs s w"
  from ReadFull_incoming [OF at_incoming [OF w assms(2)], of "[]" E] w
  show "\<exists>w'. io_ReadFull (nat n) [] E w = (Inr d, w') \<and> at rest outs s w'" by (simp add: assms(3) at_def)
qed

lemma runs_get: "fine E \<Longrightarrow> f (\<lambda>_. None) s = Inr x \<Longrightarrow> runs E (at ins outs s) (store_get f) x (at ins outs s)"
  by (auto simp: runs_def store_get_def at_def fine_def)

lemma runs_put: "fine E \<Longrightarrow> f (\<lambda>_. None) s = (None, s') \<Longrightarrow> runs E (at ins outs s) (store_put f) () (at ins outs s')"
  by (auto simp: runs_def store_put_def at_def fine_def)

lemma runs_Notify: "runs E (at ins outs s) (NotifyBlob L b typ h) () (at ins outs s)"
  by (simp add: runs_def NotifyBlob_def at_def)

section \<open>The messages\<close>

lemma message_names [simp]:
  "lower_name ''version''" "lower_name ''blob_hash''" "lower_name ''blob_size''" "lower_name ''sd_blob_hash''" "lower_name ''sd_blob_size''"
  "lower_name ''send_blob''" "lower_name ''send_sd_blob''" "lower_name ''needed_blobs''" "lower_name ''received_blob''" "lower_name ''received_sd_blob''"
  by (simp_all add: lower_name_def less_eq_char_def)

lemma handshake_message:
  assumes "in_i64 v"
  shows "\<exists>kvs. json_Handshake \<lparr>hs_Version = Some v\<rparr> = JObj kvs \<and> plain_json (JObj kvs) \<and> jdepth (JObj kvs) \<le> maxNestingDepth \<and>
    unmarshalHandshake (JObj kvs) = Some \<lparr>hs_Version = Some v\<rparr>"
  using assms by (auto simp: json_Handshake_def unmarshalHandshake_def decode_struct_def fieldHandshake_def names_lower
      decode_int_def ParseInt_Itoa maxNestingDepth_def plain_char_def)

definition request :: "string \<Rightarrow> bytes \<Rightarrow> bool \<Rightarrow> SendBlobRequest" where
  "request h d sd = (if sd then zeroSendBlobRequest\<lparr>rq_SdBlobHash := h, rq_SdBlobSize := int (length d)\<rparr>
     else zeroSendBlobRequest\<lparr>rq_BlobHash := h, rq_BlobSize := int (length d)\<rparr>)"

lemma blob_request_message:
  assumes "plain h" "h \<noteq> []" "0 < length d" "length d \<le> MaxBlobSize"
  shows "\<exists>kvs. json_SendBlobRequest (request h d sd) = JObj kvs \<and> plain_json (JObj kvs) \<and> jdepth (JObj kvs) \<le> maxNestingDepth \<and>
    unmarshalSendBlobRequest (JObj kvs) = Some (request h d sd)"
proof -
  have "in_i64 (int (length d))" using assms(4) by (simp add: in_i64_def MaxBlobSize_def)
  then show ?thesis using assms
    by (cases sd) (auto simp: json_SendBlobRequest_def request_def unmarshalSendBlobRequest_def zeroSendBlobRequest_def
        decode_struct_def fieldSendBlobRequest_def names_lower decode_int_def decode_str_def ParseInt_Itoa maxNestingDepth_def plain_char_def)
qed

definition wanted :: "bool \<Rightarrow> json" where
  "wanted sd = (if sd then json_SendSDBlobResponse (SendSDBlobResponse True []) else json_SendBlobResponse (SendBlobResponse True))"

definition received :: "bool \<Rightarrow> json" where
  "received sd = (if sd then json_SDBlobTransferResponse (SDBlobTransferResponse True)
     else json_BlobTransferResponse (BlobTransferResponse True))"

section \<open>The server's side\<close>

lemma runs_doHandshake:
  assumes "fine E" "segments hs (Marshal (json_Handshake \<lparr>hs_Version = Some v\<rparr>))" "v = 0 \<or> v = 1"
  shows "runs E (at (hs @ rest) outs s) doHandshake () (at rest (outs @ [Marshal (json_Handshake \<lparr>hs_Version = Some v\<rparr>)]) s)"
proof -
  have "in_i64 v" using assms(3) by (auto simp: in_i64_def)
  then obtain kvs where kvs: "json_Handshake \<lparr>hs_Version = Some v\<rparr> = JObj kvs" "plain_json (JObj kvs)"
      "jdepth (JObj kvs) \<le> maxNestingDepth" "unmarshalHandshake (JObj kvs) = Some \<lparr>hs_Version = Some v\<rparr>"
    using handshake_message by blast
  note read = runs_readJSON(1) [where dec = unmarshalHandshake, OF assms(1) assms(2) [unfolded kvs(1)] kvs(2-4)]
  show ?thesis unfolding doHandshake_def
    by (rule runs_bind [OF read]) (use assms(1,3) runs_writeData in \<open>auto simp: writeJSON_def ProtocolVersion1_def ProtocolVersion2_def\<close>)
qed

lemma runs_readBlobRequest:
  assumes "fine E" "segments rq (Marshal (json_SendBlobRequest (request h d sd)))"
    and "Hasher_IsValid h" "0 < length d" "length d \<le> MaxBlobSize"
  shows "runs E (at (rq @ rest) outs s) (readBlobRequest R) (int (length d), h, sd) (at rest outs s)"
proof -
  have h: "h \<noteq> []" "plain h" "length h = BlobHashHexLength"
    using assms(3) hex_chars_plain by (auto simp: Hasher_IsValid_def SHA384HexLength_def BlobHashHexLength_def list_all_iff)
  obtain kvs where kvs: "json_SendBlobRequest (request h d sd) = JObj kvs" "plain_json (JObj kvs)"
      "jdepth (JObj kvs) \<le> maxNestingDepth" "unmarshalSendBlobRequest (JObj kvs) = Some (request h d sd)"
    using blob_request_message [OF h(2,1) assms(4,5)] by blast
  note read = runs_mapErr [OF runs_readJSON(1) [where dec = unmarshalSendBlobRequest, OF assms(1) assms(2) [unfolded kvs(1)] kvs(2-4)]]
  show ?thesis unfolding readBlobRequest_def
    by (rule runs_bind [OF read], cases sd)
       (use h assms(3-5) in \<open>simp_all add: Let_def request_def zeroSendBlobRequest_def ValidateBlobHash_def runs_ret\<close>)
qed

lemma runs_shouldAccept:
  assumes "fine E" "rs_wants R = None" "\<not> denies (rs_access R) h ip" "Has (rs_store R) (\<lambda>_. None) s h = Inr False"
  shows "runs E (at ins outs s) (shouldAcceptBlob R h sd ip) (True, []) (at ins outs s)"
proof -
  have "runs E (at ins outs s) (store_get (\<lambda>c s. Has (rs_store R) c s h)) False (at ins outs s)"
    using assms(1,4) by (intro runs_get)
  note accept = runs_mapErr [OF runs_bind [where f = "\<lambda>b. ret (\<not> b, False)", OF this runs_ret]]
  show ?thesis unfolding shouldAcceptBlob_def using assms(2,3)
    by (simp, intro runs_bind [OF accept]) (simp add: runs_ret)
qed

lemma runs_receive_data:
  assumes "fine E" "segments ds d" "calculateBlobHash R d = h"
    and "(if sd then PutSD (rs_store R) (\<lambda>_. None) s h d else Put (rs_store R) (\<lambda>_. None) s h d) = (None, s')"
  shows "runs E (at (ds @ rest) outs s) (receive_data R (int (length d)) h sd) () (at rest (outs @ [Marshal (received sd)]) s')"
proof -
  have store: "runs E (at rest outs s) (store_blob R h sd d) () (at rest outs s')"
    using assms(1,4) unfolding store_blob_def by (cases sd) (auto intro!: runs_mapErr runs_put)
  have send: "runs E (at rest outs s') (sendTransferResponse True sd) () (at rest (outs @ [Marshal (received sd)]) s')"
    using runs_writeData [OF assms(1), of rest outs s' "Marshal (received sd)"] by (simp add: sendTransferResponse_def received_def)
  show ?thesis unfolding receive_data_def
    by (rule runs_bind [OF runs_mapErr [OF runs_onError [OF runs_readRawBlob [OF assms(1,2) refl]]]])
       (use assms(3) runs_bind [OF store runs_bind [OF runs_Notify send]] in simp)
qed

lemma runs_receiveBlob:
  assumes "fine E" "segments rq (Marshal (json_SendBlobRequest (request h d sd)))" "segments ds d"
    and "Hasher_IsValid h" "0 < length d" "length d \<le> MaxBlobSize" "calculateBlobHash R d = h"
    and "SplitHostPort (v_addr E) = Inr (ip, port)" "rs_wants R = None" "\<not> denies (rs_access R) h ip"
    and "Has (rs_store R) (\<lambda>_. None) s h = Inr False"
    and "(if sd then PutSD (rs_store R) (\<lambda>_. None) s h d else Put (rs_store R) (\<lambda>_. None) s h d) = (None, s')"
  shows "runs E (at (rq @ ds @ rest) outs s) (receiveBlob R) () (at rest (outs @ [Marshal (wanted sd), Marshal (received sd)]) s')"
proof -
  have host: "runs E (at ins outs s) peer_host ip (at ins outs s)" for ins
    using assms(8) by (simp add: runs_def peer_host_def)
  have send: "runs E (at ins outs s) (sendBlobResponse True sd []) () (at ins (outs @ [Marshal (wanted sd)]) s)" for ins
    using runs_writeData [OF assms(1), of ins outs s "Marshal (wanted sd)"] by (simp add: sendBlobResponse_def wanted_def)
  have data: "runs E (at (ds @ rest) (outs @ [Marshal (wanted sd)]) s) (receive_data R (int (length d)) h sd) ()
      (at rest (outs @ [Marshal (wanted sd), Marshal (received sd)]) s')"
    using runs_receive_data [OF assms(1,3,7,12), of rest "outs @ [Marshal (wanted sd)]"] by simp
  show ?thesis unfolding receiveBlob_def
    by (rule runs_bind [OF runs_readBlobRequest [OF assms(1,2,4-6)]],
        simp only: prod.case, rule runs_bind [OF host], rule runs_bind [OF runs_shouldAccept [OF assms(1,9-11)]])
       (use runs_bind [OF send data] in simp)
qed

lemma receiveBlob_closed:
  assumes "fine E" "at [] outs s w"
  shows "\<exists>e w'. receiveBlob R E w = (Inl e, w') \<and> at [] outs s w'"
proof -
  have "\<exists>e. read_value Buffered scan_start [] 0 E w1 = (Inl e, w1)" if "at [] outs s w1" for w1
    using that by (simp add: at_def read_value.simps reader_Read_def bufio_Read_def conn_Read_def bufio_size_def scan_start_def
        begin_value_def is_space_def)
  moreover have "at [] outs s (w\<lparr>n_calls := k\<rparr>)" for k using assms(2) by (simp add: at_def)
  ultimately obtain e where "read_value Buffered scan_start [] 0 E (w\<lparr>n_calls := Suc (n_calls w)\<rparr>) = (Inl e, w\<lparr>n_calls := Suc (n_calls w)\<rparr>)"
    by blast
  then show ?thesis using assms
    by (simp add: receiveBlob_def readBlobRequest_def readJSON_def bindE_def mapErr_def set_deadline_def fine_def Decode_msg_def at_def)
qed

section \<open>The client's side\<close>

lemma runs_rc_writeJSON: "fine E \<Longrightarrow> runs E (at ins outs s) (rc_writeJSON j) () (at ins (outs @ [Marshal j]) s)"
  unfolding rc_writeJSON_def by (rule runs_bind [OF runs_deadline runs_bind [OF runs_Write runs_ret]])

lemma runs_sendBlobData: "fine E \<Longrightarrow> runs E (at ins outs s) (sendBlobData d) () (at ins (outs @ [d]) s)"
  unfolding sendBlobData_def by (rule runs_bind [OF runs_deadline runs_bind [OF runs_Write runs_ret]])

lemma response_json:
  "plain_json (wanted sd)" "jdepth (wanted sd) \<le> maxNestingDepth" "plain_json (received sd)" "jdepth (received sd) \<le> maxNestingDepth"
  by (simp_all add: wanted_def received_def plain_char_def maxNestingDepth_def)

lemma response_decode:
  "decode_struct fieldSendSDBlobResponse (SendSDBlobResponse False []) (wanted True) = Some (SendSDBlobResponse True [])"
  "decode_struct fieldSendBlobResponse (SendBlobResponse False) (wanted False) = Some (SendBlobResponse True)"
  "decode_struct fieldSDBlobTransferResponse (SDBlobTransferResponse False) (received True) = Some (SDBlobTransferResponse True)"
  "decode_struct fieldBlobTransferResponse (BlobTransferResponse False) (received False) = Some (BlobTransferResponse True)"
  by (simp_all add: wanted_def received_def decode_struct_def decode_bool_def names_lower fieldSendSDBlobResponse_def
      fieldSendBlobResponse_def fieldSDBlobTransferResponse_def fieldBlobTransferResponse_def)

lemma response_obj: "\<exists>kvs. wanted sd = JObj kvs" "\<exists>kvs. received sd = JObj kvs"
  by (simp_all add: wanted_def received_def)

lemma runs_rc_readJSON:
  assumes "fine E" "segments segs (Marshal j)" "plain_json j" "jdepth j \<le> maxNestingDepth" "dec j = Some v" "\<exists>kvs. j = JObj kvs"
  shows "runs E (at (segs @ rest) outs s) (rc_readJSON dec) v (at rest outs s)"
proof -
  obtain kvs where "j = JObj kvs" using assms(6) by blast
  then show ?thesis using assms(1-5) by (intro runs_readJSON(2) [where kvs = kvs]) simp_all
qed

lemma runs_readBlobResponse:
  assumes "fine E" "segments segs (Marshal (wanted sd))"
  shows "runs E (at (segs @ rest) outs s) (readBlobResponse sd) True (at rest outs s)"
proof -
  note read = runs_bind [OF runs_rc_readJSON [OF assms response_json(1,2) _ response_obj(1)]]
  show ?thesis unfolding readBlobResponse_def
    by (cases sd) (auto intro!: runs_mapErr read response_decode simp: runs_ret)
qed

lemma runs_readTransferResponse:
  assumes "fine E" "segments segs (Marshal (received sd))"
  shows "runs E (at (segs @ rest) outs s) (readTransferResponse sd) True (at rest outs s)"
proof -
  note read = runs_bind [OF runs_rc_readJSON [OF assms response_json(3,4) _ response_obj(2)]]
  show ?thesis unfolding readTransferResponse_def
    by (cases sd) (auto intro!: read response_decode simp: runs_ret)
qed

lemma runs_upload:
  assumes "fine E" "segments ws (Marshal (wanted sd))" "segments rs (Marshal (received sd))" "length d \<le> MaxBlobSize"
  shows "runs E (at (ws @ rs @ rest) outs s) (upload h d sd) ()
    (at rest (outs @ [Marshal (json_SendBlobRequest (request h d sd)), d]) s)"
proof -
  have ask: "runs E (at ins outs s) (sendBlobRequest h (length d) sd) () (at ins (outs @ [Marshal (json_SendBlobRequest (request h d sd))]) s)" for ins
    using runs_rc_writeJSON [OF assms(1), of ins outs s] unfolding sendBlobRequest_def request_def by blast
  have send: "runs E (at ins (outs @ [x]) s) (sendBlobData d) () (at ins (outs @ [x, d]) s)" for ins x
    using runs_sendBlobData [OF assms(1), of ins "outs @ [x]" s d] by simp
  show ?thesis unfolding upload_def using assms(4)
    by (simp, intro runs_bind [OF runs_mapErr [OF ask] runs_bind [OF runs_mapErr [OF runs_readBlobResponse [OF assms(1,2)]]]])
       (simp, intro runs_bind [OF runs_mapErr [OF send] runs_bind [OF runs_mapErr [OF runs_readTransferResponse [OF assms(1,3)]]]],
        simp add: runs_ret)
qed

lemma runs_rc_doHandshake:
  assumes "fine E" "segments hs (Marshal (json_Handshake \<lparr>hs_Version = Some v\<rparr>))" "in_i64 v"
  shows "runs E (at (hs @ rest) outs s) (rc_doHandshake v) () (at rest (outs @ [Marshal (json_Handshake \<lparr>hs_Version = Some v\<rparr>)]) s)"
proof -
  obtain kvs where kvs: "json_Handshake \<lparr>hs_Version = Some v\<rparr> = JObj kvs" "plain_json (JObj kvs)"
      "jdepth (JObj kvs) \<le> maxNestingDepth" "unmarshalHandshake (JObj kvs) = Some \<lparr>hs_Version = Some v\<rparr>"
    using handshake_message [OF assms(3)] by blast
  note read = runs_readJSON(2) [where dec = unmarshalHandshake, OF assms(1) assms(2) [unfolded kvs(1)] kvs(2-4)]
  show ?thesis unfolding rc_doHandshake_def
    by (rule runs_bind [OF runs_rc_writeJSON [OF assms(1)] runs_bind [OF read]]) (simp add: runs_ret)
qed

section \<open>Both sides\<close>

lemma at_new_conn: "at segs [] s (new_conn segs s)"
  by (simp add: at_def new_conn_def)

lemma server_upload:
  assumes "fine E" "v = 0 \<or> v = 1" "segments hs (Marshal (json_Handshake \<lparr>hs_Version = Some v\<rparr>))"
    and up: "\<And>rest outs. runs E (at (us @ rest) outs s) (receiveBlob R) () (at rest (outs @ answers) s')"
  shows "\<exists>e w'. HandleReflector R E (new_conn (hs @ us) s) = Some (e, w') \<and>
    at [] (Marshal (json_Handshake \<lparr>hs_Version = Some v\<rparr>) # answers) s' w'"
proof -
  obtain w1 where w1: "doHandshake E (new_conn (hs @ us) s) = (Inr (), w1)" "at us [Marshal (json_Handshake \<lparr>hs_Version = Some v\<rparr>)] s w1"
    using runsE [OF runs_doHandshake [OF assms(1,3,2), of us "[]" s] at_new_conn] by auto
  then obtain w2 where w2: "receiveBlob R E w1 = (Inr (), w2)" "at [] (Marshal (json_Handshake \<lparr>hs_Version = Some v\<rparr>) # answers) s' w2"
    using runsE [OF up [of "[]" "[Marshal (json_Handshake \<lparr>hs_Version = Some v\<rparr>)]"], of w1] by auto
  obtain e w3 where w3: "receiveBlob R E w2 = (Inl e, w3)" "at [] (Marshal (json_Handshake \<lparr>hs_Version = Some v\<rparr>) # answers) s' w3"
    using receiveBlob_closed [OF assms(1) w2(2)] by blast
  then have "receive_loop R E w2 = Some (e, w3)" by (simp add: receive_loop_def loopE.simps [of _ E w2])
  moreover have "receive_loop R E w1 = receive_loop R E w2" using w2(1) by (simp add: receive_loop_def loopE.simps [of _ E w1])
  ultimately show ?thesis using w1(1) w3(2) by (simp add: HandleReflector_def)
qed

lemma client_upload:
  assumes "fine E" "in_i64 v" "segments r1 (Marshal (json_Handshake \<lparr>hs_Version = Some v\<rparr>))"
    and "segments r2 (Marshal (wanted sd))" "segments r3 (Marshal (received sd))" "length d \<le> MaxBlobSize"
  shows "\<exists>k k' w. Connect (Inr (new_conn (r1 @ r2 @ r3) ())) E (WithReflectorClientVersion v NewReflectorClient) = (Inr (), k) \<and>
    sendBlob h d sd E k = (Inr (), k') \<and> rc_conn k' = Some w \<and>
    n_out w = [Marshal (json_Handshake \<lparr>hs_Version = Some v\<rparr>), Marshal (json_SendBlobRequest (request h d sd)), d]"
proof -
  obtain w1 where w1: "rc_doHandshake v E (new_conn (r1 @ r2 @ r3) ()) = (Inr (), w1)"
      "at (r2 @ r3) [Marshal (json_Handshake \<lparr>hs_Version = Some v\<rparr>)] () w1"
    using runsE [OF runs_rc_doHandshake [OF assms(1,3,2), of "r2 @ r3" "[]" "()"] at_new_conn] by auto
  then obtain w2 where "upload h d sd E w1 = (Inr (), w2)"
      "at [] [Marshal (json_Handshake \<lparr>hs_Version = Some v\<rparr>), Marshal (json_SendBlobRequest (request h d sd)), d] () w2"
    using runsE [OF runs_upload [OF assms(1,4-6), of "[]" "[Marshal (json_Handshake \<lparr>hs_Version = Some v\<rparr>)]" "()" h], of w1] by auto
  then show ?thesis using w1
    by (auto simp: at_def Connect_def sendBlob_def WithReflectorClientVersion_def NewReflectorClient_def)
qed

context sd_store
begin

lemma put_new:
  assumes "inv s" "lookup s h = None" "valid_hash h" "storable d"
  obtains s' where "(if sd then PutSD B (\<lambda>_. None) s h d else Put B (\<lambda>_. None) s h d) = (None, s')" "inv s'" "lookup s' = (lookup s)(h \<mapsto> d)"
proof (cases sd)
  case True
  obtain s' where s': "PutSD B (\<lambda>_. None) s h d = (None, s')"
    using PutSD_live [OF assms(1) _ assms(3,4), of "\<lambda>_. None"] by (metis prod.collapse)
  with PutSD_ok [OF assms(1) live_ok s'] assms(2) True show ?thesis by (intro that [of s']) auto
next
  case False
  obtain s' where s': "Put B (\<lambda>_. None) s h d = (None, s')"
    using Put_live [OF assms(1) _ assms(3,4), of "\<lambda>_. None"] by (metis prod.collapse)
  with Put_ok [OF assms(1) live_ok s'] False show ?thesis by (intro that [of s']) auto
qed

end

text \<open>
  C13. An upload over a working connection: client and server agree, whatever pieces the messages arrive in. When
  the server gets what the client writes and the client gets what the server writes, the client's
  \<open>Connect\<close> and \<open>SendBlob\<close> (or \<open>SendSDBlob\<close>) succeed, and the server's store holds the blob under its hash
  and is otherwise unchanged. The blob is new to the store, is what the hash says, and the peer may upload it; the
  server has no filter of wanted blobs.
\<close>

theorem Upload_roundtrip:
  assumes "sd_store B lookup ok valid storable same ok_ctx" "rs_store R = B" "rs_wants R = None"
    and "ok s" "lookup s h = None" "valid h" "storable d" "0 < length d" "length d \<le> MaxBlobSize"
    and "Hasher_Hash (rs_sha R) d = h" "length (rs_sha R d) = 48"
    and "SplitHostPort (v_addr E) = Inr (ip, port)" "\<not> denies (rs_access R) h ip"
    and "fine E" "fine E'" "v = 0 \<or> v = 1"
    and "segments c1 (Marshal (json_Handshake \<lparr>hs_Version = Some v\<rparr>))"
        "segments c2 (Marshal (json_SendBlobRequest (request h d sd)))" "segments c3 d"
    and "segments r1 (Marshal (json_Handshake \<lparr>hs_Version = Some v\<rparr>))"
        "segments r2 (Marshal (wanted sd))" "segments r3 (Marshal (received sd))"
  shows "(\<exists>e w. HandleReflector R E (new_conn (c1 @ c2 @ c3) s) = Some (e, w) \<and> n_out w = map concat [r1, r2, r3] \<and>
            ok (n_store w) \<and> lookup (n_store w) = (lookup s)(h \<mapsto> d)) \<and>
         (\<exists>k k' w. Connect (Inr (new_conn (r1 @ r2 @ r3) ())) E' (WithReflectorClientVersion v NewReflectorClient) = (Inr (), k) \<and>
            sendBlob h d sd E' k = (Inr (), k') \<and> rc_conn k' = Some w \<and> n_out w = map concat [c1, c2, c3])"
proof -
  obtain s' where s': "(if sd then PutSD (rs_store R) (\<lambda>_. None) s h d else Put (rs_store R) (\<lambda>_. None) s h d) = (None, s')"
      "ok s'" "lookup s' = (lookup s)(h \<mapsto> d)"
    using sd_store.put_new [OF assms(1,4-7)] assms(2) by metis
  have hash: "Hasher_IsValid h" "calculateBlobHash R d = h"
    using assms(10,11) Hasher_IsValid_Hash by (auto simp: calculateBlobHash_def)
  have has: "Has (rs_store R) (\<lambda>_. None) s h = Inr False"
    using store_core.Has_live [OF sd_store.axioms(1) [OF assms(1)] assms(4) _ assms(6), of "\<lambda>_. None"] assms(2,5) by simp
  note up = runs_receiveBlob [OF assms(14,18,19) hash(1) assms(8,9) hash(2) assms(12,3,13) has s'(1)]
  have "\<exists>e w. HandleReflector R E (new_conn (c1 @ c2 @ c3) s) = Some (e, w) \<and> at [] (map concat [r1, r2, r3]) s' w"
    using server_upload [OF assms(14,16,17), of "c2 @ c3" s R _ s'] up assms(20-22) by (force simp: segments_def)
  moreover have "in_i64 v" using assms(16) by (auto simp: in_i64_def)
  ultimately show ?thesis
    using s'(2,3) client_upload [OF assms(15) _ assms(20-22,9), of h] assms(17-19) by (auto simp: at_def segments_def)
qed

lemma segments_single: "b \<noteq> [] \<Longrightarrow> segments [b] b"
  by (simp add: segments_def)

lemma Marshal_nonempty: "\<exists>kvs. j = JObj kvs \<Longrightarrow> Marshal j \<noteq> []"
  by (auto simp: Marshal_def bytes_of_def json_print_def)

definition sample_digest :: string where
  "sample_digest = Hasher_Hash (rs_sha sample_reflector) [7]"

theorem Upload_roundtrip_witness:
  "\<exists>e w. HandleReflector sample_reflector sample_netenv
       (new_conn [Marshal (json_Handshake \<lparr>hs_Version = Some 1\<rparr>), Marshal (json_SendBlobRequest (request sample_digest [7] False)), [7]] NewMemoryStore)
     = Some (e, w) \<and> mem_lookup (n_store w) = [sample_digest \<mapsto> [7]]"
proof -
  have len: "length (rs_sha sample_reflector [7]) = 48" by (simp add: sample_reflector_def NewReflectorServer_def)
  have valid: "ValidateHash sample_cid_lib sample_digest" "mem_lookup NewMemoryStore = (\<lambda>_. None)"
    using Hasher_IsValid_Hash [of "rs_sha sample_reflector" "[7]"] len by (auto simp: sample_digest_def NewMemoryStore_def mem_lookup_def)
  have seg: "segments [Marshal (json_Handshake \<lparr>hs_Version = Some 1\<rparr>)] (Marshal (json_Handshake \<lparr>hs_Version = Some 1\<rparr>))"
    "segments [Marshal (json_SendBlobRequest (request sample_digest [7] False))] (Marshal (json_SendBlobRequest (request sample_digest [7] False)))"
    "segments [[7]] [7]" "segments [Marshal (wanted False)] (Marshal (wanted False))" "segments [Marshal (received False)] (Marshal (received False))"
    by (auto intro!: segments_single Marshal_nonempty simp: json_Handshake_def json_SendBlobRequest_def response_obj)
  have env: "SplitHostPort (v_addr sample_netenv) = Inr (''10.0.0.7'', ''3333'')" "fine sample_netenv"
    by (simp_all add: sample_netenv_def SplitHostPort_v4 fine_def)
  show ?thesis
    using Upload_roundtrip [OF memsd.sd_store_axioms [of sample_cid_lib] _ _ _ _ valid(1) _ _ _ sample_digest_def [symmetric] len env(1) _ env(2) env(2) _
        seg(1-3) seg(1) seg(4,5), of NewMemoryStore] valid(2)
    by (auto simp: sample_reflector_def NewReflectorServer_def denies_def ValidForSend_def MaxBlobSize_def)
qed

end
