(* ===== verification/Peer.thy ===== *)
theory Peer
  imports Reflector
begin

text \<open>
  The peer server (\<open>protocol/peer.go\<close>), its messages (\<open>protocol/peer_messages.go\<close>) and content protection
  (\<open>protocol/protector.go\<close>): how a request is cut out of the byte stream, what is answered to it and what is
  sent, for every message of a connection.

  A payment rate is only compared with zero. It is kept as the exact decimal \<open>m * 10 ^ e\<close> of its literal, with
  the two thresholds at which \<open>strconv.ParseFloat\<close> rounds to zero or reports a range error.
\<close>

section \<open>Protection\<close>

text \<open>The blacklist, a Go map used as a set.\<close>

type_synonym BlacklistProtector = "string set"

definition NewBlacklistProtector :: BlacklistProtector where
  "NewBlacklistProtector = {}"

definition NewBlacklistProtectorFromHashes :: "string list \<Rightarrow> BlacklistProtector" where
  "NewBlacklistProtectorFromHashes hashes = foldl (\<lambda>bp h. insert h bp) {} hashes"

definition IsProtected :: "BlacklistProtector \<Rightarrow> string \<Rightarrow> bool" where
  "IsProtected bp hash \<longleftrightarrow> hash \<in> bp"

definition AddHash :: "BlacklistProtector \<Rightarrow> string \<Rightarrow> BlacklistProtector" where
  "AddHash bp hash = insert hash bp"

definition RemoveHash :: "BlacklistProtector \<Rightarrow> string \<Rightarrow> BlacklistProtector" where
  "RemoveHash bp hash = bp - {hash}"

section \<open>Numbers\<close>

text \<open>The digits of an exponent are read until it reaches 10000.\<close>

definition exponent :: "string \<Rightarrow> int" where
  "exponent s =
     (let (neg, ds) = (case s of c # r \<Rightarrow> if c = CHR ''-'' then (True, r) else if c = CHR ''+'' then (False, r) else (False, s) | [] \<Rightarrow> (False, []));
          e = foldl (\<lambda>n c. if n < 10000 then 10 * n + int (digit_val c) else n) 0 ds
      in if neg then - e else e)"

definition is_exp_char :: "char \<Rightarrow> bool" where
  "is_exp_char c \<longleftrightarrow> c = CHR ''e'' \<or> c = CHR ''E''"

definition decimal :: "string \<Rightarrow> int \<times> int" where
  "decimal l =
     (let (neg, body) = (case l of c # r \<Rightarrow> if c = CHR ''-'' then (True, r) else (False, l) | [] \<Rightarrow> (False, []));
          mant = takeWhile (\<lambda>c. \<not> is_exp_char c) body;
          ex = drop (Suc (length mant)) body;
          ip = takeWhile (\<lambda>c. c \<noteq> CHR ''.'') mant;
          fp = drop (Suc (length ip)) mant;
          m = int (nat_of_text (ip @ fp))
      in (if neg then - m else m, exponent ex - int (length fp)))"

text \<open>The largest magnitude that is rounded to zero is \<open>2 ^ -1075\<close>, the smallest that overflows \<open>2 ^ 1024 - 2 ^ 970\<close>.\<close>

definition tiny :: "int \<times> int \<Rightarrow> bool" where
  "tiny x \<longleftrightarrow> (case x of (m, e) \<Rightarrow> if 0 \<le> e then m = 0 else \<bar>m\<bar> * 2 ^ 1075 \<le> 10 ^ nat (- e))"

definition huge :: "int \<times> int \<Rightarrow> bool" where
  "huge x \<longleftrightarrow> (case x of (m, e) \<Rightarrow>
     if 0 \<le> e then 2 ^ 1024 - 2 ^ 970 \<le> \<bar>m\<bar> * 10 ^ nat e else (2 ^ 1024 - 2 ^ 970) * 10 ^ nat (- e) \<le> \<bar>m\<bar>)"

definition ParseFloat :: "string \<Rightarrow> (int \<times> int) option" where
  "ParseFloat l = (let x = decimal l in if huge x then None else Some (if tiny x then (0, 0) else x))"

section \<open>Messages\<close>

record CompositeRequest =
  RequestedBlobs :: "string list"
  rq_PaymentRate :: "(int \<times> int) option"
  RequestedBlob :: string

record IncomingBlob =
  ib_Error :: string
  ib_BlobHash :: string
  ib_Length :: int

text \<open>A nil list of available blobs is \<open>None\<close>: it is written as \<open>null\<close>.\<close>

record CompositeResponse =
  AvailableBlobs :: "string list option"
  rp_PaymentRate :: string
  rp_IncomingBlob :: "IncomingBlob option"

definition decode_rate :: "json \<Rightarrow> (int \<times> int) option option" where
  "decode_rate v = (case v of JNull \<Rightarrow> Some None | JNum l \<Rightarrow> map_option Some (ParseFloat l) | _ \<Rightarrow> None)"

definition fieldCompositeRequest :: "string \<Rightarrow> json \<Rightarrow> CompositeRequest \<Rightarrow> CompositeRequest option" where
  "fieldCompositeRequest k v s =
     (if names k ''requested_blobs'' then map_option (\<lambda>x. s\<lparr>RequestedBlobs := x\<rparr>) (decode_strings (RequestedBlobs s) v)
      else if names k ''blob_data_payment_rate'' then map_option (\<lambda>x. s\<lparr>rq_PaymentRate := x\<rparr>) (decode_rate v)
      else if names k ''requested_blob'' then map_option (\<lambda>x. s\<lparr>RequestedBlob := x\<rparr>) (decode_str (RequestedBlob s) v)
      else Some s)"

definition zeroCompositeRequest :: CompositeRequest where
  "zeroCompositeRequest = \<lparr>RequestedBlobs = [], rq_PaymentRate = None, RequestedBlob = []\<rparr>"

definition json_IncomingBlob :: "IncomingBlob \<Rightarrow> json" where
  "json_IncomingBlob b =
     JObj ((if ib_Error b = [] then [] else [(''error'', JStr (ib_Error b))]) @
           [(''blob_hash'', JStr (ib_BlobHash b)), (''length'', JNum (Itoa (ib_Length b)))])"

definition json_CompositeResponse :: "CompositeResponse \<Rightarrow> json" where
  "json_CompositeResponse r =
     JObj ((''available_blobs'', case AvailableBlobs r of None \<Rightarrow> JNull | Some hs \<Rightarrow> JArr (map JStr hs)) #
           (if rp_PaymentRate r = [] then [] else [(''blob_data_payment_rate'', JStr (rp_PaymentRate r))]) @
           (case rp_IncomingBlob r of None \<Rightarrow> [] | Some b \<Rightarrow> [(''incoming_blob'', json_IncomingBlob b)]))"

section \<open>Requests\<close>

definition MaxRequestSize :: nat where
  "MaxRequestSize = 65536"

definition PaymentRateAccepted :: string where
  "PaymentRateAccepted = ''RATE_ACCEPTED''"

definition PaymentRateTooLow :: string where
  "PaymentRateTooLow = ''RATE_TOO_LOW''"

record 's PeerServer =
  ps_store :: "'s BlobStore"
  ps_protector :: "(string \<Rightarrow> bool) option"
  ps_access :: "(string \<Rightarrow> string \<Rightarrow> bool) option"
  ps_notifier :: bool
  ps_lib :: cid_lib

definition NewPeerServer :: "'s BlobStore \<Rightarrow> cid_lib \<Rightarrow> 's PeerServer" where
  "NewPeerServer B L = \<lparr>ps_store = B, ps_protector = None, ps_access = None, ps_notifier = False, ps_lib = L\<rparr>"

definition WithPeerProtector :: "(string \<Rightarrow> bool) \<Rightarrow> 's PeerServer \<Rightarrow> 's PeerServer" where
  "WithPeerProtector f P = P\<lparr>ps_protector := Some f\<rparr>"

definition WithPeerAccessControl :: "(string \<Rightarrow> string \<Rightarrow> bool) \<Rightarrow> 's PeerServer \<Rightarrow> 's PeerServer" where
  "WithPeerAccessControl allow P = P\<lparr>ps_access := Some allow\<rparr>"

definition WithPeerNotifier :: "'s PeerServer \<Rightarrow> 's PeerServer" where
  "WithPeerNotifier P = P\<lparr>ps_notifier := True\<rparr>"

definition isProtected :: "'s PeerServer \<Rightarrow> string \<Rightarrow> bool" where
  "isProtected P hash = (case ps_protector P of None \<Rightarrow> False | Some f \<Rightarrow> f hash)"

definition IsValidJSON :: "bytes \<Rightarrow> bool" where
  "IsValidJSON b \<longleftrightarrow> json_valid (string_of b)"

definition parseRequest :: "bytes \<Rightarrow> CompositeRequest option" where
  "parseRequest b =
     (case json_parse (string_of b) of
        None \<Rightarrow> None
      | Some j \<Rightarrow> decode_struct fieldCompositeRequest zeroCompositeRequest j)"

definition createIncomingBlobError :: "string \<Rightarrow> string \<Rightarrow> IncomingBlob" where
  "createIncomingBlobError blobHash errorMsg = \<lparr>ib_Error = errorMsg, ib_BlobHash = blobHash, ib_Length = 0\<rparr>"

definition createErrorResponse :: "string \<Rightarrow> CompositeResponse" where
  "createErrorResponse errorMsg =
     \<lparr>AvailableBlobs = None, rp_PaymentRate = [],
      rp_IncomingBlob = Some \<lparr>ib_Error = errorMsg, ib_BlobHash = [], ib_Length = 0\<rparr>\<rparr>"

text \<open>The checks that come before the store is asked, in the order of the code.\<close>

fun handleBlobAvailabilityRequest :: "'s PeerServer \<Rightarrow> string list \<Rightarrow> string \<Rightarrow> ('s, string list) proc" where
  "handleBlobAvailabilityRequest P [] peerIP = ret []"
| "handleBlobAvailabilityRequest P (hash # hashes) peerIP =
     (if length hash \<noteq> BlobHashHexLength \<or> \<not> ValidateHash (ps_lib P) hash \<or> isProtected P hash \<or> denies (ps_access P) hash peerIP
      then handleBlobAvailabilityRequest P hashes peerIP
      else bindE (tryE (store_get (\<lambda>c s. Has (ps_store P) c s hash))) (\<lambda>r.
        bindE (handleBlobAvailabilityRequest P hashes peerIP) (\<lambda>rest.
          ret (if r = Inr True then hash # rest else rest))))"

text \<open>
  \<open>Inr d\<close> stands for a slice that is not nil, be it empty: both stores allocate what they return. The branch for a
  nil slice without an error, which neither store returns, has no counterpart.
\<close>

definition handleBlobDataRequest :: "'s PeerServer \<Rightarrow> string \<Rightarrow> string \<Rightarrow> ('s, IncomingBlob \<times> bytes option) proc" where
  "handleBlobDataRequest P blobHash peerIP =
     (let refuse = (\<lambda>msg. ret (createIncomingBlobError blobHash msg, None)) in
      if length blobHash \<noteq> BlobHashHexLength then refuse (message ErrInvalidHashLen)
      else if \<not> ValidateHash (ps_lib P) blobHash then refuse (message ErrInvalidHash)
      else if isProtected P blobHash then refuse (message ErrBlobProtected)
      else if denies (ps_access P) blobHash peerIP then refuse (message ErrAccessDenied)
      else bindE (tryE (store_get (\<lambda>c s. Get (ps_store P) c s blobHash))) (\<lambda>r.
        case r of
          Inl e \<Rightarrow>
            if errText e = message ErrBlobNotFound \<or> sublist ''blob not found'' (errText e)
            then refuse (message ErrBlobNotFound) else refuse ''failed to retrieve blob''
        | Inr d \<Rightarrow>
            thenE (NotifyBlob (ps_lib P) (ps_notifier P) NOTIFY_BLOB_ADDED blobHash)
              (ret (\<lparr>ib_Error = [], ib_BlobHash = blobHash, ib_Length = int (length d)\<rparr>, Some d))))"

definition handleBlobPaymentRateRequest :: "'s PeerServer \<Rightarrow> string list \<Rightarrow> int \<times> int \<Rightarrow> string \<Rightarrow> ('s, string) proc" where
  "handleBlobPaymentRateRequest P blobHashes paymentRate peerIP =
     (if fst paymentRate < 0 then ret PaymentRateTooLow
      else (case blobHashes of
              [] \<Rightarrow> ret PaymentRateAccepted
            | blobHash # _ \<Rightarrow>
                if length blobHash \<noteq> BlobHashHexLength then ret PaymentRateTooLow
                else if \<not> ValidateHash (ps_lib P) blobHash then ret PaymentRateTooLow
                else if isProtected P blobHash then ret (message ErrBlobProtected)
                else if denies (ps_access P) blobHash peerIP then ret PaymentRateTooLow
                else bindE (tryE (store_get (\<lambda>c s. Has (ps_store P) c s blobHash))) (\<lambda>r.
                  ret (if r = Inr True then PaymentRateAccepted else PaymentRateTooLow))))"

definition handleRequest :: "'s PeerServer \<Rightarrow> CompositeRequest \<Rightarrow> string \<Rightarrow> ('s, CompositeResponse \<times> bytes option) proc" where
  "handleRequest P request peerIP =
     bindE (if RequestedBlob request \<noteq> []
            then bindE (handleBlobDataRequest P (RequestedBlob request) peerIP) (\<lambda>(ib, d). ret (Some ib, d))
            else ret (None, None)) (\<lambda>(incoming, blobData).
     bindE (case rq_PaymentRate request of
              None \<Rightarrow> ret []
            | Some rate \<Rightarrow> handleBlobPaymentRateRequest P (RequestedBlobs request) rate peerIP) (\<lambda>rate.
     bindE (if RequestedBlobs request \<noteq> [] then handleBlobAvailabilityRequest P (RequestedBlobs request) peerIP else ret []) (\<lambda>available.
       ret (\<lparr>AvailableBlobs = Some available, rp_PaymentRate = rate, rp_IncomingBlob = incoming\<rparr>, blobData))))"

section \<open>Reading and answering\<close>

definition json_space :: "byte \<Rightarrow> bool" where
  "json_space b \<longleftrightarrow> b = 0x20 \<or> b = 0x09 \<or> b = 0x0D \<or> b = 0x0A"

lemma ReadByte_pending: "bufio_ReadByte E w = (Inr b, w') \<Longrightarrow> pending w' < pending w"
proof (induction E w rule: bufio_ReadByte.induct)
  case (1 E w)
  show ?case
  proof (cases "n_buf w")
    case Nil
    obtain r1 w1 where c: "conn_Read bufio_size E w = (r1, w1)" by fastforce
    then obtain d where d: "r1 = Inr d" using "1.prems" Nil by (cases r1) (simp_all add: bufio_ReadByte.simps [of E w])
    have "bufio_ReadByte E (w1\<lparr>n_buf := d\<rparr>) = (Inr b, w')" using "1.prems" Nil c d by (simp add: bufio_ReadByte.simps [of E w])
    from "1.IH" [OF Nil c [symmetric] d this] have "pending w' < pending (w1\<lparr>n_buf := d\<rparr>)" .
    moreover have "pending (w1\<lparr>n_buf := d\<rparr>) \<le> pending w"
      using conn_Read_pending [of bufio_size E w d w1] c d Nil
      by (auto simp: conn_Read_def pending_def bufio_size_def split: list.splits if_splits)
    ultimately show ?thesis by simp
  qed (use "1.prems" in \<open>auto simp: bufio_ReadByte.simps [of E w] pending_def\<close>)
qed

lemma ReadBytes_pending: "bufio_ReadBytes delim acc E w = (Inr b, w') \<Longrightarrow> pending w' < pending w"
proof (induction delim acc E w rule: bufio_ReadBytes.induct)
  case (1 delim acc E w)
  show ?case
  proof (cases "delim \<in> set (n_buf w)")
    case True
    then have "0 < length (n_buf w)" by auto
    then have "length (tl (dropWhile (\<lambda>b. b \<noteq> delim) (n_buf w))) < length (n_buf w)"
      using length_dropWhile_le [of "\<lambda>b. b \<noteq> delim" "n_buf w"] by (simp only: length_tl)
    then show ?thesis using "1.prems" True by (auto simp: bufio_ReadBytes.simps [of delim acc] pending_def)
  next
    case False
    obtain r1 w1 where c: "conn_Read bufio_size E w = (r1, w1)" by fastforce
    then obtain d where d: "r1 = Inr d" using "1.prems" False by (cases r1) (simp_all add: bufio_ReadBytes.simps [of delim acc])
    have "bufio_ReadBytes delim (acc @ n_buf w) E (w1\<lparr>n_buf := d\<rparr>) = (Inr b, w')"
      using "1.prems" False c d by (simp add: bufio_ReadBytes.simps [of delim acc E w])
    from "1.IH" [OF False c [symmetric] d this] have "pending w' < pending (w1\<lparr>n_buf := d\<rparr>)" .
    moreover have "pending (w1\<lparr>n_buf := d\<rparr>) \<le> pending w"
      using c d by (auto simp: conn_Read_def pending_def bufio_size_def split: list.splits if_splits)
    ultimately show ?thesis by simp
  qed
qed

function read_object :: "bytes \<Rightarrow> netenv \<Rightarrow> 's net \<Rightarrow> (error + bytes) \<times> 's net" where
  "read_object buffer E w =
     (if length buffer > MaxRequestSize then (Inl (Sentinel ErrRequestTooLarge), w)
      else (case bufio_ReadBytes 0x7D [] E w of
              (Inl e, w') \<Rightarrow> (Inl e, w')
            | (Inr chunk, w') \<Rightarrow> if IsValidJSON (buffer @ chunk) then (Inr (buffer @ chunk), w') else read_object (buffer @ chunk) E w'))"
  by pat_completeness auto
termination by (relation "measure (\<lambda>(buffer, E, w). pending w)") (auto dest: ReadBytes_pending [OF sym])

declare read_object.simps [simp del]

lemma read_object_unread: "read_object buffer E w = (Inr m, w') \<Longrightarrow> buffer @ unread w = m @ unread w' \<and> IsValidJSON m"
proof (induction buffer E w rule: read_object.induct)
  case (1 buffer E w)
  have small: "\<not> length buffer > MaxRequestSize" using "1.prems" by (auto simp: read_object.simps [of buffer E w])
  obtain r1 w1 where c: "bufio_ReadBytes 0x7D [] E w = (r1, w1)" by fastforce
  then obtain chunk where d: "r1 = Inr chunk" using "1.prems" small by (cases r1) (simp_all add: read_object.simps [of buffer E w])
  have chunk: "unread w = chunk @ unread w1" using ReadBytes_unread [of "0x7D" "[]" E w chunk w1] c d by simp
  show ?case
  proof (cases "IsValidJSON (buffer @ chunk)")
    case True
    then show ?thesis using "1.prems" small c d chunk by (auto simp: read_object.simps [of buffer E w])
  next
    case False
    then show ?thesis using "1.prems" "1.IH" [OF small c [symmetric] d False] small c d chunk by (simp add: read_object.simps [of buffer E w])
  qed
qed

function readNextMessage :: "netenv \<Rightarrow> 's net \<Rightarrow> (error + bytes) \<times> 's net" where
  "readNextMessage E w =
     (case bufio_ReadByte E w of
        (Inl e, w') \<Rightarrow> (Inl e, w')
      | (Inr b, w') \<Rightarrow>
          if json_space b then readNextMessage E w'
          else if b \<noteq> 0x7B then (Inl (Sentinel ErrInvalidData), w')
          else read_object [b] E w')"
  by pat_completeness auto
termination by (relation "measure (\<lambda>(E, w). pending w)") (auto dest: ReadByte_pending [OF sym])

declare readNextMessage.simps [simp del]

definition sendResponse :: "CompositeResponse \<Rightarrow> bytes option \<Rightarrow> ('s, unit) proc" where
  "sendResponse response blobData =
     wrapE ''failed to write response''
       (bindE (conn_Write (Marshal (json_CompositeResponse response) @ (case blobData of None \<Rightarrow> [] | Some d \<Rightarrow> d))) (\<lambda>_. ret ()))"

definition sendError :: "string \<Rightarrow> ('s, unit) proc" where
  "sendError errorMsg =
     bindE (tryE set_deadline) (\<lambda>r.
       case r of
         Inl _ \<Rightarrow> ret ()
       | Inr _ \<Rightarrow> thenE (tryE (conn_Write (Marshal (json_CompositeResponse (createErrorResponse errorMsg)))))
                    (thenE (tryE set_deadline) (ret ())))"

definition peer_ip :: "('s, string) proc" where
  "peer_ip = (\<lambda>E w. (Inr (GetConnectionIP E), w))"

text \<open>
  One round of the loop of \<open>HandleConnection\<close>: what follows a parsed request, what follows a message, and the
  round. An error ends the connection.
\<close>

definition answer_request :: "'s PeerServer \<Rightarrow> CompositeRequest \<Rightarrow> string \<Rightarrow> ('s, unit) proc" where
  "answer_request P rq ip =
     bindE (tryE (handleRequest P rq ip)) (\<lambda>r.
       case r of
         Inl e \<Rightarrow> sendError (errText e)
       | Inr (response, blobData) \<Rightarrow> thenE set_deadline (thenE (sendResponse response blobData) set_deadline))"

definition answer_message :: "'s PeerServer \<Rightarrow> bytes \<Rightarrow> ('s, unit) proc" where
  "answer_message P m =
     thenE set_deadline
       (if length m > MaxRequestSize then sendError (message ErrRequestTooLarge)
        else (case parseRequest m of
                None \<Rightarrow> sendError (message ErrInvalidData)
              | Some request \<Rightarrow> bindE peer_ip (answer_request P request)))"

definition serve :: "'s PeerServer \<Rightarrow> ('s, unit) proc" where
  "serve P = thenE set_deadline (bindE readNextMessage (answer_message P))"

definition HandlePeer :: "'s PeerServer \<Rightarrow> netenv \<Rightarrow> 's net \<Rightarrow> (error \<times> 's net) option" where
  "HandlePeer P E w = loopE (serve P) E w"

end
