(* ===== verification/Peer_Safety.thy ===== *)
theory Peer_Safety
  imports Peer Memory
begin

text \<open>
  What a peer server discloses, for every store and every failure; and, over a working connection, the whole
  transcript as a function of the bytes received.
\<close>

section \<open>Disclosure\<close>

definition servable :: "'s PeerServer \<Rightarrow> string \<Rightarrow> string \<Rightarrow> bool" where
  "servable P ip h \<longleftrightarrow> length h = BlobHashHexLength \<and> ValidateHash (ps_lib P) h \<and> \<not> isProtected P h \<and> \<not> denies (ps_access P) h ip"

text \<open>
  The answer to a request about the blobs \<open>lk\<close>. A refusal names the first check that fails, and a store that
  fails; the payment rate is accepted for no blob or for a first blob that may be served and is stored. What
  is announced are requested hashes, and one blob is sent with its hash and length.
\<close>

definition refusal :: "'s PeerServer \<Rightarrow> string \<Rightarrow> string \<Rightarrow> string \<Rightarrow> bool" where
  "refusal P ip h msg \<longleftrightarrow>
     (if length h \<noteq> BlobHashHexLength then msg = message ErrInvalidHashLen
      else if \<not> ValidateHash (ps_lib P) h then msg = message ErrInvalidHash
      else if isProtected P h then msg = message ErrBlobProtected
      else if denies (ps_access P) h ip then msg = message ErrAccessDenied
      else msg = message ErrBlobNotFound \<or> msg = ''failed to retrieve blob'')"

definition rate_answer :: "'s PeerServer \<Rightarrow> string \<Rightarrow> (string \<Rightarrow> bytes option) \<Rightarrow> CompositeRequest \<Rightarrow> string \<Rightarrow> bool" where
  "rate_answer P ip lk rq a \<longleftrightarrow>
     (case rq_PaymentRate rq of
        None \<Rightarrow> a = []
      | Some r \<Rightarrow> a = PaymentRateTooLow \<or>
          a = PaymentRateAccepted \<and> 0 \<le> fst r \<and> (\<forall>h hs. RequestedBlobs rq = h # hs \<longrightarrow> servable P ip h \<and> lk h \<noteq> None) \<or>
          a = message ErrBlobProtected \<and> (\<exists>h hs. RequestedBlobs rq = h # hs \<and> isProtected P h))"

definition discloses :: "'s PeerServer \<Rightarrow> string \<Rightarrow> (string \<Rightarrow> bytes option) \<Rightarrow> CompositeRequest \<Rightarrow> CompositeResponse \<Rightarrow> bytes option \<Rightarrow> bool" where
  "discloses P ip lk rq rp od \<longleftrightarrow>
     (\<exists>hs. AvailableBlobs rp = Some hs \<and> subseq hs (RequestedBlobs rq) \<and> (\<forall>h \<in> set hs. servable P ip h \<and> lk h \<noteq> None)) \<and>
     rate_answer P ip lk rq (rp_PaymentRate rp) \<and>
     (case od of
        None \<Rightarrow>
          (if RequestedBlob rq = [] then rp_IncomingBlob rp = None
           else \<exists>msg. refusal P ip (RequestedBlob rq) msg \<and>
                  rp_IncomingBlob rp = Some \<lparr>ib_Error = msg, ib_BlobHash = RequestedBlob rq, ib_Length = 0\<rparr>)
      | Some d \<Rightarrow> servable P ip (RequestedBlob rq) \<and> lk (RequestedBlob rq) = Some d \<and>
          rp_IncomingBlob rp = Some \<lparr>ib_Error = [], ib_BlobHash = RequestedBlob rq, ib_Length = int (length d)\<rparr>)"

abbreviation in_store :: "'s \<Rightarrow> 's net \<Rightarrow> bool" where
  "in_store s \<equiv> (\<lambda>w. n_store w = s)"

lemma hoare_get: "(\<And>k. Q (f (v_ctx E k) s)) \<Longrightarrow> hoare E (in_store s) (tryE (store_get f)) (\<lambda>w r. n_store w = s \<and> Q r) (\<lambda>_ _. False)"
  by (auto simp: hoare_def tryE_def store_get_def split: sum.splits)

lemma hoare_Notify: "hoare E (in_store s) (NotifyBlob L b t h) (\<lambda>w _. n_store w = s) (\<lambda>_ _. False)"
  by (auto simp: hoare_def NotifyBlob_def)

lemma hoare_value: "Q x \<Longrightarrow> hoare E (in_store s) (ret x) (\<lambda>w r. n_store w = s \<and> Q r) (\<lambda>_ _. False)"
  by (simp add: hoare_def ret_def)

lemma hoare_then:
  assumes "hoare E (in_store s) m (\<lambda>w x. n_store w = s \<and> Q' x) (\<lambda>_ _. False)"
    and "\<And>x. Q' x \<Longrightarrow> hoare E (in_store s) (f x) (\<lambda>w y. n_store w = s \<and> Q y) (\<lambda>_ _. False)"
  shows "hoare E (in_store s) (bindE m f) (\<lambda>w y. n_store w = s \<and> Q y) (\<lambda>_ _. False)"
  by (rule hoare_bind [OF assms(1)]) (use assms(2) in \<open>fastforce simp: hoare_def\<close>)

context store_safe
begin

lemma availability_discloses:
  assumes "inv s" "\<And>k. ok_ctx (v_ctx E k)" "ps_store P = B"
  shows "hoare E (in_store s) (handleBlobAvailabilityRequest P hs ip)
    (\<lambda>w r. n_store w = s \<and> (subseq r hs \<and> (\<forall>h \<in> set r. servable P ip h \<and> lookup s h \<noteq> None))) (\<lambda>_ _. False)"
proof (induction hs)
  case (Cons h hs)
  show ?case
  proof (cases "servable P ip h")
    case True
    have has: "hoare E (in_store s) (tryE (store_get (\<lambda>c s. Has (ps_store P) c s h)))
        (\<lambda>w r. n_store w = s \<and> (r = Inr True \<longrightarrow> lookup s h \<noteq> None)) (\<lambda>_ _. False)"
      by (rule hoare_get) (use Has_Inr [OF assms(1,2)] assms(3) in auto)
    have "handleBlobAvailabilityRequest P (h # hs) ip =
        bindE (tryE (store_get (\<lambda>c s. Has (ps_store P) c s h))) (\<lambda>r.
          bindE (handleBlobAvailabilityRequest P hs ip) (\<lambda>rest. ret (if r = Inr True then h # rest else rest)))"
      using True by (simp add: servable_def)
    then show ?thesis using True by (simp only:) (intro hoare_then [OF has] hoare_then [OF Cons] hoare_value, auto)
  next
    case False
    then show ?thesis using Cons by (auto simp: servable_def elim!: hoare_weaken)
  qed
qed (simp add: hoare_value)

lemma data_discloses:
  assumes "inv s" "\<And>k. ok_ctx (v_ctx E k)" "ps_store P = B"
  shows "hoare E (in_store s) (handleBlobDataRequest P h ip)
    (\<lambda>w r. n_store w = s \<and> (case r of
        (ib, None) \<Rightarrow> \<exists>msg. refusal P ip h msg \<and> ib = \<lparr>ib_Error = msg, ib_BlobHash = h, ib_Length = 0\<rparr>
      | (ib, Some d) \<Rightarrow> servable P ip h \<and> lookup s h = Some d \<and>
          ib = \<lparr>ib_Error = [], ib_BlobHash = h, ib_Length = int (length d)\<rparr>)) (\<lambda>_ _. False)"
    (is "hoare _ _ _ (\<lambda>w r. _ \<and> ?Q r) _")
proof -
  define Q where "Q = ?Q"
  have refuse: "refusal P ip h msg \<Longrightarrow> hoare E (in_store s) (ret (createIncomingBlobError h msg, None)) (\<lambda>w r. n_store w = s \<and> Q r) (\<lambda>_ _. False)" for msg
    by (rule hoare_value) (simp add: createIncomingBlobError_def Q_def)
  have get: "hoare E (in_store s) (tryE (store_get (\<lambda>c s. Get (ps_store P) c s h)))
      (\<lambda>w r. n_store w = s \<and> (\<forall>d. r = Inr d \<longrightarrow> lookup s h = Some d)) (\<lambda>_ _. False)"
    by (rule hoare_get) (use Get_Inr [OF assms(1,2)] assms(3) in auto)
  have notify: "hoare E (in_store s) (thenE (NotifyBlob L b t h) (ret x)) (\<lambda>w r. n_store w = s \<and> Q r) (\<lambda>_ _. False)"
    if "Q x" for L b t and x :: "IncomingBlob \<times> bytes option"
    by (rule hoare_bind [OF hoare_Notify], rule hoare_value) (rule that)
  have "hoare E (in_store s) (handleBlobDataRequest P h ip) (\<lambda>w r. n_store w = s \<and> Q r) (\<lambda>_ _. False)"
  proof (cases "servable P ip h")
    case True
    then have "lookup s h = Some d \<Longrightarrow> Q (\<lparr>ib_Error = [], ib_BlobHash = h, ib_Length = int (length d)\<rparr>, Some d)" for d
      by (simp add: Q_def)
    moreover have "refusal P ip h (message ErrBlobNotFound)" "refusal P ip h ''failed to retrieve blob''"
      using True by (simp_all add: refusal_def servable_def)
    ultimately show ?thesis using True unfolding handleBlobDataRequest_def servable_def Let_def
      by simp (intro hoare_then [OF get], auto split: sum.split intro!: refuse notify)
  next
    case False
    then show ?thesis unfolding handleBlobDataRequest_def servable_def Let_def by (auto intro!: refuse simp: refusal_def)
  qed
  then show ?thesis unfolding Q_def .
qed

lemma rate_discloses:
  assumes "inv s" "\<And>k. ok_ctx (v_ctx E k)" "ps_store P = B"
  shows "hoare E (in_store s) (case rq_PaymentRate rq of None \<Rightarrow> ret [] | Some rate \<Rightarrow> handleBlobPaymentRateRequest P (RequestedBlobs rq) rate ip)
    (\<lambda>w a. n_store w = s \<and> rate_answer P ip (lookup s) rq a) (\<lambda>_ _. False)"
proof (cases "\<exists>r h hs. rq_PaymentRate rq = Some r \<and> 0 \<le> fst r \<and> RequestedBlobs rq = h # hs \<and> servable P ip h")
  case True
  then obtain r h hs where c: "rq_PaymentRate rq = Some r" "0 \<le> fst r" "RequestedBlobs rq = h # hs" "servable P ip h" by blast
  have has: "hoare E (in_store s) (tryE (store_get (\<lambda>c s. Has (ps_store P) c s h)))
      (\<lambda>w r. n_store w = s \<and> (r = Inr True \<longrightarrow> lookup s h \<noteq> None)) (\<lambda>_ _. False)"
    by (rule hoare_get) (use Has_Inr [OF assms(1,2)] assms(3) in auto)
  have "handleBlobPaymentRateRequest P (RequestedBlobs rq) r ip =
      bindE (tryE (store_get (\<lambda>c s. Has (ps_store P) c s h))) (\<lambda>x. ret (if x = Inr True then PaymentRateAccepted else PaymentRateTooLow))"
    using c by (simp add: handleBlobPaymentRateRequest_def servable_def)
  moreover have "hoare E (in_store s) \<dots> (\<lambda>w a. n_store w = s \<and> rate_answer P ip (lookup s) rq a) (\<lambda>_ _. False)"
    by (rule hoare_then [OF has], rule hoare_value) (use c in \<open>simp add: rate_answer_def\<close>)
  ultimately show ?thesis using c(1) by simp
next
  case False
  then have "\<exists>a. (case rq_PaymentRate rq of None \<Rightarrow> ret [] | Some rate \<Rightarrow> handleBlobPaymentRateRequest P (RequestedBlobs rq) rate ip) = ret a \<and>
      rate_answer P ip (lookup s) rq a"
    by (cases "rq_PaymentRate rq"; cases "RequestedBlobs rq")
       (auto simp: rate_answer_def handleBlobPaymentRateRequest_def servable_def)
  then show ?thesis using hoare_value by metis
qed

lemma handleRequest_discloses:
  assumes "inv s" "\<And>k. ok_ctx (v_ctx E k)" "ps_store P = B"
  shows "hoare E (in_store s) (handleRequest P rq ip)
    (\<lambda>w r. n_store w = s \<and> (case r of (rp, od) \<Rightarrow> discloses P ip (lookup s) rq rp od)) (\<lambda>_ _. False)"
proof -
  let ?D = "\<lambda>r. case r of
        (ib, None) \<Rightarrow>
          (if RequestedBlob rq = [] then ib = None
           else \<exists>msg. refusal P ip (RequestedBlob rq) msg \<and> ib = Some \<lparr>ib_Error = msg, ib_BlobHash = RequestedBlob rq, ib_Length = 0\<rparr>)
      | (ib, Some d) \<Rightarrow> servable P ip (RequestedBlob rq) \<and> lookup s (RequestedBlob rq) = Some d \<and>
          ib = Some \<lparr>ib_Error = [], ib_BlobHash = RequestedBlob rq, ib_Length = int (length d)\<rparr>"
  have data: "hoare E (in_store s) (if RequestedBlob rq \<noteq> []
            then bindE (handleBlobDataRequest P (RequestedBlob rq) ip) (\<lambda>(ib, d). ret (Some ib, d))
            else ret (None, None)) (\<lambda>w r. n_store w = s \<and> ?D r) (\<lambda>_ _. False)"
    using hoare_value [where Q = ?D and x = "(None, None)"]
    by (auto intro!: hoare_then [OF data_discloses [OF assms]] hoare_value split: option.splits)
  have avail: "hoare E (in_store s) (if RequestedBlobs rq \<noteq> [] then handleBlobAvailabilityRequest P (RequestedBlobs rq) ip else ret [])
      (\<lambda>w r. n_store w = s \<and> (subseq r (RequestedBlobs rq) \<and> (\<forall>h \<in> set r. servable P ip h \<and> lookup s h \<noteq> None))) (\<lambda>_ _. False)"
    using availability_discloses [OF assms] by (cases "RequestedBlobs rq = []") (simp_all add: hoare_def ret_def)
  show ?thesis unfolding handleRequest_def
  proof (rule hoare_then [OF data], goal_cases)
    case (1 x)
    obtain ib od where x: "x = (ib, od)" by (cases x)
    show ?case unfolding x prod.case
      by (rule hoare_then [OF rate_discloses [OF assms]], rule hoare_then [OF avail], rule hoare_value)
         (use 1 x in \<open>auto simp: discloses_def split: option.splits\<close>)
  qed
qed

end

section \<open>What is written\<close>

text \<open>Reading, asking the store and notifying write nothing.\<close>

definition silent :: "'s net \<Rightarrow> 's net \<Rightarrow> bool" where
  "silent w w' \<longleftrightarrow> calm w w' \<and> n_out w' = n_out w"

interpretation silent: step_rel silent
  by unfold_locales (auto simp: silent_def calm_def)

lemma silent_conn_Read: "conn_Read n E w = (r, w') \<Longrightarrow> n_store w' = n_store w \<and> n_out w' = n_out w"
  by (auto simp: conn_Read_def split: list.splits if_splits)

lemma fill_pending: "conn_Read bufio_size E w = (Inr d, w') \<Longrightarrow> pending (w'\<lparr>n_buf := d\<rparr>) \<le> pending w"
  by (auto simp: conn_Read_def pending_def bufio_size_def split: list.splits if_splits)

lemma silent_fill: "conn_Read bufio_size E w = (Inr d, w') \<Longrightarrow> silent w (w'\<lparr>n_buf := d\<rparr>)"
  using fill_pending silent_conn_Read by (fastforce simp: silent_def calm_def)

lemma silent_ReadByte: "bufio_ReadByte E w = (r, w') \<Longrightarrow> silent w w'"
proof (induction E w arbitrary: r w' rule: bufio_ReadByte.induct)
  case (1 E w)
  obtain r1 w1 where c: "conn_Read bufio_size E w = (r1, w1)" by fastforce
  show ?case
  proof (cases "n_buf w")
    case Nil
    show ?thesis
    proof (cases r1)
      case (Inl e)
      then have "w' = w1" using "1.prems" Nil c by (simp add: bufio_ReadByte.simps [of E w])
      then show ?thesis using c preservesD [OF calm_conn_Read c] silent_conn_Read [OF c] by (simp add: silent_def)
    next
      case (Inr d)
      then have "bufio_ReadByte E (w1\<lparr>n_buf := d\<rparr>) = (r, w')" using "1.prems" Nil c by (simp add: bufio_ReadByte.simps [of E w])
      from "1.IH" [OF Nil c [symmetric] Inr this] show ?thesis using silent_fill c Inr by (blast intro: silent.rel_trans)
    qed
  qed (use "1.prems" in \<open>auto simp: bufio_ReadByte.simps [of E w] silent_def calm_def pending_def\<close>)
qed

lemma silent_ReadBytes: "bufio_ReadBytes delim acc E w = (r, w') \<Longrightarrow> silent w w'"
proof (induction delim acc E w arbitrary: r w' rule: bufio_ReadBytes.induct)
  case (1 delim acc E w)
  obtain r1 w1 where c: "conn_Read bufio_size E w = (r1, w1)" by fastforce
  show ?case
  proof (cases "delim \<in> set (n_buf w)")
    case True
    have "length (tl (dropWhile (\<lambda>b. b \<noteq> delim) (n_buf w))) \<le> length (n_buf w)"
      using length_dropWhile_le [of "\<lambda>b. b \<noteq> delim" "n_buf w"] by (simp only: length_tl)
    then show ?thesis using "1.prems" True by (auto simp: bufio_ReadBytes.simps [of delim acc E w] silent_def calm_def pending_def)
  next
    case False
    show ?thesis
    proof (cases r1)
      case (Inl e)
      then have "w' = w1\<lparr>n_buf := []\<rparr>" using "1.prems" False c by (simp add: bufio_ReadBytes.simps [of delim acc E w])
      then show ?thesis using preservesD [OF calm_conn_Read c] silent_conn_Read [OF c] by (auto simp: silent_def calm_def pending_def)
    next
      case (Inr d)
      then have "bufio_ReadBytes delim (acc @ n_buf w) E (w1\<lparr>n_buf := d\<rparr>) = (r, w')"
        using "1.prems" False c by (simp add: bufio_ReadBytes.simps [of delim acc E w])
      from "1.IH" [OF False c [symmetric] Inr this] show ?thesis using silent_fill c Inr by (blast intro: silent.rel_trans)
    qed
  qed
qed

lemma silent_read_object: "read_object buffer E w = (r, w') \<Longrightarrow> silent w w'"
proof (induction buffer E w arbitrary: r w' rule: read_object.induct)
  case (1 buffer E w)
  obtain r1 w1 where c: "bufio_ReadBytes 0x7D [] E w = (r1, w1)" by fastforce
  show ?case
  proof (cases "length buffer > MaxRequestSize \<or> (\<exists>e. r1 = Inl e)")
    case True
    then have "w' = w \<or> w' = w1" using "1.prems" c by (auto simp: read_object.simps [of buffer E w] split: if_splits)
    then show ?thesis using silent_ReadBytes [OF c] silent.rel_refl by blast
  next
    case False
    then obtain chunk where chunk: "r1 = Inr chunk" by (cases r1) auto
    show ?thesis
    proof (cases "IsValidJSON (buffer @ chunk)")
      case True
      then show ?thesis using "1.prems" c chunk False silent_ReadBytes [OF c] by (simp add: read_object.simps [of buffer E w])
    next
      case invalid: False
      then have "read_object (buffer @ chunk) E w1 = (r, w')"
        using "1.prems" c chunk False by (simp add: read_object.simps [of buffer E w])
      with "1.IH" [OF _ c [symmetric] chunk invalid] False show ?thesis
        using silent_ReadBytes [OF c] by (blast intro: silent.rel_trans)
    qed
  qed
qed

lemma silent_readNextMessage: "preserves E silent readNextMessage"
proof (rule preservesI)
  show "readNextMessage E w = (r, w') \<Longrightarrow> silent w w'" for w :: "'s net" and r w'
  proof (induction E w arbitrary: r w' rule: readNextMessage.induct)
    case (1 E w)
    obtain r1 w1 where c: "bufio_ReadByte E w = (r1, w1)" by fastforce
    have first: "silent w w1" using silent_ReadByte [OF c] .
    show ?case
    proof (cases r1)
      case (Inr b)
      consider "json_space b" "readNextMessage E w1 = (r, w')" | "w' = w1" | "read_object [b] E w1 = (r, w')"
        using "1.prems" c Inr by (auto simp: readNextMessage.simps [of E w] split: if_splits)
      then show ?thesis
      proof cases
        case 1
        then show ?thesis using "1.IH" [OF c [symmetric] Inr] first by (blast intro: silent.rel_trans)
      qed (use first silent_read_object in \<open>blast intro: silent.rel_trans\<close>)+
    qed (use "1.prems" c first in \<open>simp add: readNextMessage.simps [of E w]\<close>)
  qed
qed

lemma readNextMessage_pending: "readNextMessage E w = (Inr m, w') \<Longrightarrow> pending w' < pending w"
proof -
  assume run: "readNextMessage E w = (Inr m, w')"
  obtain r1 w1 where c: "bufio_ReadByte E w = (r1, w1)" by fastforce
  obtain b where b: "r1 = Inr b" using run c by (cases r1) (simp_all add: readNextMessage.simps [of E w])
  have "pending w' \<le> pending w1"
    using run c b preservesD [OF silent_readNextMessage, of E w1] silent_read_object [of "[b]" E w1]
    by (fastforce simp: readNextMessage.simps [of E w] silent_def calm_def split: if_splits)
  then show "pending w' < pending w" using ReadByte_pending [of E w b w1] c b by simp
qed

section \<open>What is heard\<close>

text \<open>A message that was read is the next piece of the input behind white space.\<close>

lemma readNextMessage_unread:
  "readNextMessage E w = (Inr m, w') \<Longrightarrow> \<exists>sp. list_all json_space sp \<and> unread w = sp @ m @ unread w' \<and> IsValidJSON m"
proof (induction E w rule: readNextMessage.induct)
  case (1 E w)
  obtain r1 w1 where c: "bufio_ReadByte E w = (r1, w1)" by fastforce
  then obtain b where b: "r1 = Inr b" using "1.prems" by (cases r1) (simp_all add: readNextMessage.simps [of E w])
  have first: "unread w = b # unread w1" using ReadByte_unread [of E w b w1] c b by simp
  show ?case
  proof (cases "json_space b")
    case True
    then have "readNextMessage E w1 = (Inr m, w')" using "1.prems" c b by (simp add: readNextMessage.simps [of E w])
    from "1.IH" [OF c [symmetric] b True this] obtain sp where "list_all json_space sp" "unread w1 = sp @ m @ unread w'" "IsValidJSON m" by blast
    then show ?thesis using True first by (intro exI [of _ "b # sp"]) simp
  next
    case False
    then have "read_object [b] E w1 = (Inr m, w')" using "1.prems" c b by (auto simp: readNextMessage.simps [of E w] split: if_splits)
    from read_object_unread [OF this] show ?thesis using first by (intro exI [of _ "[]"]) simp
  qed
qed

section \<open>What is answered\<close>

text \<open>
  \<open>mute\<close> steps neither read nor write; \<open>says ok\<close> steps read nothing and write at most once, bytes that \<open>ok\<close>
  permits or a beginning of them.
\<close>

definition mute :: "'s net \<Rightarrow> 's net \<Rightarrow> bool" where
  "mute w w' \<longleftrightarrow> n_store w' = n_store w \<and> n_out w' = n_out w \<and> n_buf w' = n_buf w \<and> n_in w' = n_in w"

definition says :: "(bytes \<Rightarrow> bool) \<Rightarrow> 's net \<Rightarrow> 's net \<Rightarrow> bool" where
  "says ok w w' \<longleftrightarrow> n_store w' = n_store w \<and> n_buf w' = n_buf w \<and> n_in w' = n_in w \<and>
     (n_out w' = n_out w \<or> (\<exists>n x. ok x \<and> n_out w' = n_out w @ [take n x]))"

interpretation mute: step_rel mute
  by unfold_locales (auto simp: mute_def)

lemma says_mute: "preserves E mute m \<Longrightarrow> preserves E (says ok) m"
  by (erule preserves_mono) (simp add: mute_def says_def)

lemma says_mute_bind:
  assumes "preserves E mute m" "\<And>x. preserves E (says ok) (f x)"
  shows "preserves E (says ok) (bindE m f)"
proof (rule preservesI)
  fix w r w'
  assume run: "bindE m f E w = (r, w')"
  obtain r1 w1 where m: "m E w = (r1, w1)" by fastforce
  then have "mute w w1" by (rule preservesD [OF assms(1)])
  moreover have "says ok w1 w'"
    using run m preservesD [OF assms(2)] by (cases r1) (auto simp: bindE_def says_def)
  ultimately show "says ok w w'" by (simp add: mute_def says_def)
qed

lemma says_bind_mute:
  assumes "preserves E (says ok) m" "\<And>x. preserves E mute (f x)"
  shows "preserves E (says ok) (bindE m f)"
proof (rule preservesI)
  fix w r w'
  assume run: "bindE m f E w = (r, w')"
  obtain r1 w1 where m: "m E w = (r1, w1)" by fastforce
  then have "says ok w w1" by (rule preservesD [OF assms(1)])
  moreover have "mute w1 w'"
    using run m preservesD [OF assms(2)] by (cases r1) (auto simp: bindE_def mute_def)
  ultimately show "says ok w w'" by (simp add: mute_def says_def)
qed

lemma says_mapErr: "preserves E (says ok) m \<Longrightarrow> preserves E (says ok) (mapErr g m)"
  by (auto simp: preserves_def mapErr_def split: prod.splits sum.splits)

lemma says_try: "preserves E (says ok) m \<Longrightarrow> preserves E (says ok) (tryE m)"
  by (auto simp: preserves_def tryE_def split: prod.splits)

lemma says_Write: "ok x \<Longrightarrow> preserves E (says ok) (conn_Write x)"
proof (rule preservesI)
  fix w w' :: "'s net" and r
  assume "ok x" "conn_Write x E w = (r, w')"
  moreover from this obtain n where "n_out w' = n_out w @ [take n x]" "n_store w' = n_store w" "n_buf w' = n_buf w" "n_in w' = n_in w"
    by (cases "v_fate E (n_calls w)") (auto simp: conn_Write_def Let_def intro: that [of "length x"])
  ultimately show "says ok w w'" by (auto simp: says_def)
qed

lemma mute_prims: "preserves E mute set_deadline" "preserves E mute (store_get f)" "preserves E mute (NotifyBlob L b t h)" "preserves E mute peer_ip"
  by (auto simp: preserves_def mute_def set_deadline_def store_get_def NotifyBlob_def peer_ip_def)

lemmas mute_intros = mute.preserves_intros mute_prims

lemma mute_handleRequest: "preserves E mute (handleRequest P rq ip)"
proof -
  have "preserves E mute (handleBlobAvailabilityRequest P hs ip)" for hs
    by (induction hs) (auto intro!: mute_intros)
  moreover have "preserves E mute (handleBlobDataRequest P h ip)" for h
    unfolding handleBlobDataRequest_def Let_def by (auto intro!: mute_intros split: sum.split)
  moreover have "preserves E mute (handleBlobPaymentRateRequest P hs r ip)" for hs r
    unfolding handleBlobPaymentRateRequest_def by (auto intro!: mute_intros split: list.split)
  ultimately show ?thesis unfolding handleRequest_def
    by (auto intro!: mute_intros split: option.split prod.split)
qed

lemma says_sendError: "ok (Marshal (json_CompositeResponse (createErrorResponse msg))) \<Longrightarrow> preserves E (says ok) (sendError msg)"
  unfolding sendError_def
  by (rule says_mute_bind [OF mute.preserves_try [OF mute_prims(1)]])
     (auto intro!: says_mute [OF mute.preserves_ret] says_bind_mute says_try says_Write mute_intros split: sum.split)

lemma says_sendResponse:
  "ok (Marshal (json_CompositeResponse rp) @ (case od of None \<Rightarrow> [] | Some d \<Rightarrow> d)) \<Longrightarrow>
     preserves E (says ok) (thenE set_deadline (thenE (sendResponse rp od) set_deadline))"
  unfolding sendResponse_def
  by (intro says_mute_bind [OF mute_prims(1)] says_bind_mute [OF says_mapErr [OF says_bind_mute [OF says_Write]]] mute_intros)

text \<open>
  The answer to a message: the two complaints about a message that is too long or no request, and otherwise
  the answer to the request it contains.
\<close>

definition answered :: "'s PeerServer \<Rightarrow> string \<Rightarrow> (string \<Rightarrow> bytes option) \<Rightarrow> bytes \<Rightarrow> bytes \<Rightarrow> bool" where
  "answered P ip lk m x \<longleftrightarrow>
     (if length m > MaxRequestSize then x = Marshal (json_CompositeResponse (createErrorResponse (message ErrRequestTooLarge)))
      else (case parseRequest m of
              None \<Rightarrow> x = Marshal (json_CompositeResponse (createErrorResponse (message ErrInvalidData)))
            | Some rq \<Rightarrow> \<exists>rp od. discloses P ip lk rq rp od \<and>
                x = Marshal (json_CompositeResponse rp) @ (case od of None \<Rightarrow> [] | Some d \<Rightarrow> d)))"

text \<open>
  One exchange: the white space skipped, the message and what was written after it, if anything was. A
  conversation lists the exchanges in order, what was heard in them and what was written.
\<close>

type_synonym turn = "bytes \<times> bytes \<times> bytes option"

definition exchanged :: "(bytes \<Rightarrow> bytes \<Rightarrow> bool) \<Rightarrow> turn \<Rightarrow> bool" where
  "exchanged ok x \<longleftrightarrow> (case x of (sp, m, a) \<Rightarrow> list_all json_space sp \<and> IsValidJSON m \<and>
     (\<forall>b. a = Some b \<longrightarrow> (\<exists>n y. ok m y \<and> b = take n y)))"

definition heard :: "turn list \<Rightarrow> bytes" where
  "heard xs = concat (map (\<lambda>(sp, m, a). sp @ m) xs)"

definition written :: "turn list \<Rightarrow> bytes list" where
  "written xs = concat (map (\<lambda>(sp, m, a). case a of None \<Rightarrow> [] | Some b \<Rightarrow> [b]) xs)"

context store_safe
begin

lemma says_request:
  assumes "inv s" "\<And>k. ok_ctx (v_ctx E k)" "ps_store P = B" "n_store w = s" "answer_request P rq ip E w = (r, w')"
  shows "says (\<lambda>x. \<exists>rp od. discloses P ip (lookup s) rq rp od \<and>
    x = Marshal (json_CompositeResponse rp) @ (case od of None \<Rightarrow> [] | Some d \<Rightarrow> d)) w w'" (is "says ?ok w w'")
proof -
  obtain r1 w1 where h: "handleRequest P rq ip E w = (r1, w1)" by fastforce
  then obtain rp od where rp: "r1 = Inr (rp, od)" "discloses P ip (lookup s) rq rp od"
    using hoareD [OF handleRequest_discloses [OF assms(1-3)] assms(4) h] by (auto split: sum.splits)
  have "thenE set_deadline (thenE (sendResponse rp od) set_deadline) E w1 = (r, w')"
    using assms(5) h rp(1) by (simp add: answer_request_def bindE_def tryE_def)
  then have "says ?ok w1 w'" using rp(2) by (blast intro: preservesD [OF says_sendResponse])
  then show ?thesis using preservesD [OF mute_handleRequest h] by (simp add: mute_def says_def)
qed

lemma says_message:
  assumes "inv s" "\<And>k. ok_ctx (v_ctx E k)" "ps_store P = B" "n_store w = s" "answer_message P m E w = (r, w')"
  shows "says (answered P (GetConnectionIP E) (lookup s) m) w w'" (is "says ?ok w w'")
proof -
  obtain r1 w1 where d: "set_deadline E w = (r1, w1)" by fastforce
  then have mute: "mute w w1" by (rule preservesD [OF mute_prims(1)])
  consider (failed) "w' = w1" | (complaint) msg where "sendError msg E w1 = (r, w')" "?ok (Marshal (json_CompositeResponse (createErrorResponse msg)))"
    | (request) rq where "\<not> length m > MaxRequestSize" "parseRequest m = Some rq" "answer_request P rq (GetConnectionIP E) E w1 = (r, w')"
    using assms(5) d
    by (cases r1; cases "length m > MaxRequestSize"; cases "parseRequest m") (auto simp: answer_message_def bindE_def peer_ip_def answered_def)
  then have "says ?ok w1 w'"
  proof cases
    case request
    then have ok: "?ok = (\<lambda>x. \<exists>rp od. discloses P (GetConnectionIP E) (lookup s) rq rp od \<and>
        x = Marshal (json_CompositeResponse rp) @ (case od of None \<Rightarrow> [] | Some d \<Rightarrow> d))"
      by (simp add: answered_def fun_eq_iff)
    show ?thesis unfolding ok by (rule says_request [OF assms(1-3) _ request(3)]) (use mute assms(4) in \<open>simp add: mute_def\<close>)
  next
    case complaint
    then show ?thesis using preservesD [OF says_sendError] by blast
  qed (simp add: says_def)
  then show ?thesis using mute by (simp add: mute_def says_def)
qed

text \<open>One round hears and answered one message, or hears nothing more.\<close>

lemma serve_round:
  assumes "inv s" "\<And>k. ok_ctx (v_ctx E k)" "ps_store P = B" "n_store w = s" "serve P E w = (r, w')"
  shows "n_store w' = s \<and>
    ((\<exists>x. exchanged (answered P (GetConnectionIP E) (lookup s)) x \<and> unread w = heard [x] @ unread w' \<and> n_out w' = n_out w @ written [x] \<and>
        pending w' < pending w) \<or>
     (\<exists>e. r = Inl e) \<and> n_out w' = n_out w)"
proof -
  obtain r1 w1 where d: "set_deadline E w = (r1, w1)" by fastforce
  have mute: "mute w w1" using d by (rule preservesD [OF mute_prims(1)])
  obtain r2 w2 where n: "readNextMessage E w1 = (r2, w2)" by fastforce
  have silent: "silent w1 w2" using n by (rule preservesD [OF silent_readNextMessage])
  consider (failed) e where "r = Inl e" "w' = w1 \<or> w' = w2" | (message) m where "r2 = Inr m" "answer_message P m E w2 = (r, w')"
    using assms(5) d n by (cases r1; cases r2) (auto simp: serve_def bindE_def)
  then show ?thesis
  proof cases
    case message
    have says: "says (answered P (GetConnectionIP E) (lookup s) m) w2 w'"
      by (rule says_message [OF assms(1-3) _ message(2)]) (use silent mute assms(4) in \<open>simp add: silent_def calm_def mute_def\<close>)
    obtain sp where sp: "list_all json_space sp" "unread w1 = sp @ m @ unread w2" "IsValidJSON m"
      using readNextMessage_unread n message(1) by blast
    have "\<exists>a. n_out w' = n_out w2 @ (case a of None \<Rightarrow> [] | Some b \<Rightarrow> [b]) \<and> exchanged (answered P (GetConnectionIP E) (lookup s)) (sp, m, a)"
    proof (cases "n_out w' = n_out w2")
      case False
      then obtain n y where "answered P (GetConnectionIP E) (lookup s) m y" "n_out w' = n_out w2 @ [take n y]" using says by (auto simp: says_def)
      then show ?thesis using sp(1,3) by (intro exI [of _ "Some (take n y)"]) (auto simp: exchanged_def)
    qed (use sp(1,3) in \<open>auto simp: exchanged_def intro!: exI [of _ None]\<close>)
    then obtain a where "n_out w' = n_out w2 @ written [(sp, m, a)]" "exchanged (answered P (GetConnectionIP E) (lookup s)) (sp, m, a)"
      by (auto simp: written_def)
    moreover have "pending w2 < pending w1" using readNextMessage_pending n message(1) by blast
    ultimately show ?thesis using sp(2) mute silent says assms(4)
      by (intro conjI disjI1 exI [of _ "(sp, m, a)"]) (auto simp: mute_def silent_def calm_def says_def heard_def unread_def pending_def)
  qed (use mute silent assms(4) in \<open>auto simp: mute_def silent_def calm_def\<close>)
qed

lemma conversation:
  assumes "inv s" "\<And>k. ok_ctx (v_ctx E k)" "ps_store P = B"
  shows "\<exists>e w xs rest. HandlePeer P E (new_conn segs s) = Some (e, w) \<and> n_store w = s \<and> concat segs = heard xs @ rest \<and>
    n_out w = written xs \<and> (\<forall>x \<in> set xs. exchanged (answered P (GetConnectionIP E) (lookup s)) x)"
proof -
  let ?so_far = "\<lambda>w rest. n_store w = s \<and> (\<exists>xs. concat segs = heard xs @ rest \<and> n_out w = written xs \<and>
    (\<forall>x \<in> set xs. exchanged (answered P (GetConnectionIP E) (lookup s)) x))"
  have more: "?so_far w' (unread w')"
    if far: "?so_far w (unread w)" and "n_store w' = s" "exchanged (answered P (GetConnectionIP E) (lookup s)) x" "unread w = heard [x] @ unread w'"
      "n_out w' = n_out w @ written [x]" for w w' :: "'s net" and x
  proof -
    obtain xs where "concat segs = heard xs @ unread w" "n_out w = written xs" "\<forall>x \<in> set xs. exchanged (answered P (GetConnectionIP E) (lookup s)) x"
      using far by blast
    then show ?thesis using that by (intro conjI exI [of _ "xs @ [x]"]) (auto simp: heard_def written_def)
  qed
  have "\<exists>e w. loopE (serve P) E (new_conn segs s) = Some (e, w) \<and> (\<exists>rest. ?so_far w rest)"
  proof (rule loopE_invariant [where Q = "\<lambda>w. ?so_far w (unread w)" and R = "\<lambda>e w. \<exists>rest. ?so_far w rest"], goal_cases)
    case (2 w u w')
    then show ?case using serve_round [OF assms _ 2(2)] more by blast
  next
    case (3 w e w')
    then show ?case using serve_round [OF assms _ 3(2)] more [OF 3(1)] by metis
  next
    case 4
    show ?case by (auto simp: new_conn_def unread_def heard_def written_def intro!: exI [of _ "[]"])
  qed (use serve_round [OF assms] in blast)
  then show ?thesis unfolding HandlePeer_def by blast
qed

end

text \<open>
  C12. A peer server never reveals more than it may: over any connection and whatever fails, the handler returns, the
  store is unchanged, and what it has written are the answers, at most one each and in order, to the messages
  that make up the bytes received, apart from white space and a rest. Each answer, possibly cut off, is the error message for
  a message that is too long or no request, or answers the request in the message: each announced hash is one of the
  requested, stored, well-formed, not protected and not denied to the peer, the rate is accepted only for
  such a first hash, and the only blob sent is the one this message asks for, under the same conditions, complete, with its
  own length; a blob that is refused is refused with the error of the first check it fails.
\<close>

theorem peer_discloses_only_allowed:
  assumes "store_safe B lookup ok valid storable same ok_ctx" "ps_store P = B" "\<forall>k. ok_ctx (v_ctx E k)" "ok s"
  shows "\<exists>e w xs rest. HandlePeer P E (new_conn segs s) = Some (e, w) \<and> n_store w = s \<and> concat segs = heard xs @ rest \<and>
    n_out w = written xs \<and> (\<forall>x \<in> set xs. exchanged (answered P (GetConnectionIP E) (lookup s)) x)"
  using store_safe.conversation [OF assms(1,4) _ assms(2)] assms(3) by blast

definition sample_peer :: "MemoryStore PeerServer" where
  "sample_peer = WithPeerProtector (IsProtected {sample_hash}) (NewPeerServer (memory_store sample_cid_lib) sample_cid_lib)"

theorem peer_discloses_only_allowed_witness:
  "\<exists>e w xs rest. HandlePeer sample_peer sample_netenv (new_conn [bytes_of ''{}'', bytes_of ''{}''] NewMemoryStore) = Some (e, w) \<and>
     n_store w = NewMemoryStore \<and> bytes_of ''{}{}'' = heard xs @ rest \<and> n_out w = written xs"
  using peer_discloses_only_allowed [OF memst.store_safe_axioms [of sample_cid_lib], where P = sample_peer and E = sample_netenv and s = NewMemoryStore
      and segs = "[bytes_of ''{}'', bytes_of ''{}'']"]
  by (fastforce simp: sample_peer_def WithPeerProtector_def NewPeerServer_def bytes_of_def)

end
