(* ===== verification/Coordinator.thy ===== *)
theory Coordinator
  imports Blob Errors
begin

text \<open>
  Blob requests and their coordinator (\<open>blob/transfer/peer_transfer/blob/blob.go\<close>,
  \<open>.../coordinator/request_coordinator.go\<close>). A request is shared by everyone who waits for the same
  blob and by the tasks that try its peers, so requests live in a heap and are named by their address. Its
  methods are atomic, by the mutex, the atomic counters and the \<open>sync.Once\<close> of the code. The race context that
  \<open>cancel\<close> cancels is named by a number as well.
\<close>

section \<open>Requests\<close>

record taskResult =
  tr_data :: "bytes option"
  tr_err :: "error option"

record BlobRequest =
  br_cancel :: "nat option"
  waiters :: int
  completed :: "32 word"
  totalPeers :: "32 word"
  br_result :: taskResult
  lastError :: "error option"
  br_done :: bool
  br_once :: bool

definition NewTaskResult :: "bytes option \<Rightarrow> error option \<Rightarrow> taskResult" where
  "NewTaskResult d e = \<lparr>tr_data = d, tr_err = e\<rparr>"

definition NewBlobRequest :: BlobRequest where
  "NewBlobRequest = \<lparr>br_cancel = None, waiters = 0, completed = 0, totalPeers = 0, br_result = NewTaskResult None None,
     lastError = None, br_done = False, br_once = False\<rparr>"

text \<open>\<open>SetWaiters\<close> panics on a negative count.\<close>

definition SetWaiters :: "BlobRequest \<Rightarrow> int \<Rightarrow> BlobRequest option" where
  "SetWaiters r n = (if n < 0 then None else Some (r\<lparr>waiters := n\<rparr>))"

definition AddWaiter :: "BlobRequest \<Rightarrow> BlobRequest" where
  "AddWaiter r = r\<lparr>waiters := i64 (waiters r + 1)\<rparr>"

definition DoneWaiter :: "BlobRequest \<Rightarrow> (int \<times> bool) \<times> BlobRequest" where
  "DoneWaiter r =
     (if waiters r \<le> 0 then ((waiters r, False), r)
      else ((waiters r - 1, True), r\<lparr>waiters := waiters r - 1\<rparr>))"

definition IncrementCompleted :: "BlobRequest \<Rightarrow> 32 word \<times> BlobRequest" where
  "IncrementCompleted r = (completed r + 1, r\<lparr>completed := completed r + 1\<rparr>)"

definition DecrementCompleted :: "BlobRequest \<Rightarrow> 32 word \<times> BlobRequest" where
  "DecrementCompleted r = (completed r - 1, r\<lparr>completed := completed r - 1\<rparr>)"

definition SetResult :: "BlobRequest \<Rightarrow> taskResult \<Rightarrow> BlobRequest" where
  "SetResult r t = r\<lparr>br_result := t\<rparr>"

definition MarkDone :: "BlobRequest \<Rightarrow> BlobRequest" where
  "MarkDone r = r\<lparr>br_done := True\<rparr>"

text \<open>\<open>CompleteOnce\<close> runs its function only the first time; the flag says whether it did.\<close>

definition CompleteOnce :: "(BlobRequest \<Rightarrow> BlobRequest) \<Rightarrow> BlobRequest \<Rightarrow> bool \<times> BlobRequest" where
  "CompleteOnce f r = (if br_once r then (False, r) else (True, (f r)\<lparr>br_once := True\<rparr>))"

section \<open>The coordinator\<close>

record RequestCoordinator =
  backlog :: "string \<rightharpoonup> nat"
  heap :: "BlobRequest list"
  rc_stopped :: bool

definition NewRequestCoordinator :: RequestCoordinator where
  "NewRequestCoordinator = \<lparr>backlog = Map.empty, heap = [], rc_stopped = False\<rparr>"

definition rc_Stop :: "RequestCoordinator \<Rightarrow> RequestCoordinator" where
  "rc_Stop rc = rc\<lparr>rc_stopped := True\<rparr>"

definition rc_Start :: "RequestCoordinator \<Rightarrow> RequestCoordinator" where
  "rc_Start rc = rc\<lparr>rc_stopped := False\<rparr>"

definition upd_req :: "nat \<Rightarrow> BlobRequest \<Rightarrow> RequestCoordinator \<Rightarrow> RequestCoordinator" where
  "upd_req a r rc = rc\<lparr>heap := (heap rc)[a := r]\<rparr>"

definition GetOrCreateRequest :: "RequestCoordinator \<Rightarrow> string \<Rightarrow> (error + nat \<times> bool) \<times> RequestCoordinator" where
  "GetOrCreateRequest rc hash =
     (if rc_stopped rc then (Inl (Plain ''request coordinator is stopped''), rc)
      else (case backlog rc hash of
              None \<Rightarrow>
                (let a = length (heap rc) in
                 (Inr (a, True), rc\<lparr>heap := heap rc @ [NewBlobRequest\<lparr>waiters := 1\<rparr>], backlog := (backlog rc)(hash \<mapsto> a)\<rparr>))
            | Some a \<Rightarrow> (Inr (a, False), upd_req a (AddWaiter (heap rc ! a)) rc)))"

definition RemoveRequest :: "RequestCoordinator \<Rightarrow> string \<Rightarrow> RequestCoordinator" where
  "RemoveRequest rc hash = rc\<lparr>backlog := (backlog rc)(hash := None)\<rparr>"

text \<open>
  The two outcomes of \<open>WaitForResult\<close>'s \<open>select\<close> and what is deferred: the waiter leaves, and the last
  one to leave with its context cancelled cancels the race. The second component is the race to cancel.
\<close>

definition leave :: "RequestCoordinator \<Rightarrow> nat \<Rightarrow> bool \<Rightarrow> nat option \<times> RequestCoordinator" where
  "leave rc a cancelled =
     (case DoneWaiter (heap rc ! a) of
        ((n, ok), r) \<Rightarrow> (if ok \<and> n = 0 \<and> cancelled then br_cancel r else None, upd_req a r rc))"

definition result_of :: "BlobRequest \<Rightarrow> error + bytes option" where
  "result_of r = (case tr_err (br_result r) of Some e \<Rightarrow> Inl e | None \<Rightarrow> Inr (tr_data (br_result r)))"

definition CompleteWith :: "RequestCoordinator \<Rightarrow> nat \<Rightarrow> taskResult \<Rightarrow> bool \<times> RequestCoordinator" where
  "CompleteWith rc a t =
     (case CompleteOnce (\<lambda>r. MarkDone (SetResult r t)) (heap rc ! a) of (first, r) \<Rightarrow> (first, upd_req a r rc))"

definition CompleteWithData :: "RequestCoordinator \<Rightarrow> nat \<Rightarrow> bytes \<Rightarrow> nat option \<Rightarrow> nat option \<times> RequestCoordinator" where
  "CompleteWithData rc a d raceCancel =
     (case CompleteWith rc a (NewTaskResult (Some d) None) of (first, rc') \<Rightarrow> (if first then raceCancel else None, rc'))"

definition CompleteWithError :: "RequestCoordinator \<Rightarrow> nat \<Rightarrow> error \<Rightarrow> error \<times> RequestCoordinator" where
  "CompleteWithError rc a e = (e, snd (CompleteWith rc a (NewTaskResult None (Some e))))"

definition CompleteWithErrorAndCancel :: "RequestCoordinator \<Rightarrow> nat \<Rightarrow> error \<Rightarrow> nat option \<Rightarrow> nat option \<times> RequestCoordinator" where
  "CompleteWithErrorAndCancel rc a e raceCancel =
     (case CompleteWith rc a (NewTaskResult None (Some e)) of (first, rc') \<Rightarrow> (if first then raceCancel else None, rc'))"

definition InitializeRequest :: "RequestCoordinator \<Rightarrow> nat \<Rightarrow> nat \<Rightarrow> 32 word \<Rightarrow> RequestCoordinator" where
  "InitializeRequest rc a race n = upd_req a ((heap rc ! a)\<lparr>br_cancel := Some race, totalPeers := n\<rparr>) rc"

text \<open>
  Counts are compared as signed numbers. The code of these three reads and writes the fields of a request one after the
  other, each under a lock or atomically; here each is one step. Steps of other tasks in between can change which error
  is the last one and which of several failing tasks sees the final count, not what is counted.
\<close>

definition TrackFailedPeer :: "RequestCoordinator \<Rightarrow> nat \<Rightarrow> error \<Rightarrow> (32 word \<times> bool) \<times> RequestCoordinator" where
  "TrackFailedPeer rc a e =
     (if rc_stopped rc then ((0, False), rc)
      else (case IncrementCompleted ((heap rc ! a)\<lparr>lastError := Some e\<rparr>) of
              (n, r) \<Rightarrow> ((n, sint n \<ge> sint (totalPeers r)), upd_req a r rc)))"

definition ResetForNewPhase :: "RequestCoordinator \<Rightarrow> nat \<Rightarrow> 32 word \<Rightarrow> RequestCoordinator" where
  "ResetForNewPhase rc a n =
     (if rc_stopped rc then rc
      else upd_req a ((heap rc ! a)\<lparr>completed := 0, totalPeers := n, lastError := None\<rparr>) rc)"

definition GetRequestState :: "RequestCoordinator \<Rightarrow> nat \<Rightarrow> 32 word \<times> 32 word \<times> error option" where
  "GetRequestState rc a =
     (if rc_stopped rc then (0, 0, Some (Plain ''request coordinator is stopped''))
      else (completed (heap rc ! a), totalPeers (heap rc ! a), lastError (heap rc ! a)))"

section \<open>What the operations keep\<close>

text \<open>
  \<open>grows rc rc'\<close>: requests stay at their addresses, and a request that is done stays done with the same result.
  \<open>results_ok P rc\<close>: a request is done exactly when its \<open>Once\<close> is used, and its result then satisfies \<open>P\<close>.
\<close>

definition grows :: "RequestCoordinator \<Rightarrow> RequestCoordinator \<Rightarrow> bool" where
  "grows rc rc' \<longleftrightarrow> length (heap rc) \<le> length (heap rc') \<and>
     (\<forall>a < length (heap rc). br_done (heap rc ! a) \<longrightarrow> br_done (heap rc' ! a) \<and> br_result (heap rc' ! a) = br_result (heap rc ! a))"

definition results_ok :: "(nat \<Rightarrow> taskResult \<Rightarrow> bool) \<Rightarrow> RequestCoordinator \<Rightarrow> bool" where
  "results_ok P rc \<longleftrightarrow>
     (\<forall>a < length (heap rc). br_done (heap rc ! a) = br_once (heap rc ! a) \<and> (br_done (heap rc ! a) \<longrightarrow> P a (br_result (heap rc ! a))))"

definition keeps :: "(nat \<Rightarrow> taskResult \<Rightarrow> bool) \<Rightarrow> RequestCoordinator \<Rightarrow> RequestCoordinator \<Rightarrow> bool" where
  "keeps P rc rc' \<longleftrightarrow> length (heap rc') = length (heap rc) \<and> backlog rc' \<subseteq>\<^sub>m backlog rc \<and>
     (results_ok P rc \<longrightarrow> results_ok P rc' \<and> grows rc rc')"

named_theorems rc_keeps

lemma grows_refl [simp]: "grows rc rc"
  by (simp add: grows_def)

lemma grows_trans: "grows r1 r2 \<Longrightarrow> grows r2 r3 \<Longrightarrow> grows r1 r3"
  by (auto simp: grows_def)

lemma keeps_refl [simp]: "keeps P rc rc"
  by (simp add: keeps_def)

lemma keeps_trans: "keeps P r1 r2 \<Longrightarrow> keeps P r2 r3 \<Longrightarrow> keeps P r1 r3"
  by (auto simp: keeps_def intro: grows_trans map_le_trans)

text \<open>An update that leaves the outcome of a request alone, and one that completes a request.\<close>

lemma nth_upd: "b < length xs \<Longrightarrow> xs[a := r] ! b = (if b = a then r else xs ! b)"
  by (cases "a < length xs") (auto simp: nth_list_update)

lemma upd_req_keeps:
  assumes "br_done r = br_done (heap rc ! a)" "br_once r = br_once (heap rc ! a)" "br_result r = br_result (heap rc ! a)"
  shows "keeps P rc (upd_req a r rc)"
  using assms by (auto simp: keeps_def grows_def results_ok_def upd_req_def nth_upd)

lemma CompleteWith_keeps:
  assumes "P a t"
  shows "keeps P rc (snd (CompleteWith rc a t))"
proof (cases "br_once (heap rc ! a)")
  case True
  then show ?thesis by (simp add: CompleteWith_def CompleteOnce_def upd_req_keeps)
next
  case False
  with assms show ?thesis
    by (auto simp: CompleteWith_def CompleteOnce_def MarkDone_def SetResult_def keeps_def grows_def results_ok_def upd_req_def
        nth_upd)
qed

lemma RemoveRequest_keeps [rc_keeps]: "keeps P rc (RemoveRequest rc h)"
  by (auto simp: keeps_def RemoveRequest_def grows_def results_ok_def map_le_def)

lemma leave_keeps [rc_keeps]: "keeps P rc (snd (leave rc a c))"
  by (auto simp: leave_def DoneWaiter_def intro!: upd_req_keeps)

lemma InitializeRequest_keeps [rc_keeps]: "keeps P rc (InitializeRequest rc a n w)"
  by (auto simp: InitializeRequest_def intro!: upd_req_keeps)

lemma TrackFailedPeer_keeps [rc_keeps]: "keeps P rc (snd (TrackFailedPeer rc a e))"
  by (auto simp: TrackFailedPeer_def IncrementCompleted_def intro!: upd_req_keeps)

lemma ResetForNewPhase_keeps [rc_keeps]: "keeps P rc (ResetForNewPhase rc a w)"
  by (auto simp: ResetForNewPhase_def intro!: upd_req_keeps)

lemma Stop_Start_keeps [rc_keeps]: "keeps P rc (rc_Stop rc)" "keeps P rc (rc_Start rc)"
  by (auto simp: keeps_def rc_Stop_def rc_Start_def grows_def results_ok_def)

lemma CompleteWithData_keeps:
  "P a (NewTaskResult (Some d) None) \<Longrightarrow> keeps P rc (snd (CompleteWithData rc a d r))"
  using CompleteWith_keeps [of P a "NewTaskResult (Some d) None" rc] by (simp add: CompleteWithData_def case_prod_beta)

lemma CompleteWithErrorAndCancel_keeps:
  "P a (NewTaskResult None (Some e)) \<Longrightarrow> keeps P rc (snd (CompleteWithErrorAndCancel rc a e r))"
  using CompleteWith_keeps [of P a "NewTaskResult None (Some e)" rc] by (simp add: CompleteWithErrorAndCancel_def case_prod_beta)

lemma AddWaiter_keeps: "keeps P rc (upd_req a (AddWaiter (heap rc ! a)) rc)"
  by (rule upd_req_keeps) (simp_all add: AddWaiter_def)

end
