(* ===== verification/Race.thy ===== *)
theory Race
  imports Coordinator Hash
begin

text \<open>
  Downloading a blob from peers (\<open>blob/transfer/peer_transfer/\<close>): calls of \<open>PeerTransfer.Get\<close>, which share one
  request per hash, walk through the phases of the phase manager (peers found by the DHT, then fixed peers), race
  the peers of a phase as tasks of a worker pool, and wait. All of this is concurrent: the state holds
  every call and every task with the point it has reached, and an \<open>action\<close> lets one of them take
  its next step, cancels a context, or stops and starts the components. Any sequence of actions is a possible run.

  What a peer answers, what the DHT finds and when contexts end is chosen by the actions. The race coordinator
  and the task executor are never stopped by \<open>PeerTransfer\<close>, so their stop flags are not part of the state.
\<close>

section \<open>State\<close>

datatype PhaseType = PhaseDHT | PhaseFixed

fun phase_name :: "PhaseType \<Rightarrow> string" where
  "phase_name PhaseDHT = ''DHT''"
| "phase_name PhaseFixed = ''Fixed''"

text \<open>
  Where a call is: before the two checks of the stop flag in \<open>DownloadFromPeers\<close> and \<open>ExecutePhases\<close>, at a
  phase with the last error, in a phase, in a race, or waiting as a joiner.
\<close>

datatype 'c pc =
    Downloading
  | Executing
  | AtPhase PhaseType "error option"
  | StartPhase PhaseType "'c list"
  | StartRace PhaseType "'c list"
  | StartTasks PhaseType "'c list" nat
  | Submitting PhaseType "'c list" nat
  | Adding PhaseType 'c "'c list" nat
  | Awaiting PhaseType nat
  | Settling PhaseType nat "32 word" "error option"
  | Joined
  | Finished "error + bytes option"

record 'c call =
  g_hash :: string
  g_req :: nat
  g_ctx :: "error option"
  g_pc :: "'c pc"

datatype task_pc = Queued | Running | Failing error | Ended | Discarded

record 'c task =
  t_hash :: string
  t_req :: nat
  t_contact :: 'c
  t_race :: nat
  t_pc :: task_pc

record 'c config =
  cf_sha :: "bytes \<Rightarrow> bytes"
  cf_valid :: "string \<Rightarrow> bool"
  cf_parse :: "string \<Rightarrow> error option"
  cf_fixed :: "'c list"
  cf_isFixed :: "'c \<Rightarrow> bool"
  cf_maxPeers :: "32 word"

text \<open>
  \<open>s_ended\<close> are the race contexts that are cancelled or timed out, \<open>s_races\<close> the number of races so far, \<open>s_bad\<close> the
  peers that the DHT node was told to remove for a hash.
\<close>

record 'c sys =
  s_rc :: RequestCoordinator
  s_calls :: "'c call list"
  s_tasks :: "'c task list"
  s_races :: nat
  s_ended :: "nat set"
  s_stopped :: bool
  s_bad :: "(string \<times> 'c) list"
  submittedTasks :: int
  completedTasks :: int
  pendingTasks :: int

definition init_sys :: "'c sys" where
  "init_sys = \<lparr>s_rc = NewRequestCoordinator, s_calls = [], s_tasks = [], s_races = 0, s_ended = {}, s_stopped = False, s_bad = [],
     submittedTasks = 0, completedTasks = 0, pendingTasks = 0\<rparr>"

definition set_pc :: "nat \<Rightarrow> 'c pc \<Rightarrow> 'c sys \<Rightarrow> 'c sys" where
  "set_pc i q s = s\<lparr>s_calls := (s_calls s)[i := (s_calls s ! i)\<lparr>g_pc := q\<rparr>]\<rparr>"

definition end_race :: "nat option \<Rightarrow> 'c sys \<Rightarrow> 'c sys" where
  "end_race r s = (case r of None \<Rightarrow> s | Some n \<Rightarrow> s\<lparr>s_ended := insert n (s_ended s)\<rparr>)"

section \<open>A call\<close>

text \<open>
  \<open>Get\<close> up to the point where it owns a request or joins one; a call that is refused before has no request.
\<close>

definition return_owner :: "nat \<Rightarrow> error + bytes option \<Rightarrow> 'c sys \<Rightarrow> 'c sys" where
  "return_owner i r s = (set_pc i (Finished r) s)\<lparr>s_rc := RemoveRequest (s_rc s) (g_hash (s_calls s ! i))\<rparr>"

definition transfer_Get :: "'c config \<Rightarrow> string \<Rightarrow> 'c sys \<Rightarrow> 'c sys" where
  "transfer_Get cf hash s =
     (let call = (\<lambda>a q. \<lparr>g_hash = hash, g_req = a, g_ctx = None, g_pc = q\<rparr>);
          refuse = (\<lambda>e. s\<lparr>s_calls := s_calls s @ [call (length (heap (s_rc s))) (Finished (Inl e))]\<rparr>) in
      if \<not> cf_valid cf hash then refuse (Sentinel ErrInvalidHash)
      else (case cf_parse cf hash of Some e \<Rightarrow> refuse (Wrapped ''failed to parse hash for DHT lookup'' e) | None \<Rightarrow>
           case GetOrCreateRequest (s_rc s) hash of
              (Inl e, rc) \<Rightarrow> refuse e
            | (Inr (a, False), rc) \<Rightarrow> s\<lparr>s_rc := rc, s_calls := s_calls s @ [call a Joined]\<rparr>
            | (Inr (a, True), rc) \<Rightarrow> s\<lparr>s_rc := rc, s_calls := s_calls s @ [call a Downloading]\<rparr>))"

definition DownloadFromPeers :: "nat \<Rightarrow> 'c sys \<Rightarrow> 'c sys" where
  "DownloadFromPeers i s =
     (if s_stopped s then return_owner i (Inl (Plain ''peer downloader is stopped'')) s else set_pc i Executing s)"

definition ExecutePhases :: "nat \<Rightarrow> 'c sys \<Rightarrow> 'c sys" where
  "ExecutePhases i s =
     (if s_stopped s then return_owner i (Inl (Plain ''phase manager is stopped'')) s else set_pc i (AtPhase PhaseDHT None) s)"

text \<open>The error of \<open>ExecutePhases\<close> when no phase is left, and the way to the next phase.\<close>

definition no_source :: "error \<Rightarrow> error" where
  "no_source e = Plain (''blob not found from any peer source: '' @ errText e)"

definition next_phase :: "nat \<Rightarrow> PhaseType \<Rightarrow> error \<Rightarrow> 'c sys \<Rightarrow> 'c sys" where
  "next_phase i p e s =
     (case p of
        PhaseDHT \<Rightarrow> set_pc i (AtPhase PhaseFixed (Some e)) s
      | PhaseFixed \<Rightarrow> return_owner i (Inl (no_source e)) s)"

text \<open>
  \<open>GetContacts\<close> of the two phases; a failed discovery counts as no contacts. What the discovery answers is a parameter of
  the step, and the call waits before it until then: the lookup in the DHT blocks and takes no context.
\<close>

definition GetContacts :: "'c config \<Rightarrow> PhaseType \<Rightarrow> error + 'c list \<Rightarrow> 'c list" where
  "GetContacts cf p found =
     (case p of
        PhaseDHT \<Rightarrow> (case found of Inl _ \<Rightarrow> [] | Inr cs \<Rightarrow> filter (\<lambda>c. \<not> cf_isFixed cf c) cs)
      | PhaseFixed \<Rightarrow> cf_fixed cf)"

definition MaxContacts :: "'c config \<Rightarrow> PhaseType \<Rightarrow> int" where
  "MaxContacts cf p = (case p of PhaseDHT \<Rightarrow> sint (cf_maxPeers cf) | PhaseFixed \<Rightarrow> int (length (cf_fixed cf)))"

definition completeOnFailure :: "'c config \<Rightarrow> PhaseType \<Rightarrow> bool" where
  "completeOnFailure cf p \<longleftrightarrow> p = PhaseFixed \<or> cf_fixed cf = []"

definition at_phase :: "'c config \<Rightarrow> nat \<Rightarrow> PhaseType \<Rightarrow> error + 'c list \<Rightarrow> 'c sys \<Rightarrow> 'c sys" where
  "at_phase cf i p found s =
     (let contacts = GetContacts cf p found in
      if contacts = [] then next_phase i p (Plain (''no peers available for phase '' @ phase_name p)) s
      else set_pc i (StartPhase p contacts) s)"

definition start_phase :: "'c config \<Rightarrow> nat \<Rightarrow> PhaseType \<Rightarrow> 'c list \<Rightarrow> 'c sys \<Rightarrow> 'c sys" where
  "start_phase cf i p contacts s =
     (let s' = s\<lparr>s_rc := ResetForNewPhase (s_rc s) (g_req (s_calls s ! i)) (of_nat (length contacts))\<rparr> in
      if MaxContacts cf p \<le> 0 then next_phase i p (Plain (''invalid maxContacts value for phase '' @ phase_name p)) s'
      else set_pc i (StartRace p (take (nat (MaxContacts cf p)) contacts)) s')"

text \<open>\<open>ExecuteRace\<close>: a new race context, which is cancelled from the start when the context of the call is.\<close>

definition start_race :: "nat \<Rightarrow> PhaseType \<Rightarrow> 'c list \<Rightarrow> 'c sys \<Rightarrow> 'c sys" where
  "start_race i p cs s =
     (let n = s_races s; c = s_calls s ! i in
      set_pc i (StartTasks p cs n)
        (s\<lparr>s_rc := InitializeRequest (s_rc s) (g_req c) n (of_nat (length cs)), s_races := Suc n,
           s_ended := (if g_ctx c \<noteq> None then insert n (s_ended s) else s_ended s)\<rparr>))"

text \<open>\<open>ExecutePeerTasks\<close>: nothing is submitted for a request that is done or a race that is over.\<close>

definition over :: "nat \<Rightarrow> nat \<Rightarrow> 'c sys \<Rightarrow> bool" where
  "over a n s \<longleftrightarrow> br_done (heap (s_rc s) ! a) \<or> n \<in> s_ended s"

definition start_tasks :: "nat \<Rightarrow> PhaseType \<Rightarrow> 'c list \<Rightarrow> nat \<Rightarrow> 'c sys \<Rightarrow> 'c sys" where
  "start_tasks i p cs n s =
     (if over (g_req (s_calls s ! i)) n s then set_pc i (Awaiting p n) s else set_pc i (Submitting p cs n) s)"

definition submit :: "nat \<Rightarrow> PhaseType \<Rightarrow> 'c list \<Rightarrow> nat \<Rightarrow> 'c sys \<Rightarrow> 'c sys" where
  "submit i p cs n s =
     (case cs of
        [] \<Rightarrow> set_pc i (Awaiting p n) s
      | c # cs' \<Rightarrow>
          if over (g_req (s_calls s ! i)) n s then set_pc i (Submitting p cs' n) s else set_pc i (Adding p c cs' n) s)"

definition add_task :: "nat \<Rightarrow> PhaseType \<Rightarrow> 'c \<Rightarrow> 'c list \<Rightarrow> nat \<Rightarrow> 'c sys \<Rightarrow> 'c sys" where
  "add_task i p c cs n s =
     (let g = s_calls s ! i in
      (set_pc i (Submitting p cs n) s)
        \<lparr>s_tasks := s_tasks s @ [\<lparr>t_hash = g_hash g, t_req = g_req g, t_contact = c, t_race = n, t_pc = Queued\<rparr>],
         submittedTasks := i64 (submittedTasks s + 1), pendingTasks := i64 (pendingTasks s + 1)\<rparr>)"

text \<open>The end of a race: its context is cancelled by the deferred call, and its outcome decides about the next phase.\<close>

definition race_outcome :: "nat \<Rightarrow> PhaseType \<Rightarrow> nat \<Rightarrow> error + bytes option \<Rightarrow> 'c sys \<Rightarrow> 'c sys" where
  "race_outcome i p n r s =
     (let s' = end_race (Some n) s in
      case r of Inr d \<Rightarrow> return_owner i (Inr d) s' | Inl e \<Rightarrow> next_phase i p e s')"

definition leave_call :: "nat \<Rightarrow> 'c sys \<Rightarrow> 'c sys" where
  "leave_call i s =
     (let c = s_calls s ! i in
      case leave (s_rc s) (g_req c) (g_ctx c \<noteq> None) of (r, rc) \<Rightarrow> end_race r (s\<lparr>s_rc := rc\<rparr>))"

text \<open>
  \<open>waitForRaceCompletion\<close>, one function for each branch of its \<open>select\<close>. In the final phase it is
  \<open>WaitForResult\<close>, whose deferred function lets the waiter leave.
\<close>

definition await_done :: "'c config \<Rightarrow> nat \<Rightarrow> PhaseType \<Rightarrow> nat \<Rightarrow> 'c sys \<Rightarrow> 'c sys option" where
  "await_done cf i p n s =
     (let r = heap (s_rc s) ! g_req (s_calls s ! i) in
      if \<not> br_done r then None
      else Some (race_outcome i p n (result_of r) (if completeOnFailure cf p then leave_call i s else s)))"

definition await_ctx :: "'c config \<Rightarrow> nat \<Rightarrow> PhaseType \<Rightarrow> nat \<Rightarrow> 'c sys \<Rightarrow> 'c sys option" where
  "await_ctx cf i p n s =
     (case g_ctx (s_calls s ! i) of
        None \<Rightarrow> None
      | Some e \<Rightarrow> Some (race_outcome i p n (Inl e) (if completeOnFailure cf p then leave_call i s else s)))"

definition await_poll :: "'c config \<Rightarrow> nat \<Rightarrow> PhaseType \<Rightarrow> nat \<Rightarrow> 'c sys \<Rightarrow> 'c sys option" where
  "await_poll cf i p n s =
     (if completeOnFailure cf p then None
      else (case GetRequestState (s_rc s) (g_req (s_calls s ! i)) of
              (done, tot, lastErr) \<Rightarrow> if sint done \<ge> sint tot then Some (set_pc i (Settling p n tot lastErr) s) else Some s))"

definition settle :: "nat \<Rightarrow> PhaseType \<Rightarrow> nat \<Rightarrow> 32 word \<Rightarrow> error option \<Rightarrow> 'c sys \<Rightarrow> 'c sys" where
  "settle i p n tot lastErr s =
     (let r = heap (s_rc s) ! g_req (s_calls s ! i) in
      race_outcome i p n
        (if br_done r then result_of r
         else Inl (case lastErr of Some e \<Rightarrow> if tot = 1 then e else Plain ''all peers in this phase failed''
                                 | None \<Rightarrow> Plain ''all peers in this phase failed'')) s)"

text \<open>A joiner waits for the result of the request it shares.\<close>

definition join_done :: "nat \<Rightarrow> 'c sys \<Rightarrow> 'c sys option" where
  "join_done i s =
     (let r = heap (s_rc s) ! g_req (s_calls s ! i) in
      if \<not> br_done r then None else Some (set_pc i (Finished (result_of r)) (leave_call i s)))"

definition join_ctx :: "nat \<Rightarrow> 'c sys \<Rightarrow> 'c sys option" where
  "join_ctx i s = (case g_ctx (s_calls s ! i) of None \<Rightarrow> None | Some e \<Rightarrow> Some (set_pc i (Finished (Inl e)) (leave_call i s)))"

section \<open>A task\<close>

definition set_task :: "nat \<Rightarrow> task_pc \<Rightarrow> 'c sys \<Rightarrow> 'c sys" where
  "set_task j q s = s\<lparr>s_tasks := (s_tasks s)[j := (s_tasks s ! j)\<lparr>t_pc := q\<rparr>]\<rparr>"

definition end_task :: "nat \<Rightarrow> 'c sys \<Rightarrow> 'c sys" where
  "end_task j s = (set_task j Ended s)\<lparr>completedTasks := i64 (completedTasks s + 1), pendingTasks := i64 (pendingTasks s - 1)\<rparr>"

definition begin_task :: "nat \<Rightarrow> 'c sys \<Rightarrow> 'c sys" where
  "begin_task j s = (let t = s_tasks s ! j in if over (t_req t) (t_race t) s then end_task j s else set_task j Running s)"

text \<open>
  \<open>handlePeerFailure\<close> up to the decision whether this was the last peer. A peer is reported to the DHT unless it is
  fixed or the race is over.
\<close>

definition handlePeerFailure :: "'c config \<Rightarrow> nat \<Rightarrow> error \<Rightarrow> 'c sys \<Rightarrow> 'c sys" where
  "handlePeerFailure cf j e s =
     (let t = s_tasks s ! j;
          bad = (if t_race t \<notin> s_ended s \<and> \<not> cf_isFixed cf (t_contact t) then s_bad s @ [(t_hash t, t_contact t)] else s_bad s) in
      case TrackFailedPeer (s_rc s) (t_req t) e of
        ((_, isFinal), rc) \<Rightarrow>
          (let s' = s\<lparr>s_rc := rc, s_bad := bad\<rparr> in if isFinal then set_task j (Failing e) s' else end_task j s'))"

definition peer_answer :: "'c config \<Rightarrow> nat \<Rightarrow> error + bytes \<Rightarrow> 'c sys \<Rightarrow> 'c sys" where
  "peer_answer cf j answer s =
     (let t = s_tasks s ! j in
      case answer of
        Inl e \<Rightarrow> handlePeerFailure cf j e s
      | Inr d \<Rightarrow>
          (case VerifyBlobHash (cf_sha cf) d (t_hash t) of
             Some e \<Rightarrow> handlePeerFailure cf j (Plain (''peer blob '' @ errText e)) s
           | None \<Rightarrow>
               (case CompleteWithData (s_rc s) (t_req t) d (Some (t_race t)) of
                  (r, rc) \<Rightarrow> end_task j (end_race r (s\<lparr>s_rc := rc\<rparr>)))))"

definition fail_request :: "nat \<Rightarrow> error \<Rightarrow> 'c sys \<Rightarrow> 'c sys" where
  "fail_request j e s =
     (let t = s_tasks s ! j in
      case CompleteWithErrorAndCancel (s_rc s) (t_req t) e (Some (t_race t)) of
        (r, rc) \<Rightarrow> end_task j (end_race r (s\<lparr>s_rc := rc\<rparr>)))"

text \<open>
  What \<open>WaitForCompletionWithContext\<close> checks every ten milliseconds, with the number of tasks submitted when it was
  called.
\<close>

definition completion_reached :: "int \<Rightarrow> 'c sys \<Rightarrow> bool" where
  "completion_reached submittedAtStart s \<longleftrightarrow> submittedAtStart = 0 \<or> completedTasks s \<ge> submittedAtStart \<and> pendingTasks s = 0"

section \<open>Runs\<close>

text \<open>
  \<open>Discard\<close> is what \<open>SetMaxConcurrency\<close> does to a queued task when it replaces the worker pool. The race context of
  a call ends with the context of the call.
\<close>

datatype 'c action =
    CallGet string
  | Discover nat "error + 'c list"
  | Advance nat
  | Done nat
  | Ctx nat
  | Poll nat
  | CancelCall nat error
  | EndRace nat
  | Begin nat
  | Answer nat "error + bytes"
  | FailRequest nat
  | Discard nat
  | StopDownloader
  | StopCoordinator
  | StartDownloader
  | StartCoordinator

definition race_of :: "'c pc \<Rightarrow> nat option" where
  "race_of q = (case q of StartTasks _ _ n \<Rightarrow> Some n | Submitting _ _ n \<Rightarrow> Some n
     | Adding _ _ _ n \<Rightarrow> Some n | Awaiting _ n \<Rightarrow> Some n | Settling _ n _ _ \<Rightarrow> Some n | _ \<Rightarrow> None)"

fun advance :: "'c config \<Rightarrow> nat \<Rightarrow> 'c pc \<Rightarrow> 'c sys \<Rightarrow> 'c sys option" where
  "advance cf i Downloading s = Some (DownloadFromPeers i s)"
| "advance cf i Executing s = Some (ExecutePhases i s)"
| "advance cf i (StartPhase p cs) s = Some (start_phase cf i p cs s)"
| "advance cf i (StartRace p cs) s = Some (start_race i p cs s)"
| "advance cf i (StartTasks p cs n) s = Some (start_tasks i p cs n s)"
| "advance cf i (Submitting p cs n) s = Some (submit i p cs n s)"
| "advance cf i (Adding p c cs n) s = Some (add_task i p c cs n s)"
| "advance cf i (Settling p n tot le) s = Some (settle i p n tot le s)"
| "advance cf i _ s = None"

definition on_call :: "nat \<Rightarrow> 'c sys \<Rightarrow> ('c pc \<Rightarrow> 'c sys option) \<Rightarrow> 'c sys option" where
  "on_call i s f = (if i < length (s_calls s) then f (g_pc (s_calls s ! i)) else None)"

definition on_task :: "nat \<Rightarrow> 'c sys \<Rightarrow> (task_pc \<Rightarrow> 'c sys option) \<Rightarrow> 'c sys option" where
  "on_task j s f = (if j < length (s_tasks s) then f (t_pc (s_tasks s ! j)) else None)"

fun act :: "'c config \<Rightarrow> 'c action \<Rightarrow> 'c sys \<Rightarrow> 'c sys option" where
  "act cf (CallGet h) s = Some (transfer_Get cf h s)"
| "act cf (Discover i found) s = on_call i s (\<lambda>q. case q of AtPhase p _ \<Rightarrow> Some (at_phase cf i p found s) | _ \<Rightarrow> None)"
| "act cf (Advance i) s = on_call i s (\<lambda>q. advance cf i q s)"
| "act cf (Done i) s = on_call i s (\<lambda>q. case q of Awaiting p n \<Rightarrow> await_done cf i p n s | Joined \<Rightarrow> join_done i s | _ \<Rightarrow> None)"
| "act cf (Ctx i) s = on_call i s (\<lambda>q. case q of Awaiting p n \<Rightarrow> await_ctx cf i p n s | Joined \<Rightarrow> join_ctx i s | _ \<Rightarrow> None)"
| "act cf (Poll i) s = on_call i s (\<lambda>q. case q of Awaiting p n \<Rightarrow> await_poll cf i p n s | _ \<Rightarrow> None)"
| "act cf (CancelCall i e) s = on_call i s (\<lambda>q.
     if g_ctx (s_calls s ! i) \<noteq> None then None
     else Some (end_race (race_of q) (s\<lparr>s_calls := (s_calls s)[i := (s_calls s ! i)\<lparr>g_ctx := Some e\<rparr>]\<rparr>)))"
| "act cf (EndRace n) s = (if n < s_races s then Some (end_race (Some n) s) else None)"
| "act cf (Begin j) s = on_task j s (\<lambda>q. case q of Queued \<Rightarrow> Some (begin_task j s) | _ \<Rightarrow> None)"
| "act cf (Answer j a) s = on_task j s (\<lambda>q. case q of Running \<Rightarrow> Some (peer_answer cf j a s) | _ \<Rightarrow> None)"
| "act cf (FailRequest j) s = on_task j s (\<lambda>q. case q of Failing e \<Rightarrow> Some (fail_request j e s) | _ \<Rightarrow> None)"
| "act cf (Discard j) s = on_task j s (\<lambda>q. case q of Queued \<Rightarrow> Some (set_task j Discarded s) | _ \<Rightarrow> None)"
| "act cf StopDownloader s = Some (s\<lparr>s_stopped := True\<rparr>)"
| "act cf StopCoordinator s = Some (s\<lparr>s_rc := rc_Stop (s_rc s)\<rparr>)"
| "act cf StartDownloader s = Some (s\<lparr>s_stopped := False\<rparr>)"
| "act cf StartCoordinator s = Some (s\<lparr>s_rc := rc_Start (s_rc s)\<rparr>)"

text \<open>An action that is not enabled leaves the state alone.\<close>

definition step :: "'c config \<Rightarrow> 'c sys \<Rightarrow> 'c action \<Rightarrow> 'c sys" where
  "step cf s a = (case act cf a s of None \<Rightarrow> s | Some s' \<Rightarrow> s')"

definition run_all :: "'c config \<Rightarrow> 'c action list \<Rightarrow> 'c sys \<Rightarrow> 'c sys" where
  "run_all cf as s = foldl (step cf) s as"

end
