(* ===== verification/Race_Safety.thy ===== *)
theory Race_Safety
  imports Race
begin

text \<open>
  What holds in every run of the peer transfer, whatever the peers answer, whenever contexts end and in
  whatever order calls and tasks take their steps: the invariant \<open>sys_ok\<close>, the result of a request, the task
  counters, and what a cancelled call can do.
\<close>

section \<open>The invariant\<close>

text \<open>
  \<open>H a\<close> is the hash for which the request at address \<open>a\<close> was created. A request that is done holds data with
  that hash, or an error and no data.
\<close>

definition good :: "(bytes \<Rightarrow> bytes) \<Rightarrow> (nat \<Rightarrow> string) \<Rightarrow> nat \<Rightarrow> taskResult \<Rightarrow> bool" where
  "good sha H a t \<longleftrightarrow>
     (case tr_err t of
        None \<Rightarrow> (\<exists>d. tr_data t = Some d \<and> VerifyBlobHash sha d (H a) = None)
      | Some _ \<Rightarrow> tr_data t = None)"

definition live :: "(nat \<Rightarrow> string) \<Rightarrow> RequestCoordinator \<Rightarrow> nat \<Rightarrow> string \<Rightarrow> bool" where
  "live H rc a h \<longleftrightarrow> a < length (heap rc) \<and> H a = h"

definition call_ok :: "(nat \<Rightarrow> string) \<Rightarrow> RequestCoordinator \<Rightarrow> 'c call \<Rightarrow> bool" where
  "call_ok H rc c \<longleftrightarrow>
     (case g_pc c of
        Finished (Inl _) \<Rightarrow> True
      | Finished (Inr d) \<Rightarrow> live H rc (g_req c) (g_hash c) \<and> br_done (heap rc ! g_req c) \<and> result_of (heap rc ! g_req c) = Inr d
      | _ \<Rightarrow> live H rc (g_req c) (g_hash c))"

definition task_ok :: "(nat \<Rightarrow> string) \<Rightarrow> RequestCoordinator \<Rightarrow> 'c task \<Rightarrow> bool" where
  "task_ok H rc t \<longleftrightarrow> live H rc (t_req t) (t_hash t)"

definition rc_ok :: "(bytes \<Rightarrow> bytes) \<Rightarrow> (nat \<Rightarrow> string) \<Rightarrow> RequestCoordinator \<Rightarrow> bool" where
  "rc_ok sha H rc \<longleftrightarrow> results_ok (good sha H) rc \<and> (\<forall>h a. backlog rc h = Some a \<longrightarrow> live H rc a h)"

definition sys_ok :: "'c config \<Rightarrow> (nat \<Rightarrow> string) \<Rightarrow> 'c sys \<Rightarrow> bool" where
  "sys_ok cf H s \<longleftrightarrow> rc_ok (cf_sha cf) H (s_rc s) \<and> (\<forall>c \<in> set (s_calls s). call_ok H (s_rc s) c) \<and>
     (\<forall>t \<in> set (s_tasks s). task_ok H (s_rc s) t)"

lemma sys_ok_init: "sys_ok cf H init_sys"
  by (simp add: sys_ok_def init_sys_def rc_ok_def results_ok_def NewRequestCoordinator_def)

lemma grows_result:
  assumes "grows rc rc'" "a < length (heap rc)" "br_done (heap rc ! a)"
  shows "br_done (heap rc' ! a)" "result_of (heap rc' ! a) = result_of (heap rc ! a)"
  using assms unfolding grows_def result_of_def by presburger+

text \<open>A step of the coordinator keeps what calls and tasks know.\<close>

lemma live_keeps: "keeps P rc rc' \<Longrightarrow> live H rc' a h = live H rc a h"
  by (simp add: keeps_def live_def)

lemma rc_ok_keeps:
  assumes "keeps (good sha H) rc rc'" "rc_ok sha H rc"
  shows "rc_ok sha H rc'"
  using assms by (auto simp: rc_ok_def keeps_def live_def map_le_def dom_def)

lemma call_ok_grows:
  assumes "grows rc rc'" "\<And>a. a < length (heap rc) \<Longrightarrow> H' a = H a" "call_ok H rc c"
  shows "call_ok H' rc' c"
  using assms by (auto simp: call_ok_def live_def grows_def result_of_def split: pc.splits sum.splits option.splits)

lemma task_ok_grows:
  assumes "grows rc rc'" "\<And>a. a < length (heap rc) \<Longrightarrow> H' a = H a" "task_ok H rc t"
  shows "task_ok H' rc' t"
  using assms by (auto simp: task_ok_def live_def grows_def)

section \<open>Each step keeps it\<close>

text \<open>\<open>ok_step\<close>: the state after a step is well-formed, and no result changed.\<close>

definition ok_step :: "'c config \<Rightarrow> (nat \<Rightarrow> string) \<Rightarrow> 'c sys \<Rightarrow> 'c sys \<Rightarrow> bool" where
  "ok_step cf H s s' \<longleftrightarrow> sys_ok cf H s' \<and> grows (s_rc s) (s_rc s')"

definition live_at :: "(nat \<Rightarrow> string) \<Rightarrow> 'c sys \<Rightarrow> nat \<Rightarrow> bool" where
  "live_at H s i \<longleftrightarrow> i < length (s_calls s) \<and> live H (s_rc s) (g_req (s_calls s ! i)) (g_hash (s_calls s ! i))"

lemma ok_step_refl: "sys_ok cf H s \<Longrightarrow> ok_step cf H s s"
  by (simp add: ok_step_def)

lemma ok_step_trans: "ok_step cf H s1 s2 \<Longrightarrow> ok_step cf H s2 s3 \<Longrightarrow> ok_step cf H s1 s3"
  by (auto simp: ok_step_def intro: grows_trans)

lemma ok_step_sys: "ok_step cf H s s' \<Longrightarrow> sys_ok cf H s'"
  by (simp add: ok_step_def)

text \<open>
  The shape of every step but \<open>CallGet\<close>: the coordinator takes a step that keeps the results, each call and each
  task is as before or acceptable in the new state.
\<close>

lemma ok_stepI:
  assumes ok: "sys_ok cf H s" and k: "keeps (good (cf_sha cf) H) (s_rc s) (s_rc s')"
    and c: "\<And>c. c \<in> set (s_calls s') \<Longrightarrow> c \<in> set (s_calls s) \<or> call_ok H (s_rc s') c"
    and t: "\<And>t. t \<in> set (s_tasks s') \<Longrightarrow> t \<in> set (s_tasks s) \<or> task_ok H (s_rc s') t"
  shows "ok_step cf H s s'"
proof -
  from ok have r: "rc_ok (cf_sha cf) H (s_rc s)" by (simp add: sys_ok_def)
  with k have g: "grows (s_rc s) (s_rc s')" by (simp add: keeps_def rc_ok_def)
  show ?thesis
    using ok c t rc_ok_keeps [OF k r] call_ok_grows [OF g] task_ok_grows [OF g] g unfolding ok_step_def sys_ok_def by blast
qed

lemma ok_step_call:
  assumes "sys_ok cf H s" "keeps (good (cf_sha cf) H) (s_rc s) (s_rc s')"
    and "s_calls s' = (s_calls s)[i := c]" "call_ok H (s_rc s') c" "s_tasks s' = s_tasks s"
  shows "ok_step cf H s s'"
  using assms(1,2)
proof (rule ok_stepI)
  fix x assume "x \<in> set (s_calls s')"
  then have "x \<in> insert c (set (s_calls s))" using assms(3) set_update_subset_insert by fastforce
  then show "x \<in> set (s_calls s) \<or> call_ok H (s_rc s') x" using assms(4) by auto
qed (simp add: assms(5))

lemma ok_step_task:
  assumes "sys_ok cf H s" "keeps (good (cf_sha cf) H) (s_rc s) (s_rc s')"
    and "s_tasks s' = (s_tasks s)[j := t]" "task_ok H (s_rc s') t" "s_calls s' = s_calls s"
  shows "ok_step cf H s s'"
  using assms(1,2)
proof (rule ok_stepI)
  fix x assume "x \<in> set (s_tasks s')"
  then have "x \<in> insert t (set (s_tasks s))" using assms(3) set_update_subset_insert by fastforce
  then show "x \<in> set (s_tasks s) \<or> task_ok H (s_rc s') x" using assms(4) by auto
qed (simp add: assms(5))

lemma set_pc_sel [simp]:
  "s_rc (set_pc i q s) = s_rc s" "s_tasks (set_pc i q s) = s_tasks s"
  "s_calls (set_pc i q s) = (s_calls s)[i := (s_calls s ! i)\<lparr>g_pc := q\<rparr>]"
  by (simp_all add: set_pc_def)

lemma end_race_sel [simp]:
  "s_rc (end_race r s) = s_rc s" "s_tasks (end_race r s) = s_tasks s" "s_calls (end_race r s) = s_calls s"
  by (simp_all add: end_race_def split: option.split)

lemma set_task_sel [simp]:
  "s_rc (set_task j q s) = s_rc s" "s_calls (set_task j q s) = s_calls s"
  "s_tasks (set_task j q s) = (s_tasks s)[j := (s_tasks s ! j)\<lparr>t_pc := q\<rparr>]"
  by (simp_all add: set_task_def)

lemma end_task_sel [simp]:
  "s_rc (end_task j s) = s_rc s" "s_calls (end_task j s) = s_calls s"
  "s_tasks (end_task j s) = (s_tasks s)[j := (s_tasks s ! j)\<lparr>t_pc := Ended\<rparr>]"
  by (simp_all add: end_task_def)

text \<open>A call that has not returned has a request; whatever changes in the call but its request keeps that.\<close>

lemma unfinished_live:
  assumes "sys_ok cf H s" "i < length (s_calls s)" "\<And>r. g_pc (s_calls s ! i) \<noteq> Finished r"
  shows "live_at H s i"
proof -
  from assms have "call_ok H (s_rc s) (s_calls s ! i)" by (simp add: sys_ok_def)
  with assms show ?thesis by (auto simp: call_ok_def live_at_def split: pc.splits)
qed

lemma call_okI:
  "live H rc (g_req c) (g_hash c) \<Longrightarrow>
   (\<And>d. g_pc c = Finished (Inr d) \<Longrightarrow> br_done (heap rc ! g_req c) \<and> result_of (heap rc ! g_req c) = Inr d) \<Longrightarrow> call_ok H rc c"
  by (auto simp: call_ok_def split: pc.splits sum.splits)

lemma move_ok:
  assumes "sys_ok cf H s" "live_at H s i" "keeps (good (cf_sha cf) H) (s_rc s) (s_rc s')"
    and "s_calls s' = (s_calls s)[i := (s_calls s ! i)\<lparr>g_pc := q\<rparr>]" "s_tasks s' = s_tasks s" "\<And>r. q \<noteq> Finished (Inr r)"
  shows "ok_step cf H s s'"
  using assms(1,3,4)
proof (rule ok_step_call)
  from assms(2,3) have "live H (s_rc s') (g_req (s_calls s ! i)) (g_hash (s_calls s ! i))"
    by (simp add: live_at_def live_keeps)
  with assms(6) show "call_ok H (s_rc s') ((s_calls s ! i)\<lparr>g_pc := q\<rparr>)" by (intro call_okI) simp_all
qed (rule assms(5))

lemma return_ok:
  assumes "sys_ok cf H s" "live_at H s i" "s_calls s' = (s_calls s)[i := (s_calls s ! i)\<lparr>g_pc := Finished r\<rparr>]" "s_tasks s' = s_tasks s"
    and k: "keeps (good (cf_sha cf) H) (s_rc s) (s_rc s')"
    and r: "\<And>d. r = Inr d \<Longrightarrow> br_done (heap (s_rc s) ! g_req (s_calls s ! i)) \<and> result_of (heap (s_rc s) ! g_req (s_calls s ! i)) = Inr d"
  shows "ok_step cf H s s'"
  using assms(1) k assms(3)
proof (rule ok_step_call)
  let ?a = "g_req (s_calls s ! i)"
  from assms(1,2) k have "live H (s_rc s') ?a (g_hash (s_calls s ! i))" "?a < length (heap (s_rc s))" "grows (s_rc s) (s_rc s')"
    by (simp_all add: live_at_def live_keeps live_def keeps_def sys_ok_def rc_ok_def)
  with r show "call_ok H (s_rc s') ((s_calls s ! i)\<lparr>g_pc := Finished r\<rparr>)"
    by (intro call_okI) (simp_all add: grows_result)
qed (rule assms(4))

text \<open>The steps of a call.\<close>

lemma set_pc_ok:
  "sys_ok cf H s \<Longrightarrow> live_at H s i \<Longrightarrow> (\<And>r. q \<noteq> Finished (Inr r)) \<Longrightarrow> ok_step cf H s (set_pc i q s)"
  by (rule move_ok [where i = i and q = q]) simp_all

lemma set_rc_ok:
  "sys_ok cf H s \<Longrightarrow> keeps (good (cf_sha cf) H) (s_rc s) rc \<Longrightarrow> ok_step cf H s (s\<lparr>s_rc := rc\<rparr>)"
  by (rule ok_stepI) simp_all

lemma end_race_ok: "sys_ok cf H s \<Longrightarrow> ok_step cf H s (end_race r s)"
  by (rule ok_stepI) simp_all

lemma return_owner_ok:
  assumes "sys_ok cf H s" "live_at H s i"
    and "\<And>d. r = Inr d \<Longrightarrow> br_done (heap (s_rc s) ! g_req (s_calls s ! i)) \<and> result_of (heap (s_rc s) ! g_req (s_calls s ! i)) = Inr d"
  shows "ok_step cf H s (return_owner i r s)"
  using assms(1,2) by (rule return_ok [where r = r]) (simp_all add: return_owner_def rc_keeps assms(3))

lemma next_phase_ok: "sys_ok cf H s \<Longrightarrow> live_at H s i \<Longrightarrow> ok_step cf H s (next_phase i p e s)"
  by (cases p) (auto simp: next_phase_def intro: set_pc_ok return_owner_ok)

lemma live_at_step:
  assumes "ok_step cf H s s'" "s_calls s' = s_calls s" "live_at H s i"
  shows "live_at H s' i"
  using assms by (auto simp: ok_step_def live_at_def live_def grows_def)

lemma race_outcome_ok:
  assumes "sys_ok cf H s" "live_at H s i"
    and "\<And>d. r = Inr d \<Longrightarrow> br_done (heap (s_rc s) ! g_req (s_calls s ! i)) \<and> result_of (heap (s_rc s) ! g_req (s_calls s ! i)) = Inr d"
  shows "ok_step cf H s (race_outcome i p n r s)"
proof -
  let ?s = "end_race (Some n) s"
  have e: "ok_step cf H s ?s" using assms(1) by (rule end_race_ok)
  then have l: "live_at H ?s i" using assms(2) by (auto intro: live_at_step)
  have "ok_step cf H ?s (race_outcome i p n r s)"
  proof (cases r)
    case (Inl x)
    then show ?thesis using next_phase_ok [OF ok_step_sys [OF e] l] by (simp add: race_outcome_def Let_def)
  next
    case (Inr d)
    have "ok_step cf H ?s (return_owner i (Inr d) ?s)"
      by (rule return_owner_ok [OF ok_step_sys [OF e] l]) (simp add: assms(3) [OF Inr])
    with Inr show ?thesis by (simp add: race_outcome_def Let_def)
  qed
  with e show ?thesis by (rule ok_step_trans)
qed

lemma leave_call_ok:
  assumes "sys_ok cf H s"
  shows "ok_step cf H s (leave_call i s)" and "s_calls (leave_call i s) = s_calls s"
proof -
  have "keeps (good (cf_sha cf) H) (s_rc s) (s_rc (leave_call i s))"
    using leave_keeps [of "good (cf_sha cf) H" "s_rc s"] by (simp add: leave_call_def Let_def case_prod_beta)
  then show "ok_step cf H s (leave_call i s)"
    by (rule ok_stepI [OF assms]) (simp_all add: leave_call_def Let_def case_prod_beta)
  show "s_calls (leave_call i s) = s_calls s" by (simp add: leave_call_def Let_def case_prod_beta)
qed

text \<open>Waiting ends with the result of a request that is done, or with an error.\<close>

lemma after_leave:
  assumes "sys_ok cf H s" "live_at H s i" "s' = s \<or> s' = leave_call i s"
  shows "ok_step cf H s s'" "live_at H s' i" "s_calls s' = s_calls s"
    "br_done (heap (s_rc s) ! g_req (s_calls s ! i)) \<Longrightarrow> br_done (heap (s_rc s') ! g_req (s_calls s ! i)) \<and>
       result_of (heap (s_rc s') ! g_req (s_calls s ! i)) = result_of (heap (s_rc s) ! g_req (s_calls s ! i))"
proof -
  show o: "ok_step cf H s s'"
    using assms(3) by (elim disjE) (simp_all add: ok_step_refl [OF assms(1)] leave_call_ok [OF assms(1)])
  show c: "s_calls s' = s_calls s"
    using assms(3) by (elim disjE) (simp_all add: leave_call_ok [OF assms(1)])
  show "live_at H s' i" using o c assms(2) by (rule live_at_step)
  from o have g: "grows (s_rc s) (s_rc s')" by (simp add: ok_step_def)
  from assms(2) have l: "g_req (s_calls s ! i) < length (heap (s_rc s))" by (simp add: live_at_def live_def)
  show "br_done (heap (s_rc s') ! g_req (s_calls s ! i)) \<and>
       result_of (heap (s_rc s') ! g_req (s_calls s ! i)) = result_of (heap (s_rc s) ! g_req (s_calls s ! i))"
    if "br_done (heap (s_rc s) ! g_req (s_calls s ! i))"
    using grows_result [OF g l that] by simp
qed

lemma await_done_ok:
  assumes "sys_ok cf H s" "live_at H s i" "await_done cf i p n s = Some s'"
  shows "ok_step cf H s s'"
proof -
  define s1 where "s1 = (if completeOnFailure cf p then leave_call i s else s)"
  then have s1: "s1 = s \<or> s1 = leave_call i s" by simp
  note a = after_leave [OF assms(1,2) s1]
  from assms(3) have d: "br_done (heap (s_rc s) ! g_req (s_calls s ! i))"
    and s': "s' = race_outcome i p n (result_of (heap (s_rc s) ! g_req (s_calls s ! i))) s1"
    by (auto simp: await_done_def Let_def s1_def split: if_splits)
  have "ok_step cf H s1 s'"
    unfolding s' by (rule race_outcome_ok) (use a d ok_step_sys in auto)
  with a(1) show ?thesis by (rule ok_step_trans)
qed

lemma await_ctx_ok:
  assumes "sys_ok cf H s" "live_at H s i" "await_ctx cf i p n s = Some s'"
  shows "ok_step cf H s s'"
proof -
  define s1 where "s1 = (if completeOnFailure cf p then leave_call i s else s)"
  then have s1: "s1 = s \<or> s1 = leave_call i s" by simp
  note a = after_leave [OF assms(1,2) s1]
  from assms(3) obtain e where s': "s' = race_outcome i p n (Inl e) s1"
    by (auto simp: await_ctx_def s1_def split: option.splits)
  have "ok_step cf H s1 s'" unfolding s' by (rule race_outcome_ok) (use a ok_step_sys in auto)
  with a(1) show ?thesis by (rule ok_step_trans)
qed

lemma await_poll_ok:
  "sys_ok cf H s \<Longrightarrow> live_at H s i \<Longrightarrow> await_poll cf i p n s = Some s' \<Longrightarrow> ok_step cf H s s'"
  by (auto simp: await_poll_def split: if_splits prod.splits intro: set_pc_ok ok_step_refl)

lemma join_done_ok:
  assumes "sys_ok cf H s" "live_at H s i" "join_done i s = Some s'"
  shows "ok_step cf H s s'"
proof -
  note a = after_leave [OF assms(1,2) disjI2 [OF refl]]
  from assms(3) have d: "br_done (heap (s_rc s) ! g_req (s_calls s ! i))"
    and s': "s' = set_pc i (Finished (result_of (heap (s_rc s) ! g_req (s_calls s ! i)))) (leave_call i s)"
    by (auto simp: join_done_def Let_def split: if_splits)
  have "ok_step cf H (leave_call i s) s'"
    unfolding s' using a d ok_step_sys by (intro return_ok [where i = i]) auto
  with a(1) show ?thesis by (rule ok_step_trans)
qed

lemma join_ctx_ok:
  assumes "sys_ok cf H s" "live_at H s i" "join_ctx i s = Some s'"
  shows "ok_step cf H s s'"
proof -
  note a = after_leave [OF assms(1,2) disjI2 [OF refl]]
  from assms(3) obtain e where s': "s' = set_pc i (Finished (Inl e)) (leave_call i s)"
    by (auto simp: join_ctx_def split: option.splits)
  have "ok_step cf H (leave_call i s) s'" unfolding s' using a ok_step_sys by (intro set_pc_ok) auto
  with a(1) show ?thesis by (rule ok_step_trans)
qed

lemma settle_ok:
  assumes "sys_ok cf H s" "live_at H s i"
  shows "ok_step cf H s (settle i p n tot le s)"
  unfolding settle_def Let_def by (rule race_outcome_ok [OF assms]) (auto split: if_splits option.splits)

lemma at_phase_ok: "sys_ok cf H s \<Longrightarrow> live_at H s i \<Longrightarrow> ok_step cf H s (at_phase cf i p found s)"
  by (auto simp: at_phase_def Let_def intro: next_phase_ok set_pc_ok)

lemma start_phase_ok:
  assumes "sys_ok cf H s" "live_at H s i"
  shows "ok_step cf H s (start_phase cf i p cs s)"
proof -
  let ?s = "s\<lparr>s_rc := ResetForNewPhase (s_rc s) (g_req (s_calls s ! i)) (of_nat (length cs))\<rparr>"
  have o: "ok_step cf H s ?s" by (rule set_rc_ok [OF assms(1) ResetForNewPhase_keeps])
  have l: "live_at H ?s i" by (rule live_at_step [OF o _ assms(2)]) simp
  have "ok_step cf H ?s (start_phase cf i p cs s)"
    using next_phase_ok [OF ok_step_sys [OF o] l] set_pc_ok [OF ok_step_sys [OF o] l] by (simp add: start_phase_def Let_def)
  with o show ?thesis by (rule ok_step_trans)
qed

lemma start_race_ok:
  assumes "sys_ok cf H s" "live_at H s i"
  shows "ok_step cf H s (start_race i p cs s)"
  using assms by (rule move_ok [where q = "StartTasks p cs (s_races s)"]) (simp_all add: start_race_def Let_def rc_keeps)

lemma add_task_ok:
  assumes "sys_ok cf H s" "live_at H s i"
  shows "ok_step cf H s (add_task i p c cs n s)"
proof -
  let ?s = "set_pc i (Submitting p cs n) s"
  have o: "ok_step cf H s ?s" using assms by (rule set_pc_ok) simp
  have "ok_step cf H ?s (add_task i p c cs n s)"
    by (rule ok_stepI [OF ok_step_sys [OF o]])
      (use assms(2) in \<open>auto simp: add_task_def Let_def task_ok_def live_at_def\<close>)
  with o show ?thesis by (rule ok_step_trans)
qed

lemma checks_ok:
  assumes "sys_ok cf H s" "live_at H s i"
  shows "ok_step cf H s (DownloadFromPeers i s)" "ok_step cf H s (ExecutePhases i s)"
    "ok_step cf H s (start_tasks i p cs n s)" "ok_step cf H s (submit i p cs n s)"
  using assms by (auto simp: DownloadFromPeers_def ExecutePhases_def start_tasks_def submit_def split: list.split
      intro!: return_owner_ok set_pc_ok)

lemma advance_ok:
  assumes "sys_ok cf H s" "live_at H s i" "advance cf i q s = Some s'"
  shows "ok_step cf H s s'"
  using assms(3) start_phase_ok [OF assms(1,2)] start_race_ok [OF assms(1,2)] add_task_ok [OF assms(1,2)] checks_ok [OF assms(1,2)]
    settle_ok [OF assms(1,2)] by (cases q) auto

text \<open>The steps of a task.\<close>

lemma set_task_ok:
  assumes "sys_ok cf H s" "j < length (s_tasks s)" "s_calls s' = s_calls s"
    and "keeps (good (cf_sha cf) H) (s_rc s) (s_rc s')" "s_tasks s' = (s_tasks s)[j := (s_tasks s ! j)\<lparr>t_pc := q\<rparr>]"
  shows "ok_step cf H s s'"
  using assms(1,4,5)
proof (rule ok_step_task)
  from assms(1,2) have "task_ok H (s_rc s) (s_tasks s ! j)" by (simp add: sys_ok_def)
  then show "task_ok H (s_rc s') ((s_tasks s ! j)\<lparr>t_pc := q\<rparr>)" using assms(4) by (simp add: task_ok_def live_keeps)
qed (rule assms(3))

lemma begin_task_ok: "sys_ok cf H s \<Longrightarrow> j < length (s_tasks s) \<Longrightarrow> ok_step cf H s (begin_task j s)"
  by (auto simp: begin_task_def Let_def intro!: set_task_ok)

lemma handlePeerFailure_ok:
  assumes "sys_ok cf H s" "j < length (s_tasks s)"
  shows "ok_step cf H s (handlePeerFailure cf j e s)"
  by (rule set_task_ok [OF assms, where q = "if snd (fst (TrackFailedPeer (s_rc s) (t_req (s_tasks s ! j)) e)) then Failing e else Ended"])
    (simp_all add: handlePeerFailure_def Let_def case_prod_beta rc_keeps)

lemma peer_answer_ok:
  assumes "sys_ok cf H s" "j < length (s_tasks s)"
  shows "ok_step cf H s (peer_answer cf j ans s)"
proof (cases "\<exists>d. ans = Inr d \<and> VerifyBlobHash (cf_sha cf) d (t_hash (s_tasks s ! j)) = None")
  case True
  then obtain d where d: "ans = Inr d" "VerifyBlobHash (cf_sha cf) d (t_hash (s_tasks s ! j)) = None" by blast
  have "task_ok H (s_rc s) (s_tasks s ! j)" using assms by (simp add: sys_ok_def)
  with d(2) have "good (cf_sha cf) H (t_req (s_tasks s ! j)) (NewTaskResult (Some d) None)"
    by (simp add: good_def task_ok_def live_def NewTaskResult_def)
  from CompleteWithData_keeps [where P = "good (cf_sha cf) H", OF this] show ?thesis
    by (intro set_task_ok [OF assms, where q = Ended]) (simp_all add: peer_answer_def Let_def case_prod_beta d)
next
  case False
  then show ?thesis using handlePeerFailure_ok [OF assms]
    by (auto simp: peer_answer_def Let_def split: sum.split option.split)
qed

lemma fail_request_ok:
  assumes "sys_ok cf H s" "j < length (s_tasks s)"
  shows "ok_step cf H s (fail_request j e s)"
proof -
  have "good (cf_sha cf) H a (NewTaskResult None (Some e))" for a by (simp add: good_def NewTaskResult_def)
  from CompleteWithErrorAndCancel_keeps [where P = "good (cf_sha cf) H", OF this] show ?thesis
    by (intro set_task_ok [OF assms, where q = Ended]) (simp_all add: fail_request_def Let_def case_prod_beta)
qed

section \<open>All runs\<close>

text \<open>A new request is the only thing that changes what is known of addresses.\<close>

lemma transfer_Get_cases:
  fixes cf :: "'c config" and s :: "'c sys" and h :: string
  defines "c \<equiv> \<lambda>a q. \<lparr>g_hash = h, g_req = a, g_ctx = None, g_pc = q\<rparr> :: 'c call"
  obtains (refused) e where "transfer_Get cf h s = s\<lparr>s_calls := s_calls s @ [c (length (heap (s_rc s))) (Finished (Inl e))]\<rparr>"
  | (joined) a where "backlog (s_rc s) h = Some a"
      "transfer_Get cf h s = s\<lparr>s_rc := upd_req a (AddWaiter (heap (s_rc s) ! a)) (s_rc s), s_calls := s_calls s @ [c a Joined]\<rparr>"
  | (created) rc where "backlog (s_rc s) h = None"
      "rc = (s_rc s)\<lparr>heap := heap (s_rc s) @ [NewBlobRequest\<lparr>waiters := 1\<rparr>], backlog := (backlog (s_rc s))(h \<mapsto> length (heap (s_rc s)))\<rparr>"
      "transfer_Get cf h s = s\<lparr>s_rc := rc, s_calls := s_calls s @ [c (length (heap (s_rc s))) Downloading]\<rparr>"
proof -
  note d = transfer_Get_def GetOrCreateRequest_def Let_def c_def
  consider "\<not> cf_valid cf h" | e where "cf_valid cf h" "cf_parse cf h = Some e"
    | "cf_valid cf h" "cf_parse cf h = None" "rc_stopped (s_rc s)"
    | "cf_valid cf h" "cf_parse cf h = None" "\<not> rc_stopped (s_rc s)" by fastforce
  then show thesis
  proof cases
    case 1
    show thesis by (rule refused [of "Sentinel ErrInvalidHash"]) (simp add: d 1)
  next
    case (2 e)
    show thesis by (rule refused [of "Wrapped ''failed to parse hash for DHT lookup'' e"]) (simp add: d 2)
  next
    case 3
    show thesis by (rule refused [of "Plain ''request coordinator is stopped''"]) (simp add: d 3)
  next
    case 4
    show thesis
    proof (cases "backlog (s_rc s) h")
      case None
      show thesis by (rule created [OF None refl]) (simp add: d 4 None)
    next
      case (Some a)
      show thesis by (rule joined [OF Some]) (simp add: d 4 Some)
    qed
  qed
qed

lemma transfer_Get_ok:
  assumes "sys_ok cf H s"
  obtains H' where "ok_step cf H' s (transfer_Get cf h s)" "\<And>a. a < length (heap (s_rc s)) \<Longrightarrow> H' a = H a"
proof -
  let ?c = "\<lambda>a q. \<lparr>g_hash = h, g_req = a, g_ctx = None, g_pc = q\<rparr>"
  let ?refuse = "\<lambda>e. s\<lparr>s_calls := s_calls s @ [?c (length (heap (s_rc s))) (Finished (Inl e))]\<rparr>"
  have refuse: "ok_step cf H s (?refuse e)" for e
    by (rule ok_stepI [OF assms]) (auto simp: call_ok_def)
  from transfer_Get_cases [of cf h s] show ?thesis
  proof cases
    case (refused e)
    then show ?thesis using refuse that [of H] by metis
  next
    case (joined a)
    have k: "keeps (good (cf_sha cf) H) (s_rc s) (upd_req a (AddWaiter (heap (s_rc s) ! a)) (s_rc s))" by (rule AddWaiter_keeps)
    have "live H (s_rc s) a h" using assms joined(1) by (simp add: sys_ok_def rc_ok_def)
    then have "ok_step cf H s (transfer_Get cf h s)"
      unfolding joined(2) by (intro ok_stepI [OF assms]) (auto simp: k live_keeps [OF k] intro!: call_okI)
    then show ?thesis by (rule that) simp
  next
    case (created rc)
    let ?n = "length (heap (s_rc s))"
    let ?H = "H(?n := h)"
    have r: "rc_ok (cf_sha cf) H (s_rc s)" using assms by (simp add: sys_ok_def)
    have g: "grows (s_rc s) rc" by (auto simp: created(2) grows_def nth_append)
    have H: "?H a = H a" if "a < ?n" for a using that by simp
    have "good (cf_sha cf) ?H a t = good (cf_sha cf) H a t" if "a < ?n" for a t
      using that by (simp add: good_def cong: option.case_cong)
    then have "rc_ok (cf_sha cf) ?H rc"
      using r by (auto simp: created(2) rc_ok_def results_ok_def live_def nth_append NewBlobRequest_def less_Suc_eq)
    moreover have "call_ok ?H rc (?c ?n Downloading)" by (intro call_okI) (simp_all add: live_def created(2))
    moreover have "call_ok ?H rc c" if "call_ok H (s_rc s) c" for c :: "'a call" using call_ok_grows [where H' = ?H, OF g H that] .
    moreover have "task_ok ?H rc t" if "task_ok H (s_rc s) t" for t :: "'a task" using task_ok_grows [where H' = ?H, OF g H that] .
    ultimately have "ok_step cf ?H s (transfer_Get cf h s)"
      using assms g by (simp add: created(3) ok_step_def sys_ok_def)
    then show ?thesis using that [of ?H] by simp
  qed
qed

lemma act_ok:
  assumes ok: "sys_ok cf H s" and a: "act cf a s = Some s'"
  obtains H' where "ok_step cf H' s s'" "\<And>b. b < length (heap (s_rc s)) \<Longrightarrow> H' b = H b"
proof -
  have l: "live_at H s i" if "i < length (s_calls s)" "\<And>r. g_pc (s_calls s ! i) \<noteq> Finished r" for i
    using ok that by (rule unfinished_live)
  note steps = at_phase_ok [OF ok] begin_task_ok [OF ok] peer_answer_ok [OF ok] fail_request_ok [OF ok] end_race_ok [OF ok]
  show thesis
  proof (cases "\<exists>h. a = CallGet h")
    case True
    with a show thesis using transfer_Get_ok [OF ok] that by (metis act.simps(1) option.inject)
  next
    case False
    have "ok_step cf H s s'"
    proof (cases a)
      case (Discover i f)
      with a show ?thesis by (auto simp: on_call_def split: if_splits pc.splits intro!: steps l)
    next
      case (Advance i)
      then have i: "i < length (s_calls s)" "advance cf i (g_pc (s_calls s ! i)) s = Some s'"
        using a by (auto simp: on_call_def split: if_splits)
      then have "g_pc (s_calls s ! i) \<noteq> Finished r" for r by auto
      with i show ?thesis using advance_ok [OF ok l] by simp
    next
      case (Done i)
      with a show ?thesis
        by (auto simp: on_call_def split: if_splits pc.splits intro: await_done_ok [OF ok l] join_done_ok [OF ok l])
    next
      case (Ctx i)
      with a show ?thesis
        by (auto simp: on_call_def split: if_splits pc.splits intro: await_ctx_ok [OF ok l] join_ctx_ok [OF ok l])
    next
      case (Poll i)
      with a show ?thesis by (auto simp: on_call_def split: if_splits pc.splits intro: await_poll_ok [OF ok l])
    next
      case (CancelCall i e)
      then have i: "i < length (s_calls s)" and s': "s' = end_race (race_of (g_pc (s_calls s ! i))) (s\<lparr>s_calls := (s_calls s)[i := (s_calls s ! i)\<lparr>g_ctx := Some e\<rparr>]\<rparr>)"
        using a by (auto simp: on_call_def split: if_splits)
      have "call_ok H (s_rc s) (s_calls s ! i)" using ok i by (simp add: sys_ok_def)
      then have "call_ok H (s_rc s) ((s_calls s ! i)\<lparr>g_ctx := Some e\<rparr>)" 
        by (simp add: call_ok_def split: pc.splits sum.splits)
      then show ?thesis unfolding s' by (intro ok_step_call [OF ok]) simp_all
    next
      case (EndRace n)
      with a show ?thesis by (auto split: if_splits intro: steps)
    next
      case (Begin j)
      with a show ?thesis by (auto simp: on_task_def split: if_splits task_pc.splits intro: steps)
    next
      case (Answer j x)
      with a show ?thesis by (auto simp: on_task_def split: if_splits task_pc.splits intro: steps)
    next
      case (FailRequest j)
      with a show ?thesis by (auto simp: on_task_def split: if_splits task_pc.splits intro: steps)
    next
      case (Discard j)
      with a show ?thesis by (auto simp: on_task_def split: if_splits task_pc.splits intro!: set_task_ok [OF ok])
    qed (use a False in \<open>auto intro!: ok_stepI [OF ok] rc_keeps\<close>)
    then show thesis by (rule that) simp
  qed
qed

lemma run_all_Nil [simp]: "run_all cf [] s = s"
  by (simp add: run_all_def)

lemma run_all_Cons [simp]: "run_all cf (a # as) s = run_all cf as (step cf s a)"
  by (simp add: run_all_def)

lemma run_all_append: "run_all cf (as @ bs) s = run_all cf bs (run_all cf as s)"
  by (simp add: run_all_def)

text \<open>A property that every enabled action keeps holds after every run.\<close>

lemma run_all_keeps:
  assumes "Q s" "\<And>a s s'. Q s \<Longrightarrow> a \<in> set as \<Longrightarrow> act cf a s = Some s' \<Longrightarrow> Q s'"
  shows "Q (run_all cf as s)"
  using assms
proof (induction as arbitrary: s)
  case (Cons a as)
  have "Q (step cf s a)" using Cons.prems by (auto simp: step_def split: option.split)
  then have "Q (run_all cf as (step cf s a))"
  proof (rule Cons.IH)
    fix b s s' assume "Q s" "b \<in> set as" "act cf b s = Some s'"
    then show "Q s'" using Cons.prems(2) [of s b s'] by simp
  qed
  then show ?case by simp
qed simp

lemma run_ok:
  assumes "sys_ok cf H s"
  obtains H' where "sys_ok cf H' (run_all cf as s)" "grows (s_rc s) (s_rc (run_all cf as s))"
    "\<And>b. b < length (heap (s_rc s)) \<Longrightarrow> H' b = H b"
proof -
  let ?Q = "\<lambda>t. \<exists>H'. sys_ok cf H' t \<and> grows (s_rc s) (s_rc t) \<and> (\<forall>b < length (heap (s_rc s)). H' b = H b)"
  have "?Q (run_all cf as s)"
  proof (rule run_all_keeps)
    show "?Q s" by (rule exI [of _ H]) (simp add: assms)
    fix a t t' assume "?Q t" "act cf a t = Some t'"
    then obtain H1 where 1: "sys_ok cf H1 t" "grows (s_rc s) (s_rc t)" "\<forall>b < length (heap (s_rc s)). H1 b = H b" by blast
    from act_ok [OF 1(1) \<open>act cf a t = Some t'\<close>] obtain H2
      where 2: "ok_step cf H2 t t'" "\<And>b. b < length (heap (s_rc t)) \<Longrightarrow> H2 b = H1 b" by blast
    have "sys_ok cf H2 t'" "grows (s_rc s) (s_rc t')" using 2(1) 1(2) by (auto simp: ok_step_def intro: grows_trans)
    moreover have "H2 b = H b" if "b < length (heap (s_rc s))" for b using that 1(2,3) 2(2) by (simp add: grows_def)
    ultimately show "?Q t'" by blast
  qed
  then show thesis using that by blast
qed

lemma finished_ok:
  assumes "sys_ok cf H s" "i < length (s_calls s)" "g_pc (s_calls s ! i) = Finished (Inr r)"
  shows "g_req (s_calls s ! i) < length (heap (s_rc s))" "br_done (heap (s_rc s) ! g_req (s_calls s ! i))"
    "result_of (heap (s_rc s) ! g_req (s_calls s ! i)) = Inr r"
    "\<exists>d. r = Some d \<and> VerifyBlobHash (cf_sha cf) d (g_hash (s_calls s ! i)) = None"
proof -
  from assms have "call_ok H (s_rc s) (s_calls s ! i)" by (simp add: sys_ok_def)
  then have c: "g_req (s_calls s ! i) < length (heap (s_rc s))" "br_done (heap (s_rc s) ! g_req (s_calls s ! i))"
    "result_of (heap (s_rc s) ! g_req (s_calls s ! i)) = Inr r"
    and h: "H (g_req (s_calls s ! i)) = g_hash (s_calls s ! i)"
    using assms(3) by (auto simp: call_ok_def live_def)
  then show "g_req (s_calls s ! i) < length (heap (s_rc s))" "br_done (heap (s_rc s) ! g_req (s_calls s ! i))"
    "result_of (heap (s_rc s) ! g_req (s_calls s ! i)) = Inr r" by simp_all
  from assms(1) c(1,2) have "good (cf_sha cf) H (g_req (s_calls s ! i)) (br_result (heap (s_rc s) ! g_req (s_calls s ! i)))"
    by (auto simp: sys_ok_def rc_ok_def results_ok_def)
  then show "\<exists>d. r = Some d \<and> VerifyBlobHash (cf_sha cf) d (g_hash (s_calls s ! i)) = None"
    using c(3) h by (auto simp: good_def result_of_def split: option.splits)
qed

lemma same_result:
  assumes "sys_ok cf H s" "a < length (heap (s_rc s))" "br_done (heap (s_rc s) ! a)"
    and "s' = run_all cf bs s" "j < length (s_calls s')" "g_req (s_calls s' ! j) = a" "g_pc (s_calls s' ! j) = Finished (Inr r)"
  shows "result_of (heap (s_rc s) ! a) = Inr r"
proof -
  from run_ok [OF assms(1), of bs] obtain H' where "sys_ok cf H' s'" and g: "grows (s_rc s) (s_rc s')" using assms(4) by metis
  from finished_ok(3) [OF this(1) assms(5,7)] grows_result(2) [OF g assms(2,3)] show ?thesis using assms(6) by simp
qed

end
