(* ===== verification/Race_Progress.thy ===== *)
theory Race_Progress
  imports Race_Safety
begin

text \<open>
  The tasks of the peer transfer and how its calls come to an end: the task counters, what happens to a
  request that has failed or that nobody serves any more, and how a cancelled call returns.
\<close>

section \<open>Tasks\<close>

text \<open>What an action does to the tasks and their counters.\<close>

definition stats :: "'c sys \<Rightarrow> int \<times> int \<times> int" where
  "stats s = (submittedTasks s, completedTasks s, pendingTasks s)"

lemma stats_same [simp]:
  "stats (set_pc i q s) = stats s" "stats (end_race r s) = stats s" "stats (set_task j q' s) = stats s"
  "stats (s\<lparr>s_rc := rc\<rparr>) = stats s" "stats (s\<lparr>s_calls := cs\<rparr>) = stats s" "stats (s\<lparr>s_bad := bs\<rparr>) = stats s"
  "stats (s\<lparr>s_ended := es\<rparr>) = stats s" "stats (s\<lparr>s_races := n\<rparr>) = stats s" "stats (s\<lparr>s_stopped := b\<rparr>) = stats s"
  by (simp_all add: stats_def set_pc_def end_race_def set_task_def split: option.split)

lemma stats_end_task [simp]:
  "stats (end_task j s) = (submittedTasks s, i64 (completedTasks s + 1), i64 (pendingTasks s - 1))"
  by (simp add: stats_def end_task_def set_task_def)

text \<open>A step that leaves the tasks, the counters and the results of the requests alone.\<close>

definition quiet_step :: "'c sys \<Rightarrow> 'c sys \<Rightarrow> bool" where
  "quiet_step s s' \<longleftrightarrow> s_tasks s' = s_tasks s \<and> stats s' = stats s \<and> (\<forall>P. keeps P (s_rc s) (s_rc s'))"

lemma quiet_calls:
  "quiet_step s (return_owner i r s)" "quiet_step s (next_phase i p e s)" "quiet_step s (at_phase cf i p f s)"
  "quiet_step s (start_phase cf i p cs s)" "quiet_step s (start_race i p cs s)" "quiet_step s (start_tasks i p cs n s)"
  "quiet_step s (submit i p cs n s)" "quiet_step s (leave_call i s)"
  "quiet_step s (DownloadFromPeers i s)" "quiet_step s (ExecutePhases i s)" "quiet_step s (race_outcome i p n r s)"
  "quiet_step s (settle i p n tot le s)"
proof -
  show ret: "quiet_step s (return_owner i r s)" for s :: "'c sys" and i r by (simp add: quiet_step_def return_owner_def rc_keeps)
  show nxt: "quiet_step s (next_phase i p e s)" for s :: "'c sys" and i p e
    using ret [of s i] by (auto simp: next_phase_def quiet_step_def split: PhaseType.split)
  show out: "quiet_step s (race_outcome i p n r s)" for s :: "'c sys" and i p n r
    using ret [of "end_race (Some n) s" i] nxt [of "end_race (Some n) s" i p]
    by (simp add: race_outcome_def Let_def quiet_step_def split: sum.split)
  show "quiet_step s (settle i p n tot le s)" unfolding settle_def Let_def by (rule out)
  show "quiet_step s (at_phase cf i p f s)" using nxt [of s] by (auto simp: at_phase_def Let_def quiet_step_def)
  show "quiet_step s (start_phase cf i p cs s)"
    using nxt [of "s\<lparr>s_rc := ResetForNewPhase (s_rc s) (g_req (s_calls s ! i)) (of_nat (length cs))\<rparr>" i p]
    by (auto simp: start_phase_def Let_def quiet_step_def rc_keeps intro: keeps_trans [OF ResetForNewPhase_keeps])
  show "quiet_step s (start_race i p cs s)" by (simp add: start_race_def Let_def quiet_step_def rc_keeps)
  show "quiet_step s (start_tasks i p cs n s)" by (simp add: start_tasks_def quiet_step_def)
  show "quiet_step s (submit i p cs n s)" by (simp add: submit_def quiet_step_def split: list.split)
  show "quiet_step s (leave_call i s)" by (simp add: leave_call_def Let_def quiet_step_def case_prod_beta rc_keeps)
  show "quiet_step s (DownloadFromPeers i s)" "quiet_step s (ExecutePhases i s)"
    using ret [of s] by (auto simp: DownloadFromPeers_def ExecutePhases_def quiet_step_def)
qed

lemma quiet_misc:
  "quiet_step s (end_race r s)" "quiet_step s (end_race r (s\<lparr>s_calls := cs\<rparr>))" "quiet_step s (s\<lparr>s_stopped := b\<rparr>)"
  "quiet_step s (s\<lparr>s_rc := rc_Stop (s_rc s)\<rparr>)" "quiet_step s (s\<lparr>s_rc := rc_Start (s_rc s)\<rparr>)"
  by (simp_all add: quiet_step_def rc_keeps)

lemma quiet_trans: "quiet_step s1 s2 \<Longrightarrow> quiet_step s2 s3 \<Longrightarrow> quiet_step s1 s3"
  by (auto simp: quiet_step_def intro: keeps_trans)

lemma quiet_waits:
  "await_done cf i p n s = Some s' \<Longrightarrow> quiet_step s s'" "await_ctx cf i p n s = Some s' \<Longrightarrow> quiet_step s s'"
  "await_poll cf i p n s = Some s' \<Longrightarrow> quiet_step s s'" "join_done i s = Some s' \<Longrightarrow> quiet_step s s'"
  "join_ctx i s = Some s' \<Longrightarrow> quiet_step s s'"
proof -
  have r: "quiet_step s (race_outcome i p n r s)" "quiet_step s (race_outcome i p n r (leave_call i s))" for r
    by (rule quiet_calls quiet_trans [OF quiet_calls(8) quiet_calls(11)])+
  show "await_done cf i p n s = Some s' \<Longrightarrow> quiet_step s s'"
    by (auto simp: await_done_def Let_def r split: if_splits)
  show "await_ctx cf i p n s = Some s' \<Longrightarrow> quiet_step s s'"
    by (auto simp: await_ctx_def r split: option.splits)
  show "await_poll cf i p n s = Some s' \<Longrightarrow> quiet_step s s'"
    by (auto simp: await_poll_def quiet_step_def split: if_splits prod.splits)
  show "join_done i s = Some s' \<Longrightarrow> quiet_step s s'" "join_ctx i s = Some s' \<Longrightarrow> quiet_step s s'"
    using quiet_calls(8) [of s i] by (auto simp: join_done_def join_ctx_def Let_def quiet_step_def split: if_splits option.splits)
qed

text \<open>A call is idle when it waits for a request of another call or has returned; only the others submit tasks.\<close>

definition idle :: "'c pc \<Rightarrow> bool" where
  "idle q \<longleftrightarrow> q = Joined \<or> (\<exists>r. q = Finished r)"

inductive task_change :: "'c sys \<Rightarrow> 'c sys \<Rightarrow> bool" for s s' where
  quiet: "s_tasks s' = s_tasks s \<Longrightarrow> stats s' = stats s \<Longrightarrow> task_change s s'"
| added: "s_tasks s' = s_tasks s @ [t] \<Longrightarrow> t_pc t = Queued \<Longrightarrow>
    i < length (s_calls s) \<Longrightarrow> \<not> idle (g_pc (s_calls s ! i)) \<Longrightarrow> t_req t = g_req (s_calls s ! i) \<Longrightarrow>
    stats s' = (i64 (submittedTasks s + 1), completedTasks s, i64 (pendingTasks s + 1)) \<Longrightarrow> task_change s s'"
| moved: "j < length (s_tasks s) \<Longrightarrow> t_pc (s_tasks s ! j) \<notin> {Ended, Discarded} \<Longrightarrow> q \<noteq> Ended \<Longrightarrow>
    (q = Running \<Longrightarrow> \<not> over (t_req (s_tasks s ! j)) (t_race (s_tasks s ! j)) s) \<Longrightarrow>
    s_tasks s' = (s_tasks s)[j := (s_tasks s ! j)\<lparr>t_pc := q\<rparr>] \<Longrightarrow> stats s' = stats s \<Longrightarrow> task_change s s'"
| ended: "j < length (s_tasks s) \<Longrightarrow> t_pc (s_tasks s ! j) \<notin> {Ended, Discarded} \<Longrightarrow>
    s_tasks s' = (s_tasks s)[j := (s_tasks s ! j)\<lparr>t_pc := Ended\<rparr>] \<Longrightarrow>
    stats s' = (submittedTasks s, i64 (completedTasks s + 1), i64 (pendingTasks s - 1)) \<Longrightarrow> task_change s s'"

lemma quiet_change: "quiet_step s s' \<Longrightarrow> task_change s s'"
  by (rule quiet) (simp_all add: quiet_step_def)

lemma task_steps:
  fixes s :: "'c sys"
  assumes "j < length (s_tasks s)" "t_pc (s_tasks s ! j) \<notin> {Ended, Discarded}"
  shows "task_change s (begin_task j s)" "task_change s (handlePeerFailure cf j e s)" "task_change s (peer_answer cf j ans s)"
    "task_change s (fail_request j e s)"
proof -
  have e: "task_change s s'" if "s_tasks s' = (s_tasks s)[j := (s_tasks s ! j)\<lparr>t_pc := Ended\<rparr>]"
      "stats s' = (submittedTasks s, i64 (completedTasks s + 1), i64 (pendingTasks s - 1))" for s' :: "'c sys"
    by (rule ended [OF assms that])
  have cnt [simp]: "completedTasks (end_race r x) = completedTasks x" "submittedTasks (end_race r x) = submittedTasks x"
    "pendingTasks (end_race r x) = pendingTasks x" for r and x :: "'c sys" by (simp_all add: end_race_def split: option.split)
  show "task_change s (begin_task j s)"
  proof (cases "over (t_req (s_tasks s ! j)) (t_race (s_tasks s ! j)) s")
    case True
    then show ?thesis by (intro e) (simp_all add: begin_task_def Let_def)
  next
    case False
    then show ?thesis by (intro moved [OF assms, where q = Running]) (simp_all add: begin_task_def Let_def)
  qed
  show h: "task_change s (handlePeerFailure cf j e s)" for e
  proof (cases "snd (fst (TrackFailedPeer (s_rc s) (t_req (s_tasks s ! j)) e))")
    case True
    then show ?thesis
      by (intro moved [OF assms, where q = "Failing e"]) (simp_all add: handlePeerFailure_def Let_def case_prod_beta)
  next
    case False
    then show ?thesis by (intro e) (simp_all add: handlePeerFailure_def Let_def case_prod_beta)
  qed
  show "task_change s (fail_request j e s)" by (intro e) (simp_all add: fail_request_def Let_def case_prod_beta)
  show "task_change s (peer_answer cf j ans s)"
  proof (cases "\<exists>d. ans = Inr d \<and> VerifyBlobHash (cf_sha cf) d (t_hash (s_tasks s ! j)) = None")
    case True
    then show ?thesis by (intro e) (auto simp: peer_answer_def Let_def case_prod_beta)
  next
    case False
    then show ?thesis using h by (auto simp: peer_answer_def Let_def split: sum.split option.split)
  qed
qed

lemma act_quiet:
  assumes "act cf b s = Some s'"
    and "case b of CallGet _ \<Rightarrow> False | Begin _ \<Rightarrow> False | Answer _ _ \<Rightarrow> False | FailRequest _ \<Rightarrow> False | Discard _ \<Rightarrow> False
      | Advance i \<Rightarrow> (\<forall>p c cs n. g_pc (s_calls s ! i) \<noteq> Adding p c cs n) | _ \<Rightarrow> True"
  shows "quiet_step s s'"
proof (cases b)
  case (Advance i)
  with assms have "advance cf i (g_pc (s_calls s ! i)) s = Some s'" by (auto simp: on_call_def split: if_splits)
  with Advance assms(2) show ?thesis by (cases "g_pc (s_calls s ! i)") (auto intro: quiet_calls)
qed (use assms in \<open>auto simp: on_call_def split: if_splits pc.splits intro: quiet_calls quiet_waits quiet_misc\<close>)

lemma act_tasks:
  assumes "act cf a s = Some s'"
  shows "task_change s s'"
proof (cases a)
  case (CallGet h)
  with assms show ?thesis by (cases rule: transfer_Get_cases [of cf h s]) (auto intro: quiet)
next
  case (Advance i)
  with assms have i: "i < length (s_calls s)" "advance cf i (g_pc (s_calls s ! i)) s = Some s'"
    by (auto simp: on_call_def split: if_splits)
  show ?thesis
  proof (cases "\<exists>p c cs n. g_pc (s_calls s ! i) = Adding p c cs n")
    case True
    then obtain p c cs n where q: "g_pc (s_calls s ! i) = Adding p c cs n" by blast
    with i have "s' = add_task i p c cs n s" by simp
    with q i(1) show ?thesis
      by (intro added [where i = i and t = "\<lparr>t_hash = g_hash (s_calls s ! i), t_req = g_req (s_calls s ! i), t_contact = c, t_race = n, t_pc = Queued\<rparr>"])
        (simp_all add: add_task_def Let_def stats_def set_pc_def idle_def)
  next
    case False
    then show ?thesis using Advance by (intro quiet_change act_quiet [OF assms]) simp
  qed
next
  case (Discard j)
  with assms show ?thesis
    by (auto simp: on_task_def split: if_splits task_pc.splits intro!: moved [where j = j and q = Discarded])
next
  case (Begin j)
  with assms show ?thesis by (auto simp: on_task_def split: if_splits task_pc.splits intro: task_steps)
next
  case (Answer j x)
  with assms show ?thesis by (auto simp: on_task_def split: if_splits task_pc.splits intro: task_steps)
next
  case (FailRequest j)
  with assms show ?thesis by (auto simp: on_task_def split: if_splits task_pc.splits intro: task_steps)
qed (use act_quiet [OF assms] in \<open>simp_all add: quiet_change\<close>)

text \<open>The counters count; a discarded task is never counted as completed.\<close>

definition ended_tasks :: "'c task list \<Rightarrow> nat" where
  "ended_tasks ts = length (filter (\<lambda>t. t_pc t = Ended) ts)"

definition counters_ok :: "'c sys \<Rightarrow> bool" where
  "counters_ok s \<longleftrightarrow> submittedTasks s = i64 (int (length (s_tasks s))) \<and> completedTasks s = i64 (int (ended_tasks (s_tasks s))) \<and>
     pendingTasks s = i64 (int (length (s_tasks s)) - int (ended_tasks (s_tasks s)))"

lemma i64_i64_add [simp]: "i64 (i64 x + y) = i64 (x + y)" "i64 (y + i64 x) = i64 (y + x)" "i64 (i64 x - y) = i64 (x - y)"
proof -
  have "((x + 2 ^ 63) mod 2 ^ 64 + y) mod 2 ^ 64 = (x + 2 ^ 63 + y) mod (2 ^ 64 :: int)" for y by (rule mod_add_left_eq)
  from this [of y] this [of "- y"] show "i64 (i64 x + y) = i64 (x + y)" "i64 (y + i64 x) = i64 (y + x)"
    "i64 (i64 x - y) = i64 (x - y)"
    by (simp_all add: i64_def algebra_simps)
qed

lemma ended_tasks_upd:
  assumes "j < length ts" "t_pc (ts ! j) \<noteq> Ended"
  shows "ended_tasks (ts[j := (ts ! j)\<lparr>t_pc := q\<rparr>]) = ended_tasks ts + (if q = Ended then 1 else 0)"
  using assms
proof (induction ts arbitrary: j)
  case (Cons t ts)
  then show ?case by (cases j) (auto simp: ended_tasks_def)
qed simp

lemma ended_tasks_append: "t_pc t = Queued \<Longrightarrow> ended_tasks (ts @ [t]) = ended_tasks ts"
  by (simp add: ended_tasks_def)

lemma counters_step: "task_change s s' \<Longrightarrow> counters_ok s \<Longrightarrow> counters_ok s'"
  by (induction rule: task_change.induct)
    (auto simp: counters_ok_def quiet_step_def stats_def ended_tasks_upd ended_tasks_append algebra_simps)

lemma counters_run: "counters_ok (run_all cf as init_sys)"
proof (rule run_all_keeps)
  show "counters_ok init_sys" by (simp add: counters_ok_def init_sys_def ended_tasks_def i64_id)
qed (blast intro: counters_step act_tasks)

text \<open>Tasks keep their number, and one that is discarded stays so.\<close>

lemma tasks_step: "task_change s s' \<Longrightarrow> length (s_tasks s) \<le> length (s_tasks s')"
  by (induction rule: task_change.induct) (auto simp: quiet_step_def)

lemma discarded_step:
  "task_change s s' \<Longrightarrow> t \<in> set (s_tasks s) \<Longrightarrow> t_pc t = Discarded \<Longrightarrow> t \<in> set (s_tasks s')"
proof (induction rule: task_change.induct)
  case (moved j q)
  then obtain k where "k < length (s_tasks s)" "s_tasks s ! k = t" "k \<noteq> j" by (auto simp: in_set_conv_nth)
  then have "s_tasks s' ! k = t" "k < length (s_tasks s')" using moved by auto
  then show ?case by (auto simp: in_set_conv_nth)
next
  case (ended j)
  then obtain k where "k < length (s_tasks s)" "s_tasks s ! k = t" "k \<noteq> j" by (auto simp: in_set_conv_nth)
  then have "s_tasks s' ! k = t" "k < length (s_tasks s')" using ended by auto
  then show ?case by (auto simp: in_set_conv_nth)
qed (auto simp: quiet_step_def)

lemma tasks_run: "length (s_tasks s) \<le> length (s_tasks (run_all cf as s))"
proof (rule run_all_keeps [where Q = "\<lambda>t. length (s_tasks s) \<le> length (s_tasks t)"])
  fix a t t' assume "length (s_tasks s) \<le> length (s_tasks t)" "act cf a t = Some t'"
  then show "length (s_tasks s) \<le> length (s_tasks t')" using tasks_step [OF act_tasks] by fastforce
qed simp

lemma discarded_run:
  assumes "t \<in> set (s_tasks s)" "t_pc t = Discarded"
  shows "t \<in> set (s_tasks (run_all cf as s))"
proof (rule run_all_keeps [where Q = "\<lambda>x. t \<in> set (s_tasks x)"])
  fix a x x' assume "t \<in> set (s_tasks x)" "act cf a x = Some x'"
  then show "t \<in> set (s_tasks x')" using discarded_step [OF act_tasks _ assms(2)] by blast
qed (rule assms(1))

lemma ended_le: "ended_tasks ts \<le> length ts"
  by (simp add: ended_tasks_def)

lemma all_ended: "ended_tasks ts = length ts \<longleftrightarrow> (\<forall>t \<in> set ts. t_pc t = Ended)"
proof (induction ts)
  case (Cons t ts)
  have "ended_tasks ts \<le> length ts" by (rule ended_le)
  with Cons show ?case by (auto simp: ended_tasks_def simp del: length_filter_le)
qed (simp add: ended_tasks_def)

section \<open>A request that failed\<close>

text \<open>Once a request is done, no task starts to download for it.\<close>

lemma running_step:
  assumes "task_change s s'" "j < length (s_tasks s')" "t_pc (s_tasks s' ! j) = Running" "br_done (heap (s_rc s) ! t_req (s_tasks s' ! j))"
  shows "j < length (s_tasks s) \<and> t_pc (s_tasks s ! j) = Running \<and> t_req (s_tasks s ! j) = t_req (s_tasks s' ! j)"
  using assms by (induction rule: task_change.induct) (auto simp: quiet_step_def nth_append nth_upd over_def split: if_splits)

lemma running_run:
  assumes "sys_ok cf H s" "a < length (heap (s_rc s))" "br_done (heap (s_rc s) ! a)" "s' = run_all cf bs s"
    and "j < length (s_tasks s')" "t_req (s_tasks s' ! j) = a" "t_pc (s_tasks s' ! j) = Running"
  shows "j < length (s_tasks s) \<and> t_pc (s_tasks s ! j) = Running \<and> t_req (s_tasks s ! j) = a"
proof -
  let ?Q = "\<lambda>x. (\<exists>H. sys_ok cf H x) \<and> a < length (heap (s_rc x)) \<and> br_done (heap (s_rc x) ! a) \<and>
    (\<forall>j < length (s_tasks x). t_req (s_tasks x ! j) = a \<longrightarrow> t_pc (s_tasks x ! j) = Running \<longrightarrow>
       j < length (s_tasks s) \<and> t_pc (s_tasks s ! j) = Running \<and> t_req (s_tasks s ! j) = a)"
  have "?Q (run_all cf bs s)"
  proof (rule run_all_keeps)
    show "?Q s" using assms(1,2,3) by blast
    fix b x x' assume x: "?Q x" and b: "act cf b x = Some x'"
    from x obtain H where "sys_ok cf H x" by blast
    from act_ok [OF this b] obtain H' where "ok_step cf H' x x'" by blast
    then have "sys_ok cf H' x'" "grows (s_rc x) (s_rc x')" by (simp_all add: ok_step_def)
    moreover have "j < length (s_tasks s) \<and> t_pc (s_tasks s ! j) = Running \<and> t_req (s_tasks s ! j) = a"
      if "j < length (s_tasks x')" "t_req (s_tasks x' ! j) = a" "t_pc (s_tasks x' ! j) = Running" for j
      using running_step [OF act_tasks [OF b] that(1,3)] x that(2) by simp
    ultimately show "?Q x'" using x grows_result(1) by (auto simp: grows_def)
  qed
  with assms(4-) show ?thesis by simp
qed

section \<open>A cancelled call\<close>

text \<open>
  The next step of a call whose context has ended: the discovery of peers fails, a wait ends with the error
  of the context. \<open>remaining\<close> bounds the steps that are left, lexicographically: phases, points of a phase, contacts.
\<close>

definition own_action :: "nat \<Rightarrow> error \<Rightarrow> 'c pc \<Rightarrow> 'c action" where
  "own_action i e q = (case q of AtPhase _ _ \<Rightarrow> Discover i (Inl e) | Awaiting _ _ \<Rightarrow> Ctx i | Joined \<Rightarrow> Ctx i | _ \<Rightarrow> Advance i)"

fun phase_rank :: "PhaseType \<Rightarrow> nat" where
  "phase_rank PhaseDHT = 1"
| "phase_rank PhaseFixed = 0"

fun remaining :: "'c pc \<Rightarrow> nat \<times> nat \<times> nat" where
  "remaining Downloading = (4, 0, 0)"
| "remaining Executing = (3, 0, 0)"
| "remaining (AtPhase p _) = (Suc (phase_rank p), 6, 0)"
| "remaining (StartPhase p _) = (Suc (phase_rank p), 5, 0)"
| "remaining (StartRace p _) = (Suc (phase_rank p), 4, 0)"
| "remaining (StartTasks p _ _) = (Suc (phase_rank p), 3, 0)"
| "remaining (Submitting p cs _) = (Suc (phase_rank p), 2, 2 * length cs)"
| "remaining (Adding p _ cs _) = (Suc (phase_rank p), 2, Suc (2 * length cs))"
| "remaining (Awaiting p _) = (Suc (phase_rank p), 1, 0)"
| "remaining (Settling p _ _ _) = (Suc (phase_rank p), 0, 0)"
| "remaining Joined = (1, 0, 0)"
| "remaining (Finished _) = (0, 0, 0)"

definition fewer :: "'c sys \<Rightarrow> 'c sys \<Rightarrow> nat \<Rightarrow> bool" where
  "fewer s' s i \<longleftrightarrow> i < length (s_calls s') \<and> g_ctx (s_calls s' ! i) = g_ctx (s_calls s ! i) \<and>
     (remaining (g_pc (s_calls s' ! i)), remaining (g_pc (s_calls s ! i))) \<in> less_than <*lex*> less_than <*lex*> less_than"

lemma return_owner_calls [simp]: "s_calls (return_owner i r s) = (s_calls s)[i := (s_calls s ! i)\<lparr>g_pc := Finished r\<rparr>]"
  by (simp add: return_owner_def)

fun outcome_pc :: "PhaseType \<Rightarrow> error + bytes option \<Rightarrow> 'c pc" where
  "outcome_pc p (Inr d) = Finished (Inr d)"
| "outcome_pc PhaseDHT (Inl e) = AtPhase PhaseFixed (Some e)"
| "outcome_pc PhaseFixed (Inl e) = Finished (Inl (no_source e))"

lemma next_phase_calls: "s_calls (next_phase i p e s) = (s_calls s)[i := (s_calls s ! i)\<lparr>g_pc := outcome_pc p (Inl e)\<rparr>]"
  by (cases p) (simp_all add: next_phase_def)

lemma race_outcome_calls: "s_calls (race_outcome i p n r s) = (s_calls s)[i := (s_calls s ! i)\<lparr>g_pc := outcome_pc p r\<rparr>]"
  by (cases r) (simp_all add: race_outcome_def Let_def next_phase_calls)

lemma remaining_outcome: "fst (remaining (outcome_pc p r)) \<le> phase_rank p"
  by (cases p; cases r) auto

lemma leave_call_calls [simp]: "s_calls (leave_call i s) = s_calls s"
  by (simp add: leave_call_def Let_def case_prod_beta)

lemma fewer_move [simp]:
  fixes s :: "'c sys"
  assumes "i < length (s_calls s)" "s_calls s1 = s_calls s"
  shows "fewer (set_pc i q s1) s i \<longleftrightarrow> (remaining q, remaining (g_pc (s_calls s ! i))) \<in> less_than <*lex*> less_than <*lex*> less_than"
    and "fewer (return_owner i r s1) s i \<longleftrightarrow>
      (remaining (Finished r :: 'c pc), remaining (g_pc (s_calls s ! i))) \<in> less_than <*lex*> less_than <*lex*> less_than"
  using assms by (simp_all add: fewer_def)

lemma fewer_upd [simp]: "fewer (s'\<lparr>s_tasks := ts, submittedTasks := m, pendingTasks := n\<rparr>) s i = fewer s' s i"
  by (simp add: fewer_def)

lemma lower_phase:
  assumes "fst (remaining q) < fst (remaining q')"
  shows "(remaining q, remaining q') \<in> less_than <*lex*> less_than <*lex*> less_than"
  using assms by (cases "remaining q"; cases "remaining q'") simp

lemma fewer_outcome:
  assumes "i < length (s_calls s)" "s_calls s1 = s_calls s" "fst (remaining (g_pc (s_calls s ! i))) = Suc (phase_rank p)"
  shows "fewer (race_outcome i p n r s1) s i" "fewer (next_phase i p e s1) s i"
proof -
  have "(remaining (outcome_pc p x :: 'a pc), remaining (g_pc (s_calls s ! i))) \<in> less_than <*lex*> less_than <*lex*> less_than" for x
    using remaining_outcome [of p x, where 'a = 'a] assms(3) by (intro lower_phase) simp
  with assms(1,2) show "fewer (race_outcome i p n r s1) s i" "fewer (next_phase i p e s1) s i"
    by (simp_all add: fewer_def race_outcome_calls next_phase_calls)
qed

lemma fewer_advance:
  assumes "i < length (s_calls s)" "advance cf i (g_pc (s_calls s ! i)) s = Some s'"
  shows "fewer s' s i"
  using assms by (cases "g_pc (s_calls s ! i)")
    (auto simp: DownloadFromPeers_def ExecutePhases_def start_phase_def start_race_def start_tasks_def submit_def add_task_def settle_def
      Let_def fewer_outcome split: list.splits)

lemma own_step:
  assumes "i < length (s_calls s)" "g_ctx (s_calls s ! i) = Some e" "\<And>r. g_pc (s_calls s ! i) \<noteq> Finished r"
  obtains s' where "act cf (own_action i e (g_pc (s_calls s ! i))) s = Some s'" "fewer s' s i"
proof (cases "\<exists>s'. advance cf i (g_pc (s_calls s ! i)) s = Some s'")
  case True
  then obtain s' where s': "advance cf i (g_pc (s_calls s ! i)) s = Some s'" by blast
  then have "own_action i e (g_pc (s_calls s ! i)) = Advance i" by (cases "g_pc (s_calls s ! i)") (auto simp: own_action_def)
  with s' show thesis using that [OF _ fewer_advance [OF assms(1) s']] assms(1) by (simp add: on_call_def)
next
  case False
  from False assms(3) consider p x where "g_pc (s_calls s ! i) = AtPhase p x" | p n where "g_pc (s_calls s ! i) = Awaiting p n"
    | "g_pc (s_calls s ! i) = Joined" by (cases "g_pc (s_calls s ! i)") auto
  then show thesis
  proof cases
    case 1
    then have "fewer (at_phase cf i p (Inl e) s) s i" using assms(1) by (auto simp: at_phase_def Let_def fewer_outcome)
    with 1 show thesis using that assms(1) by (simp add: own_action_def on_call_def)
  next
    case 2
    then show thesis using that assms(1,2) by (simp add: own_action_def on_call_def await_ctx_def fewer_outcome)
  next
    case 3
    then show thesis using that assms(1,2) by (simp add: own_action_def on_call_def join_ctx_def)
  qed
qed

lemma own_steps_finish:
  assumes "i < length (s_calls s)" "g_ctx (s_calls s ! i) = Some e"
  shows "\<exists>as. set as \<subseteq> {Advance i, Ctx i, Discover i (Inl e)} \<and> (\<exists>r. g_pc (s_calls (run_all cf as s) ! i) = Finished r)"
  using assms
proof (induction "remaining (g_pc (s_calls s ! i))" arbitrary: s rule: wf_induct_rule [OF wf_lex_prod [OF wf_less_than wf_lex_prod [OF wf_less_than wf_less_than]]])
  case (1 s)
  show ?case
  proof (cases "\<exists>r. g_pc (s_calls s ! i) = Finished r")
    case True
    then show ?thesis by (intro exI [of _ "[]"]) simp
  next
    case False
    let ?a = "own_action i e (g_pc (s_calls s ! i))"
    obtain s' where s': "act cf ?a s = Some s'" "fewer s' s i" using own_step [OF 1(2,3)] False by blast
    then obtain as where as: "set as \<subseteq> {Advance i, Ctx i, Discover i (Inl e)}" "\<exists>r. g_pc (s_calls (run_all cf as s') ! i) = Finished r"
      using 1(1) [of s'] 1(3) unfolding fewer_def by auto
    have "?a \<in> {Advance i, Ctx i, Discover i (Inl e)}" by (auto simp: own_action_def split: pc.split)
    with as s'(1) show ?thesis by (intro exI [of _ "?a # as"]) (simp add: step_def)
  qed
qed

section \<open>A request that nobody serves\<close>

text \<open>A step of a call that is not idle, or a change of the context of a call, leaves every idle call where it is.\<close>

definition only_call :: "nat \<Rightarrow> 'c sys \<Rightarrow> 'c sys \<Rightarrow> bool" where
  "only_call i s s' \<longleftrightarrow> (\<exists>q. s_calls s' = (s_calls s)[i := (s_calls s ! i)\<lparr>g_pc := q\<rparr>])"

lemma only_callI: "s_calls s' = (s_calls s)[i := (s_calls s ! i)\<lparr>g_pc := q\<rparr>] \<Longrightarrow> only_call i s s'"
  by (auto simp: only_call_def)

lemma only_call_outcome: "s_calls s1 = s_calls s \<Longrightarrow> only_call i s (race_outcome i p n r s1)"
  by (rule only_callI [where q = "outcome_pc p r"]) (simp add: race_outcome_calls)

lemma only_call_next: "s_calls s1 = s_calls s \<Longrightarrow> only_call i s (next_phase i p e s1)"
  by (rule only_callI [where q = "outcome_pc p (Inl e)"]) (simp add: next_phase_calls)

lemma only_call_set: "s_calls s1 = s_calls s \<Longrightarrow> only_call i s (set_pc i q s1)" "s_calls s1 = s_calls s \<Longrightarrow> only_call i s (return_owner i r s1)"
  by (auto intro: only_callI)

lemma only_call_refl: "only_call i s s"
  by (rule only_callI [where q = "g_pc (s_calls s ! i)"]) simp

lemmas only_calls = only_call_outcome only_call_next only_call_set

lemma advance_only:
  assumes "advance cf i q s = Some s'"
  shows "only_call i s s' \<and> \<not> idle q"
proof
  show "\<not> idle q" using assms by (cases q) (auto simp: idle_def)
  have "only_call i s (add_task i p c cs n s)" for p c cs n
    by (rule only_callI [where q = "Submitting p cs n"]) (simp add: add_task_def Let_def)
  with assms show "only_call i s s'"
    by (cases q) (auto simp: DownloadFromPeers_def ExecutePhases_def start_phase_def start_race_def start_tasks_def submit_def settle_def
      Let_def only_calls split: list.splits)
qed

lemma wait_only:
  "await_done cf i p n s = Some s' \<Longrightarrow> only_call i s s'" "await_ctx cf i p n s = Some s' \<Longrightarrow> only_call i s s'"
  "await_poll cf i p n s = Some s' \<Longrightarrow> only_call i s s'" "at_phase cf i p f s = s' \<Longrightarrow> only_call i s s'"
  by (auto simp: await_done_def await_ctx_def await_poll_def at_phase_def Let_def only_calls only_call_refl
      split: if_splits option.splits prod.splits)

text \<open>
  A call that has joined a request stays there until the request is done or its own context ends; a call that
  has returned stays so; no call changes its request.
\<close>

definition stays :: "'c action \<Rightarrow> 'c sys \<Rightarrow> 'c sys \<Rightarrow> nat \<Rightarrow> bool" where
  "stays b s s' k \<longleftrightarrow> g_req (s_calls s' ! k) = g_req (s_calls s ! k) \<and>
     (idle (g_pc (s_calls s ! k)) \<longrightarrow> idle (g_pc (s_calls s' ! k))) \<and>
     (g_pc (s_calls s ! k) = Joined \<longrightarrow> \<not> br_done (heap (s_rc s) ! g_req (s_calls s ! k)) \<longrightarrow> g_ctx (s_calls s ! k) = None \<longrightarrow>
        g_pc (s_calls s' ! k) = Joined \<and> (g_ctx (s_calls s' ! k) = None \<or> (\<exists>e. b = CancelCall k e)))"

lemma only_call_stays:
  assumes "only_call i s s'" "\<not> idle (g_pc (s_calls s ! i))"
  shows "length (s_calls s') = length (s_calls s) \<and> (\<forall>k < length (s_calls s). stays b s s' k)"
proof -
  have "stays b s s' k" if "k < length (s_calls s)" for k
    using assms that by (cases "k = i") (auto simp: only_call_def stays_def idle_def)
  with assms(1) show ?thesis by (auto simp: only_call_def)
qed

lemma task_calls [simp]:
  "s_calls (begin_task j s) = s_calls s" "s_calls (handlePeerFailure cf j e s) = s_calls s"
  "s_calls (peer_answer cf j x s) = s_calls s" "s_calls (fail_request j e s) = s_calls s"
proof -
  show h: "s_calls (handlePeerFailure cf j e s) = s_calls s" for e by (simp add: handlePeerFailure_def Let_def case_prod_beta)
  show "s_calls (peer_answer cf j x s) = s_calls s"
    by (simp add: peer_answer_def Let_def case_prod_beta h split: sum.split option.split)
qed (simp_all add: begin_task_def fail_request_def Let_def case_prod_beta)

lemma act_calls:
  assumes "act cf b s = Some s'" "\<And>h. b \<noteq> CallGet h"
  shows "length (s_calls s') = length (s_calls s) \<and> (\<forall>k < length (s_calls s). stays b s s' k)"
proof -
  have refl: "stays b s s' k" if "s_calls s' = s_calls s" for k using that by (simp add: stays_def)
  have o: "length (s_calls s') = length (s_calls s) \<and> (\<forall>k < length (s_calls s). stays b s s' k)" if "only_call i s s'" "\<not> idle (g_pc (s_calls s ! i))" for i
    using that by (rule only_call_stays)
  have joined: "length (s_calls s') = length (s_calls s) \<and> (\<forall>k < length (s_calls s). stays b s s' k)" if i: "g_pc (s_calls s ! i) = Joined" "join_done i s = Some s' \<or> join_ctx i s = Some s'" for i
  proof -
    have "stays b s s' k" if "k < length (s_calls s)" for k
      using i that by (cases "k = i") (auto simp: join_done_def join_ctx_def Let_def stays_def idle_def split: if_splits option.splits)
    with i(2) show ?thesis by (auto simp: join_done_def join_ctx_def Let_def split: if_splits option.splits)
  qed
  show ?thesis
  proof (cases b)
    case (Advance i)
    then have "advance cf i (g_pc (s_calls s ! i)) s = Some s'" using assms(1) by (auto simp: on_call_def split: if_splits)
    from advance_only [OF this] o show ?thesis by blast
  next
    case (Discover i f)
    then obtain p x where "g_pc (s_calls s ! i) = AtPhase p x" "at_phase cf i p f s = s'"
      using assms(1) by (auto simp: on_call_def split: if_splits pc.splits)
    then show ?thesis using o [OF wait_only(4)] by (simp add: idle_def)
  next
    case (Done i)
    then consider p n where "g_pc (s_calls s ! i) = Awaiting p n" "await_done cf i p n s = Some s'"
      | "g_pc (s_calls s ! i) = Joined" "join_done i s = Some s'"
      using assms(1) by (auto simp: on_call_def split: if_splits pc.splits)
    then show ?thesis using o [OF wait_only(1)] joined by cases (auto simp: idle_def)
  next
    case (Ctx i)
    then consider p n where "g_pc (s_calls s ! i) = Awaiting p n" "await_ctx cf i p n s = Some s'"
      | "g_pc (s_calls s ! i) = Joined" "join_ctx i s = Some s'"
      using assms(1) by (auto simp: on_call_def split: if_splits pc.splits)
    then show ?thesis using o [OF wait_only(2)] joined by cases (auto simp: idle_def)
  next
    case (Poll i)
    then obtain p n where "g_pc (s_calls s ! i) = Awaiting p n" "await_poll cf i p n s = Some s'"
      using assms(1) by (auto simp: on_call_def split: if_splits pc.splits)
    then show ?thesis using o [OF wait_only(3)] by (simp add: idle_def)
  next
    case (CancelCall i e)
    with assms(1) have s': "s' = end_race (race_of (g_pc (s_calls s ! i))) (s\<lparr>s_calls := (s_calls s)[i := (s_calls s ! i)\<lparr>g_ctx := Some e\<rparr>]\<rparr>)"
      by (auto simp: on_call_def split: if_splits)
    have "stays b s s' k" if "k < length (s_calls s)" for k
      using that CancelCall by (cases "k = i") (auto simp: stays_def s')
    then show ?thesis by (simp add: s')
  next
    case (Answer j x)
    with assms have "s_calls s' = s_calls s" by (auto simp: on_task_def split: if_splits task_pc.splits)
    then show ?thesis by (simp add: refl)
  qed (use assms in \<open>auto simp: on_task_def stays_def split: if_splits task_pc.splits\<close>)
qed

text \<open>
  \<open>unserved a s\<close>: the request at \<open>a\<close> is not done, every call on it waits or has returned, and no task for it can
  still take a step.
\<close>

definition unserved :: "nat \<Rightarrow> 'c sys \<Rightarrow> bool" where
  "unserved a s \<longleftrightarrow> a < length (heap (s_rc s)) \<and> \<not> br_done (heap (s_rc s) ! a) \<and>
     (\<forall>i < length (s_calls s). g_req (s_calls s ! i) = a \<longrightarrow> idle (g_pc (s_calls s ! i))) \<and>
     (\<forall>t \<in> set (s_tasks s). t_req t = a \<longrightarrow> t_pc t \<in> {Ended, Discarded})"

lemma CompleteWith_other: "b \<noteq> a \<Longrightarrow> heap (snd (CompleteWith rc b t)) ! a = heap rc ! a"
  by (simp add: CompleteWith_def CompleteOnce_def upd_req_def)

lemma keeps_undone:
  assumes "\<forall>P. keeps P rc rc'" "results_ok P rc" "a < length (heap rc)" "\<not> br_done (heap rc ! a)"
  shows "\<not> br_done (heap rc' ! a)"
proof -
  have "results_ok (\<lambda>b _. b \<noteq> a) rc" using assms(2-4) by (auto simp: results_ok_def)
  then have "results_ok (\<lambda>b _. b \<noteq> a) rc'" using assms(1) by (simp add: keeps_def)
  then show ?thesis using assms(1,3) by (auto simp: results_ok_def keeps_def)
qed

lemma tasks_undone:
  assumes "results_ok P (s_rc s)" "a < length (heap (s_rc s))" "\<not> br_done (heap (s_rc s) ! a)" "t_req (s_tasks s ! j) \<noteq> a"
  shows "\<not> br_done (heap (s_rc (peer_answer cf j x s)) ! a)" "\<not> br_done (heap (s_rc (fail_request j e s)) ! a)"
proof -
  have h: "\<not> br_done (heap (s_rc (handlePeerFailure cf j e s)) ! a)" for e
    by (rule keeps_undone [OF _ assms(1-3)]) (simp add: handlePeerFailure_def Let_def case_prod_beta rc_keeps)
  show "\<not> br_done (heap (s_rc (peer_answer cf j x s)) ! a)"
    using assms(3,4) h
    by (simp add: peer_answer_def Let_def case_prod_beta CompleteWithData_def CompleteWith_other split: sum.split option.split)
  show "\<not> br_done (heap (s_rc (fail_request j e s)) ! a)"
    using assms(3,4) by (simp add: fail_request_def Let_def case_prod_beta CompleteWithErrorAndCancel_def CompleteWith_other)
qed

lemma act_undone:
  assumes ok: "results_ok P (s_rc s)" and u: "unserved a s" and b: "act cf b s = Some s'"
  shows "\<not> br_done (heap (s_rc s') ! a)"
proof -
  from u have a: "a < length (heap (s_rc s))" "\<not> br_done (heap (s_rc s) ! a)" by (simp_all add: unserved_def)
  have t: "t_req (s_tasks s ! j) \<noteq> a" if "j < length (s_tasks s)" "t_pc (s_tasks s ! j) \<notin> {Ended, Discarded}" for j
    using u that by (auto simp: unserved_def)
  have q: "\<not> br_done (heap (s_rc s') ! a)" if "quiet_step s s'" for s'
    using keeps_undone [OF _ ok a] that by (simp add: quiet_step_def)
  show ?thesis
  proof (cases b)
    case (CallGet h)
    with b a show ?thesis using keeps_undone [OF _ ok a, of "upd_req c (AddWaiter (heap (s_rc s) ! c)) (s_rc s)" for c] AddWaiter_keeps
      by (cases rule: transfer_Get_cases [of cf h s]) (auto simp: nth_append)
  next
    case (Advance i)
    show ?thesis
    proof (cases "\<exists>p c cs n. g_pc (s_calls s ! i) = Adding p c cs n")
      case True
      then show ?thesis using Advance a b by (auto simp: on_call_def add_task_def Let_def split: if_splits)
    next
      case False
      then show ?thesis using Advance by (intro q act_quiet [OF b]) simp
    qed
  next
    case (Answer j x)
    with b show ?thesis using tasks_undone(1) [OF ok a t] by (auto simp: on_task_def split: if_splits task_pc.splits)
  next
    case (FailRequest j)
    with b show ?thesis using tasks_undone(2) [OF ok a t] by (auto simp: on_task_def split: if_splits task_pc.splits)
  next
    case (Begin j)
    with b a show ?thesis by (auto simp: on_task_def begin_task_def Let_def split: if_splits task_pc.splits)
  next
    case (Discard j)
    with b a show ?thesis by (auto simp: on_task_def split: if_splits task_pc.splits)
  qed (use q act_quiet [OF b] in simp_all)
qed

lemma unserved_tasks:
  assumes "task_change s s'" "unserved a s"
  shows "\<forall>t \<in> set (s_tasks s'). t_req t = a \<longrightarrow> t_pc t \<in> {Ended, Discarded}"
proof -
  from assms(2) have t: "\<forall>t \<in> set (s_tasks s). t_req t = a \<longrightarrow> t_pc t \<in> {Ended, Discarded}"
    and c: "\<forall>i < length (s_calls s). g_req (s_calls s ! i) = a \<longrightarrow> idle (g_pc (s_calls s ! i))"
    by (simp_all add: unserved_def)
  have u: "t_req x = a \<longrightarrow> t_pc x \<in> {Ended, Discarded}"
    if "j < length (s_tasks s)" "t_pc (s_tasks s ! j) \<notin> {Ended, Discarded}" "x \<in> set ((s_tasks s)[j := (s_tasks s ! j)\<lparr>t_pc := q\<rparr>])" for j q x
  proof -
    from that(3) have "x \<in> insert ((s_tasks s ! j)\<lparr>t_pc := q\<rparr>) (set (s_tasks s))" using set_update_subset_insert by fastforce
    moreover from t that(1,2) have "t_req (s_tasks s ! j) \<noteq> a" by auto
    ultimately show ?thesis using t by auto
  qed
  show ?thesis
    using assms(1)
  proof cases
    case quiet
    with t show ?thesis by simp
  next
    case (added x i)
    with t c show ?thesis by auto
  next
    case (moved j q)
    show ?thesis unfolding moved(5) by (intro ballI u [OF moved(1,2)])
  next
    case (ended j)
    show ?thesis unfolding ended(3) by (intro ballI u [OF ended(1,2)])
  qed
qed

lemma unserved_calls:
  assumes "act cf b s = Some s'" "unserved a s" "k < length (s_calls s')" "g_req (s_calls s' ! k) = a"
  shows "idle (g_pc (s_calls s' ! k))"
proof (cases "\<exists>h. b = CallGet h")
  case True
  then obtain h where s': "s' = transfer_Get cf h s" using assms(1) by auto
  from assms(2) have "a < length (heap (s_rc s))" and c: "\<forall>i < length (s_calls s). g_req (s_calls s ! i) = a \<longrightarrow> idle (g_pc (s_calls s ! i))"
    by (simp_all add: unserved_def)
  then show ?thesis using assms(3,4) unfolding s'
    by (cases rule: transfer_Get_cases [of cf h s]) (auto simp: nth_append idle_def less_Suc_eq split: if_splits)
next
  case False
  then have nb: "\<And>h. b \<noteq> CallGet h" by blast
  from act_calls [OF assms(1) nb] have "k < length (s_calls s)" "stays b s s' k" using assms(3) by simp_all
  then show ?thesis using assms(2,4) by (auto simp: stays_def unserved_def)
qed

lemma unserved_step:
  assumes "sys_ok cf H s" "unserved a s" "act cf b s = Some s'"
  shows "unserved a s'"
proof -
  from act_ok [OF assms(1,3)] obtain H' where "ok_step cf H' s s'" by blast
  then have "a < length (heap (s_rc s'))" using assms(2) by (simp add: unserved_def ok_step_def grows_def)
  moreover have "\<not> br_done (heap (s_rc s') ! a)"
    using assms(1) by (intro act_undone [where P = "good (cf_sha cf) H", OF _ assms(2,3)]) (simp add: sys_ok_def rc_ok_def)
  ultimately show ?thesis
    using unserved_calls [OF assms(3,2)] unserved_tasks [OF act_tasks [OF assms(3)] assms(2)] by (simp add: unserved_def)
qed

lemma unserved_run:
  assumes ok: "sys_ok cf H s" and u: "unserved a s" and i: "i < length (s_calls s)" "g_req (s_calls s ! i) = a"
    and j: "g_pc (s_calls s ! i) = Joined" "g_ctx (s_calls s ! i) = None" and bs: "\<forall>e. CancelCall i e \<notin> set bs"
  shows "unserved a (run_all cf bs s) \<and> g_pc (s_calls (run_all cf bs s) ! i) = Joined"
proof -
  let ?Q = "\<lambda>x. (\<exists>H. sys_ok cf H x) \<and> unserved a x \<and> i < length (s_calls x) \<and> g_req (s_calls x ! i) = a \<and>
    g_pc (s_calls x ! i) = Joined \<and> g_ctx (s_calls x ! i) = None"
  have "?Q (run_all cf bs s)"
  proof (rule run_all_keeps)
    show "?Q s" using ok u i j by blast
    fix b x x' assume x: "?Q x" and b: "b \<in> set bs" "act cf b x = Some x'"
    from x obtain H where H: "sys_ok cf H x" by blast
    from act_ok [OF H b(2)] obtain H' where "sys_ok cf H' x'" unfolding ok_step_def by blast
    moreover have "unserved a x'" using unserved_step [OF H _ b(2)] x by blast
    moreover have "i < length (s_calls x') \<and> g_req (s_calls x' ! i) = a \<and> g_pc (s_calls x' ! i) = Joined \<and> g_ctx (s_calls x' ! i) = None"
    proof (cases "\<exists>h. b = CallGet h")
      case True
      then obtain h where "x' = transfer_Get cf h x" using b(2) by auto
      then show ?thesis using x by (cases rule: transfer_Get_cases [of cf h x]) (auto simp: nth_append)
    next
      case False
      then have "\<And>h. b \<noteq> CallGet h" by blast
      from act_calls [OF b(2) this] have "i < length (s_calls x')" "stays b x x' i" using x by simp_all
      then show ?thesis using x bs b(1) by (auto simp: stays_def unserved_def)
    qed
    ultimately show "?Q x'" by blast
  qed
  then show ?thesis by blast
qed

end
