(* ===== verification/PeerTransfer.thy ===== *)
theory PeerTransfer
  imports Race_Progress
begin

text \<open>
  What the calls of \<open>PeerTransfer.Get\<close> obtain, for all runs of the peer transfer, with runs that show each
  situation.
\<close>

section \<open>Runs to look at\<close>

text \<open>Peers are numbers; peer 7 is a fixed peer in the first configuration, and there is none in the second.\<close>

definition sample_config :: "nat list \<Rightarrow> nat config" where
  "sample_config fixed = \<lparr>cf_sha = (\<lambda>d. take 48 (d @ replicate 48 0)), cf_valid = (\<lambda>h. length h = 96), cf_parse = (\<lambda>_. None),
     cf_fixed = fixed, cf_isFixed = (\<lambda>c. c \<in> set fixed), cf_maxPeers = 5\<rparr>"

definition sample_hash :: string where
  "sample_hash = ''01'' @ replicate 94 (CHR ''0'')"

text \<open>A call that finds peer 3 and submits its task; a second call that joins it when the flag is set.\<close>

definition sample_start :: "bool \<Rightarrow> nat action list" where
  "sample_start two =
     [CallGet sample_hash] @ (if two then [CallGet sample_hash] else []) @
     [Advance 0, Advance 0, Discover 0 (Inr [3]), Advance 0, Advance 0, Advance 0, Advance 0, Advance 0, Advance 0]"

definition sample_success :: "nat action list" where
  "sample_success = sample_start True @ [Begin 0, Answer 0 (Inr [1]), Done 1]"


definition sample_nobody :: "nat action list" where
  "sample_nobody = [CallGet sample_hash, CallGet sample_hash, Advance 0, Advance 0, Discover 0 (Inr []), Discover 0 (Inr [])]"

section \<open>Results\<close>

text \<open>
  C5. Data that a call returns is a blob with the hash it asked for, whatever the peers answered, in every
  interleaving; all calls that share a request and return data, now or later, return the same data.
\<close>

theorem peer_data_verified:
  assumes s: "s = run_all cf as init_sys" and i: "i < length (s_calls s)" "g_pc (s_calls s ! i) = Finished (Inr r)"
    and s': "s' = run_all cf bs s"
  shows "(\<exists>d. r = Some d \<and> d \<noteq> [] \<and> hex_decode (g_hash (s_calls s ! i)) = Some (Blob_Hash (cf_sha cf) d)) \<and>
    (\<forall>j < length (s_calls s'). \<forall>r'. g_req (s_calls s' ! j) = g_req (s_calls s ! i) \<longrightarrow>
       g_pc (s_calls s' ! j) = Finished (Inr r') \<longrightarrow> r' = r)"
proof -
  obtain H where ok: "sys_ok cf H s" using run_ok [OF sys_ok_init] s by metis
  note f = finished_ok [OF ok i]
  show ?thesis using f(4) same_result [OF ok f(1,2) s'] f(3) by (auto simp: VerifyBlobHash_iff)
qed

theorem peer_data_verified_witness:
  "\<exists>s. s = run_all (sample_config []) sample_success init_sys \<and>
     g_pc (s_calls s ! 1) = Finished (Inr (Some [1])) \<and> g_pc (s_calls s ! 0) = Awaiting PhaseDHT 0 \<and>
     hex_decode sample_hash = Some (Blob_Hash (cf_sha (sample_config [])) [1]) \<and>
     (\<exists>s'. s' = run_all (sample_config []) [Done 0] s \<and> g_req (s_calls s' ! 0) = g_req (s_calls s ! 1) \<and>
        g_pc (s_calls s' ! 0) = Finished (Inr (Some [1])))"
proof -
  let ?s = "run_all (sample_config []) sample_success init_sys"
  let ?s' = "run_all (sample_config []) [Done 0] ?s"
  have i: "1 < length (s_calls ?s)" "g_pc (s_calls ?s ! 1) = Finished (Inr (Some [1]))" "g_hash (s_calls ?s ! 1) = sample_hash"
    "g_pc (s_calls ?s ! 0) = Awaiting PhaseDHT 0"
    by code_simp+
  have j: "0 < length (s_calls ?s')" "g_req (s_calls ?s' ! 0) = g_req (s_calls ?s ! 1)" 
    "(case g_pc (s_calls ?s' ! 0) of Finished (Inr _) \<Rightarrow> True | _ \<Rightarrow> False)"
    by code_simp+
  then obtain r where r: "g_pc (s_calls ?s' ! 0) = Finished (Inr r)" by (auto split: pc.splits sum.splits)
  note v = peer_data_verified [OF refl i(1,2) refl, of "[Done 0]"]
  from v j r have "r = Some [1]" by blast
  moreover from v i(3) have "hex_decode sample_hash = Some (Blob_Hash (cf_sha (sample_config [])) [1])" by auto
  ultimately show ?thesis using i j r by blast
qed





text \<open>
  C16. A call that joined a request which nobody serves any more, because its owner has returned without completing
  it, waits until its own context ends: no other step of the system ends the wait.
\<close>

theorem unserved_joiner_waits:
  assumes s: "s = run_all cf as init_sys" and u: "unserved a s" and i: "i < length (s_calls s)" "g_req (s_calls s ! i) = a"
    and j: "g_pc (s_calls s ! i) = Joined" "g_ctx (s_calls s ! i) = None" and bs: "\<forall>e. CancelCall i e \<notin> set bs"
  shows "g_pc (s_calls (run_all cf bs s) ! i) = Joined \<and> \<not> br_done (heap (s_rc (run_all cf bs s)) ! a)"
proof -
  obtain H where "sys_ok cf H s" using run_ok [OF sys_ok_init] s by metis
  from unserved_run [OF this u i j bs] show ?thesis by (simp add: unserved_def)
qed

theorem unserved_joiner_waits_witness:
  "\<exists>s. s = run_all (sample_config []) sample_nobody init_sys \<and>
     g_pc (s_calls s ! 0) = Finished (Inl (Plain ''blob not found from any peer source: no peers available for phase Fixed'')) \<and>
     g_pc (s_calls (run_all (sample_config []) [Done 1, Ctx 1, Advance 1, Advance 0] s) ! 1) = Joined"
proof -
  let ?s = "run_all (sample_config []) sample_nobody init_sys"
  have c: "g_pc (s_calls ?s ! 0) = Finished (Inl (Plain ''blob not found from any peer source: no peers available for phase Fixed''))"
    "1 < length (s_calls ?s)" "g_req (s_calls ?s ! 1) = 0" "g_pc (s_calls ?s ! 1) = Joined" "g_ctx (s_calls ?s ! 1) = None"
    by code_simp+
  have "length (s_calls ?s) = 2" "s_tasks ?s = []" "0 < length (heap (s_rc ?s))" "\<not> br_done (heap (s_rc ?s) ! 0)" by code_simp+
  with c have "unserved 0 ?s" by (auto simp: unserved_def idle_def less_2_cases_iff)
  then show ?thesis using unserved_joiner_waits [OF refl _ c(2-5), of "[Done 1, Ctx 1, Advance 1, Advance 0]"] c(1) by simp
qed

text \<open>
  C15. A call whose context has ended can return by its own steps alone, from every state: there is a sequence of its
  steps, with a discovery that reports the error of the context where one is under way, after which it has returned; no
  other call and no task has to take a step. The lookup in the DHT takes no context, so that it is the discovery that
  must end.
\<close>

theorem cancelled_call_returns:
  assumes "i < length (s_calls s)" "g_ctx (s_calls s ! i) = Some e"
  shows "\<exists>as. set as \<subseteq> {Advance i, Ctx i, Discover i (Inl e)} \<and> (\<exists>r. g_pc (s_calls (run_all cf as s) ! i) = Finished r)"
  using assms by (rule own_steps_finish)

theorem cancelled_call_returns_witness:
  "\<exists>s as. s = run_all (sample_config [7]) (sample_start True @ [CancelCall 1 (Plain ''context canceled'')]) init_sys \<and>
     g_pc (s_calls s ! 1) = Joined \<and> set as \<subseteq> {Advance 1, Ctx 1, Discover 1 (Inl (Plain ''context canceled''))} \<and>
     (\<exists>r. g_pc (s_calls (run_all (sample_config [7]) as s) ! 1) = Finished r)"
proof -
  let ?s = "run_all (sample_config [7]) (sample_start True @ [CancelCall 1 (Plain ''context canceled'')]) init_sys"
  have c: "1 < length (s_calls ?s)" "g_ctx (s_calls ?s ! 1) = Some (Plain ''context canceled'')" "g_pc (s_calls ?s ! 1) = Joined"
    by code_simp+
  show ?thesis using cancelled_call_returns [OF c(1,2), of "sample_config [7]"] c(3) by blast
qed

section \<open>Tasks\<close>

text \<open>
  C27. Waiting for the submitted tasks ends exactly when every task has ended, those submitted later included;
  after a task was discarded it never ends. At least one task was submitted before the waiting began, and there are fewer
  than \<open>2 ^ 63\<close> of them; without a task the waiting ends at once.
\<close>

theorem WaitForCompletion_iff:
  assumes s0: "s0 = run_all cf as init_sys" and s: "s = run_all cf bs s0" and few: "int (length (s_tasks s)) < 2 ^ 63"
    and some: "s_tasks s0 \<noteq> []"
  shows "(completion_reached (submittedTasks s0) s \<longleftrightarrow> (\<forall>t \<in> set (s_tasks s). t_pc t = Ended)) \<and>
    ((\<exists>t \<in> set (s_tasks s0). t_pc t = Discarded) \<longrightarrow> \<not> completion_reached (submittedTasks s0) s)"
proof -
  have le: "length (s_tasks s0) \<le> length (s_tasks s)" unfolding s by (rule tasks_run)
  have e: "ended_tasks (s_tasks s) \<le> length (s_tasks s)" by (rule ended_le)
  have "counters_ok s0" "counters_ok s" unfolding s s0 run_all_append [symmetric] by (rule counters_run)+
  then have c: "submittedTasks s0 = int (length (s_tasks s0))" "completedTasks s = int (ended_tasks (s_tasks s))"
    "pendingTasks s = int (length (s_tasks s)) - int (ended_tasks (s_tasks s))"
    using few le e by (auto simp: counters_ok_def i64_id in_i64_def)
  have iff: "completion_reached (submittedTasks s0) s \<longleftrightarrow> (\<forall>t \<in> set (s_tasks s). t_pc t = Ended)"
    using le e some by (auto simp: completion_reached_def c all_ended [symmetric])
  moreover have "\<not> (\<forall>t \<in> set (s_tasks s). t_pc t = Ended)" if "\<exists>t \<in> set (s_tasks s0). t_pc t = Discarded"
    using that discarded_run [of _ s0 cf bs] s by fastforce
  ultimately show ?thesis by blast
qed

theorem WaitForCompletion_iff_witness:
  "\<exists>s0 s. s0 = run_all (sample_config []) (sample_start False @ [Discard 0]) init_sys \<and>
     s = run_all (sample_config []) [Advance 0, Begin 0] s0 \<and> s_tasks s0 \<noteq> [] \<and> \<not> completion_reached (submittedTasks s0) s"
proof -
  let ?before = "run_all (sample_config []) (sample_start False @ [Discard 0]) init_sys"
  let ?after = "run_all (sample_config []) [Advance 0, Begin 0] ?before"
  have c: "int (length (s_tasks ?after)) < 2 ^ 63" "s_tasks ?before \<noteq> []" "\<exists>t \<in> set (s_tasks ?before). t_pc t = Discarded" by code_simp+
  have "\<not> completion_reached (submittedTasks ?before) ?after"
    by (rule WaitForCompletion_iff [OF refl refl c(1,2), THEN conjunct2, THEN mp, OF c(3)])
  with c(2) show ?thesis by (intro exI [of _ ?before] exI [of _ ?after] conjI refl)
qed

end
