(* ===== verification/StreamReader.thy ===== *)
theory StreamReader
  imports Stream_Roundtrip Store
begin

text \<open>
  The stream client (\<open>client/errors.go\<close>, \<open>client/stream_acquirer.go\<close>): its errors and retries, and the reader that
  gives access to the content of a stream and fetches blobs when it needs them, with a cache, a prefetcher and
  background writes to the store.

  The store and the acquirer are the two interfaces the reader is given. Their calls may fail and change the
  world \<open>'w\<close>, so each returns its result and the next world. \<open>retry.Do\<close> of the retry library is a parameter \<open>rt\<close>; what
  the library documents of it is \<open>retry_ok\<close>. The operations of the reader are single steps, and so are the work of
  the prefetcher on one request and a background write, which may happen between any two others; the code takes its mutexes for
  each access, and interleavings within a step are not distinguished.
\<close>

section \<open>Errors and retries\<close>

definition ErrStreamNotFound :: error where
  "ErrStreamNotFound = Plain ''stream not found''"

definition ErrBlobAcquisition :: error where
  "ErrBlobAcquisition = Plain ''failed to acquire blob''"

definition ErrClientStreamCorrupted :: error where
  "ErrClientStreamCorrupted = Plain ''stream data is corrupted''"

definition ErrClientInvalidHash :: error where
  "ErrClientInvalidHash = Plain ''invalid blob hash''"

definition ErrDecryptionFailed :: error where
  "ErrDecryptionFailed = Plain ''blob decryption failed''"

definition ErrContextCancelled :: error where
  "ErrContextCancelled = Plain ''operation cancelled by context''"

definition ErrNotSDBlob :: error where
  "ErrNotSDBlob = Plain ''blob is not an SD blob (appears to be binary content data)''"

text \<open>\<open>errors.As\<close> for \<open>*StreamError\<close>: the error that the first one in the tree wraps.\<close>

fun as_StreamError :: "error \<Rightarrow> error option" where
  "as_StreamError (OperationError op e) = Some e"
| "as_StreamError (Wrapped p e) = as_StreamError e"
| "as_StreamError (Joined a b) = (case as_StreamError a of Some e \<Rightarrow> Some e | None \<Rightarrow> as_StreamError b)"
| "as_StreamError e = None"

definition IsStreamError :: "error \<Rightarrow> bool" where
  "IsStreamError e \<longleftrightarrow> as_StreamError e \<noteq> None"

lemma size_as_StreamError: "as_StreamError e = Some e' \<Longrightarrow> size e' < size e"
  by (induction e rule: as_StreamError.induct) (auto split: option.splits)

function isRetryableError :: "error \<Rightarrow> bool" where
  "isRetryableError e =
     (case as_StreamError e of
        Some e' \<Rightarrow> isRetryableError e'
      | None \<Rightarrow>
          \<not> errIs e ErrContextCancelled \<and>
          \<not> (errIs e SDBlob.ErrInvalidSDBlob \<or> errIs e ErrNotSDBlob \<or> errIs e ErrClientStreamCorrupted \<or>
             errIs e ErrClientInvalidHash \<or> errIs e ErrDecryptionFailed \<or> errIs e ErrStreamNotFound))"
  by pat_completeness auto

termination
  by (relation "measure size") (auto dest: size_as_StreamError)

declare isRetryableError.simps [simp del]

text \<open>
  \<open>retried op n w r\<close>: \<open>r\<close> is a possible outcome of at most \<open>n\<close> attempts: the outcome of the last attempt, each earlier one
  having failed with an error worth retrying, or the error of the context when it ends before an attempt.
\<close>

inductive retried :: "('w \<Rightarrow> (error + 'a) \<times> 'w) \<Rightarrow> nat \<Rightarrow> 'w \<Rightarrow> (error + 'a) \<times> 'w \<Rightarrow> bool" for op where
  ended: "retried op n w (Inl e, w)"
| last_attempt: "retried op (Suc n) w (op w)"
| again: "op w = (Inl e, w') \<Longrightarrow> isRetryableError e \<Longrightarrow> retried op n w' r \<Longrightarrow> retried op (Suc n) w r"

definition retry_ok :: "(('w \<Rightarrow> (error + 'a) \<times> 'w) \<Rightarrow> 'w \<Rightarrow> (error + 'a) \<times> 'w) \<Rightarrow> bool" where
  "retry_ok rt \<longleftrightarrow> (\<forall>op w. retried op 3 w (rt op w))"

text \<open>With a context that does not end, an attempt that succeeds or fails for good is the last one.\<close>

definition retry_live :: "(('w \<Rightarrow> (error + 'a) \<times> 'w) \<Rightarrow> 'w \<Rightarrow> (error + 'a) \<times> 'w) \<Rightarrow> bool" where
  "retry_live rt \<longleftrightarrow> (\<forall>op w. (case fst (op w) of Inr _ \<Rightarrow> True | Inl e \<Rightarrow> \<not> isRetryableError e) \<longrightarrow> rt op w = op w)"

section \<open>The reader\<close>

record 'w services =
  sv_Has :: "'w \<Rightarrow> string \<Rightarrow> (error + bool) \<times> 'w"
  sv_Get :: "'w \<Rightarrow> string \<Rightarrow> (error + bytes) \<times> 'w"
  sv_Put :: "'w \<Rightarrow> string \<Rightarrow> bytes \<Rightarrow> error option \<times> 'w"
  sv_Acquire :: "'w \<Rightarrow> string \<Rightarrow> (error + bytes) \<times> 'w"
  sv_store :: bool

record ReaderConfig =
  CacheSize :: int
  PrefetchEnabled :: bool
  VerificationEnabled :: bool

definition DefaultStreamConfig :: ReaderConfig where
  "DefaultStreamConfig = \<lparr>CacheSize = 3, PrefetchEnabled = True, VerificationEnabled = True\<rparr>"

definition WithStreamCacheSize :: "int \<Rightarrow> ReaderConfig \<Rightarrow> ReaderConfig" where
  "WithStreamCacheSize n cf = cf\<lparr>CacheSize := n\<rparr>"

definition WithStreamPrefetch :: "bool \<Rightarrow> ReaderConfig \<Rightarrow> ReaderConfig" where
  "WithStreamPrefetch b cf = cf\<lparr>PrefetchEnabled := b\<rparr>"

definition WithStreamVerification :: "bool \<Rightarrow> ReaderConfig \<Rightarrow> ReaderConfig" where
  "WithStreamVerification b cf = cf\<lparr>VerificationEnabled := b\<rparr>"

text \<open>
  A cached blob has the time of its last access, read from a clock that advances with every reading. \<open>prefetchChan\<close> is the
  channel of capacity one, \<open>storing\<close> the background writes that have not happened yet.
\<close>

record cachedBlob =
  cb_index :: nat
  cb_data :: bytes
  lastAccess :: nat

record streamingReader =
  sr_sd :: SDBlob
  sr_config :: ReaderConfig
  currentPos :: int
  totalSize :: int
  blobCache :: "cachedBlob list"
  currentBlob :: nat
  blobOffset :: int
  currentData :: "bytes option"
  prefetchChan :: "nat option"
  storing :: "(string \<times> bytes) list"
  bytesRead :: int
  sr_clock :: nat
  sr_closed :: bool

text \<open>The terminating blob, the last one when its length is zero, does not count.\<close>

fun total_size :: "BlobInfo list \<Rightarrow> int \<Rightarrow> int" where
  "total_size [] acc = acc"
| "total_size (bi # bis) acc =
     (if bis = [] \<and> Length bi = 0 then total_size bis acc else total_size bis (i64 (acc + Length bi)))"

definition newStreamReader :: "SDBlob \<Rightarrow> (ReaderConfig \<Rightarrow> ReaderConfig) list \<Rightarrow> streamingReader" where
  "newStreamReader sdb opts =
     \<lparr>sr_sd = sdb, sr_config = foldl (\<lambda>cf f. f cf) DefaultStreamConfig opts, currentPos = 0, totalSize = total_size (BlobInfos sdb) 0,
      blobCache = [], currentBlob = 0, blobOffset = 0, currentData = None, prefetchChan = None, storing = [], bytesRead = 0,
      sr_clock = 0, sr_closed = False\<rparr>"

subsection \<open>The cache\<close>

definition cache_lookup :: "nat \<Rightarrow> cachedBlob list \<Rightarrow> bytes option" where
  "cache_lookup i cs = map_option cb_data (find (\<lambda>c. cb_index c = i) cs)"

text \<open>The entry with the oldest access; among equally old ones the first.\<close>

fun oldest :: "cachedBlob \<Rightarrow> cachedBlob list \<Rightarrow> nat" where
  "oldest c [] = cb_index c"
| "oldest c (d # ds) = oldest (if lastAccess d < lastAccess c then d else c) ds"

definition evict :: "int \<Rightarrow> cachedBlob list \<Rightarrow> cachedBlob list" where
  "evict lim cs =
     (if int (length cs) > lim
      then (case cs of [] \<Rightarrow> [] | c # ds \<Rightarrow> (let k = oldest c ds in filter (\<lambda>x. cb_index x \<noteq> k) cs))
      else cs)"

definition cache_insert :: "nat \<Rightarrow> bytes \<Rightarrow> nat \<Rightarrow> cachedBlob list \<Rightarrow> cachedBlob list" where
  "cache_insert i d t cs = \<lparr>cb_index = i, cb_data = d, lastAccess = t\<rparr> # filter (\<lambda>c. cb_index c \<noteq> i) cs"

text \<open>The access time is updated in the background when the entry still exists.\<close>

definition touch :: "nat \<Rightarrow> streamingReader \<Rightarrow> streamingReader" where
  "touch i r = r\<lparr>blobCache := map (\<lambda>c. if cb_index c = i then c\<lparr>lastAccess := sr_clock r\<rparr> else c) (blobCache r), sr_clock := Suc (sr_clock r)\<rparr>"

definition setBlobData :: "(bytes \<Rightarrow> bytes \<Rightarrow> bytes) \<Rightarrow> nat \<Rightarrow> bytes \<Rightarrow> streamingReader \<Rightarrow> error option \<times> streamingReader" where
  "setBlobData dec i data r =
     (case Blob_Plaintext dec data (Key (sr_sd r)) (IV (BlobInfos (sr_sd r) ! i)) of
        Inl e \<Rightarrow> (Some (OperationError ''decrypt_blob'' e), r)
      | Inr d \<Rightarrow>
          (let r' = r\<lparr>blobCache := evict (CacheSize (sr_config r)) (cache_insert i d (sr_clock r) (blobCache r)), sr_clock := Suc (sr_clock r)\<rparr>
           in (None, if i = currentBlob r then r'\<lparr>currentData := Some d\<rparr> else r')))"

subsection \<open>Loading a blob\<close>

text \<open>
  One attempt to load from the store. The code decrypts and caches inside the attempt: a blob that cannot be decrypted makes
  the attempt fail without a change of the reader, and after a success there is no other attempt.
\<close>

definition try_storage ::
    "(bytes \<Rightarrow> bytes) \<Rightarrow> (bytes \<Rightarrow> bytes \<Rightarrow> bytes) \<Rightarrow> 'w services \<Rightarrow> streamingReader \<Rightarrow> nat \<Rightarrow> string \<Rightarrow> 'w \<Rightarrow> (error + bytes) \<times> 'w" where
  "try_storage sha dec S r i h w =
     (case sv_Has S w h of
        (Inl e, w') \<Rightarrow> (Inl (OperationError ''storage_has_check'' e), w')
      | (Inr False, w') \<Rightarrow> (Inl ErrStreamNotFound, w')
      | (Inr True, w') \<Rightarrow>
          (case sv_Get S w' h of
             (Inl e, w'') \<Rightarrow> (Inl (OperationError ''storage_get'' e), w'')
           | (Inr data, w'') \<Rightarrow>
               (case (if VerificationEnabled (sr_config r) then VerifyBlobHash sha data h else None) of
                  Some e \<Rightarrow> (Inl (Wrapped ''stored blob hash verification failed'' e), w'')
                | None \<Rightarrow>
                    (case fst (setBlobData dec i data r) of Some e \<Rightarrow> (Inl e, w'') | None \<Rightarrow> (Inr data, w'')))))"

definition try_network :: "'w services \<Rightarrow> string \<Rightarrow> string \<Rightarrow> 'w \<Rightarrow> (error + bytes) \<times> 'w" where
  "try_network S op h w = (case sv_Acquire S w h of (Inl e, w') \<Rightarrow> (Inl (OperationError op e), w') | (Inr d, w') \<Rightarrow> (Inr d, w'))"

text \<open>The part of \<open>ensureCurrentBlob\<close> that acquires a blob from the network.\<close>

definition load_network ::
    "(bytes \<Rightarrow> bytes) \<Rightarrow> (bytes \<Rightarrow> bytes \<Rightarrow> bytes) \<Rightarrow> 'w services \<Rightarrow> (('w \<Rightarrow> (error + bytes) \<times> 'w) \<Rightarrow> 'w \<Rightarrow> (error + bytes) \<times> 'w) \<Rightarrow>
     nat \<Rightarrow> string \<Rightarrow> streamingReader \<Rightarrow> 'w \<Rightarrow> error option \<times> streamingReader \<times> 'w" where
  "load_network sha dec S rt i h r w =
     (case rt (try_network S ''network_acquire'' h) w of
        (Inl e, w') \<Rightarrow> (Some (Wrapped ''failed to acquire blob'' e), r, w')
      | (Inr data, w') \<Rightarrow>
          if data = [] then (Some (OperationError ''validation'' ErrBlobAcquisition), r, w')
          else (case (if VerificationEnabled (sr_config r) then VerifyBlobHash sha data h else None) of
                  Some e \<Rightarrow> (Some (Wrapped ''blob hash verification failed'' e), r, w')
                | None \<Rightarrow>
                    (let r' = (if sv_store S then r\<lparr>storing := storing r @ [(h, data)]\<rparr> else r)
                     in case setBlobData dec i data r' of (e, r'') \<Rightarrow> (e, r'', w'))))"

definition ensureCurrentBlob ::
    "(bytes \<Rightarrow> bytes) \<Rightarrow> (bytes \<Rightarrow> bytes \<Rightarrow> bytes) \<Rightarrow> 'w services \<Rightarrow> (('w \<Rightarrow> (error + bytes) \<times> 'w) \<Rightarrow> 'w \<Rightarrow> (error + bytes) \<times> 'w) \<Rightarrow>
     streamingReader \<Rightarrow> 'w \<Rightarrow> error option \<times> streamingReader \<times> 'w" where
  "ensureCurrentBlob sha dec S rt r w =
     (if currentData r \<noteq> None then (None, r, w)
      else if currentBlob r \<ge> length (BlobInfos (sr_sd r)) then (Some error.EOF, r, w)
      else
        (let i = currentBlob r; h = hex_encode (BlobHash (BlobInfos (sr_sd r) ! i)) in
         case cache_lookup i (blobCache r) of
           Some d \<Rightarrow> (None, r\<lparr>currentData := Some d\<rparr>, w)
         | None \<Rightarrow>
             if h = [] then (None, r\<lparr>currentData := Some []\<rparr>, w)
             else if \<not> sv_store S then load_network sha dec S rt i h r w
             else (case rt (try_storage sha dec S r i h) w of
                     (Inr data, w') \<Rightarrow> (case setBlobData dec i data r of (e, r') \<Rightarrow> (e, r', w'))
                   | (Inl e, w') \<Rightarrow>
                       if \<not> isRetryableError e then load_network sha dec S rt i h r w'
                       else (Some (Wrapped ''storage operation failed'' e), r, w'))))"

subsection \<open>Reading and seeking\<close>

text \<open>
  A read into a buffer of length \<open>n\<close> returns the bytes it copied. The slice expression panics when the offset lies behind the
  end of the decrypted blob. \<open>next_blob\<close> is the move to the next blob, with its request to the prefetcher.
\<close>

definition ErrClosedPipe :: error where
  "ErrClosedPipe = Plain ''io: read/write on closed pipe''"

definition next_blob :: "streamingReader \<Rightarrow> streamingReader" where
  "next_blob r =
     (let k = Suc (currentBlob r); r' = r\<lparr>currentBlob := k, blobOffset := 0, currentData := None\<rparr> in
      if PrefetchEnabled (sr_config r) \<and> k < length (BlobInfos (sr_sd r)) \<and> prefetchChan r = None then r'\<lparr>prefetchChan := Some k\<rparr> else r')"

definition copy_out :: "nat \<Rightarrow> streamingReader \<Rightarrow> (bytes \<times> streamingReader) option" where
  "copy_out n r =
     (let d = (case currentData r of Some d \<Rightarrow> d | None \<Rightarrow> []);
          toRead = min (min (int n) (int (length d) - blobOffset r)) (i64 (totalSize r - currentPos r)) in
      if toRead < 0 \<or> blobOffset r < 0 then None
      else
        (let r' = r\<lparr>blobOffset := i64 (blobOffset r + toRead), currentPos := i64 (currentPos r + toRead), bytesRead := i64 (bytesRead r + toRead)\<rparr> in
         Some (take (nat toRead) (drop (nat (blobOffset r)) d), if blobOffset r' \<ge> int (length d) then next_blob r' else r')))"

definition sr_Read ::
    "(bytes \<Rightarrow> bytes) \<Rightarrow> (bytes \<Rightarrow> bytes \<Rightarrow> bytes) \<Rightarrow> 'w services \<Rightarrow> (('w \<Rightarrow> (error + bytes) \<times> 'w) \<Rightarrow> 'w \<Rightarrow> (error + bytes) \<times> 'w) \<Rightarrow>
     nat \<Rightarrow> streamingReader \<Rightarrow> 'w \<Rightarrow> ((error + bytes) \<times> streamingReader \<times> 'w) option" where
  "sr_Read sha dec S rt n r w =
     (if sr_closed r then Some (Inl ErrClosedPipe, r, w)
      else if currentPos r \<ge> totalSize r then Some (Inl error.EOF, r, w)
      else (case ensureCurrentBlob sha dec S rt r w of
              (Some e, r', w') \<Rightarrow> Some (Inl e, r', w')
            | (None, r', w') \<Rightarrow> (case copy_out n r' of None \<Rightarrow> None | Some (d, r'') \<Rightarrow> Some (Inr d, r'', w'))))"

datatype whence = SeekStart | SeekCurrent | SeekEnd | OtherWhence

text \<open>The blob that contains a position, by the sizes of the encrypted blobs.\<close>

fun find_blob :: "BlobInfo list \<Rightarrow> nat \<Rightarrow> int \<Rightarrow> int \<Rightarrow> (nat \<times> int) option" where
  "find_blob [] i acc pos = None"
| "find_blob (bi # bis) i acc pos =
     (if i64 (acc + Length bi) > pos then Some (i, i64 (pos - acc)) else find_blob bis (Suc i) (i64 (acc + Length bi)) pos)"

definition Seek :: "int \<Rightarrow> whence \<Rightarrow> streamingReader \<Rightarrow> (error + int) \<times> streamingReader" where
  "Seek off wh r =
     (if sr_closed r then (Inl ErrClosedPipe, r)
      else
        (case (case wh of SeekStart \<Rightarrow> Some off | SeekCurrent \<Rightarrow> Some (i64 (currentPos r + off))
                | SeekEnd \<Rightarrow> Some (i64 (totalSize r + off)) | OtherWhence \<Rightarrow> None) of
           None \<Rightarrow> (Inl (Plain ''invalid whence value''), r)
         | Some p \<Rightarrow>
             if p < 0 \<or> p > totalSize r then (Inl (Plain ''seek position out of bounds''), r)
             else (case find_blob (BlobInfos (sr_sd r)) 0 0 p of
                     None \<Rightarrow> (Inr (totalSize r),
                        r\<lparr>currentPos := totalSize r, currentBlob := length (BlobInfos (sr_sd r)), blobOffset := 0, currentData := None\<rparr>)
                   | Some (i, k) \<Rightarrow> (Inr p, r\<lparr>currentPos := p, currentBlob := i, blobOffset := k, currentData := None\<rparr>))))"

text \<open>
  \<open>DecryptedSize\<close>: exact when every content blob is cached, otherwise extrapolated from the cached ones in floating point
  (the parameter \<open>est\<close>, of their total size, their number and the number of the others).
\<close>

definition DecryptedSize :: "(int \<Rightarrow> nat \<Rightarrow> int \<Rightarrow> int) \<Rightarrow> streamingReader \<Rightarrow> int" where
  "DecryptedSize est r =
     (let n = int (length (BlobInfos (sr_sd r))) - 1;
          known = map the (filter (\<lambda>x. x \<noteq> None) (map (\<lambda>i. cache_lookup i (blobCache r)) [0..<nat n]));
          sz = sum_list (map (int \<circ> length) known) in
      if int (length known) = n then sz
      else if length known > 0 then i64 (sz + est sz (length known) (n - int (length known)))
      else -1)"

subsection \<open>Background work\<close>

text \<open>One background write; its error is only logged.\<close>

definition store_step :: "'w services \<Rightarrow> streamingReader \<Rightarrow> 'w \<Rightarrow> streamingReader \<times> 'w" where
  "store_step S r w =
     (case storing r of [] \<Rightarrow> (r, w) | (h, d) # ps \<Rightarrow> (r\<lparr>storing := ps\<rparr>, snd (sv_Put S w h d)))"

definition prefetch_network ::
    "(bytes \<Rightarrow> bytes) \<Rightarrow> (bytes \<Rightarrow> bytes \<Rightarrow> bytes) \<Rightarrow> 'w services \<Rightarrow> (('w \<Rightarrow> (error + bytes) \<times> 'w) \<Rightarrow> 'w \<Rightarrow> (error + bytes) \<times> 'w) \<Rightarrow>
     nat \<Rightarrow> string \<Rightarrow> streamingReader \<Rightarrow> 'w \<Rightarrow> streamingReader \<times> 'w" where
  "prefetch_network sha dec S rt i h r w =
     (case rt (try_network S ''prefetch_acquire'' h) w of
        (Inl e, w') \<Rightarrow> (r, w')
      | (Inr data, w') \<Rightarrow>
          (case (if VerificationEnabled (sr_config r) then VerifyBlobHash sha data h else None) of
             Some e \<Rightarrow> (r, w')
           | None \<Rightarrow>
               (let r' = (if sv_store S then r\<lparr>storing := storing r @ [(h, data)]\<rparr> else r)
                in (snd (setBlobData dec i data r'), w'))))"

definition prefetch_blob ::
    "(bytes \<Rightarrow> bytes) \<Rightarrow> (bytes \<Rightarrow> bytes \<Rightarrow> bytes) \<Rightarrow> 'w services \<Rightarrow> (('w \<Rightarrow> (error + bytes) \<times> 'w) \<Rightarrow> 'w \<Rightarrow> (error + bytes) \<times> 'w) \<Rightarrow>
     nat \<Rightarrow> streamingReader \<Rightarrow> 'w \<Rightarrow> streamingReader \<times> 'w" where
  "prefetch_blob sha dec S rt i r w =
     (if i \<ge> length (BlobInfos (sr_sd r)) \<or> cache_lookup i (blobCache r) \<noteq> None then (r, w)
      else
        (let h = hex_encode (BlobHash (BlobInfos (sr_sd r) ! i)) in
         if h = [] then (r, w)
         else if \<not> sv_store S then prefetch_network sha dec S rt i h r w
         else (case sv_Has S w h of
                 (Inr True, w') \<Rightarrow>
                   (case sv_Get S w' h of
                      (Inr data, w'') \<Rightarrow>
                        (case (if VerificationEnabled (sr_config r) then VerifyBlobHash sha data h else None) of
                           Some e \<Rightarrow> (r, w'')
                         | None \<Rightarrow> (snd (setBlobData dec i data r), w''))
                    | (Inl e, w'') \<Rightarrow> prefetch_network sha dec S rt i h r w'')
               | (_, w') \<Rightarrow> prefetch_network sha dec S rt i h r w')))"

definition prefetch_step ::
    "(bytes \<Rightarrow> bytes) \<Rightarrow> (bytes \<Rightarrow> bytes \<Rightarrow> bytes) \<Rightarrow> 'w services \<Rightarrow> (('w \<Rightarrow> (error + bytes) \<times> 'w) \<Rightarrow> 'w \<Rightarrow> (error + bytes) \<times> 'w) \<Rightarrow>
     streamingReader \<Rightarrow> 'w \<Rightarrow> streamingReader \<times> 'w" where
  "prefetch_step sha dec S rt r w =
     (case prefetchChan r of None \<Rightarrow> (r, w) | Some i \<Rightarrow> prefetch_blob sha dec S rt i (r\<lparr>prefetchChan := None\<rparr>) w)"

text \<open>\<open>Close\<close> stops the prefetcher, waits for the background writes and clears the cache.\<close>

fun finish_storing :: "'w services \<Rightarrow> (string \<times> bytes) list \<Rightarrow> 'w \<Rightarrow> 'w" where
  "finish_storing S [] w = w"
| "finish_storing S ((h, d) # ps) w = finish_storing S ps (snd (sv_Put S w h d))"

definition sr_Close :: "'w services \<Rightarrow> streamingReader \<Rightarrow> 'w \<Rightarrow> streamingReader \<times> 'w" where
  "sr_Close S r w =
     (if sr_closed r then (r, w)
      else (r\<lparr>sr_closed := True, storing := [], blobCache := []\<rparr>, finish_storing S (storing r) w))"

end
