(* ===== verification/StreamAcquirer.thy ===== *)
theory StreamAcquirer
  imports Reflector StreamReader
begin

text \<open>
  The stream acquirer (\<open>client/stream_acquirer.go\<close>): fetching a descriptor, opening a reader for its stream, and
  fetching the whole stream at once.
\<close>

section \<open>Configuration\<close>

record AcquireConfig =
  ac_Recursive :: bool
  ac_StreamOptions :: "(ReaderConfig \<Rightarrow> ReaderConfig) list"
  ac_VerificationEnabled :: bool

text \<open>What the acquirer starts from before it applies the options of a call: all fields but the retry options are zero.\<close>

definition baseAcquireConfig :: AcquireConfig where
  "baseAcquireConfig = \<lparr>ac_Recursive = False, ac_StreamOptions = [], ac_VerificationEnabled = False\<rparr>"

definition WithAcquireRecursive :: "bool \<Rightarrow> AcquireConfig \<Rightarrow> AcquireConfig" where
  "WithAcquireRecursive b cf = cf\<lparr>ac_Recursive := b\<rparr>"

definition WithAcquireStreamOptions :: "(ReaderConfig \<Rightarrow> ReaderConfig) list \<Rightarrow> AcquireConfig \<Rightarrow> AcquireConfig" where
  "WithAcquireStreamOptions os cf = cf\<lparr>ac_StreamOptions := ac_StreamOptions cf @ os\<rparr>"

definition WithAcquireVerification :: "bool \<Rightarrow> AcquireConfig \<Rightarrow> AcquireConfig" where
  "WithAcquireVerification b cf = cf\<lparr>ac_VerificationEnabled := b\<rparr>"

definition apply_opts :: "(AcquireConfig \<Rightarrow> AcquireConfig) list \<Rightarrow> AcquireConfig" where
  "apply_opts os = foldl (\<lambda>cf f. f cf) baseAcquireConfig os"

section \<open>Descriptors\<close>

text \<open>The hash functions, key codec and registered profiles that parsing and validating a descriptor use.\<close>

record sd_env =
  x_sha :: "bytes \<Rightarrow> bytes"
  x_lib :: cid_lib
  x_okeys :: "string \<Rightarrow> string list option"
  x_reg :: "serializationProfile list"

definition verifyAndValidateSDBlob :: "sd_env \<Rightarrow> bytes \<Rightarrow> string \<Rightarrow> bool \<Rightarrow> error option" where
  "verifyAndValidateSDBlob X data expected verification =
     (if data = [] then Some (OperationError ''validation'' ErrBlobAcquisition)
      else (case (if verification then VerifyBlobHash (x_sha X) data expected else None) of
              Some e \<Rightarrow> Some (Wrapped ''SD blob hash verification failed'' e)
            | None \<Rightarrow>
                if json_parse (string_of data) = None then Some (OperationError ''validate_sd_blob'' ErrNotSDBlob)
                else map_option (Wrapped ''invalid SD blob'') (ValidateSDBlobBytes (x_sha X) (x_lib X) (x_okeys X) (x_reg X) data)))"

definition client_ValidateBlobHash :: "cid_lib \<Rightarrow> string \<Rightarrow> error option" where
  "client_ValidateBlobHash L h = (if ValidateBlobHash L h then None else Some ErrClientInvalidHash)"

definition not_sd_text :: error where
  "not_sd_text = Plain ''hash appears to be content blob data, not an SD blob manifest''"

text \<open>
  The common part of the three operations: acquire the descriptor with retries, verify and parse it. They differ
  in how they present errors: \<open>explain\<close> is for those that replace the error of binary data by a hint, \<open>parse_err\<close> and
  \<open>empty_err\<close> are their errors for a descriptor that does not parse or is empty.
\<close>

definition fetch_sd ::
    "sd_env \<Rightarrow> 'w services \<Rightarrow> (('w \<Rightarrow> (error + bytes) \<times> 'w) \<Rightarrow> 'w \<Rightarrow> (error + bytes) \<times> 'w) \<Rightarrow> bool \<Rightarrow> (error \<Rightarrow> error) \<Rightarrow> error \<Rightarrow> bool \<Rightarrow>
     string \<Rightarrow> 'w \<Rightarrow> (error + SDBlob \<times> bytes) \<times> 'w" where
  "fetch_sd X S rt explain parse_err empty_err verification sdHash w =
     (case rt (try_network S ''acquire_sd_blob'' sdHash) w of
        (Inl e, w') \<Rightarrow> (Inl (Wrapped ''failed to acquire SD blob'' e), w')
      | (Inr data, w') \<Rightarrow>
          (case verifyAndValidateSDBlob X data sdHash verification of
             Some e \<Rightarrow> (Inl (if explain \<and> errIs e ErrNotSDBlob then not_sd_text else e), w')
           | None \<Rightarrow>
               (case FromBlob (x_okeys X) (x_reg X) data of
                  Inl e \<Rightarrow> (Inl (parse_err e), w')
                | Inr sdb \<Rightarrow> if BlobInfos sdb = [] then (Inl empty_err, w') else (Inr (sdb, data), w'))))"

definition sa_GetStream ::
    "sd_env \<Rightarrow> 'w services \<Rightarrow> (('w \<Rightarrow> (error + bytes) \<times> 'w) \<Rightarrow> 'w \<Rightarrow> (error + bytes) \<times> 'w) \<Rightarrow> string \<Rightarrow> (AcquireConfig \<Rightarrow> AcquireConfig) list \<Rightarrow>
     'w \<Rightarrow> (error + streamingReader) \<times> 'w" where
  "sa_GetStream X S rt sdHash opts w =
     (let cf = apply_opts opts; streamOpts = ac_StreamOptions cf @ [WithStreamVerification (ac_VerificationEnabled cf)] in
      case client_ValidateBlobHash (x_lib X) sdHash of
        Some e \<Rightarrow> (Inl (Wrapped ''invalid SD hash'' e), w)
      | None \<Rightarrow>
          (case fetch_sd X S rt True (OperationError ''parse_sd_blob'') (OperationError ''validate_sd_blob'' SDBlob.ErrInvalidSDBlob)
                  (ac_VerificationEnabled cf) sdHash w of
             (Inl e, w') \<Rightarrow> (Inl e, w')
           | (Inr (sdb, _), w') \<Rightarrow> (Inr (newStreamReader sdb streamOpts), w')))"

definition GetSDBlob ::
    "sd_env \<Rightarrow> 'w services \<Rightarrow> (('w \<Rightarrow> (error + bytes) \<times> 'w) \<Rightarrow> 'w \<Rightarrow> (error + bytes) \<times> 'w) \<Rightarrow> string \<Rightarrow> 'w \<Rightarrow> (error + SDBlob \<times> bytes) \<times> 'w" where
  "GetSDBlob X S rt sdHash w =
     (case client_ValidateBlobHash (x_lib X) sdHash of
        Some e \<Rightarrow> (Inl (Wrapped ''invalid SD hash'' e), w)
      | None \<Rightarrow> fetch_sd X S rt True (Wrapped ''failed to parse SD blob'') (Plain ''invalid SD blob: no blob infos found'') True sdHash w)"

section \<open>The whole stream\<close>

text \<open>The store is asked first; data that is missing there, cannot be read or fails verification comes from the network and is stored.\<close>

definition from_network ::
    "sd_env \<Rightarrow> 'w services \<Rightarrow> bool \<Rightarrow> string \<Rightarrow> 'w \<Rightarrow> (error + bytes) \<times> 'w" where
  "from_network X S verification h w =
     (case sv_Acquire S w h of
        (Inl e, w') \<Rightarrow> (Inl (Wrapped ''failed to acquire content blob'' e), w')
      | (Inr data, w') \<Rightarrow>
          (case (if verification then VerifyBlobHash (x_sha X) data h else None) of
             Some e \<Rightarrow> (Inl (Wrapped ''content blob hash verification failed'' e), w')
           | None \<Rightarrow> (Inr data, if sv_store S then snd (sv_Put S w' h data) else w')))"

definition acquireBlobWithFallback ::
    "sd_env \<Rightarrow> 'w services \<Rightarrow> bool \<Rightarrow> string \<Rightarrow> 'w \<Rightarrow> (error + bytes) \<times> 'w" where
  "acquireBlobWithFallback X S verification h w =
     (if \<not> sv_store S then from_network X S verification h w
      else (case sv_Has S w h of
              (Inr True, w') \<Rightarrow>
                (case sv_Get S w' h of
                   (Inl e, w'') \<Rightarrow> from_network X S verification h w''
                 | (Inr data, w'') \<Rightarrow>
                     if verification \<and> VerifyBlobHash (x_sha X) data h \<noteq> None then from_network X S verification h w''
                     else (Inr data, w''))
            | (_, w') \<Rightarrow> from_network X S verification h w'))"

fun fetch_blobs ::
    "sd_env \<Rightarrow> 'w services \<Rightarrow> bool \<Rightarrow> BlobInfo list \<Rightarrow> 'w \<Rightarrow> (error + (bytes \<times> string \<times> int) list) \<times> 'w" where
  "fetch_blobs X S v [] w = (Inr [], w)"
| "fetch_blobs X S v (bi # bis) w =
     (if Length bi = 0 then fetch_blobs X S v bis w
      else (let h = hex_encode (BlobHash bi) in
            case acquireBlobWithFallback X S v h w of
              (Inl e, w') \<Rightarrow> (Inl e, w')
            | (Inr d, w') \<Rightarrow>
                (case fetch_blobs X S v bis w' of
                   (Inl e, w'') \<Rightarrow> (Inl e, w'')
                 | (Inr ds, w'') \<Rightarrow> (Inr ((d, h, Length bi) # ds), w''))))"

definition GetStreamResult ::
    "sd_env \<Rightarrow> 'w services \<Rightarrow> (('w \<Rightarrow> (error + bytes) \<times> 'w) \<Rightarrow> 'w \<Rightarrow> (error + bytes) \<times> 'w) \<Rightarrow> string \<Rightarrow> (AcquireConfig \<Rightarrow> AcquireConfig) list \<Rightarrow>
     'w \<Rightarrow> (error + StreamResult) \<times> 'w" where
  "GetStreamResult X S rt sdHash opts w =
     (let cf = apply_opts opts in
      case fetch_sd X S rt False (Wrapped ''failed to parse SD blob'') (Plain ''invalid SD blob: no blob infos found'')
             (ac_VerificationEnabled cf) sdHash w of
        (Inl e, w') \<Rightarrow> (Inl e, w')
      | (Inr (sdb, data), w') \<Rightarrow>
          (let result = \<lparr>res_SDBlob = sdb, res_SDBlobData = data, res_SDBlobHash = sdHash, res_StreamHash = hex_encode (StreamHash sdb),
                  res_SourceSize = 0, res_ContentBlobs = [], res_ContentHashes = [], res_TotalChunks = 0, res_ChunkSizes = []\<rparr> in
           if \<not> ac_Recursive cf then (Inr result, w')
           else (case fetch_blobs X S (ac_VerificationEnabled cf) (BlobInfos sdb) w' of
                   (Inl e, w'') \<Rightarrow> (Inl e, w'')
                 | (Inr ds, w'') \<Rightarrow>
                     (Inr (result\<lparr>res_ContentBlobs := map fst ds, res_ContentHashes := map (fst \<circ> snd) ds,
                        res_TotalChunks := int (length ds), res_ChunkSizes := map (snd \<circ> snd) ds\<rparr>), w''))))"

end
