(* ===== verification/StreamReader_Safety.thy ===== *)
theory StreamReader_Safety
  imports StreamReader
begin

text \<open>
  What the stream reader guarantees whatever the store and the acquirer answer: the bytes it hands out are
  plaintext of blobs with the hashes of the descriptor, and its cache stays within its bound. And when it panics.
\<close>

section \<open>Sequences of operations\<close>

datatype rop = RRead nat | RSeek int whence | RPrefetch | RStore | RTouch nat | RClose

text \<open>The outcome of an operation: what a read returned, and \<open>None\<close> for a panic.\<close>

fun rop_step ::
    "(bytes \<Rightarrow> bytes) \<Rightarrow> (bytes \<Rightarrow> bytes \<Rightarrow> bytes) \<Rightarrow> 'w services \<Rightarrow> (('w \<Rightarrow> (error + bytes) \<times> 'w) \<Rightarrow> 'w \<Rightarrow> (error + bytes) \<times> 'w) \<Rightarrow>
     rop \<Rightarrow> streamingReader \<Rightarrow> 'w \<Rightarrow> ((error + bytes) list \<times> streamingReader \<times> 'w) option" where
  "rop_step sha dec S rt (RRead n) r w = (case sr_Read sha dec S rt n r w of None \<Rightarrow> None | Some (x, r', w') \<Rightarrow> Some ([x], r', w'))"
| "rop_step sha dec S rt (RSeek k wh) r w = Some ([], snd (Seek k wh r), w)"
| "rop_step sha dec S rt RPrefetch r w = (case prefetch_step sha dec S rt r w of (r', w') \<Rightarrow> Some ([], r', w'))"
| "rop_step sha dec S rt RStore r w = (case store_step S r w of (r', w') \<Rightarrow> Some ([], r', w'))"
| "rop_step sha dec S rt (RTouch i) r w = Some ([], touch i r, w)"
| "rop_step sha dec S rt RClose r w = (case sr_Close S r w of (r', w') \<Rightarrow> Some ([], r', w'))"

fun rop_run ::
    "(bytes \<Rightarrow> bytes) \<Rightarrow> (bytes \<Rightarrow> bytes \<Rightarrow> bytes) \<Rightarrow> 'w services \<Rightarrow> (('w \<Rightarrow> (error + bytes) \<times> 'w) \<Rightarrow> 'w \<Rightarrow> (error + bytes) \<times> 'w) \<Rightarrow>
     rop list \<Rightarrow> streamingReader \<Rightarrow> 'w \<Rightarrow> ((error + bytes) list \<times> streamingReader \<times> 'w) option" where
  "rop_run sha dec S rt [] r w = Some ([], r, w)"
| "rop_run sha dec S rt (a # as) r w =
     (case rop_step sha dec S rt a r w of
        None \<Rightarrow> None
      | Some (xs, r', w') \<Rightarrow> (case rop_run sha dec S rt as r' w' of None \<Rightarrow> None | Some (ys, r'', w'') \<Rightarrow> Some (xs @ ys, r'', w'')))"

section \<open>The cache\<close>

lemma oldest_in: "\<exists>x \<in> set (c # ds). cb_index x = oldest c ds"
proof (induction ds arbitrary: c)
  case (Cons d ds)
  from Cons [of "if lastAccess d < lastAccess c then d else c"] show ?case by (auto split: if_splits)
qed simp

lemma cache_lookup_Some: "cache_lookup i cs = Some d \<Longrightarrow> \<exists>c \<in> set cs. cb_index c = i \<and> cb_data c = d"
  by (auto simp: cache_lookup_def find_Some_iff)

lemma set_evict: "set (evict n cs) \<subseteq> set cs"
  by (auto simp: evict_def Let_def split: list.splits)

lemma length_evict:
  assumes "cs \<noteq> []"
  shows "int (length (evict n cs)) \<le> max n (int (length cs) - 1)"
proof (cases "int (length cs) > n")
  case True
  obtain c ds where cs: "cs = c # ds" using assms by (cases cs) auto
  obtain x where "x \<in> set (c # ds)" "cb_index x = oldest c ds" using oldest_in by blast
  then have "length (filter (\<lambda>x. cb_index x \<noteq> oldest c ds) (c # ds)) < length (c # ds)" by (intro length_filter_less [of x]) auto
  then show ?thesis using True by (simp add: evict_def Let_def cs)
qed (simp add: evict_def)

lemma length_cache_insert: "int (length (cache_insert i d t cs)) \<le> int (length cs) + 1"
  by (simp add: cache_insert_def)

lemma cache_bound:
  assumes "int (length cs) \<le> max 0 n"
  shows "int (length (evict n (cache_insert i d t cs))) \<le> max 0 n"
proof -
  have "cache_insert i d t cs \<noteq> []" by (simp add: cache_insert_def)
  from length_evict [OF this, of n] length_cache_insert [of i d t cs] assms show ?thesis by linarith
qed

section \<open>Verified content\<close>

text \<open>
  \<open>verified sha dec sdb i d\<close>: \<open>d\<close> is the plaintext of a blob with the hash of entry \<open>i\<close> of the descriptor, or the empty
  content of an entry without hash.
\<close>

definition from_blob :: "(bytes \<Rightarrow> bytes) \<Rightarrow> (bytes \<Rightarrow> bytes \<Rightarrow> bytes) \<Rightarrow> SDBlob \<Rightarrow> nat \<Rightarrow> bytes \<Rightarrow> bool" where
  "from_blob sha dec sdb i d \<longleftrightarrow> i < length (BlobInfos sdb) \<and>
     (\<exists>b. b \<noteq> [] \<and> Blob_Hash sha b = BlobHash (BlobInfos sdb ! i) \<and> Blob_Plaintext dec b (Key sdb) (IV (BlobInfos sdb ! i)) = Inr d)"

definition verified :: "(bytes \<Rightarrow> bytes) \<Rightarrow> (bytes \<Rightarrow> bytes \<Rightarrow> bytes) \<Rightarrow> SDBlob \<Rightarrow> nat \<Rightarrow> bytes \<Rightarrow> bool" where
  "verified sha dec sdb i d \<longleftrightarrow>
     from_blob sha dec sdb i d \<or> i < length (BlobInfos sdb) \<and> BlobHash (BlobInfos sdb ! i) = [] \<and> d = []"

definition reader_ok :: "(bytes \<Rightarrow> bytes) \<Rightarrow> (bytes \<Rightarrow> bytes \<Rightarrow> bytes) \<Rightarrow> SDBlob \<Rightarrow> int \<Rightarrow> streamingReader \<Rightarrow> bool" where
  "reader_ok sha dec sdb n r \<longleftrightarrow> sr_sd r = sdb \<and> VerificationEnabled (sr_config r) \<and> CacheSize (sr_config r) = n \<and>
     (\<forall>c \<in> set (blobCache r). from_blob sha dec sdb (cb_index c) (cb_data c)) \<and> int (length (blobCache r)) \<le> max 0 n \<and>
     (\<forall>d. currentData r = Some d \<longrightarrow> verified sha dec sdb (currentBlob r) d) \<and>
     (\<forall>(h, d) \<in> set (storing r). VerifyBlobHash sha d h = None)"

lemma reader_ok_new:
  assumes "VerificationEnabled (sr_config (newStreamReader sdb opts))"
  shows "reader_ok sha dec sdb (CacheSize (sr_config (newStreamReader sdb opts))) (newStreamReader sdb opts)"
  using assms by (simp add: reader_ok_def newStreamReader_def)

text \<open>Data that passed the check of the hash of entry \<open>i\<close>.\<close>

definition checked :: "(bytes \<Rightarrow> bytes) \<Rightarrow> SDBlob \<Rightarrow> nat \<Rightarrow> bytes \<Rightarrow> bool" where
  "checked sha sdb i data \<longleftrightarrow> i < length (BlobInfos sdb) \<and> VerifyBlobHash sha data (hex_encode (BlobHash (BlobInfos sdb ! i))) = None"

lemma checked_hash: "checked sha sdb i data \<Longrightarrow> data \<noteq> [] \<and> Blob_Hash sha data = BlobHash (BlobInfos sdb ! i)"
  by (auto simp: checked_def VerifyBlobHash_iff hex_decode_encode)

lemma setBlobData_ok:
  assumes "reader_ok sha dec sdb n r" "checked sha sdb i data" "setBlobData dec i data r = (e, r')"
  shows "reader_ok sha dec sdb n r'"
proof (cases "Blob_Plaintext dec data (Key sdb) (IV (BlobInfos sdb ! i))")
  case (Inl x)
  then have "r' = r" using assms(1,3) by (simp add: setBlobData_def reader_ok_def)
  with assms(1) show ?thesis by simp
next
  case (Inr d)
  have d: "from_blob sha dec sdb i d" using checked_hash [OF assms(2)] assms(2) Inr by (auto simp: from_blob_def checked_def)
  have sd: "sr_sd r = sdb" "CacheSize (sr_config r) = n" using assms(1) by (simp_all add: reader_ok_def)
  have c: "\<forall>c \<in> set (evict n (cache_insert i d t (blobCache r))). from_blob sha dec sdb (cb_index c) (cb_data c)" for t
    using assms(1) d set_evict [of n "cache_insert i d t (blobCache r)"] by (fastforce simp: reader_ok_def cache_insert_def)
  have b: "int (length (evict n (cache_insert i d t (blobCache r)))) \<le> max 0 n" for t
    using assms(1) by (intro cache_bound) (simp add: reader_ok_def)
  show ?thesis
    using assms(1,3) Inr c b d sd by (auto simp: setBlobData_def reader_ok_def verified_def Let_def split: if_splits)
qed

section \<open>Every operation keeps it\<close>

lemma retried_Inr:
  assumes "retried op n w r" "r = (Inr x, w')"
  shows "\<exists>v. op v = (Inr x, w')"
  using assms by (induction rule: retried.induct) auto

lemma retry_Inr:
  assumes "retry_ok rt" "rt op w = (Inr x, w')"
  shows "\<exists>v. op v = (Inr x, w')"
proof -
  have "retried op 3 w (rt op w)" using assms(1) by (simp add: retry_ok_def)
  then have "retried op 3 w (Inr x, w')" using assms(2) by simp
  from retried_Inr [OF this refl] show ?thesis .
qed

lemma try_storage_Inr:
  assumes "try_storage sha dec S r i h w = (Inr d, w')" "VerificationEnabled (sr_config r)"
  shows "VerifyBlobHash sha d h = None"
  using assms by (auto simp: try_storage_def split: prod.splits sum.splits bool.splits option.splits if_splits)

lemma load_network_ok:
  assumes ok: "reader_ok sha dec sdb n r" and i: "i < length (BlobInfos sdb)" and h: "h = hex_encode (BlobHash (BlobInfos sdb ! i))"
    and l: "load_network sha dec S rt i h r w = (e, r', w')"
  shows "reader_ok sha dec sdb n r'"
proof -
  have v: "VerificationEnabled (sr_config r)" using ok by (simp add: reader_ok_def)
  show ?thesis
  proof (cases "\<exists>data w1. rt (try_network S ''network_acquire'' h) w = (Inr data, w1) \<and> data \<noteq> [] \<and> VerifyBlobHash sha data h = None")
    case True
    then obtain data w1 where d: "rt (try_network S ''network_acquire'' h) w = (Inr data, w1)" "data \<noteq> []" "VerifyBlobHash sha data h = None" by blast
    let ?r = "if sv_store S then r\<lparr>storing := storing r @ [(h, data)]\<rparr> else r"
    have "reader_ok sha dec sdb n ?r" using ok d(3) by (auto simp: reader_ok_def)
    moreover have "checked sha sdb i data" using d(3) i h by (simp add: checked_def)
    ultimately show ?thesis using setBlobData_ok l d v by (auto simp: load_network_def Let_def split: prod.splits)
  next
    case False
    then have "r' = r" using l v by (auto simp: load_network_def split: prod.splits sum.splits if_splits option.splits)
    with ok show ?thesis by simp
  qed
qed

lemma set_current_ok:
  "reader_ok sha dec sdb n r \<Longrightarrow> verified sha dec sdb (currentBlob r) d \<Longrightarrow> reader_ok sha dec sdb n (r\<lparr>currentData := Some d\<rparr>)"
  by (simp add: reader_ok_def)

lemma ensureCurrentBlob_ok:
  assumes ok: "reader_ok sha dec sdb n r" and rt: "retry_ok rt" and e: "ensureCurrentBlob sha dec S rt r w = (e, r', w')"
  shows "reader_ok sha dec sdb n r'"
proof (cases "currentData r \<noteq> None \<or> currentBlob r \<ge> length (BlobInfos (sr_sd r))")
  case True
  then have "r' = r" using e by (auto simp: ensureCurrentBlob_def split: if_splits)
  with ok show ?thesis by simp
next
  case False
  define i where "i = currentBlob r"
  define h where "h = hex_encode (BlobHash (BlobInfos sdb ! i))"
  have sdb: "sr_sd r = sdb" and v: "VerificationEnabled (sr_config r)" using ok by (simp_all add: reader_ok_def)
  have i: "i < length (BlobInfos sdb)" using False sdb by (simp add: i_def)
  show ?thesis
  proof (cases "cache_lookup i (blobCache r)")
    case (Some d)
    then have "from_blob sha dec sdb i d" using ok cache_lookup_Some by (fastforce simp: reader_ok_def)
    then have "reader_ok sha dec sdb n (r\<lparr>currentData := Some d\<rparr>)" using ok by (intro set_current_ok) (simp_all add: verified_def i_def)
    then show ?thesis using e False Some by (simp add: ensureCurrentBlob_def Let_def i_def)
  next
    case None
    show ?thesis
    proof (cases "h = []")
      case True
      then have "length (hex_encode (BlobHash (BlobInfos sdb ! i))) = 0" by (simp add: h_def)
      then have "BlobHash (BlobInfos sdb ! i) = []" by simp
      then have "reader_ok sha dec sdb n (r\<lparr>currentData := Some []\<rparr>)" using ok i by (intro set_current_ok) (simp_all add: verified_def i_def)
      then show ?thesis using e False None True sdb by (simp add: ensureCurrentBlob_def Let_def i_def h_def)
    next
      case h1: False
      show ?thesis
      proof (cases "\<exists>data w1. sv_store S \<and> rt (try_storage sha dec S r i h) w = (Inr data, w1)")
        case True
        then obtain data w1 where d: "sv_store S" "rt (try_storage sha dec S r i h) w = (Inr data, w1)" by blast
        from retry_Inr [OF rt d(2)] try_storage_Inr v have "checked sha sdb i data" using i by (fastforce simp: checked_def h_def)
        then show ?thesis using setBlobData_ok [OF ok] e False None h1 d sdb
          by (auto simp: ensureCurrentBlob_def Let_def i_def h_def split: prod.splits)
      next
        case s: False
        have "(\<exists>w1. load_network sha dec S rt i h r w1 = (e, r', w')) \<or> r' = r"
          using e False None h1 s sdb by (auto simp: ensureCurrentBlob_def Let_def i_def h_def split: if_splits prod.splits sum.splits)
        then show ?thesis by (elim disjE exE) (erule load_network_ok [OF ok i h_def], simp add: ok)
      qed
    qed
  qed
qed

lemma prefetch_network_ok:
  assumes ok: "reader_ok sha dec sdb n r" and i: "i < length (BlobInfos sdb)" and h: "h = hex_encode (BlobHash (BlobInfos sdb ! i))"
  shows "reader_ok sha dec sdb n (fst (prefetch_network sha dec S rt i h r w))"
proof -
  have v: "VerificationEnabled (sr_config r)" using ok by (simp add: reader_ok_def)
  have "reader_ok sha dec sdb n (snd (setBlobData dec i data (if sv_store S then r\<lparr>storing := storing r @ [(h, data)]\<rparr> else r)))"
    if "VerifyBlobHash sha data h = None" for data
  proof -
    have "reader_ok sha dec sdb n (if sv_store S then r\<lparr>storing := storing r @ [(h, data)]\<rparr> else r)" using ok that by (auto simp: reader_ok_def)
    moreover have "checked sha sdb i data" using that i h by (simp add: checked_def)
    ultimately show ?thesis by (rule setBlobData_ok) (rule surjective_pairing)
  qed
  then show ?thesis using ok v by (auto simp: prefetch_network_def Let_def split: prod.split sum.split option.split)
qed

lemma prefetch_blob_ok:
  assumes ok: "reader_ok sha dec sdb n r"
  shows "reader_ok sha dec sdb n (fst (prefetch_blob sha dec S rt i r w))"
proof (cases "i \<ge> length (BlobInfos (sr_sd r)) \<or> cache_lookup i (blobCache r) \<noteq> None")
  case True
  then show ?thesis using ok by (simp add: prefetch_blob_def)
next
  case False
  have v: "VerificationEnabled (sr_config r)" and sdb: "sr_sd r = sdb" using ok by (simp_all add: reader_ok_def)
  have i: "i < length (BlobInfos sdb)" using False sdb by simp
  have s: "reader_ok sha dec sdb n (snd (setBlobData dec i data r))"
    if "VerifyBlobHash sha data (hex_encode (BlobHash (BlobInfos sdb ! i))) = None" for data
    by (rule setBlobData_ok [OF ok _ surjective_pairing]) (use that i in \<open>simp add: checked_def\<close>)
  note p = prefetch_network_ok [OF ok i refl]
  show ?thesis using False i sdb v s p ok
    by (auto simp: prefetch_blob_def Let_def split: prod.split sum.split bool.split option.split)
qed

lemma copy_out_cases:
  assumes "copy_out k r = Some (d, r')" "currentData r = Some x"
  obtains t off c b where "d = take t (drop (nat (blobOffset r)) x)"
    "r' = r\<lparr>blobOffset := off, currentPos := c, bytesRead := b\<rparr> \<or> r' = next_blob (r\<lparr>blobOffset := off, currentPos := c, bytesRead := b\<rparr>)"
proof -
  define toRead where "toRead = min (min (int k) (int (length x) - blobOffset r)) (i64 (totalSize r - currentPos r))"
  show thesis
    by (rule that [of "nat toRead" "i64 (bytesRead r + toRead)" "i64 (currentPos r + toRead)" "i64 (blobOffset r + toRead)"])
      (use assms in \<open>simp_all add: copy_out_def Let_def toRead_def split: if_splits\<close>)
qed

lemma moved_ok:
  assumes "reader_ok sha dec sdb n r"
  shows "reader_ok sha dec sdb n (r\<lparr>blobOffset := off, currentPos := c, bytesRead := b\<rparr>)" "reader_ok sha dec sdb n (next_blob r)"
  using assms by (simp_all add: reader_ok_def next_blob_def Let_def)

lemma copy_out_ok:
  assumes ok: "reader_ok sha dec sdb n r" and c: "copy_out k r = Some (d, r')" "currentData r = Some x"
  shows "reader_ok sha dec sdb n r' \<and> (\<exists>i p off. verified sha dec sdb i p \<and> d = take (length d) (drop off p))"
proof
  obtain t off c' b where d: "d = take t (drop (nat (blobOffset r)) x)" and
    r': "r' = r\<lparr>blobOffset := off, currentPos := c', bytesRead := b\<rparr> \<or> r' = next_blob (r\<lparr>blobOffset := off, currentPos := c', bytesRead := b\<rparr>)"
    by (rule copy_out_cases [OF c])
  show "reader_ok sha dec sdb n r'" using r' moved_ok(1) [OF ok] moved_ok(2) [OF moved_ok(1) [OF ok]] by blast
  have "verified sha dec sdb (currentBlob r) x" using ok c(2) by (simp add: reader_ok_def)
  moreover have "d = take (length d) (drop (nat (blobOffset r)) x)" by (simp add: d min_def)
  ultimately show "\<exists>i p off. verified sha dec sdb i p \<and> d = take (length d) (drop off p)" by blast
qed

lemma setBlobData_current:
  "setBlobData dec i data r = (None, r') \<Longrightarrow> i = currentBlob r \<Longrightarrow> currentBlob r' = i \<and> (\<exists>d. currentData r' = Some d \<and>
     Blob_Plaintext dec data (Key (sr_sd r)) (IV (BlobInfos (sr_sd r) ! i)) = Inr d)"
  by (auto simp: setBlobData_def Let_def split: sum.splits)

lemma load_network_current:
  "load_network sha dec S rt i h r w = (None, r', w') \<Longrightarrow> i = currentBlob r \<Longrightarrow> \<exists>d. currentData r' = Some d"
  by (auto simp: load_network_def Let_def split: prod.splits sum.splits if_splits option.splits dest!: setBlobData_current)

lemma ensureCurrentBlob_current:
  "ensureCurrentBlob sha dec S rt r w = (None, r', w') \<Longrightarrow> \<exists>d. currentData r' = Some d"
  by (auto simp: ensureCurrentBlob_def Let_def split: if_splits option.splits prod.splits sum.splits
      dest: load_network_current dest!: setBlobData_current)

lemma sr_Read_ok:
  assumes ok: "reader_ok sha dec sdb n r" and rt: "retry_ok rt" and x: "sr_Read sha dec S rt k r w = Some (x, r', w')"
  shows "reader_ok sha dec sdb n r' \<and> (\<forall>d. x = Inr d \<longrightarrow> (\<exists>i p off. verified sha dec sdb i p \<and> d = take (length d) (drop off p)))"
proof (cases "sr_closed r \<or> currentPos r \<ge> totalSize r")
  case True
  then have "r' = r" "\<exists>e. x = Inl e" using x by (auto simp: sr_Read_def split: if_splits)
  then show ?thesis using ok by auto
next
  case False
  obtain e r1 w1 where e: "ensureCurrentBlob sha dec S rt r w = (e, r1, w1)" by (metis prod_cases3)
  have ok1: "reader_ok sha dec sdb n r1" using ensureCurrentBlob_ok [OF ok rt e] .
  show ?thesis
  proof (cases e)
    case (Some y)
    then have "r' = r1" "x = Inl y" using x False e by (auto simp: sr_Read_def split: if_splits)
    then show ?thesis using ok1 by simp
  next
    case None
    then obtain d where c: "copy_out k r1 = Some (d, r')" "x = Inr d" using x False e
      by (auto simp: sr_Read_def split: if_splits option.splits)
    obtain y where y: "currentData r1 = Some y" using ensureCurrentBlob_current [OF e [unfolded None]] by blast
    from copy_out_ok [OF ok1 c(1) y] c(2) show ?thesis by blast
  qed
qed

lemma rop_step_ok:
  assumes ok: "reader_ok sha dec sdb n r" and rt: "retry_ok rt" and a: "rop_step sha dec S rt a r w = Some (xs, r', w')"
  shows "reader_ok sha dec sdb n r' \<and> (\<forall>d. Inr d \<in> set xs \<longrightarrow> (\<exists>i p off. verified sha dec sdb i p \<and> d = take (length d) (drop off p)))"
proof (cases a)
  case (RRead k)
  then obtain x where "sr_Read sha dec S rt k r w = Some (x, r', w')" "xs = [x]" using a by (auto split: option.splits prod.splits)
  then show ?thesis using sr_Read_ok [OF ok rt] by auto
next
  case (RSeek k wh)
  then have "r' = snd (Seek k wh r)" "xs = []" using a by auto
  then show ?thesis using ok by (auto simp: Seek_def reader_ok_def split: option.split whence.split prod.split)
next
  case RPrefetch
  have "reader_ok sha dec sdb n (r\<lparr>prefetchChan := None\<rparr>)" using ok by (simp add: reader_ok_def)
  then have "reader_ok sha dec sdb n (fst (prefetch_step sha dec S rt r w))"
    using ok prefetch_blob_ok by (auto simp: prefetch_step_def split: option.split)
  then show ?thesis using a RPrefetch by (auto split: prod.splits)
next
  case RStore
  then show ?thesis using a ok by (auto simp: store_step_def reader_ok_def split: list.splits prod.splits)
next
  case (RTouch i)
  then show ?thesis using a ok by (auto simp: touch_def reader_ok_def)
next
  case RClose
  then show ?thesis using a ok by (auto simp: sr_Close_def reader_ok_def split: if_splits prod.splits)
qed

lemma rop_run_ok:
  assumes "retry_ok rt" "reader_ok sha dec sdb n r" "rop_run sha dec S rt as r w = Some (xs, r', w')"
  shows "reader_ok sha dec sdb n r' \<and> (\<forall>d. Inr d \<in> set xs \<longrightarrow> (\<exists>i p off. verified sha dec sdb i p \<and> d = take (length d) (drop off p)))"
  using assms(2,3)
proof (induction as arbitrary: r w xs)
  case Nil
  then show ?case by auto
next
  case (Cons a as)
  from Cons.prems(2) obtain xs1 r1 w1 xs2 where 1: "rop_step sha dec S rt a r w = Some (xs1, r1, w1)"
    "rop_run sha dec S rt as r1 w1 = Some (xs2, r', w')" "xs = xs1 @ xs2" by (auto split: option.splits prod.splits)
  from rop_step_ok [OF Cons.prems(1) assms(1) 1(1)] Cons.IH [OF _ 1(2)] 1(3) show ?case by auto
qed

section \<open>A sample stream\<close>

text \<open>One content blob with the plaintext \<open>[1, 2, 3]\<close>, followed by the terminating blob, and services without a store.\<close>

definition reader_sha :: "bytes \<Rightarrow> bytes" where
  "reader_sha d = take 48 (d @ replicate 48 0)"

definition reader_blob :: bytes where
  "reader_blob = (case NewBlob xor_cipher [1, 2, 3] (replicate 32 7) (replicate 16 5) of Inr b \<Rightarrow> b | Inl _ \<Rightarrow> [])"

definition reader_sd :: SDBlob where
  "reader_sd = \<lparr>StreamName = [], BlobInfos =
       [\<lparr>Length = 16, BlobNum = 0, BlobHash = reader_sha reader_blob, IV = replicate 16 5, bi_profile = ProfileNewSort\<rparr>,
        \<lparr>Length = 0, BlobNum = 1, BlobHash = [], IV = replicate 16 6, bi_profile = ProfileNewSort\<rparr>],
     StreamType = StreamTypeLBRYFile, Key = replicate 32 7, SuggestedFileName = [], StreamHash = [], sd_profile = ProfileNewSort\<rparr>"

definition reader_services :: "unit services" where
  "reader_services = \<lparr>sv_Has = (\<lambda>w h. (Inr False, w)), sv_Get = (\<lambda>w h. (Inl (Sentinel ErrBlobNotFound), w)), sv_Put = (\<lambda>w h d. (None, w)),
     sv_Acquire = (\<lambda>w h. (if h = hex_encode (reader_sha reader_blob) then Inr reader_blob else Inl (Sentinel ErrBlobNotFound), w)), sv_store = False\<rparr>"

definition once :: "('w \<Rightarrow> (error + bytes) \<times> 'w) \<Rightarrow> 'w \<Rightarrow> (error + bytes) \<times> 'w" where
  "once op w = op w"

lemma once_ok: "retry_ok once" "retry_live once"
  using last_attempt [of _ 2] by (auto simp: retry_ok_def retry_live_def once_def numeral_3_eq_3 numeral_2_eq_2)

section \<open>Properties\<close>

text \<open>
  C6. Whatever the store and the acquirer answer, in every sequence of reads, seeks, prefetches and background writes of
  a reader that verifies: the bytes a read returns are a section of the plaintext of a blob with a hash of the
  descriptor; every cached blob is the plaintext of the blob with the hash of its index, and there are at most
  \<open>CacheSize\<close> of them; only blobs with the right hash are written to the store.
\<close>

theorem reader_verified:
  assumes "retry_ok rt" "r = newStreamReader sdb opts" "VerificationEnabled (sr_config r)"
    and "rop_run sha dec S rt as r w = Some (xs, r', w')"
  shows "(\<forall>d. Inr d \<in> set xs \<longrightarrow> (\<exists>i p off. verified sha dec sdb i p \<and> d = take (length d) (drop off p))) \<and>
    (\<forall>c \<in> set (blobCache r'). from_blob sha dec sdb (cb_index c) (cb_data c)) \<and>
    int (length (blobCache r')) \<le> max 0 (CacheSize (sr_config r)) \<and>
    (\<forall>(h, d) \<in> set (storing r'). VerifyBlobHash sha d h = None)"
proof -
  have "reader_ok sha dec sdb (CacheSize (sr_config r)) r" using reader_ok_new assms(2,3) by metis
  from rop_run_ok [OF assms(1) this assms(4)] show ?thesis by (simp add: reader_ok_def)
qed

lemma outcome_unit:
  assumes "map_option fst x = Some y"
  obtains z where "x = Some (y, z, ())"
  using assms by (cases x) auto

theorem reader_verified_witness:
  "\<exists>r' i p off. rop_run reader_sha xor_cipher reader_services once [RRead 2, RPrefetch, RRead 2] (newStreamReader reader_sd []) () =
       Some ([Inr [1, 2], Inr [3]], r', ()) \<and> int (length (blobCache r')) \<le> 3 \<and>
     verified reader_sha xor_cipher reader_sd i p \<and> [3] = take 1 (drop off p)"
proof -
  let ?r = "newStreamReader reader_sd []"
  let ?run = "rop_run reader_sha xor_cipher reader_services once [RRead 2, RPrefetch, RRead 2] ?r ()"
  have run: "map_option fst ?run = Some [Inr [1, 2], Inr [3]]" "VerificationEnabled (sr_config ?r)" "CacheSize (sr_config ?r) = 3"
    by code_simp+
  from run(1) obtain r' where r': "?run = Some ([Inr [1, 2], Inr [3]], r', ())" by (rule outcome_unit)
  note v = reader_verified [OF once_ok(1) refl run(2) r']
  from v have "\<exists>i p off. verified reader_sha xor_cipher reader_sd i p \<and> [3] = take (length [3 :: 8 word]) (drop off p)" by (elim conjE) (erule allE, erule mp, simp)
  moreover have "int (length (blobCache r')) \<le> 3" using v run(3) by simp
  ultimately show ?thesis using r' by auto
qed

lemma ensureCurrentBlob_pos:
  "ensureCurrentBlob sha dec S rt r w = (e, r', w') \<Longrightarrow>
     blobOffset r' = blobOffset r \<and> currentPos r' = currentPos r \<and> totalSize r' = totalSize r"
  by (auto simp: ensureCurrentBlob_def load_network_def setBlobData_def Let_def split: if_splits option.splits prod.splits sum.splits)

text \<open>
  C7. \<open>Seek\<close> counts in encrypted bytes and \<open>Read\<close> indexes the decrypted blob. A read after a seek to a position of the
  stream panics exactly when the offset in the blob lies behind the end of its plaintext, that is in the padding.
\<close>

theorem Read_after_Seek_panics_iff:
  assumes "\<not> sr_closed r" "Seek p SeekStart r = (Inr p, r1)" "find_blob (BlobInfos (sr_sd r)) 0 0 p = Some (i, k)"
    and "p < totalSize r" "totalSize r < 2 ^ 63" "0 \<le> k"
    and "ensureCurrentBlob sha dec S rt r1 w = (None, r2, w2)" "currentData r2 = Some d"
  shows "sr_Read sha dec S rt n r1 w = None \<longleftrightarrow> int (length d) < k"
proof -
  from assms(1,2,3) have p: "0 \<le> p" and r1: "r1 = r\<lparr>currentPos := p, currentBlob := i, blobOffset := k, currentData := None\<rparr>"
    by (auto simp: Seek_def split: if_splits)
  have "blobOffset r2 = k" "currentPos r2 = p" "totalSize r2 = totalSize r" using ensureCurrentBlob_pos [OF assms(7)] r1 by simp_all
  moreover have "i64 (totalSize r - p) = totalSize r - p" using p assms(4,5) by (simp add: i64_id in_i64_def)
  ultimately have "copy_out n r2 = None \<longleftrightarrow> int (length d) < k" using assms(4,6,8) by (auto simp: copy_out_def Let_def min_def)
  then show ?thesis using assms(1,4,7) r1 by (auto simp: sr_Read_def split: option.splits)
qed

theorem Read_after_Seek_panics_iff_witness:
  "\<exists>r1. Seek 5 SeekStart (newStreamReader reader_sd []) = (Inr 5, r1) \<and> sr_Read reader_sha xor_cipher reader_services once 4 r1 () = None"
proof -
  let ?r = "newStreamReader reader_sd []"
  let ?r1 = "snd (Seek 5 SeekStart ?r)"
  let ?e = "ensureCurrentBlob reader_sha xor_cipher reader_services once ?r1 ()"
  have c: "\<not> sr_closed ?r" "fst (Seek 5 SeekStart ?r) = Inr 5" "find_blob (BlobInfos (sr_sd ?r)) 0 0 5 = Some (0, 5)" "5 < totalSize ?r"
    "totalSize ?r < 2 ^ 63" "0 \<le> (5 :: int)" "fst ?e = None" "currentData (fst (snd ?e)) = Some [1, 2, 3]" "int (length [1, 2, 3 :: 8 word]) < 5"
    by code_simp+
  have s: "Seek 5 SeekStart ?r = (Inr 5, ?r1)" using c(2) by (metis prod.collapse)
  have e: "?e = (None, fst (snd ?e), snd (snd ?e))" using c(7) by (metis prod.collapse)
  have "sr_Read reader_sha xor_cipher reader_services once 4 ?r1 () = None"
    by (rule Read_after_Seek_panics_iff [OF c(1) s c(3-6) e c(8), THEN iffD2, OF c(9)])
  with s show ?thesis by blast
qed

end
