(* ===== verification/StreamReading.thy ===== *)
theory StreamReading
  imports StreamAcquirer StreamReader_Safety
begin

text \<open>
  Reading a stream in order: what the reader, the prefetcher and the whole-stream fetch achieve when the store and the
  acquirer work. What they need of these is the locale \<open>content_source\<close>.
\<close>

section \<open>Available content\<close>

text \<open>
  \<open>content\<close> has a blob for entry \<open>i\<close> of the descriptor, with plaintext \<open>p\<close>.
\<close>

definition available :: "(string \<Rightarrow> bytes option) \<Rightarrow> (bytes \<Rightarrow> bytes) \<Rightarrow> (bytes \<Rightarrow> bytes \<Rightarrow> bytes) \<Rightarrow> SDBlob \<Rightarrow> nat \<Rightarrow> bytes \<Rightarrow> bool" where
  "available content sha dec sdb i p \<longleftrightarrow>
     (\<exists>b. content (hex_encode (BlobHash (BlobInfos sdb ! i))) = Some b \<and> BlobHash (BlobInfos sdb ! i) \<noteq> [] \<and>
        VerifyBlobHash sha b (hex_encode (BlobHash (BlobInfos sdb ! i))) = None \<and>
        Blob_Plaintext dec b (Key sdb) (IV (BlobInfos sdb ! i)) = Inr p)"

text \<open>What loading blob \<open>i\<close> with plaintext \<open>p\<close> makes of a reader.\<close>

definition loaded :: "(string \<Rightarrow> bytes option) \<Rightarrow> nat \<Rightarrow> bytes \<Rightarrow> streamingReader \<Rightarrow> streamingReader \<Rightarrow> bool" where
  "loaded content i p r r' \<longleftrightarrow>
     (\<exists>ps. (\<forall>(h, d) \<in> set ps. content h = Some d) \<and>
       r' = (if i = currentBlob r then \<lambda>x. x\<lparr>currentData := Some p\<rparr> else id)
         (r\<lparr>blobCache := evict (CacheSize (sr_config r)) (cache_insert i p (sr_clock r) (blobCache r)), sr_clock := Suc (sr_clock r),
            storing := storing r @ ps\<rparr>))"

section \<open>Reading in order\<close>

text \<open>
  \<open>ready\<close>: the descriptor lists the blobs of the plaintexts \<open>ps\<close> and a terminating entry, all blobs are available and the
  sizes of the encrypted blobs exceed those of the plaintexts. \<open>reading out r\<close>: the reader has delivered \<open>out\<close>.
\<close>

definition piece :: "bytes list \<Rightarrow> nat \<Rightarrow> bytes" where
  "piece ps k = (if k < length ps then ps ! k else [])"

definition ready :: "(string \<Rightarrow> bytes option) \<Rightarrow> (bytes \<Rightarrow> bytes) \<Rightarrow> (bytes \<Rightarrow> bytes \<Rightarrow> bytes) \<Rightarrow> SDBlob \<Rightarrow> bytes list \<Rightarrow> bool" where
  "ready content sha dec sdb ps \<longleftrightarrow>
     length (BlobInfos sdb) = Suc (length ps) \<and> BlobHash (BlobInfos sdb ! length ps) = [] \<and> Length (BlobInfos sdb ! length ps) = 0 \<and>
     (\<forall>i < length ps. available content sha dec sdb i (ps ! i)) \<and>
     (if ps = [] then total_size (BlobInfos sdb) 0 = 0 else int (length (concat ps)) < total_size (BlobInfos sdb) 0) \<and> total_size (BlobInfos sdb) 0 < 2 ^ 63"

definition reading :: "(string \<Rightarrow> bytes option) \<Rightarrow> SDBlob \<Rightarrow> bytes list \<Rightarrow> bytes \<Rightarrow> streamingReader \<Rightarrow> bool" where
  "reading content sdb ps out r \<longleftrightarrow>
     sr_sd r = sdb \<and> \<not> sr_closed r \<and> totalSize r = total_size (BlobInfos sdb) 0 \<and> currentPos r = int (length out) \<and>
     (\<forall>c \<in> set (blobCache r). cb_index c < length ps \<and> cb_data c = ps ! cb_index c) \<and>
     (\<forall>(h, d) \<in> set (storing r). content h = Some d) \<and>
     currentBlob r \<le> Suc (length ps) \<and> (\<forall>d. currentData r = Some d \<longrightarrow> currentBlob r \<le> length ps \<and> d = piece ps (currentBlob r)) \<and>
     0 \<le> blobOffset r \<and> nat (blobOffset r) \<le> length (piece ps (currentBlob r)) \<and>
     out = concat (take (currentBlob r) ps) @ take (nat (blobOffset r)) (piece ps (currentBlob r))"

lemma ready_content:
  assumes "ready content sha dec sdb ps" "bi \<in> set (BlobInfos sdb)" "Length bi \<noteq> 0"
  shows "\<exists>d. content (hex_encode (BlobHash bi)) = Some d \<and> VerifyBlobHash sha d (hex_encode (BlobHash bi)) = None"
proof -
  obtain i where i: "i < Suc (length ps)" "bi = BlobInfos sdb ! i" using assms(1,2) by (auto simp: ready_def in_set_conv_nth)
  then have "i \<noteq> length ps" using assms(1,3) by (auto simp: ready_def)
  then have "available content sha dec sdb i (ps ! i)" using assms(1) i(1) by (simp add: ready_def)
  then show ?thesis using i(2) by (auto simp: available_def)
qed

lemma piece_split: "concat ps = concat (take k ps) @ piece ps k @ concat (drop (Suc k) ps)"
proof (cases "k < length ps")
  case True
  then have "concat ps = concat (take k ps @ ps ! k # drop (Suc k) ps)" by (simp add: id_take_nth_drop [symmetric])
  then show ?thesis using True by (simp add: piece_def)
qed (simp add: piece_def)

lemma concat_take_Suc: "concat (take (Suc k) ps) = concat (take k ps) @ piece ps k"
  by (cases "k < length ps") (simp_all add: piece_def take_Suc_conv_app_nth)

lemma reading_rest:
  assumes "reading content sdb ps out r"
  shows "concat ps = out @ drop (nat (blobOffset r)) (piece ps (currentBlob r)) @ concat (drop (Suc (currentBlob r)) ps)"
  using assms piece_split [of ps "currentBlob r"] by (simp add: reading_def)

lemma loaded_reading:
  assumes "reading content sdb ps out r" "i < length ps" "loaded content i (ps ! i) r r'"
  shows "reading content sdb ps out r'" "currentBlob r' = currentBlob r" "i = currentBlob r \<Longrightarrow> currentData r' = Some (ps ! i)"
proof -
  define cs where "cs = evict (CacheSize (sr_config r)) (cache_insert i (ps ! i) (sr_clock r) (blobCache r))"
  have cs: "\<forall>c \<in> set cs. cb_index c < length ps \<and> cb_data c = ps ! cb_index c"
    using set_evict [of "CacheSize (sr_config r)" "cache_insert i (ps ! i) (sr_clock r) (blobCache r)"] assms(1,2)
    by (auto simp: cache_insert_def reading_def cs_def)
  obtain qs where qs: "\<forall>(h, d) \<in> set qs. content h = Some d" and
    r': "r' = (if i = currentBlob r then \<lambda>x. x\<lparr>currentData := Some (ps ! i)\<rparr> else id)
         (r\<lparr>blobCache := cs, sr_clock := Suc (sr_clock r), storing := storing r @ qs\<rparr>)"
    using assms(3) by (auto simp: loaded_def cs_def)
  have "\<forall>(h, d) \<in> set (storing r @ qs). content h = Some d" using qs assms(1) by (auto simp: reading_def)
  moreover have "piece ps i = ps ! i" using assms(2) by (simp add: piece_def)
  ultimately show "reading content sdb ps out r'" using assms(1,2) cs by (cases "i = currentBlob r") (simp_all add: r' reading_def)
  show "currentBlob r' = currentBlob r" "i = currentBlob r \<Longrightarrow> currentData r' = Some (ps ! i)" by (simp_all add: r')
qed

lemma copy_out_reading:
  assumes ok: "reading content sdb ps out r" and T: "ready content sha dec sdb ps" "ps \<noteq> []" and c: "currentData r = Some x" and n: "n > 0"
  shows "\<exists>d r'. copy_out n r = Some (d, r') \<and> reading content sdb ps (out @ d) r' \<and> currentBlob r < currentBlob r' + length d \<and>
           currentBlob r \<le> currentBlob r'"
proof -
  define off where "off = nat (blobOffset r)"
  define t where "t = min n (length x - off)"
  have x: "x = piece ps (currentBlob r)" "currentBlob r \<le> length ps" using ok c by (auto simp: reading_def)
  have off: "blobOffset r = int off" "off \<le> length x" using ok x by (auto simp: reading_def off_def)
  have rest: "length (concat ps) = length out + (length x - off) + length (concat (drop (Suc (currentBlob r)) ps))"
    using arg_cong [OF reading_rest [OF ok], of length] off x by simp
  have T': "int (length (concat ps)) < totalSize r" "totalSize r < 2 ^ 63" "currentPos r = int (length out)"
    using ok T by (auto simp: ready_def reading_def)
  have "out = concat (take (currentBlob r) ps) @ take off x" using ok x(1) by (simp add: reading_def off_def)
  then have "off \<le> length out" using off(2) by simp
  then have i64: "i64 (totalSize r - currentPos r) = totalSize r - currentPos r" "i64 (int off + int t) = int off + int t"
    "i64 (currentPos r + int t) = currentPos r + int t"
    using T' rest off by (simp_all add: i64_id in_i64_def t_def)
  have toRead: "min (min (int n) (int (length x) - blobOffset r)) (i64 (totalSize r - currentPos r)) = int t"
    using i64(1) rest T' off by (auto simp: t_def min_def)
  define r1 where "r1 = r\<lparr>blobOffset := int off + int t, currentPos := currentPos r + int t, bytesRead := i64 (bytesRead r + int t)\<rparr>"
  define d where "d = take t (drop off x)"
  have eq: "copy_out n r = Some (d, if off + t \<ge> length x then next_blob r1 else r1)"
    using toRead c i64(2,3) off by (auto simp: copy_out_def Let_def d_def r1_def)
  have d: "length d = t" "take off x @ d = take (off + t) x" using off by (simp_all add: d_def t_def take_add)
  have r1: "reading content sdb ps (out @ d) r1" using ok x off d(1) d(2) by (auto simp: reading_def r1_def nat_add_distrib t_def)
  have "reading content sdb ps (out @ d) (next_blob r1) \<and> currentBlob (next_blob r1) = Suc (currentBlob r)" if "off + t \<ge> length x"
  proof
    have "out @ d = concat (take (Suc (currentBlob r)) ps)"
      using r1 that x by (simp add: reading_def r1_def concat_take_Suc nat_add_distrib)
    then show "reading content sdb ps (out @ d) (next_blob r1)" using r1 x by (simp add: reading_def next_blob_def Let_def r1_def)
    show "currentBlob (next_blob r1) = Suc (currentBlob r)" by (simp add: next_blob_def Let_def r1_def)
  qed
  moreover have "t > 0" "currentBlob r1 = currentBlob r" if "\<not> off + t \<ge> length x" using that n by (auto simp: t_def r1_def)
  ultimately show ?thesis using eq r1 d(1) by auto
qed

text \<open>Operations that read a stream from the start: no seeking, no closing, and no empty buffers.\<close>

fun in_order :: "rop \<Rightarrow> bool" where
  "in_order (RRead n) \<longleftrightarrow> n > 0"
| "in_order (RSeek k wh) \<longleftrightarrow> False"
| "in_order RClose \<longleftrightarrow> False"
| "in_order _ \<longleftrightarrow> True"

definition delivered :: "(error + bytes) list \<Rightarrow> bytes" where
  "delivered xs = concat (map (\<lambda>x. case x of Inr d \<Rightarrow> d | Inl e \<Rightarrow> []) xs)"

definition reads :: "rop list \<Rightarrow> nat" where
  "reads as = length (filter (\<lambda>a. case a of RRead n \<Rightarrow> True | _ \<Rightarrow> False) as)"

section \<open>Services with content\<close>

locale content_source =
  fixes S :: "'w services" and good :: "'w \<Rightarrow> bool" and content :: "string \<Rightarrow> bytes option"
  assumes Has_good: "good w \<Longrightarrow> good (snd (sv_Has S w h))"
    and Get_good: "good w \<Longrightarrow> good (snd (sv_Get S w h))"
    and Acquire_good: "good w \<Longrightarrow> content h = Some d \<Longrightarrow> good (snd (sv_Acquire S w h))"
    and Put_good: "good w \<Longrightarrow> content h = Some d \<Longrightarrow> good (snd (sv_Put S w h d))"
    and Has_ok: "good w \<Longrightarrow> content h = Some d \<Longrightarrow> \<exists>b. fst (sv_Has S w h) = Inr b"
    and Get_ok: "good w \<Longrightarrow> content h = Some d \<Longrightarrow> fst (sv_Has S w h) = Inr True \<Longrightarrow> fst (sv_Get S (snd (sv_Has S w h)) h) = Inr d"
    and Acquire_ok: "good w \<Longrightarrow> content h = Some d \<Longrightarrow> fst (sv_Acquire S w h) = Inr d"
begin

lemma try_network_ok:
  assumes "good w" "content h = Some d" "retry_live rt"
  shows "rt (try_network S op h) w = (Inr d, snd (sv_Acquire S w h))"
proof -
  have "try_network S op h w = (Inr d, snd (sv_Acquire S w h))"
    using Acquire_ok [OF assms(1,2)] by (cases "sv_Acquire S w h") (simp add: try_network_def)
  then show ?thesis using assms(3) by (simp add: retry_live_def)
qed

lemma setBlobData_loaded:
  assumes "Blob_Plaintext dec b (Key (sr_sd r)) (IV (BlobInfos (sr_sd r) ! i)) = Inr p" "\<forall>(h, d) \<in> set ps. content h = Some d"
  shows "\<exists>r'. setBlobData dec i b (r\<lparr>storing := storing r @ ps\<rparr>) = (None, r') \<and> loaded content i p r r'"
  using assms by (auto simp: setBlobData_def loaded_def Let_def intro!: exI [of _ ps])

lemma load_network_loaded:
  assumes "good w" "available content sha dec (sr_sd r) i p" "retry_live rt" "h = hex_encode (BlobHash (BlobInfos (sr_sd r) ! i))"
  shows "\<exists>r' w'. load_network sha dec S rt i h r w = (None, r', w') \<and> loaded content i p r r' \<and> good w'"
proof -
  obtain b where b: "content h = Some b" "VerifyBlobHash sha b h = None" "Blob_Plaintext dec b (Key (sr_sd r)) (IV (BlobInfos (sr_sd r) ! i)) = Inr p"
    using assms(2,4) by (auto simp: available_def)
  have ne: "b \<noteq> []" using b(2) by (auto simp: VerifyBlobHash_iff)
  define ps where "ps = (if sv_store S then [(h, b)] else [])"
  obtain r' where "setBlobData dec i b (r\<lparr>storing := storing r @ ps\<rparr>) = (None, r')" "loaded content i p r r'"
    using setBlobData_loaded [OF b(3), of ps] b(1) by (auto simp: ps_def)
  moreover have "(if sv_store S then r\<lparr>storing := storing r @ [(h, b)]\<rparr> else r) = r\<lparr>storing := storing r @ ps\<rparr>" by (simp add: ps_def)
  ultimately show ?thesis
    using try_network_ok [OF assms(1) b(1) assms(3)] ne b(2) Acquire_good [OF assms(1) b(1)] by (auto simp: load_network_def Let_def)
qed

lemma try_storage_ok:
  assumes "good w" "available content sha dec (sr_sd r) i p" "h = hex_encode (BlobHash (BlobInfos (sr_sd r) ! i))"
  obtains b w' where "try_storage sha dec S r i h w = (Inr b, w')" "content h = Some b" "good w'"
    | w' where "try_storage sha dec S r i h w = (Inl ErrStreamNotFound, w')" "good w'"
proof -
  obtain b where b: "content h = Some b" "VerifyBlobHash sha b h = None" "Blob_Plaintext dec b (Key (sr_sd r)) (IV (BlobInfos (sr_sd r) ! i)) = Inr p"
    using assms(2,3) by (auto simp: available_def)
  obtain x w1 where h: "sv_Has S w h = (Inr x, w1)" using Has_ok [OF assms(1) b(1)] by (cases "sv_Has S w h") auto
  have w1: "good w1" using Has_good [OF assms(1), of h] h by simp
  show thesis
  proof (cases x)
    case True
    then obtain w2 where g: "sv_Get S w1 h = (Inr b, w2)" using Get_ok [OF assms(1) b(1)] h by (cases "sv_Get S w1 h") simp
    have "good w2" using Get_good [OF w1, of h] g by simp
    moreover have "fst (setBlobData dec i b r) = None" using b(3) by (simp add: setBlobData_def Let_def)
    ultimately show thesis using that(1) b(1,2) h g True by (simp add: try_storage_def)
  next
    case False
    then show thesis using that(2) h w1 by (simp add: try_storage_def)
  qed
qed

lemma not_retryable: "\<not> isRetryableError ErrStreamNotFound"
  by (simp add: isRetryableError.simps ErrStreamNotFound_def)

lemma ensure_loads:
  assumes "good w" "available content sha dec (sr_sd r) i p" "retry_live rt" "currentBlob r = i" "i < length (BlobInfos (sr_sd r))"
    and "currentData r = None" "cache_lookup i (blobCache r) = None"
  shows "\<exists>r' w'. ensureCurrentBlob sha dec S rt r w = (None, r', w') \<and> loaded content i p r r' \<and> good w'"
proof -
  define h where "h = hex_encode (BlobHash (BlobInfos (sr_sd r) ! i))"
  have "BlobHash (BlobInfos (sr_sd r) ! i) \<noteq> []" using assms(2) by (auto simp: available_def)
  then have ne: "h \<noteq> []" using length_hex_encode [of "BlobHash (BlobInfos (sr_sd r) ! i)"] by (auto simp: h_def simp del: length_hex_encode)
  have e: "ensureCurrentBlob sha dec S rt r w =
      (if \<not> sv_store S then load_network sha dec S rt i h r w
       else (case rt (try_storage sha dec S r i h) w of
               (Inr data, w') \<Rightarrow> (case setBlobData dec i data r of (e, r') \<Rightarrow> (e, r', w'))
             | (Inl e, w') \<Rightarrow>
                 if \<not> isRetryableError e then load_network sha dec S rt i h r w'
                 else (Some (Wrapped ''storage operation failed'' e), r, w')))"
    using assms(5) ne unfolding ensureCurrentBlob_def Let_def assms(4) h_def [symmetric]
    by (simp only: assms(6,7) option.case simp_thms linorder_not_le [symmetric] if_True if_False not_True_eq_False not_False_eq_True)
  show ?thesis
  proof (cases "sv_store S")
    case False
    then show ?thesis using load_network_loaded [OF assms(1-3) h_def] e by simp
  next
    case True
    from assms(1,2) h_def show ?thesis
    proof (cases rule: try_storage_ok)
      case (1 b w')
      then have "rt (try_storage sha dec S r i h) w = (Inr b, w')" using assms(3) by (simp add: retry_live_def)
      moreover obtain r' where "setBlobData dec i b r = (None, r')" "loaded content i p r r'"
      proof -
        have "Blob_Plaintext dec b (Key (sr_sd r)) (IV (BlobInfos (sr_sd r) ! i)) = Inr p" using assms(2) 1(2) by (auto simp: available_def h_def)
        from setBlobData_loaded [OF this, of "[]"] that show thesis by auto
      qed
      ultimately show ?thesis using e True 1 by simp
    next
      case (2 w')
      then have "rt (try_storage sha dec S r i h) w = (Inl ErrStreamNotFound, w')" using assms(3) not_retryable by (simp add: retry_live_def)
      then show ?thesis using load_network_loaded [OF 2(2) assms(2,3) h_def] e True not_retryable by simp
    qed
  qed
qed

lemma prefetch_loads:
  assumes "good w" "available content sha dec (sr_sd r) i p" "retry_live rt"
  shows "\<exists>r' w'. prefetch_blob sha dec S rt i r w = (r', w') \<and> good w' \<and> (r' = r \<or> i < length (BlobInfos (sr_sd r)) \<and> loaded content i p r r')"
proof (cases "i \<ge> length (BlobInfos (sr_sd r)) \<or> cache_lookup i (blobCache r) \<noteq> None")
  case True
  then show ?thesis using assms(1) by (auto simp: prefetch_blob_def)
next
  case False
  define h where "h = hex_encode (BlobHash (BlobInfos (sr_sd r) ! i))"
  have "BlobHash (BlobInfos (sr_sd r) ! i) \<noteq> []" using assms(2) by (auto simp: available_def)
  then have ne: "h \<noteq> []" using length_hex_encode [of "BlobHash (BlobInfos (sr_sd r) ! i)"] by (auto simp: h_def simp del: length_hex_encode)
  obtain b where b: "content h = Some b" "VerifyBlobHash sha b h = None" "Blob_Plaintext dec b (Key (sr_sd r)) (IV (BlobInfos (sr_sd r) ! i)) = Inr p"
    using assms(2) by (auto simp: available_def h_def)
  have net: "\<exists>r' w'. prefetch_network sha dec S rt i h r v = (r', w') \<and> good w' \<and> loaded content i p r r'" if "good v" for v
  proof -
    define ps where "ps = (if sv_store S then [(h, b)] else [])"
    have ps: "(if sv_store S then r\<lparr>storing := storing r @ [(h, b)]\<rparr> else r) = r\<lparr>storing := storing r @ ps\<rparr>" by (simp add: ps_def)
    have "loaded content i p r (snd (setBlobData dec i b (r\<lparr>storing := storing r @ ps\<rparr>)))"
      using setBlobData_loaded [OF b(3), of ps] b(1) by (auto simp: ps_def)
    then show ?thesis using try_network_ok [OF that b(1) assms(3)] b(2) Acquire_good [OF that b(1)] by (simp add: prefetch_network_def Let_def ps)
  qed
  have s: "loaded content i p r (snd (setBlobData dec i b r))" using setBlobData_loaded [OF b(3), of "[]"] by auto
  show ?thesis
  proof (cases "sv_store S")
    case True
    obtain x w1 where hs: "sv_Has S w h = (Inr x, w1)" using Has_ok [OF assms(1) b(1)] by (cases "sv_Has S w h") auto
    have w1: "good w1" using Has_good [OF assms(1), of h] hs by simp
    show ?thesis
    proof (cases x)
      case xt: True
      then obtain w2 where g: "sv_Get S w1 h = (Inr b, w2)" using Get_ok [OF assms(1) b(1)] hs by (cases "sv_Get S w1 h") simp
      have "good w2" using Get_good [OF w1, of h] g by simp
      then show ?thesis using False ne True hs xt g b(2) s by (simp add: prefetch_blob_def Let_def h_def [symmetric])
    next
      case xf: False
      then have "prefetch_blob sha dec S rt i r w = prefetch_network sha dec S rt i h r w1"
        using False ne True hs by (simp add: prefetch_blob_def Let_def h_def [symmetric])
      then show ?thesis using False net [OF w1] by auto
    qed
  next
    case ns: False
    then have "prefetch_blob sha dec S rt i r w = prefetch_network sha dec S rt i h r w"
      using False ne by (simp add: prefetch_blob_def Let_def h_def [symmetric])
    then show ?thesis using False net [OF assms(1)] by auto
  qed
qed

lemma prefetch_reading:
  assumes "reading content sdb ps out r" "ready content sha dec sdb ps" "good w" "retry_live rt" "prefetch_step sha dec S rt r w = (r', w')"
  shows "reading content sdb ps out r'" "currentBlob r' = currentBlob r" "good w'"
proof -
  have "reading content sdb ps out r' \<and> currentBlob r' = currentBlob r \<and> good w'"
  proof (cases "prefetchChan r")
    case None
    then show ?thesis using assms(1,3,5) by (simp add: prefetch_step_def)
  next
    case (Some i)
    define r0 where "r0 = r\<lparr>prefetchChan := None\<rparr>"
    have r0: "reading content sdb ps out r0" "sr_sd r0 = sdb" "currentBlob r0 = currentBlob r"
      using assms(1) by (simp_all add: r0_def reading_def)
    have p: "prefetch_blob sha dec S rt i r0 w = (r', w')" using assms(5) Some by (simp add: prefetch_step_def r0_def)
    show ?thesis
    proof (cases "i < length ps")
      case True
      then have "available content sha dec (sr_sd r0) i (ps ! i)" using assms(2) r0(2) by (simp add: ready_def)
      from prefetch_loads [OF assms(3) this assms(4)] p have "good w'" "r' = r0 \<or> loaded content i (ps ! i) r0 r'" by auto
      then show ?thesis using loaded_reading(1,2) [OF r0(1) True] r0(1,3) by metis
    next
      case False
      have "BlobHash (BlobInfos sdb ! length ps) = []" "length (BlobInfos sdb) = Suc (length ps)" using assms(2) by (simp_all add: ready_def)
      then have "prefetch_blob sha dec S rt i r0 w = (r0, w)"
        using False r0(2) by (cases "i = length ps") (simp_all add: prefetch_blob_def Let_def)
      then have "r' = r0 \<and> w' = w" using p by simp
      then show ?thesis using r0 assms(3) by simp
    qed
  qed
  then show "reading content sdb ps out r'" "currentBlob r' = currentBlob r" "good w'" by simp_all
qed

lemma cached_piece: "reading content sdb ps out r \<Longrightarrow> cache_lookup i (blobCache r) = Some d \<Longrightarrow> i < length ps \<and> d = ps ! i"
  by (auto simp: reading_def dest!: cache_lookup_Some)

lemma ensure_reading:
  assumes ok: "reading content sdb ps out r" and T: "ready content sha dec sdb ps" and w: "good w" and rt: "retry_live rt"
    and k: "currentBlob r \<le> length ps"
  shows "\<exists>r' w' x. ensureCurrentBlob sha dec S rt r w = (None, r', w') \<and> reading content sdb ps out r' \<and> good w' \<and>
           currentBlob r' = currentBlob r \<and> currentData r' = Some x"
proof (cases "currentData r = None")
  case False
  then show ?thesis using ok w by (auto simp: ensureCurrentBlob_def)
next
  case None: True
  have sdb: "sr_sd r = sdb" "length (BlobInfos sdb) = Suc (length ps)" using ok T by (simp_all add: reading_def ready_def)
  show ?thesis
  proof (cases "cache_lookup (currentBlob r) (blobCache r)")
    case (Some d)
    then have "reading content sdb ps out (r\<lparr>currentData := Some d\<rparr>)"
      using ok cached_piece [OF ok Some] by (simp add: reading_def piece_def)
    then show ?thesis using Some None sdb k w by (simp add: ensureCurrentBlob_def Let_def)
  next
    case no: None
    show ?thesis
    proof (cases "currentBlob r < length ps")
      case True
      then have "available content sha dec (sr_sd r) (currentBlob r) (ps ! currentBlob r)" using T sdb by (simp add: ready_def)
      from ensure_loads [OF w this rt refl _ None no] k sdb
      obtain r' w' where "ensureCurrentBlob sha dec S rt r w = (None, r', w')" "loaded content (currentBlob r) (ps ! currentBlob r) r r'" "good w'"
        by auto
      then show ?thesis using loaded_reading [OF ok True] by blast
    next
      case False
      then have "hex_encode (BlobHash (BlobInfos (sr_sd r) ! currentBlob r)) = []" using k T sdb by (simp add: ready_def hex_encode_def)
      moreover have "reading content sdb ps out (r\<lparr>currentData := Some []\<rparr>)" using ok False k by (simp add: reading_def piece_def)
      ultimately show ?thesis using None no sdb k w by (simp add: ensureCurrentBlob_def Let_def)
    qed
  qed
qed

lemma Read_reading:
  assumes ok: "reading content sdb ps out r" and T: "ready content sha dec sdb ps" and w: "good w" and rt: "retry_live rt" and n: "n > 0"
  shows "\<exists>r' w'. sr_Read sha dec S rt n r w = Some (Inl error.EOF, r', w') \<and> out = concat ps \<and> reading content sdb ps out r' \<and> good w' \<or>
    (\<exists>d. sr_Read sha dec S rt n r w = Some (Inr d, r', w') \<and> reading content sdb ps (out @ d) r' \<and> good w' \<and>
       currentBlob r < currentBlob r' + length d)"
proof -
  note rest = reading_rest [OF ok]
  have r: "\<not> sr_closed r" "sr_sd r = sdb" "totalSize r = total_size (BlobInfos sdb) 0" "currentPos r = int (length out)"
    using ok by (simp_all add: reading_def)
  consider (eof) "currentPos r \<ge> totalSize r" | (last) "currentPos r < totalSize r" "currentBlob r > length ps"
    | (data) "currentPos r < totalSize r" "currentBlob r \<le> length ps" by linarith
  then show ?thesis
  proof cases
    case eof
    have "out = concat ps"
    proof (cases "ps = []")
      case True
      then show ?thesis using rest by simp
    next
      case False
      then have "int (length (concat ps)) < int (length out)" using T eof r(3,4) by (simp add: ready_def)
      then show ?thesis using arg_cong [OF rest, of length] by simp
    qed
    then show ?thesis using eof r(1) ok w by (auto simp: sr_Read_def)
  next
    case last
    then have "out = concat ps" using rest by (simp add: piece_def)
    moreover have "currentData r = None" using ok last by (cases "currentData r") (auto simp: reading_def)
    ultimately show ?thesis using last r T ok w by (auto simp: sr_Read_def ensureCurrentBlob_def ready_def)
  next
    case data
    have ne: "ps \<noteq> []" using data(1) T r(3,4) by (auto simp: ready_def split: if_splits)
    obtain r1 w1 x where e: "ensureCurrentBlob sha dec S rt r w = (None, r1, w1)" "reading content sdb ps out r1" "good w1"
      "currentBlob r1 = currentBlob r" "currentData r1 = Some x" using ensure_reading [OF ok T w rt data(2)] by blast
    obtain d r' where "copy_out n r1 = Some (d, r')" "reading content sdb ps (out @ d) r'" "currentBlob r1 < currentBlob r' + length d"
      using copy_out_reading [OF e(2) T ne e(5) n] by blast
    then show ?thesis using e r(1) data(1) by (auto simp: sr_Read_def)
  qed
qed

lemma rop_step_reading:
  assumes ok: "reading content sdb ps out r" and T: "ready content sha dec sdb ps" and w: "good w" and rt: "retry_live rt" and a: "in_order a"
  shows "\<exists>xs r' w'. rop_step sha dec S rt a r w = Some (xs, r', w') \<and> reading content sdb ps (out @ delivered xs) r' \<and> good w' \<and>
    (\<forall>e. Inl e \<in> set xs \<longrightarrow> e = error.EOF \<and> out = concat ps) \<and>
    ((\<exists>e. Inl e \<in> set xs) \<or> currentBlob r + reads [a] \<le> currentBlob r' + length (delivered xs))"
proof (cases a)
  case (RRead n)
  then have "n > 0" using a by simp
  from Read_reading [OF ok T w rt this] show ?thesis
  proof (elim exE disjE conjE)
    fix r' w' assume "sr_Read sha dec S rt n r w = Some (Inl error.EOF, r', w')" "out = concat ps" "reading content sdb ps out r'" "good w'"
    then show ?thesis by (intro exI [of _ "[Inl error.EOF]"] exI [of _ r'] exI [of _ w']) (simp add: RRead delivered_def)
  next
    fix r' w' d assume "sr_Read sha dec S rt n r w = Some (Inr d, r', w')" "reading content sdb ps (out @ d) r'" "good w'"
      "currentBlob r < currentBlob r' + length d"
    then show ?thesis by (intro exI [of _ "[Inr d]"] exI [of _ r'] exI [of _ w']) (simp add: RRead delivered_def reads_def)
  qed
next
  case RPrefetch
  obtain r' w' where p: "prefetch_step sha dec S rt r w = (r', w')" by fastforce
  from prefetch_reading [OF ok T w rt p] p show ?thesis by (simp add: RPrefetch delivered_def reads_def)
next
  case RStore
  have "good (snd (store_step S r w))" using ok w Put_good by (auto simp: store_step_def reading_def split: list.split)
  moreover have "reading content sdb ps out (fst (store_step S r w))" "currentBlob (fst (store_step S r w)) = currentBlob r"
    using ok by (auto simp: store_step_def reading_def split: list.split)
  ultimately show ?thesis by (cases "store_step S r w") (simp add: RStore delivered_def reads_def)
next
  case (RTouch i)
  have "\<forall>c \<in> set (blobCache (touch i r)). cb_index c < length ps \<and> cb_data c = ps ! cb_index c"
    using ok by (auto simp: reading_def touch_def)
  moreover have touch: "sr_sd (touch i r) = sr_sd r" "sr_closed (touch i r) = sr_closed r" "totalSize (touch i r) = totalSize r"
    "currentPos (touch i r) = currentPos r" "storing (touch i r) = storing r" "currentBlob (touch i r) = currentBlob r"
    "currentData (touch i r) = currentData r" "blobOffset (touch i r) = blobOffset r" by (simp_all add: touch_def)
  ultimately have "reading content sdb ps out (touch i r)" using ok by (simp add: reading_def)
  then show ?thesis using w touch(6) by (simp add: RTouch delivered_def reads_def)
qed (use a in simp_all)

lemma rop_run_reading:
  assumes "ready content sha dec sdb ps" "retry_live rt" "list_all in_order as" "reading content sdb ps out r" "good w"
  shows "\<exists>xs r' w'. rop_run sha dec S rt as r w = Some (xs, r', w') \<and> reading content sdb ps (out @ delivered xs) r' \<and> good w' \<and>
    (\<forall>e. Inl e \<in> set xs \<longrightarrow> e = error.EOF \<and> out @ delivered xs = concat ps) \<and>
    ((\<exists>e. Inl e \<in> set xs) \<or> currentBlob r + reads as \<le> currentBlob r' + length (delivered xs))"
  using assms(3-5)
proof (induction as arbitrary: out r w)
  case Nil
  then show ?case by (simp add: delivered_def reads_def)
next
  case (Cons a as)
  obtain xs1 r1 w1 where 1: "rop_step sha dec S rt a r w = Some (xs1, r1, w1)" "reading content sdb ps (out @ delivered xs1) r1" "good w1"
    "\<forall>e. Inl e \<in> set xs1 \<longrightarrow> e = error.EOF \<and> out = concat ps"
    "(\<exists>e. Inl e \<in> set xs1) \<or> currentBlob r + reads [a] \<le> currentBlob r1 + length (delivered xs1)"
    using rop_step_reading [OF Cons.prems(2) assms(1) Cons.prems(3) assms(2), of a] Cons.prems(1) by auto
  obtain xs2 r2 w2 where 2: "rop_run sha dec S rt as r1 w1 = Some (xs2, r2, w2)" "reading content sdb ps ((out @ delivered xs1) @ delivered xs2) r2"
    "good w2" "\<forall>e. Inl e \<in> set xs2 \<longrightarrow> e = error.EOF \<and> (out @ delivered xs1) @ delivered xs2 = concat ps"
    "(\<exists>e. Inl e \<in> set xs2) \<or> currentBlob r1 + reads as \<le> currentBlob r2 + length (delivered xs2)"
    using Cons.IH [OF _ 1(2,3)] Cons.prems(1) by auto
  have d: "delivered (xs1 @ xs2) = delivered xs1 @ delivered xs2" by (simp add: delivered_def)
  have "\<forall>e. Inl e \<in> set (xs1 @ xs2) \<longrightarrow> e = error.EOF \<and> out @ delivered (xs1 @ xs2) = concat ps"
  proof (intro allI impI)
    fix e assume "Inl e \<in> set (xs1 @ xs2)"
    moreover have "out @ delivered xs1 @ delivered xs2 = concat ps" if "out = concat ps"
      using reading_rest [OF 2(2)] that by simp
    ultimately show "e = error.EOF \<and> out @ delivered (xs1 @ xs2) = concat ps" using 1(4) 2(4) d by auto
  qed
  moreover have "reads (a # as) = reads [a] + reads as" by (simp add: reads_def)
  ultimately show ?case using 1 2 d by (intro exI [of _ "xs1 @ xs2"] exI [of _ r2] exI [of _ w2]) auto
qed

lemma read_all:
  assumes "ready content sha dec sdb ps" "retry_live rt" "list_all in_order as" "good w"
  shows "\<exists>xs r' w' rest. rop_run sha dec S rt as (newStreamReader sdb opts) w = Some (xs, r', w') \<and> delivered xs @ rest = concat ps \<and>
    (\<forall>e. Inl e \<in> set xs \<longrightarrow> e = error.EOF \<and> rest = []) \<and>
    (reads as > length (concat ps) + length ps + 1 \<longrightarrow> Inl error.EOF \<in> set xs)"
proof -
  have "reading content sdb ps [] (newStreamReader sdb opts)" by (simp add: reading_def newStreamReader_def)
  from rop_run_reading [OF assms(1-3) this assms(4)] obtain xs r' w' where run: "rop_run sha dec S rt as (newStreamReader sdb opts) w = Some (xs, r', w')"
    "reading content sdb ps (delivered xs) r'" "\<forall>e. Inl e \<in> set xs \<longrightarrow> e = error.EOF \<and> delivered xs = concat ps"
    "(\<exists>e. Inl e \<in> set xs) \<or> reads as \<le> currentBlob r' + length (delivered xs)" by (auto simp: newStreamReader_def)
  note rest = reading_rest [OF run(2)]
  have "length (delivered xs) \<le> length (concat ps)" using arg_cong [OF rest, of length] by simp
  moreover have "currentBlob r' \<le> Suc (length ps)" using run(2) by (simp add: reading_def)
  ultimately have "Inl error.EOF \<in> set xs" if "reads as > length (concat ps) + length ps + 1" using that run(3,4) by auto
  then show ?thesis using run rest by (intro exI [of _ xs] exI [of _ r'] exI [of _ w']) auto
qed

text \<open>Fetching a whole stream.\<close>

lemma acquire_content:
  assumes "good w" "content h = Some d" "VerifyBlobHash (x_sha X) d h = None"
  shows "\<exists>w'. acquireBlobWithFallback X S v h w = (Inr d, w') \<and> good w'"
proof -
  have net: "\<exists>w'. from_network X S v h u = (Inr d, w') \<and> good w'" if u: "good u" for u
  proof -
    obtain u' where "sv_Acquire S u h = (Inr d, u')" "good u'"
      using Acquire_ok [OF u assms(2)] Acquire_good [OF u assms(2)] by (cases "sv_Acquire S u h") auto
    then show ?thesis using assms(2,3) Put_good by (simp add: from_network_def)
  qed
  obtain x w1 where hs: "sv_Has S w h = (Inr x, w1)" using Has_ok [OF assms(1,2)] by (cases "sv_Has S w h") auto
  have w1: "good w1" using Has_good [OF assms(1), of h] hs by simp
  show ?thesis
  proof (cases "sv_store S \<and> x")
    case True
    then obtain w2 where "sv_Get S w1 h = (Inr d, w2)" using Get_ok [OF assms(1,2)] hs by (cases "sv_Get S w1 h") simp
    then show ?thesis using True hs assms(3) Get_good [OF w1, of h] by (simp add: acquireBlobWithFallback_def)
  next
    case False
    then show ?thesis using hs net [OF assms(1)] net [OF w1] by (cases "sv_store S") (simp_all add: acquireBlobWithFallback_def)
  qed
qed

lemma fetch_content:
  assumes "\<forall>bi \<in> set bis. Length bi \<noteq> 0 \<longrightarrow> (\<exists>d. content (hex_encode (BlobHash bi)) = Some d \<and> VerifyBlobHash (x_sha X) d (hex_encode (BlobHash bi)) = None)"
    and "good w"
  shows "\<exists>ds w'. fetch_blobs X S v bis w = (Inr ds, w')"
  using assms
proof (induction bis arbitrary: w)
  case (Cons bi bis)
  show ?case
  proof (cases "Length bi = 0")
    case False
    let ?h = "hex_encode (BlobHash bi)"
    obtain d where "content ?h = Some d" "VerifyBlobHash (x_sha X) d ?h = None" using Cons.prems(1) False by auto
    from acquire_content [OF Cons.prems(2) this, of v] obtain w1 where "acquireBlobWithFallback X S v ?h w = (Inr d, w1)" "good w1" by blast
    then show ?thesis using Cons.IH [of w1] Cons.prems(1) False by (auto simp: Let_def)
  qed (use Cons in auto)
qed simp

lemma fetch_sd_content:
  assumes "good w" "retry_live rt" "content h = Some data" "verifyAndValidateSDBlob X data h v = None"
    and "FromBlob (x_okeys X) (x_reg X) data = Inr sdb" "BlobInfos sdb \<noteq> []"
  shows "\<exists>w'. fetch_sd X S rt ex pe ee v h w = (Inr (sdb, data), w') \<and> good w'"
  using try_network_ok [OF assms(1,3,2)] assms(4-6) Acquire_good [OF assms(1,3)] by (simp add: fetch_sd_def)

end

end
