(* ===== verification/Wire.thy ===== *)
theory Wire
  imports Peer
begin

text \<open>
  Reading through a \<open>bufio.Reader\<close> without losing a byte: what a peer and its client read next depends only
  on the bytes ahead, in the buffer and in the segments still to arrive, not on how they are cut. The end of a
  JSON message is found at the brace that closes it.
\<close>

section \<open>The bytes ahead\<close>

definition ahead :: "bytes \<Rightarrow> bytes list \<Rightarrow> 's \<Rightarrow> 's net \<Rightarrow> bool" where
  "ahead b outs s w \<longleftrightarrow> n_buf w @ concat (n_in w) = b \<and> [] \<notin> set (n_in w) \<and> n_out w = outs \<and> n_store w = s"

lemma ahead_new_conn: "concat segs = b \<Longrightarrow> [] \<notin> set segs \<Longrightarrow> ahead b [] s (new_conn segs s)"
  by (simp add: ahead_def new_conn_def)

text \<open>A read into the empty buffer.\<close>

lemma conn_Read_ahead:
  assumes "ahead b outs s w" "n_buf w = []" "b \<noteq> []" "0 < n"
  obtains c w' where "conn_Read n E w = (Inr c, w')" "c \<noteq> []" "ahead b outs s (w'\<lparr>n_buf := c\<rparr>)"
proof -
  have w: "concat (n_in w) = b" "[] \<notin> set (n_in w)" "n_in w \<noteq> []" using assms by (auto simp: ahead_def)
  obtain c segs' where c: "conn_Read n E w = (Inr c, w\<lparr>n_in := segs' @ []\<rparr>)" "c \<noteq> []" "concat (n_in w) = c @ concat segs'" "[] \<notin> set segs'"
    using conn_Read_step [of w "n_in w" "[]" n E] w(2,3) assms(4) by auto
  show ?thesis by (rule that [OF c(1,2)]) (use c w assms(1) in \<open>auto simp: ahead_def\<close>)
qed

lemma runs_ReadByte: "runs E (ahead (b # r) outs s) bufio_ReadByte b (ahead r outs s)"
proof (rule runsI)
  fix w :: "'a net"
  assume w: "ahead (b # r) outs s w"
  show "\<exists>w'. bufio_ReadByte E w = (Inr b, w') \<and> ahead r outs s w'"
  proof (cases "n_buf w")
    case (Cons x xs)
    then show ?thesis using w by (auto simp: bufio_ReadByte.simps [of E w] ahead_def)
  next
    case Nil
    obtain c w1 where c: "conn_Read bufio_size E w = (Inr c, w1)" "c \<noteq> []" "ahead (b # r) outs s (w1\<lparr>n_buf := c\<rparr>)"
      using conn_Read_ahead [OF w Nil] by (metis bufio_size_def list.distinct(1) zero_less_numeral)
    then obtain cs where "c = b # cs" by (cases c) (auto simp: ahead_def)
    moreover have "bufio_ReadByte E w = bufio_ReadByte E (w1\<lparr>n_buf := c\<rparr>)" using c(1) Nil by (subst bufio_ReadByte.simps) simp
    ultimately show ?thesis using c(3) by (auto simp: bufio_ReadByte.simps [of E "w1\<lparr>n_buf := b # cs\<rparr>"] ahead_def)
  qed
qed

lemma first_split: "x @ a # y = m @ a # r \<Longrightarrow> a \<notin> set x \<Longrightarrow> a \<notin> set m \<Longrightarrow> x = m \<and> y = r"
  by (induction x arbitrary: m) (auto simp: Cons_eq_append_conv)

text \<open>\<open>ReadBytes\<close> returns what it has gathered and the bytes up to the delimiter.\<close>

lemma ReadBytes_ahead:
  assumes "ahead (m @ delim # r) outs s w" "delim \<notin> set m"
  shows "\<exists>w'. bufio_ReadBytes delim acc E w = (Inr (acc @ m @ [delim]), w') \<and> ahead r outs s w'"
  using assms
proof (induction delim acc E w arbitrary: m rule: bufio_ReadBytes.induct)
  case (1 delim acc E w)
  show ?case
  proof (cases "delim \<in> set (n_buf w)")
    case True
    then obtain x y where xy: "n_buf w = x @ delim # y" "delim \<notin> set x" by (meson split_list_first)
    then have "x @ delim # (y @ concat (n_in w)) = m @ delim # r" using "1.prems"(1) by (simp add: ahead_def)
    then have "x = m" "y @ concat (n_in w) = r" using xy(2) "1.prems"(2) first_split by metis+
    moreover have "takeWhile (\<lambda>b. b \<noteq> delim) (x @ delim # y) = x" "dropWhile (\<lambda>b. b \<noteq> delim) (x @ delim # y) = delim # y"
      using xy(2) by (induction x) auto
    ultimately show ?thesis using xy "1.prems"(1) by (auto simp: bufio_ReadBytes.simps [of delim acc] ahead_def)
  next
    case False
    obtain m' where m': "m = n_buf w @ m'"
    proof -
      have "n_buf w @ concat (n_in w) = m @ delim # r" using "1.prems"(1) by (simp add: ahead_def)
      then show ?thesis using False that by (fastforce simp: append_eq_append_conv2 append_eq_Cons_conv)
    qed
    define v where "v = w\<lparr>n_buf := []\<rparr>"
    have v: "ahead (m' @ delim # r) outs s v" "n_buf v = []" using "1.prems"(1) m' by (auto simp: ahead_def v_def)
    obtain c v1 where c: "conn_Read bufio_size E v = (Inr c, v1)" "ahead (m' @ delim # r) outs s (v1\<lparr>n_buf := c\<rparr>)"
      using conn_Read_ahead [OF v, of bufio_size E] by (metis append_is_Nil_conv bufio_size_def list.distinct(1) zero_less_numeral)
    obtain w1 where w1: "conn_Read bufio_size E w = (Inr c, w1)" "w1\<lparr>n_buf := c\<rparr> = v1\<lparr>n_buf := c\<rparr>"
      using c(1) by (auto simp: v_def conn_Read_def split: list.splits if_splits)
    have "delim \<notin> set m'" using "1.prems"(2) m' by simp
    then obtain w' where "bufio_ReadBytes delim (acc @ n_buf w) E (w1\<lparr>n_buf := c\<rparr>) = (Inr ((acc @ n_buf w) @ m' @ [delim]), w')"
        "ahead r outs s w'"
      using "1.IH" [OF False w1(1) [symmetric] refl, of m'] c(2) w1(2) by auto
    then show ?thesis using False w1(1) m' by (auto simp: bufio_ReadBytes.simps [of delim acc E w])
  qed
qed

lemma runs_ReadFull:
  assumes "n = length d"
  shows "runs E (ahead (d @ r) outs s) (io_ReadFull n acc) (acc @ d) (ahead r outs s)"
proof (rule runsI)
  fix w :: "'a net"
  assume "ahead (d @ r) outs s w"
  then show "\<exists>w'. io_ReadFull n acc E w = (Inr (acc @ d), w') \<and> ahead r outs s w'"
    using assms
  proof (induction n arbitrary: d acc w rule: less_induct)
    case (less n)
    show ?case
    proof (cases "d = []")
      case True
      then show ?thesis using less.prems by (auto simp: io_ReadFull.simps)
    next
      case False
      have w: "n_in w = n_in w @ []" "[] \<notin> set (n_in w)" "n_buf w @ concat (n_in w) = d @ r" using less.prems(1) by (auto simp: ahead_def)
      have ne: "n_buf w @ concat (n_in w) \<noteq> []" "0 < n" using w(3) False less.prems(2) by simp_all
      obtain c buf segs' where c: "bufio_Read n E w = (Inr c, w\<lparr>n_buf := buf, n_in := segs'\<rparr>)" "c \<noteq> []"
          "d @ r = c @ buf @ concat segs'" "[] \<notin> set segs'"
        using bufio_Read_step [OF w(1,2) ne, of E] unfolding w(3) append_Nil2 by metis
      have "length c \<le> length d" using bufio_Read_length [OF c(1)] less.prems(2) by simp
      then have "take (length c) d = c" "drop (length c) d @ r = buf @ concat segs'"
        using arg_cong [OF c(3), of "take (length c)"] arg_cong [OF c(3), of "drop (length c)"] by simp_all
      then obtain d1 where d1: "d = c @ d1" "buf @ concat segs' = d1 @ r" by (metis append_take_drop_id)
      have "ahead (d1 @ r) outs s (w\<lparr>n_buf := buf, n_in := segs'\<rparr>)" using d1(2) c(4) less.prems(1) by (simp add: ahead_def)
      moreover have "n - length c < n" "n - length c = length d1" using d1(1) c(2) less.prems(2) ne(2) by auto
      ultimately obtain w' where "io_ReadFull (n - length c) (acc @ c) E (w\<lparr>n_buf := buf, n_in := segs'\<rparr>) = (Inr ((acc @ c) @ d1), w')"
          "ahead r outs s w'"
        using less.IH by blast
      then show ?thesis using c(1) d1(1) ne(2) by (subst io_ReadFull.simps) auto
    qed
  qed
qed

section \<open>Messages\<close>

text \<open>\<open>message_bytes m\<close>: a JSON object that ends at its last byte, a closing brace.\<close>

definition message_bytes :: "bytes \<Rightarrow> bool" where
  "message_bytes m \<longleftrightarrow> (\<exists>t. m = 0x7B # t @ [0x7D]) \<and> scan scan_start (string_of m) = Value [] \<and> length m \<le> MaxRequestSize"

lemma object_text: "\<exists>t. json_print (JObj kvs) = CHR ''{'' # t @ ''}''"
  by (auto simp: json_print_def)

lemma message_bytes_Marshal:
  assumes "plain_json (JObj kvs)" "jdepth (JObj kvs) \<le> maxNestingDepth" "length (json_print (JObj kvs)) \<le> MaxRequestSize"
  shows "message_bytes (Marshal (JObj kvs))"
proof -
  obtain t where "json_print (JObj kvs) = CHR ''{'' # t @ ''}''" using object_text by blast
  then have "Marshal (JObj kvs) = 0x7B # bytes_of t @ [0x7D]" by (simp add: Marshal_def bytes_of_def byte_of_char_def)
  moreover have "string_of (Marshal (JObj kvs)) = json_print (JObj kvs)" "length (Marshal (JObj kvs)) = length (json_print (JObj kvs))"
    by (simp_all add: Marshal_def)
  ultimately show ?thesis using scan_object [OF assms(1,2)] assms(3) unfolding message_bytes_def by metis
qed

lemma read_object_ahead:
  assumes "scan scan_start (string_of (buffer @ p @ [0x7D])) = Value []" "length (buffer @ p) \<le> MaxRequestSize"
    and "ahead (p @ 0x7D # r) outs s w"
  shows "\<exists>w'. read_object buffer E w = (Inr (buffer @ p @ [0x7D]), w') \<and> ahead r outs s w'"
  using assms
proof (induction "length p" arbitrary: buffer p w rule: less_induct)
  case less
  show ?case
  proof (cases "0x7D \<in> set p")
    case False
    obtain w1 where "bufio_ReadBytes 0x7D [] E w = (Inr (p @ [0x7D]), w1)" "ahead r outs s w1"
      using ReadBytes_ahead [OF less.prems(3) False, of "[]" E] by auto
    moreover have "IsValidJSON (buffer @ p @ [0x7D])"
      using json_valid_prefix [of "string_of (buffer @ p @ [0x7D])" "[]"] less.prems(1) by (simp add: IsValidJSON_def)
    ultimately show ?thesis using less.prems(2) by (simp add: read_object.simps [of buffer])
  next
    case True
    then obtain x y where xy: "p = x @ 0x7D # y" "0x7D \<notin> set x" by (meson split_list_first)
    have "ahead (x @ 0x7D # y @ 0x7D # r) outs s w" using less.prems(3) xy(1) by simp
    then obtain w1 where w1: "bufio_ReadBytes 0x7D [] E w = (Inr (x @ [0x7D]), w1)" "ahead (y @ 0x7D # r) outs s w1"
      using ReadBytes_ahead [OF _ xy(2), of "y @ 0x7D # r" outs s w "[]" E] by auto
    have "\<not> IsValidJSON (buffer @ x @ [0x7D])"
      using json_valid_prefix [of "string_of (buffer @ x @ [0x7D])" "string_of (y @ [0x7D])"] less.prems(1) xy(1)
      by (simp add: IsValidJSON_def string_of_def)
    moreover obtain w' where "read_object (buffer @ x @ [0x7D]) E w1 = (Inr ((buffer @ x @ [0x7D]) @ y @ [0x7D]), w')" "ahead r outs s w'"
      using less.hyps [of y "buffer @ x @ [0x7D]" w1] less.prems(1,2) w1(2) xy(1) by auto
    ultimately show ?thesis using w1(1) less.prems(2) xy(1) by (auto simp: read_object.simps [of buffer])
  qed
qed

lemma runs_read_object:
  assumes "message_bytes m" "m = b # t"
  shows "runs E (ahead (t @ r) outs s) (read_object [b]) m (ahead r outs s)"
proof (rule runsI)
  fix w :: "'a net"
  assume w: "ahead (t @ r) outs s w"
  obtain p where p: "m = [b] @ p @ [0x7D]" using assms by (auto simp: message_bytes_def)
  then show "\<exists>w'. read_object [b] E w = (Inr m, w') \<and> ahead r outs s w'"
    using read_object_ahead [of "[b]" p r outs s w E] w assms by (auto simp: message_bytes_def)
qed

lemma runs_readNextMessage:
  assumes "message_bytes m"
  shows "runs E (ahead (m @ r) outs s) readNextMessage m (ahead r outs s)"
proof (rule runsI)
  fix w :: "'a net"
  assume w: "ahead (m @ r) outs s w"
  obtain t where t: "m = 0x7B # t" using assms by (auto simp: message_bytes_def)
  obtain w1 where w1: "bufio_ReadByte E w = (Inr 0x7B, w1)" "ahead (t @ r) outs s w1"
    using runs_ReadByte [of E "0x7B" "t @ r" outs s] w t by (auto elim: runsE)
  obtain w' where "read_object [0x7B] E w1 = (Inr m, w')" "ahead r outs s w'"
    using runs_read_object [OF assms t, of E r outs s] w1(2) by (auto elim: runsE)
  then show "\<exists>w'. readNextMessage E w = (Inr m, w') \<and> ahead r outs s w'"
    using w1(1) by (simp add: readNextMessage.simps [of E w] json_space_def)
qed

text \<open>At the end of the input.\<close>

lemma readNextMessage_end: "ahead [] outs s w \<Longrightarrow> \<exists>w'. readNextMessage E w = (Inl (v_end E), w') \<and> n_out w' = outs \<and> n_store w' = s"
proof -
  assume w: "ahead [] outs s w"
  then have "n_in w = []" "n_buf w = []" by (auto simp: ahead_def intro: neq_Nil_conv [THEN iffD2] elim: list.set_cases) (metis list.set_sel(1))
  then have "bufio_ReadByte E w = (Inl (v_end E), w)" by (subst bufio_ReadByte.simps) (simp add: conn_Read_def)
  then show ?thesis using w by (simp add: readNextMessage.simps [of E w] ahead_def)
qed

section \<open>Calls that succeed\<close>

lemma runs_ahead_prims:
  assumes "fine E"
  shows "runs E (ahead b outs s) set_deadline () (ahead b outs s)"
    and "runs E (ahead b outs s) (conn_Write d) (length d) (ahead b (outs @ [d]) s)"
    and "runs E (ahead b outs s) (NotifyBlob L n typ h) () (ahead b outs s)"
    and "f (\<lambda>_. None) s = Inr x \<Longrightarrow> runs E (ahead b outs s) (store_get f) x (ahead b outs s)"
  using assms by (auto simp: runs_def set_deadline_def conn_Write_def NotifyBlob_def store_get_def fine_def ahead_def)

end
