(* ===== verification/PeerClient.thy ===== *)
theory PeerClient
  imports Peer SDBlob
begin

text \<open>
  The peer client (\<open>protocol/peer_client.go\<close>): connecting, the request and response of the peer protocol, and
  the download of blobs and of whole streams.

  The context of an operation is \<open>v_ctx E 0\<close>; every call of its \<open>Err\<close> is the next observation of it. By the
  documentation of \<open>context\<close> an error once reported stays, so that code which asks twice in a row observes it once
  here. \<open>dl\<close> says whether the context has a deadline. The absent result is a panic.
\<close>

section \<open>Messages\<close>

text \<open>The client never sets a payment rate, so that the field is always omitted.\<close>

definition json_CompositeRequest :: "CompositeRequest \<Rightarrow> json" where
  "json_CompositeRequest r =
     JObj ((if RequestedBlobs r = [] then [] else [(''requested_blobs'', JArr (map JStr (RequestedBlobs r)))]) @
           (if RequestedBlob r = [] then [] else [(''requested_blob'', JStr (RequestedBlob r))]))"

definition fieldIncomingBlob :: "string \<Rightarrow> json \<Rightarrow> IncomingBlob \<Rightarrow> IncomingBlob option" where
  "fieldIncomingBlob k v s =
     (if names k ''error'' then map_option (\<lambda>x. s\<lparr>ib_Error := x\<rparr>) (decode_str (ib_Error s) v)
      else if names k ''blob_hash'' then map_option (\<lambda>x. s\<lparr>ib_BlobHash := x\<rparr>) (decode_str (ib_BlobHash s) v)
      else if names k ''length'' then map_option (\<lambda>x. s\<lparr>ib_Length := x\<rparr>) (decode_int (ib_Length s) v)
      else Some s)"

definition zeroIncomingBlob :: IncomingBlob where
  "zeroIncomingBlob = \<lparr>ib_Error = [], ib_BlobHash = [], ib_Length = 0\<rparr>"

definition fieldCompositeResponse :: "string \<Rightarrow> json \<Rightarrow> CompositeResponse \<Rightarrow> CompositeResponse option" where
  "fieldCompositeResponse k v s =
     (if names k ''available_blobs'' then
        (if v = JNull then Some (s\<lparr>AvailableBlobs := None\<rparr>)
         else map_option (\<lambda>x. s\<lparr>AvailableBlobs := Some x\<rparr>)
                (decode_strings (case AvailableBlobs s of None \<Rightarrow> [] | Some l \<Rightarrow> l) v))
      else if names k ''blob_data_payment_rate'' then map_option (\<lambda>x. s\<lparr>rp_PaymentRate := x\<rparr>) (decode_str (rp_PaymentRate s) v)
      else if names k ''incoming_blob'' then
        (if v = JNull then Some (s\<lparr>rp_IncomingBlob := None\<rparr>)
         else map_option (\<lambda>x. s\<lparr>rp_IncomingBlob := Some x\<rparr>)
                (decode_struct fieldIncomingBlob (case rp_IncomingBlob s of None \<Rightarrow> zeroIncomingBlob | Some b \<Rightarrow> b) v))
      else Some s)"

definition zeroCompositeResponse :: CompositeResponse where
  "zeroCompositeResponse = \<lparr>AvailableBlobs = None, rp_PaymentRate = [], rp_IncomingBlob = None\<rparr>"

definition parseResponse :: "bytes \<Rightarrow> CompositeResponse option" where
  "parseResponse b =
     (case json_parse (string_of b) of
        None \<Rightarrow> None
      | Some j \<Rightarrow> decode_struct fieldCompositeResponse zeroCompositeResponse j)"

section \<open>The client\<close>

record PeerClient =
  pc_conn :: "unit net option"
  pc_connected :: bool
  pc_timeout :: int

definition NewPeerClient :: PeerClient where
  "NewPeerClient = \<lparr>pc_conn = None, pc_connected = False, pc_timeout = 60000000000\<rparr>"

definition WithClientTimeout :: "int \<Rightarrow> PeerClient \<Rightarrow> PeerClient" where
  "WithClientTimeout t c = c\<lparr>pc_timeout := t\<rparr>"

text \<open>The checks of the context, and an error that gives way to the error of the context.\<close>

definition ctx_Err :: "('s, error option) proc" where
  "ctx_Err = (\<lambda>E w. (Inr (v_ctx E 0 (n_storek w)), w\<lparr>n_storek := Suc (n_storek w)\<rparr>))"

definition live_ctx :: "('s, unit) proc" where
  "live_ctx = bindE ctx_Err (\<lambda>r. case r of Some e \<Rightarrow> throw e | None \<Rightarrow> ret ())"

text \<open>A context error is passed on as it is and any other one with a stack trace, which the model leaves out.\<close>

definition wrapContextError :: "error \<Rightarrow> error" where
  "wrapContextError e = e"

definition wrapAndReturnContextError :: "error \<Rightarrow> ('s, 'a) proc" where
  "wrapAndReturnContextError e = thenE live_ctx (throw (wrapContextError e))"

definition orContextError :: "('s, 'a) proc \<Rightarrow> ('s, 'a) proc" where
  "orContextError m = bindE (tryE m) (\<lambda>r. case r of Inl e \<Rightarrow> wrapAndReturnContextError e | Inr x \<Rightarrow> ret x)"

definition applyContextDeadline :: "bool \<Rightarrow> int \<Rightarrow> ('s, unit) proc" where
  "applyContextDeadline dl timeout = (if dl \<or> 0 < timeout then set_deadline else ret ())"

definition sendRequest :: "CompositeRequest \<Rightarrow> ('s, unit) proc" where
  "sendRequest rq =
     thenE live_ctx
     (thenE (mapErr wrapContextError set_deadline)
     (mapErr wrapContextError (bindE (conn_Write (Marshal (json_CompositeRequest rq))) (\<lambda>_. ret ()))))"

definition pc_readNextMessage :: "('s, bytes) proc" where
  "pc_readNextMessage =
     bindE bufio_ReadByte (\<lambda>b. if b \<noteq> 0x7B then throw (Sentinel ErrInvalidData) else read_object [b])"

text \<open>\<open>make\<close> panics when the length is beyond the address space.\<close>

definition maxAlloc :: int where
  "maxAlloc = 2 ^ 48"

definition readResponse :: "('s, (CompositeResponse \<times> bytes option) option) proc" where
  "readResponse =
     thenE (mapErr wrapContextError set_deadline)
     (bindE (mapErr wrapContextError pc_readNextMessage) (\<lambda>m.
       case parseResponse m of
         None \<Rightarrow> throw (wrapContextError ErrSyntax)
       | Some response \<Rightarrow>
           (case rp_IncomingBlob response of
              None \<Rightarrow> ret (Some (response, None))
            | Some ib \<Rightarrow>
                if ib_Length ib \<le> 0 then ret (Some (response, None))
                else thenE (mapErr wrapContextError set_deadline)
                  (if ib_Length ib > maxAlloc then ret None
                   else bindE (mapErr wrapContextError (io_ReadFull (nat (ib_Length ib)) [])) (\<lambda>d. ret (Some (response, Some d)))))))"

section \<open>Connecting\<close>

text \<open>\<open>dial\<close> is what dialling the address yields. A connection is closed at its next call, which may fail.\<close>

definition conn_Close :: "netenv \<Rightarrow> unit net \<Rightarrow> error option" where
  "conn_Close E w = (case v_fate E (n_calls w) of Fails e _ \<Rightarrow> Some e | _ \<Rightarrow> None)"

definition pc_Connect :: "error + unit net \<Rightarrow> netenv \<Rightarrow> bool \<Rightarrow> PeerClient \<Rightarrow> (error + unit) \<times> PeerClient" where
  "pc_Connect dial E dl c =
     (if pc_connected c then (Inl (Sentinel ErrAlreadyConnected), c)
      else (case dial of
              Inl e \<Rightarrow> (Inl e, c)
            | Inr conn \<Rightarrow>
                (case applyContextDeadline dl (pc_timeout c) E conn of
                   (Inl e, _) \<Rightarrow> (Inl e, c\<lparr>pc_conn := None\<rparr>)
                 | (Inr _, conn') \<Rightarrow> (Inr (), c\<lparr>pc_conn := Some conn', pc_connected := True\<rparr>))))"

definition closeConnection :: "netenv \<Rightarrow> PeerClient \<Rightarrow> ((error + unit) \<times> PeerClient) option" where
  "closeConnection E c =
     (if \<not> pc_connected c then Some (Inr (), c)
      else (case pc_conn c of
              None \<Rightarrow> None
            | Some conn \<Rightarrow> Some (case conn_Close E conn of Some e \<Rightarrow> Inl e | None \<Rightarrow> Inr (),
                                 c\<lparr>pc_connected := False, pc_conn := None\<rparr>)))"

definition pc_Close :: "netenv \<Rightarrow> PeerClient \<Rightarrow> ((error + unit) \<times> PeerClient) option" where
  "pc_Close E c = closeConnection E c"

definition pc_Reset :: "netenv \<Rightarrow> PeerClient \<Rightarrow> ((error + unit) \<times> PeerClient) option" where
  "pc_Reset E c = closeConnection E c"

section \<open>Downloads\<close>

text \<open>An operation on the connection of a client, behind the checks that \<open>GetBlob\<close> and \<open>HasBlob\<close> begin with.\<close>

definition on_conn :: "string \<Rightarrow> (unit, 'a option) proc \<Rightarrow> netenv \<Rightarrow> PeerClient \<Rightarrow> ((error + 'a) \<times> PeerClient) option" where
  "on_conn hash m E c =
     (if \<not> pc_connected c then Some (Inl (Sentinel ErrConnectionFailed), c)
      else if length hash \<noteq> BlobHashHexLength then Some (Inl (Sentinel ErrInvalidHashLen), c)
      else (case pc_conn c of
              None \<Rightarrow> None
            | Some w \<Rightarrow>
                (case m E w of
                   (Inl e, w') \<Rightarrow> Some (Inl e, c\<lparr>pc_conn := Some w'\<rparr>)
                 | (Inr None, w') \<Rightarrow> None
                 | (Inr (Some x), w') \<Rightarrow> Some (Inr x, c\<lparr>pc_conn := Some w'\<rparr>))))"

definition exchange :: "bool \<Rightarrow> int \<Rightarrow> CompositeRequest \<Rightarrow> ('s, (CompositeResponse \<times> bytes option) option) proc" where
  "exchange dl timeout rq =
     thenE (mapErr wrapContextError (applyContextDeadline dl timeout))
     (thenE live_ctx
     (thenE (orContextError (sendRequest rq))
     (bindE (orContextError readResponse) (\<lambda>r. thenE live_ctx (ret r)))))"

definition response_blob :: "CompositeResponse \<Rightarrow> bytes option \<Rightarrow> ('s, bytes) proc" where
  "response_blob response blobData =
     (case rp_IncomingBlob response of
        Some ib \<Rightarrow>
          if ib_Error ib \<noteq> [] then
            (let err = DetectErrorType (ib_Error ib) in
             if IsKnownErrorType err then throw err
             else if IsBlobNotFoundError (Some err) then throw (Sentinel ErrBlobNotFound)
             else wrapAndReturnContextError err)
          else (case blobData of None \<Rightarrow> throw (Sentinel ErrNoBlobData) | Some d \<Rightarrow> ret d)
      | None \<Rightarrow> (case blobData of None \<Rightarrow> throw (Sentinel ErrNoBlobData) | Some d \<Rightarrow> ret d))"

definition GetBlob :: "string \<Rightarrow> netenv \<Rightarrow> bool \<Rightarrow> PeerClient \<Rightarrow> ((error + bytes) \<times> PeerClient) option" where
  "GetBlob hash E dl c =
     on_conn hash (bindE (exchange dl (pc_timeout c) (zeroCompositeRequest\<lparr>RequestedBlob := hash\<rparr>)) (\<lambda>r.
       case r of
         None \<Rightarrow> ret None
       | Some (response, blobData) \<Rightarrow> bindE (response_blob response blobData) (\<lambda>d. ret (Some d)))) E c"

definition HasBlob :: "string \<Rightarrow> netenv \<Rightarrow> bool \<Rightarrow> PeerClient \<Rightarrow> ((error + bool) \<times> PeerClient) option" where
  "HasBlob hash E dl c =
     on_conn hash (bindE (exchange dl (pc_timeout c) (zeroCompositeRequest\<lparr>RequestedBlobs := [hash]\<rparr>)) (\<lambda>r.
       case r of
         None \<Rightarrow> ret None
       | Some (response, _) \<Rightarrow> ret (Some (hash \<in> set (case AvailableBlobs response of None \<Rightarrow> [] | Some l \<Rightarrow> l))))) E c"

text \<open>
  A check of the context by the client itself, outside an operation on the connection. Without a connection
  nothing counts the checks; the first one is then observed.
\<close>

definition client_ctx :: "netenv \<Rightarrow> PeerClient \<Rightarrow> error option \<times> PeerClient" where
  "client_ctx E c =
     (case pc_conn c of
        None \<Rightarrow> (v_ctx E 0 0, c)
      | Some w \<Rightarrow> (v_ctx E 0 (n_storek w), c\<lparr>pc_conn := Some (w\<lparr>n_storek := Suc (n_storek w)\<rparr>)\<rparr>))"

definition client_error :: "netenv \<Rightarrow> PeerClient \<Rightarrow> error \<Rightarrow> (error + 'a) \<times> PeerClient" where
  "client_error E c e = (case client_ctx E c of (Some e', c') \<Rightarrow> (Inl e', c') | (None, c') \<Rightarrow> (Inl (wrapContextError e), c'))"

fun get_content :: "BlobInfo list \<Rightarrow> netenv \<Rightarrow> bool \<Rightarrow> PeerClient \<Rightarrow> ((error + bytes list) \<times> PeerClient) option" where
  "get_content [] E dl c = Some (Inr [], c)"
| "get_content (bi # bis) E dl c =
     (case client_ctx E c of
        (Some e, c') \<Rightarrow> Some (Inl e, c')
      | (None, c') \<Rightarrow>
          (case GetBlob (hex_encode (BlobHash bi)) E dl c' of
             None \<Rightarrow> None
           | Some (Inl e, c2) \<Rightarrow> Some (client_error E c2 e)
           | Some (Inr d, c2) \<Rightarrow>
               (case get_content bis E dl c2 of
                  None \<Rightarrow> None
                | Some (Inl e, c3) \<Rightarrow> Some (Inl e, c3)
                | Some (Inr ds, c3) \<Rightarrow> Some (Inr (d # ds), c3))))"

definition GetStream ::
    "(string \<Rightarrow> string list option) \<Rightarrow> serializationProfile list \<Rightarrow> string \<Rightarrow> netenv \<Rightarrow> bool \<Rightarrow> PeerClient \<Rightarrow>
       ((error + bytes list) \<times> PeerClient) option" where
  "GetStream okeys reg sdHash E dl c =
     (if length sdHash \<noteq> BlobHashHexLength then Some (Inl (Sentinel ErrInvalidHashLen), c)
      else (case GetBlob sdHash E dl c of
              None \<Rightarrow> None
            | Some (Inl e, c1) \<Rightarrow> Some (client_error E c1 e)
            | Some (Inr sdBlobData, c1) \<Rightarrow>
                (case FromBlob okeys reg sdBlobData of
                   Inl e \<Rightarrow> Some (Inl e, c1)
                 | Inr sdBlob \<Rightarrow>
                     (case get_content (butlast (BlobInfos sdBlob)) E dl c1 of
                        None \<Rightarrow> None
                      | Some (Inl e, c2) \<Rightarrow> Some (Inl e, c2)
                      | Some (Inr ds, c2) \<Rightarrow> Some (Inr (sdBlobData # ds), c2)))))"

section \<open>The states of a client\<close>

text \<open>Any sequence of operations, with any outcome of each.\<close>

inductive used :: "PeerClient \<Rightarrow> bool" where
  new: "used (WithClientTimeout t NewPeerClient)"
| connect: "used c \<Longrightarrow> pc_Connect dial E dl c = (r, c') \<Longrightarrow> used c'"
| close: "used c \<Longrightarrow> pc_Close E c = Some (r, c') \<Longrightarrow> used c'"
| reset: "used c \<Longrightarrow> pc_Reset E c = Some (r, c') \<Longrightarrow> used c'"
| getBlob: "used c \<Longrightarrow> GetBlob h E dl c = Some (r, c') \<Longrightarrow> used c'"
| hasBlob: "used c \<Longrightarrow> HasBlob h E dl c = Some (q, c') \<Longrightarrow> used c'"
| getStream: "used c \<Longrightarrow> GetStream okeys reg h E dl c = Some (v, c') \<Longrightarrow> used c'"

definition client_ok :: "PeerClient \<Rightarrow> bool" where
  "client_ok c \<longleftrightarrow> pc_connected c = (pc_conn c \<noteq> None)"

text \<open>An operation on the connection keeps the client connected.\<close>

definition same_link :: "PeerClient \<Rightarrow> PeerClient \<Rightarrow> bool" where
  "same_link c c' \<longleftrightarrow> pc_connected c' = pc_connected c \<and> (pc_conn c' = None) = (pc_conn c = None)"

lemma same_link_refl: "same_link c c"
  by (simp add: same_link_def)

lemma same_link_trans: "same_link c c1 \<Longrightarrow> same_link c1 c2 \<Longrightarrow> same_link c c2"
  by (simp add: same_link_def)

lemma on_conn_link: "on_conn h m E c = Some (r, c') \<Longrightarrow> same_link c c'"
  by (auto simp: on_conn_def same_link_def split: if_splits option.splits prod.splits sum.splits)

lemma GetBlob_link: "GetBlob h E dl c = Some (r, c') \<Longrightarrow> same_link c c'"
  unfolding GetBlob_def by (rule on_conn_link)

lemma client_ctx_link: "client_ctx E c = (r, c') \<Longrightarrow> same_link c c'"
  by (auto simp: client_ctx_def same_link_def split: option.splits)

lemma client_error_link: "client_error E c e = (r, c') \<Longrightarrow> same_link c c'"
  by (auto simp: client_error_def split: prod.splits option.splits dest: client_ctx_link)

lemma get_content_link: "get_content bis E dl c = Some (r, c') \<Longrightarrow> same_link c c'"
proof (induction bis E dl c arbitrary: r rule: get_content.induct)
  case (2 bi bis E dl c)
  obtain e c1 where c1: "client_ctx E c = (e, c1)" by fastforce
  note link = client_ctx_link [OF c1]
  show ?case
  proof (cases e)
    case None
    then obtain q c2 where c2: "GetBlob (hex_encode (BlobHash bi)) E dl c1 = Some (q, c2)"
      using "2.prems" c1 by (auto split: option.splits)
    then have link2: "same_link c c2" using link GetBlob_link same_link_trans by blast
    show ?thesis
    proof (cases q)
      case (Inl x)
      then show ?thesis using "2.prems" c1 c2 None link2 by (auto dest: client_error_link intro: same_link_trans)
    next
      case (Inr d)
      then obtain v where "get_content bis E dl c2 = Some (v, c')"
        using "2.prems" c1 c2 None by (auto split: option.splits sum.splits prod.splits)
      then show ?thesis using "2.IH" [OF c1 [symmetric] None c2 refl Inr] link2 same_link_trans by blast
    qed
  qed (use "2.prems" c1 link in auto)
qed (simp add: same_link_def)

lemma GetStream_link: "GetStream okeys reg h E dl c = Some (r, c') \<Longrightarrow> same_link c c'"
  by (auto simp: GetStream_def same_link_refl split: if_splits option.splits sum.splits prod.splits
      dest!: client_error_link GetBlob_link get_content_link intro: same_link_trans)

lemma used_ok: "used c \<Longrightarrow> client_ok c"
proof (induction rule: used.induct)
  case (connect c dial E dl r c')
  then show ?case by (auto simp: pc_Connect_def client_ok_def split: if_splits sum.splits prod.splits)
next
  case (hasBlob c h E dl q c')
  then show ?case using on_conn_link by (fastforce simp: HasBlob_def client_ok_def same_link_def)
next
  case (getBlob c h E dl r c')
  then show ?case using GetBlob_link by (fastforce simp: client_ok_def same_link_def)
next
  case (getStream c okeys reg h E dl v c')
  then show ?case using GetStream_link by (fastforce simp: client_ok_def same_link_def)
qed (auto simp: NewPeerClient_def WithClientTimeout_def client_ok_def pc_Close_def pc_Reset_def closeConnection_def split: if_splits option.splits)

text \<open>A panic needs a peer that announces more bytes than can be allocated: the next message on the connection does.\<close>

definition announces :: "bytes \<Rightarrow> int \<Rightarrow> bool" where
  "announces m n \<longleftrightarrow> (\<exists>response ib. parseResponse m = Some response \<and> rp_IncomingBlob response = Some ib \<and> ib_Length ib = n)"

definition oversized :: "bytes \<Rightarrow> bool" where
  "oversized u \<longleftrightarrow> (\<exists>m rest n. u = m @ rest \<and> IsValidJSON m \<and> announces m n \<and> n > maxAlloc)"

interpretation unread: step_rel "\<lambda>w w'. unread w' = unread w"
  by unfold_locales simp_all

lemma unread_prims:
  "preserves E (\<lambda>w w'. unread w' = unread w) set_deadline" "preserves E (\<lambda>w w'. unread w' = unread w) ctx_Err"
  "preserves E (\<lambda>w w'. unread w' = unread w) (conn_Write d)"
  by (auto simp: preserves_def unread_def set_deadline_def ctx_Err_def conn_Write_def Let_def split: fate.splits)

lemma unread_live: "preserves E (\<lambda>w w'. unread w' = unread w) live_ctx"
  unfolding live_ctx_def by (auto intro!: unread.preserves_intros unread_prims split: option.split)

lemma unread_send: "preserves E (\<lambda>w w'. unread w' = unread w) (orContextError (sendRequest rq))"
  unfolding orContextError_def sendRequest_def wrapAndReturnContextError_def
  by (auto intro!: unread.preserves_intros unread_prims unread_live split: sum.split)

abbreviation left :: "bytes \<Rightarrow> 's net \<Rightarrow> bool" where
  "left u \<equiv> (\<lambda>w. unread w = u)"

lemma hoare_unread: "preserves E (\<lambda>w w'. unread w' = unread w) m \<Longrightarrow> hoare E (left u) m (\<lambda>w _. unread w = u) (\<lambda>_ _. True)"
  by (auto simp: hoare_def preserves_def split: sum.split)

lemma hoare_orContextError: "hoare E P m Q (\<lambda>_ _. True) \<Longrightarrow> hoare E P (orContextError m) Q (\<lambda>_ _. True)"
  unfolding orContextError_def wrapAndReturnContextError_def
  by (fastforce simp: hoare_def bindE_def tryE_def ret_def throw_def split: sum.splits prod.splits)

lemma hoare_any: "(\<And>x. Q x) \<Longrightarrow> hoare E P m (\<lambda>_ x. Q x) (\<lambda>_ _. True)"
  by (auto simp: hoare_def split: sum.split)

lemma hoare_returns: "returns E Q m \<Longrightarrow> hoare E P m (\<lambda>_ x. Q x) (\<lambda>_ _. True)"
  by (auto simp: hoare_def returns_def split: sum.split)

lemma message_unread: "hoare E (left u) pc_readNextMessage (\<lambda>_ m. IsValidJSON m \<and> (\<exists>rest. u = m @ rest)) (\<lambda>_ _. True)"
proof (rule hoareI)
  fix w r and w' :: "'s net"
  assume u: "unread w = u" and run: "pc_readNextMessage E w = (r, w')"
  show "case r of Inl e \<Rightarrow> True | Inr m \<Rightarrow> IsValidJSON m \<and> (\<exists>rest. u = m @ rest)"
  proof (cases r)
    case (Inr m)
    obtain r1 w1 where b: "bufio_ReadByte E w = (r1, w1)" by fastforce
    obtain x where x: "r1 = Inr x" "read_object [x] E w1 = (Inr m, w')"
      using run Inr b by (cases r1) (auto simp: pc_readNextMessage_def bindE_def throw_def split: if_splits)
    then show ?thesis using ReadByte_unread [of E w x w1] read_object_unread [OF x(2)] b u Inr by auto
  qed simp
qed

lemma readResponse_oversized: "hoare E (left u) readResponse (\<lambda>_ r. r = None \<longrightarrow> oversized u) (\<lambda>_ _. True)"
proof -
  have "hoare E (\<lambda>_ :: 's net. IsValidJSON m \<and> (\<exists>rest. u = m @ rest))
      (case parseResponse m of
         None \<Rightarrow> throw (wrapContextError ErrSyntax)
       | Some response \<Rightarrow>
           (case rp_IncomingBlob response of
              None \<Rightarrow> ret (Some (response, None))
            | Some ib \<Rightarrow>
                if ib_Length ib \<le> 0 then ret (Some (response, None))
                else thenE (mapErr wrapContextError set_deadline)
                  (if ib_Length ib > maxAlloc then ret None
                   else bindE (mapErr wrapContextError (io_ReadFull (nat (ib_Length ib)) [])) (\<lambda>d. ret (Some (response, Some d))))))
      (\<lambda>_ r. r = None \<longrightarrow> oversized u) (\<lambda>_ _. True)" (is "hoare E (\<lambda>_. ?P) ?m _ _") for m
  proof (cases ?P)
    case True
    then have big: "parseResponse m = Some response \<Longrightarrow> rp_IncomingBlob response = Some ib \<Longrightarrow> ib_Length ib > maxAlloc \<Longrightarrow> oversized u" for response ib
      unfolding oversized_def announces_def by blast
    show ?thesis
      by (rule hoare_returns) (use big in \<open>auto split: option.split intro!: returns_throw returns_ret returns_then\<close>)
  qed (simp only: hoare_def, simp)
  then show ?thesis unfolding readResponse_def
    by (intro hoare_bind [OF hoare_mapErr [OF hoare_unread [OF unread_prims(1)]]] hoare_bind [OF hoare_mapErr [OF message_unread]])
qed

lemma exchange_oversized: "hoare E (left u) (exchange dl t rq) (\<lambda>_ r. r = None \<longrightarrow> oversized u) (\<lambda>_ _. True)"
proof -
  have "preserves E (\<lambda>w w'. unread w' = unread w) (mapErr wrapContextError (applyContextDeadline dl t))"
    unfolding applyContextDeadline_def by (auto intro!: unread.preserves_intros unread_prims)
  moreover have "hoare E (\<lambda>_. r = None \<longrightarrow> oversized u) (thenE live_ctx (ret r)) (\<lambda>_ r. r = None \<longrightarrow> oversized u) (\<lambda>_ _. True)"
    for r :: "(CompositeResponse \<times> bytes option) option"
    by (auto simp: hoare_def bindE_def ret_def split: prod.splits sum.splits)
  ultimately show ?thesis unfolding exchange_def
    by (intro hoare_bind [OF hoare_unread] hoare_bind [OF hoare_unread [OF unread_live]] hoare_bind [OF hoare_unread [OF unread_send]]
        hoare_bind [OF hoare_orContextError [OF readResponse_oversized]])
qed

lemma on_conn_panic:
  "on_conn h m E c = None \<Longrightarrow> client_ok c \<Longrightarrow> \<exists>w w'. length h = BlobHashHexLength \<and> pc_connected c \<and> pc_conn c = Some w \<and> m E w = (Inr None, w')"
  by (auto simp: on_conn_def client_ok_def split: if_splits option.splits prod.splits sum.splits)

lemma GetBlob_panic:
  assumes "GetBlob h E dl c = None" "client_ok c"
  shows "\<exists>w. length h = BlobHashHexLength \<and> pc_connected c \<and> pc_conn c = Some w \<and> oversized (unread w)"
proof -
  obtain w w' where w: "length h = BlobHashHexLength" "pc_connected c" "pc_conn c = Some w"
      "bindE (exchange dl (pc_timeout c) (zeroCompositeRequest\<lparr>RequestedBlob := h\<rparr>)) (\<lambda>r.
         case r of
           None \<Rightarrow> ret None
         | Some (response, blobData) \<Rightarrow> bindE (response_blob response blobData) (\<lambda>d. ret (Some d))) E w = (Inr None, w')"
    using on_conn_panic [OF assms(1) [unfolded GetBlob_def] assms(2)] by blast
  obtain r1 w1 where e: "exchange dl (pc_timeout c) (zeroCompositeRequest\<lparr>RequestedBlob := h\<rparr>) E w = (r1, w1)" by fastforce
  have "r1 = Inr None"
    using w(4) e by (auto simp: bindE_def ret_def split: sum.splits option.splits prod.splits)
  then show ?thesis using w hoareD [OF exchange_oversized refl e] by auto
qed

end
