(* ===== verification/Download.thy ===== *)
theory Download
  imports Wire PeerClient Stream_Roundtrip Memory
begin

text \<open>
  A peer server and a peer client together: what the server answers to a sequence of blob requests and what
  the client makes of the answers, over connections that work and cut the bytes in any way; up to the download
  of a whole stream.
\<close>

section \<open>The messages of a download\<close>

abbreviation blob_request :: "string \<Rightarrow> json" where
  "blob_request h \<equiv> json_CompositeRequest (zeroCompositeRequest\<lparr>RequestedBlob := h\<rparr>)"

definition blob_response :: "string \<Rightarrow> bytes \<Rightarrow> CompositeResponse" where
  "blob_response h d = \<lparr>AvailableBlobs = Some [], rp_PaymentRate = [],
     rp_IncomingBlob = Some \<lparr>ib_Error = [], ib_BlobHash = h, ib_Length = int (length d)\<rparr>\<rparr>"

definition blob_answer :: "string \<Rightarrow> bytes \<Rightarrow> bytes" where
  "blob_answer h d = Marshal (json_CompositeResponse (blob_response h d)) @ d"

lemma peer_names [simp]:
  "lower_name ''requested_blobs''" "lower_name ''blob_data_payment_rate''" "lower_name ''requested_blob''"
  "lower_name ''available_blobs''" "lower_name ''incoming_blob''" "lower_name ''error''" "lower_name ''blob_hash''" "lower_name ''length''"
  by (simp_all add: lower_name_def less_eq_char_def)

lemma length_nat_text: "n < 10 ^ Suc k \<Longrightarrow> length (nat_text n) \<le> Suc k"
proof (induction k arbitrary: n)
  case 0
  then show ?case by (subst nat_text.simps) simp
next
  case (Suc k)
  then have "length (nat_text (n div 10)) \<le> Suc k" by (intro Suc.IH) (simp add: div_less_iff_less_mult mult.commute)
  then show ?case by (subst nat_text.simps) simp
qed

lemma length_Itoa_blob: "n \<le> MaxBlobSize \<Longrightarrow> length (Itoa (int n)) \<le> 7"
  using length_nat_text [of n 6] by (simp add: Itoa_def MaxBlobSize_def)

lemma request_message:
  assumes "plain h" "length h = BlobHashHexLength"
  shows "message_bytes (Marshal (blob_request h))"
    and "parseRequest (Marshal (blob_request h)) = Some (zeroCompositeRequest\<lparr>RequestedBlob := h\<rparr>)"
    and "length (Marshal (blob_request h)) \<le> MaxRequestSize"
proof -
  have ne: "h \<noteq> []" using assms(2) by (auto simp: BlobHashHexLength_def)
  obtain kvs where kvs: "blob_request h = JObj kvs" by (simp add: json_CompositeRequest_def)
  have ok: "plain_json (JObj kvs)" "jdepth (JObj kvs) \<le> maxNestingDepth" "length (json_print (JObj kvs)) \<le> MaxRequestSize"
    unfolding kvs [symmetric] using assms ne
    by (simp_all add: json_CompositeRequest_def zeroCompositeRequest_def plain_char_def maxNestingDepth_def json_print_def
        quote_plain MaxRequestSize_def BlobHashHexLength_def)
  show "message_bytes (Marshal (blob_request h))" unfolding kvs by (rule message_bytes_Marshal [OF ok])
  show "length (Marshal (blob_request h)) \<le> MaxRequestSize" unfolding kvs using ok(3) by (simp add: Marshal_def)
  have "json_parse (string_of (Marshal (blob_request h))) = Some (blob_request h)"
    unfolding kvs using jsonc.decode_encode [of "JObj kvs"] ok(1,2) by (simp add: Marshal_def)
  then show "parseRequest (Marshal (blob_request h)) = Some (zeroCompositeRequest\<lparr>RequestedBlob := h\<rparr>)"
    using ne by (simp add: parseRequest_def json_CompositeRequest_def zeroCompositeRequest_def decode_struct_def
        fieldCompositeRequest_def names_lower decode_str_def)
qed

lemma response_message:
  assumes "plain h" "length h = BlobHashHexLength" "length d \<le> MaxBlobSize"
  shows "message_bytes (Marshal (json_CompositeResponse (blob_response h d)))"
    and "parseResponse (Marshal (json_CompositeResponse (blob_response h d))) = Some (blob_response h d)"
proof -
  let ?j = "json_CompositeResponse (blob_response h d)"
  obtain kvs where kvs: "?j = JObj kvs" by (simp add: json_CompositeResponse_def)
  have ok: "plain_json (JObj kvs)" "jdepth (JObj kvs) \<le> maxNestingDepth" "length (json_print (JObj kvs)) \<le> MaxRequestSize"
    unfolding kvs [symmetric] using assms length_Itoa_blob [OF assms(3)]
    by (auto simp add: json_CompositeResponse_def blob_response_def json_IncomingBlob_def plain_char_def maxNestingDepth_def json_print_def
        quote_plain MaxRequestSize_def BlobHashHexLength_def)
  show "message_bytes (Marshal ?j)" unfolding kvs by (rule message_bytes_Marshal [OF ok])
  have "json_parse (string_of (Marshal ?j)) = Some ?j"
    unfolding kvs using jsonc.decode_encode [of "JObj kvs"] ok(1,2) by (simp add: Marshal_def)
  moreover have "in_i64 (int (length d))" using assms(3) by (simp add: in_i64_def MaxBlobSize_def)
  ultimately show "parseResponse (Marshal ?j) = Some (blob_response h d)"
    by (simp add: parseResponse_def json_CompositeResponse_def json_IncomingBlob_def blob_response_def zeroCompositeResponse_def
        zeroIncomingBlob_def decode_struct_def fieldCompositeResponse_def fieldIncomingBlob_def names_lower decode_str_def decode_int_def
        decode_strings_def ParseInt_Itoa)
qed

section \<open>The server's side\<close>

text \<open>What the server needs to deliver a blob to the peer at \<open>ip\<close>.\<close>

definition delivers :: "'s PeerServer \<Rightarrow> 's \<Rightarrow> string \<Rightarrow> string \<Rightarrow> bytes \<Rightarrow> bool" where
  "delivers P s ip h d \<longleftrightarrow>
     length h = BlobHashHexLength \<and> list_all is_lower_hex h \<and> ValidateHash (ps_lib P) h \<and> \<not> isProtected P h \<and> \<not> denies (ps_access P) h ip \<and>
     Get (ps_store P) (\<lambda>_. None) s h = Inr d \<and> d \<noteq> [] \<and> length d \<le> MaxBlobSize"

lemma delivers_plain: "delivers P s ip h d \<Longrightarrow> plain h"
  using hex_chars_plain by (auto simp: delivers_def list_all_iff)

lemma runs_try: "runs E P m x Q \<Longrightarrow> runs E P (tryE m) (Inr x) Q"
  by (fastforce simp: runs_def tryE_def)

lemma runs_handleRequest:
  assumes "fine E" "delivers P s ip h d"
  shows "runs E (ahead b outs s) (handleRequest P (zeroCompositeRequest\<lparr>RequestedBlob := h\<rparr>) ip) (blob_response h d, Some d) (ahead b outs s)"
proof -
  have h: "length h = BlobHashHexLength" "ValidateHash (ps_lib P) h" "\<not> isProtected P h" "\<not> denies (ps_access P) h ip" "d \<noteq> []" "h \<noteq> []"
    using assms(2) by (auto simp: delivers_def BlobHashHexLength_def)
  have get: "runs E (ahead b outs s) (store_get (\<lambda>c s. Get (ps_store P) c s h)) d (ahead b outs s)"
    by (rule runs_ahead_prims(4) [OF assms(1)]) (use assms(2) in \<open>simp add: delivers_def\<close>)
  have "runs E (ahead b outs s) (handleBlobDataRequest P h ip)
      (\<lparr>ib_Error = [], ib_BlobHash = h, ib_Length = int (length d)\<rparr>, Some d) (ahead b outs s)"
    unfolding handleBlobDataRequest_def Let_def using h
    by (simp, intro runs_bind [OF runs_try [OF get]]) (simp, rule runs_bind [OF runs_ahead_prims(3) [OF assms(1)] runs_ret])
  then have first: "runs E (ahead b outs s) (bindE (handleBlobDataRequest P h ip) (\<lambda>(ib, d). ret (Some ib, d)))
      (Some \<lparr>ib_Error = [], ib_BlobHash = h, ib_Length = int (length d)\<rparr>, Some d) (ahead b outs s)"
    by (rule runs_bind) (simp add: runs_ret)
  show ?thesis unfolding handleRequest_def blob_response_def using h(6)
    by (simp add: zeroCompositeRequest_def, intro runs_bind [OF first]) (simp, intro runs_bind [OF runs_ret] runs_ret)
qed

lemma runs_serve:
  assumes "fine E" "delivers P s (GetConnectionIP E) h d"
  shows "runs E (ahead (Marshal (blob_request h) @ r) outs s) (serve P) () (ahead r (outs @ [blob_answer h d]) s)"
proof -
  note prims = runs_ahead_prims [OF assms(1)]
  have h: "plain h" "length h = BlobHashHexLength" using assms(2) delivers_plain [OF assms(2)] by (simp_all add: delivers_def)
  have ip: "runs E (ahead r outs s) peer_ip (GetConnectionIP E) (ahead r outs s)" by (simp add: runs_def peer_ip_def)
  have "runs E (ahead r outs s) (sendResponse (blob_response h d) (Some d)) () (ahead r (outs @ [blob_answer h d]) s)"
    unfolding sendResponse_def blob_answer_def option.case by (rule runs_mapErr [OF runs_bind [OF prims(2) runs_ret]])
  then have "runs E (ahead r outs s) (answer_request P (zeroCompositeRequest\<lparr>RequestedBlob := h\<rparr>) (GetConnectionIP E)) ()
      (ahead r (outs @ [blob_answer h d]) s)"
    unfolding answer_request_def
    by (intro runs_bind [OF runs_try [OF runs_handleRequest [OF assms]]]) (simp add: runs_bind [OF prims(1) runs_bind [OF _ prims(1)]])
  then have "runs E (ahead r outs s) (answer_message P (Marshal (blob_request h))) () (ahead r (outs @ [blob_answer h d]) s)"
    unfolding answer_message_def using request_message(2,3) [OF h] by (intro runs_bind [OF prims(1)]) (simp add: runs_bind [OF ip])
  then show ?thesis unfolding serve_def
    by (rule runs_bind [OF prims(1) runs_bind [OF runs_readNextMessage [OF request_message(1) [OF h]]]])
qed

lemma serve_requests:
  assumes "fine E" "list_all (\<lambda>(h, d). delivers P s (GetConnectionIP E) h d) hs"
    and "ahead (concat (map (\<lambda>(h, d). Marshal (blob_request h)) hs)) outs s w"
  shows "\<exists>w'. HandlePeer P E w = Some (v_end E, w') \<and> n_out w' = outs @ map (case_prod blob_answer) hs \<and> n_store w' = s"
  using assms(2,3)
proof (induction hs arbitrary: outs w)
  case Nil
  obtain w1 where w1: "set_deadline E w = (Inr (), w1)" "ahead [] outs s w1"
    using runs_ahead_prims(1) [OF assms(1), of "[]" outs s] Nil.prems(2) by (auto elim: runsE)
  obtain w' where "readNextMessage E w1 = (Inl (v_end E), w')" "n_out w' = outs" "n_store w' = s"
    using readNextMessage_end [OF w1(2)] by blast
  then have "serve P E w = (Inl (v_end E), w')" using w1(1) by (simp add: serve_def bindE_def)
  then show ?case using \<open>n_out w' = outs\<close> \<open>n_store w' = s\<close> by (simp add: HandlePeer_def loopE.simps [of "serve P" E w])
next
  case (Cons hd hs)
  obtain h d where hd: "hd = (h, d)" by fastforce
  obtain w1 where "serve P E w = (Inr (), w1)"
      "ahead (concat (map (\<lambda>(h, d). Marshal (blob_request h)) hs)) (outs @ [blob_answer h d]) s w1"
    using runsE [OF runs_serve [OF assms(1), of P s h d], of "concat (map (\<lambda>(h, d). Marshal (blob_request h)) hs)" outs w] Cons.prems hd
    by auto
  then show ?case using Cons.IH [of "outs @ [blob_answer h d]" w1] Cons.prems(1) hd
    by (auto simp: HandlePeer_def loopE.simps [of "serve P" E w])
qed

section \<open>The client's side\<close>

definition client_at :: "bytes \<Rightarrow> bytes list \<Rightarrow> PeerClient \<Rightarrow> bool" where
  "client_at b outs c \<longleftrightarrow> pc_connected c \<and> (\<exists>w. pc_conn c = Some w \<and> ahead b outs () w)"

lemma runs_live: "fine E \<Longrightarrow> runs E (ahead b outs s) live_ctx () (ahead b outs s)"
  by (auto simp: runs_def live_ctx_def bindE_def ctx_Err_def ret_def fine_def ahead_def)

lemma runs_deadline_ctx: "fine E \<Longrightarrow> runs E (ahead b outs s) (applyContextDeadline dl t) () (ahead b outs s)"
  unfolding applyContextDeadline_def by (auto intro: runs_ahead_prims(1) runs_ret)

lemma runs_orContextError: "runs E P m x Q \<Longrightarrow> runs E P (orContextError m) x Q"
  unfolding orContextError_def by (rule runs_bind [OF runs_try], assumption, simp) (rule runs_ret)

lemma runs_sendRequest:
  "fine E \<Longrightarrow> runs E (ahead b outs s) (sendRequest rq) () (ahead b (outs @ [Marshal (json_CompositeRequest rq)]) s)"
  unfolding sendRequest_def
  by (intro runs_bind [OF runs_live] runs_bind [OF runs_mapErr [OF runs_ahead_prims(1)]] runs_mapErr [OF runs_bind [OF runs_ahead_prims(2) runs_ret]])

lemma runs_pc_readNextMessage:
  assumes "message_bytes m"
  shows "runs E (ahead (m @ r) outs s) pc_readNextMessage m (ahead r outs s)"
proof -
  obtain t where t: "m = 0x7B # t" using assms by (auto simp: message_bytes_def)
  show ?thesis unfolding pc_readNextMessage_def t append_Cons
    by (rule runs_bind [OF runs_ReadByte]) (use runs_read_object [OF assms t] t in simp)
qed

lemma runs_readResponse:
  assumes "fine E" "plain h" "length h = BlobHashHexLength" "d \<noteq> []" "length d \<le> MaxBlobSize"
  shows "runs E (ahead (blob_answer h d @ r) outs s) readResponse (Some (blob_response h d, Some d)) (ahead r outs s)"
proof -
  have "int (length d) \<le> maxAlloc" "0 < int (length d)" using assms(4,5) by (simp_all add: maxAlloc_def MaxBlobSize_def)
  moreover have "runs E (ahead (d @ r) outs s)
      (bindE (mapErr wrapContextError (io_ReadFull (nat (int (length d))) [])) (\<lambda>d'. ret (Some (blob_response h d, Some d'))))
      (Some (blob_response h d, Some d)) (ahead r outs s)"
    using runs_ReadFull [of "length d" d E r outs s "[]"] by (intro runs_bind [OF runs_mapErr runs_ret]) simp
  ultimately show ?thesis unfolding readResponse_def blob_answer_def append_assoc
    using response_message(2) [OF assms(2,3,5)]
    by (intro runs_bind [OF runs_mapErr [OF runs_ahead_prims(1) [OF assms(1)]]]
          runs_bind [OF runs_mapErr [OF runs_pc_readNextMessage [OF response_message(1) [OF assms(2,3,5)]]]])
       (simp add: blob_response_def runs_bind [OF runs_mapErr [OF runs_ahead_prims(1) [OF assms(1)]]])
qed

lemma GetBlob_answer:
  assumes "fine E" "plain h" "length h = BlobHashHexLength" "d \<noteq> []" "length d \<le> MaxBlobSize" "client_at (blob_answer h d @ r) outs c"
  shows "\<exists>c'. GetBlob h E dl c = Some (Inr d, c') \<and> client_at r (outs @ [Marshal (blob_request h)]) c'"
proof -
  note live = runs_live [OF assms(1)]
  have "runs E (ahead (blob_answer h d @ r) outs ()) (exchange dl (pc_timeout c) (zeroCompositeRequest\<lparr>RequestedBlob := h\<rparr>))
      (Some (blob_response h d, Some d)) (ahead r (outs @ [Marshal (blob_request h)]) ())"
    unfolding exchange_def
    by (intro runs_bind [OF runs_mapErr [OF runs_deadline_ctx [OF assms(1)]]] runs_bind [OF live] runs_bind [OF runs_orContextError [OF runs_sendRequest [OF assms(1)]]]
        runs_bind [OF runs_orContextError [OF runs_readResponse [OF assms(1-5)]]] runs_ret)
  then have "runs E (ahead (blob_answer h d @ r) outs ()) (bindE (exchange dl (pc_timeout c) (zeroCompositeRequest\<lparr>RequestedBlob := h\<rparr>)) (\<lambda>r.
       case r of
         None \<Rightarrow> ret None
       | Some (response, blobData) \<Rightarrow> bindE (response_blob response blobData) (\<lambda>d. ret (Some d)))) (Some d)
      (ahead r (outs @ [Marshal (blob_request h)]) ())"
    by (rule runs_bind) (simp add: response_blob_def blob_response_def, rule runs_bind [OF runs_ret runs_ret])
  then show ?thesis using assms(3,6) unfolding GetBlob_def client_at_def by (auto simp: on_conn_def elim!: runsE)
qed

lemma GetBlob_oversized:
  assumes "fine E" "length h = BlobHashHexLength" "client_at (m @ r) outs c" "message_bytes m" "announces m n" "n > maxAlloc"
  shows "GetBlob h E dl c = None"
proof -
  note prims = runs_ahead_prims(1) [OF assms(1)] and live = runs_live [OF assms(1)]
  obtain rp ib where rp: "parseResponse m = Some rp" "rp_IncomingBlob rp = Some ib" "ib_Length ib > maxAlloc" "\<not> ib_Length ib \<le> 0"
    using assms(5,6) by (auto simp: announces_def maxAlloc_def)
  have resp: "runs E (ahead (m @ r) outs' ()) readResponse None (ahead r outs' ())" for outs'
    unfolding readResponse_def
    by (intro runs_bind [OF runs_mapErr [OF prims]] runs_bind [OF runs_mapErr [OF runs_pc_readNextMessage [OF assms(4)]]])
       (use rp in \<open>simp, intro runs_bind [OF runs_mapErr [OF prims]] runs_ret\<close>)
  have "runs E (ahead (m @ r) outs ()) (bindE (exchange dl (pc_timeout c) (zeroCompositeRequest\<lparr>RequestedBlob := h\<rparr>)) (\<lambda>r.
       case r of
         None \<Rightarrow> ret None
       | Some (response, blobData) \<Rightarrow> bindE (response_blob response blobData) (\<lambda>d. ret (Some d)))) None
      (ahead r (outs @ [Marshal (blob_request h)]) ())"
    unfolding exchange_def
    by (intro runs_bind [OF runs_bind [OF runs_mapErr [OF runs_deadline_ctx [OF assms(1)]] runs_bind [OF live
            runs_bind [OF runs_orContextError [OF runs_sendRequest [OF assms(1)]] runs_bind [OF runs_orContextError [OF resp] runs_bind [OF live runs_ret]]]]]])
       (simp add: runs_ret)
  then show ?thesis using assms(2,3) unfolding GetBlob_def client_at_def by (auto simp: on_conn_def elim!: runsE)
qed

text \<open>
  C29. After any sequence of operations a peer client is connected exactly when it has a connection. Closing or
  resetting it never panics and leaves it disconnected, whether closing fails or not; it then answers every
  download with \<open>ErrConnectionFailed\<close>. A download panics only when it is connected, the hash has the right length, and
  the bytes waiting on its own connection begin with a response that announces a blob of more than \<open>2 ^ 48\<close> bytes;
  and when such a response of at most the maximal request size is waiting on a working connection, every such download does panic.
\<close>

theorem PeerClient_states:
  assumes "used c"
  shows "(pc_connected c \<longleftrightarrow> pc_conn c \<noteq> None) \<and>
         (\<exists>r c'. pc_Close E c = Some (r, c') \<and> pc_Reset E c = Some (r, c') \<and> \<not> pc_connected c' \<and>
            GetBlob h E' dl c' = Some (Inl (Sentinel ErrConnectionFailed), c')) \<and>
         (GetBlob h E dl c = None \<longrightarrow>
            (\<exists>w. length h = BlobHashHexLength \<and> pc_connected c \<and> pc_conn c = Some w \<and> oversized (unread w))) \<and>
         (fine E \<longrightarrow> length h = BlobHashHexLength \<longrightarrow> client_at (m @ rest) outs c \<longrightarrow> message_bytes m \<longrightarrow>
            announces m n \<longrightarrow> n > maxAlloc \<longrightarrow> GetBlob h E dl c = None)"
proof -
  note ok = used_ok [OF assms, unfolded client_ok_def]
  have "\<exists>r c'. closeConnection E c = Some (r, c') \<and> \<not> pc_connected c'" using ok by (auto simp: closeConnection_def)
  moreover have "GetBlob h E' dl c' = Some (Inl (Sentinel ErrConnectionFailed), c')" if "\<not> pc_connected c'" for c'
    using that by (simp add: GetBlob_def on_conn_def)
  ultimately show ?thesis using ok GetBlob_panic [of h E dl c] GetBlob_oversized [of E h m rest outs c n dl]
    by (auto simp: pc_Close_def pc_Reset_def client_ok_def)
qed

text \<open>A response that announces \<open>2 ^ 49\<close> bytes.\<close>

definition sample_oversized :: CompositeResponse where
  "sample_oversized = \<lparr>AvailableBlobs = Some [], rp_PaymentRate = [], rp_IncomingBlob = Some \<lparr>ib_Error = [], ib_BlobHash = [], ib_Length = 2 ^ 49\<rparr>\<rparr>"

lemma sample_oversized_message:
  "message_bytes (Marshal (json_CompositeResponse sample_oversized))" "announces (Marshal (json_CompositeResponse sample_oversized)) (2 ^ 49)"
proof -
  let ?j = "json_CompositeResponse sample_oversized"
  obtain kvs where kvs: "?j = JObj kvs" by (simp add: json_CompositeResponse_def)
  have len: "length (Itoa (2 ^ 49)) \<le> 15" using length_nat_text [of "2 ^ 49" 14] by (simp add: Itoa_def)
  have ok: "plain_json (JObj kvs)" "jdepth (JObj kvs) \<le> maxNestingDepth" "length (json_print (JObj kvs)) \<le> MaxRequestSize"
    unfolding kvs [symmetric] using len
    by (auto simp add: json_CompositeResponse_def sample_oversized_def json_IncomingBlob_def plain_char_def maxNestingDepth_def json_print_def
        quote_plain MaxRequestSize_def)
  show "message_bytes (Marshal ?j)" unfolding kvs by (rule message_bytes_Marshal [OF ok])
  have "json_parse (string_of (Marshal ?j)) = Some ?j"
    unfolding kvs using jsonc.decode_encode [of "JObj kvs"] ok(1,2) by (simp add: Marshal_def)
  moreover have "in_i64 (2 ^ 49)" by (simp add: in_i64_def)
  ultimately have "parseResponse (Marshal ?j) = Some sample_oversized"
    by (simp add: parseResponse_def json_CompositeResponse_def json_IncomingBlob_def sample_oversized_def zeroCompositeResponse_def
        zeroIncomingBlob_def decode_struct_def fieldCompositeResponse_def fieldIncomingBlob_def names_lower decode_str_def decode_int_def
        decode_strings_def ParseInt_Itoa)
  then show "announces (Marshal ?j) (2 ^ 49)" by (simp add: announces_def sample_oversized_def)
qed

theorem PeerClient_states_witness:
  "\<exists>c. pc_Connect (Inr (new_conn [Marshal (json_CompositeResponse sample_oversized)] ())) sample_netenv False NewPeerClient = (Inr (), c) \<and>
     pc_conn c \<noteq> None \<and> (\<exists>r c'. pc_Close sample_netenv c = Some (r, c') \<and> \<not> pc_connected c') \<and>
     GetBlob (replicate 96 CHR ''0'') sample_netenv False c = None"
proof -
  let ?m = "Marshal (json_CompositeResponse sample_oversized)"
  have ne: "?m \<noteq> []" using sample_oversized_message(1) by (auto simp: message_bytes_def)
  obtain c where c: "pc_Connect (Inr (new_conn [?m] ())) sample_netenv False NewPeerClient = (Inr (), c)" "pc_connected c" "client_at (?m @ []) [] c"
    using ne by (simp add: pc_Connect_def NewPeerClient_def applyContextDeadline_def set_deadline_def sample_netenv_def new_conn_def client_at_def ahead_def)
  have "used NewPeerClient" using used.new [of 60000000000] by (simp add: WithClientTimeout_def NewPeerClient_def)
  then have u: "used c" using used.connect c(1) by blast
  have "fine sample_netenv" by (simp add: fine_def sample_netenv_def)
  then show ?thesis
    using PeerClient_states [OF u, of sample_netenv "replicate 96 CHR ''0''" sample_netenv False ?m "[]" "[]" "2 ^ 49"] c sample_oversized_message
    by (auto simp: BlobHashHexLength_def maxAlloc_def)
qed

section \<open>Streams\<close>

lemma client_ctx_fine: "fine E \<Longrightarrow> client_at b outs c \<Longrightarrow> \<exists>c'. client_ctx E c = (None, c') \<and> client_at b outs c'"
  by (auto simp: client_ctx_def client_at_def fine_def ahead_def)

text \<open>The requests for a list of blobs by their hashes, and the answers.\<close>

definition requests :: "(bytes \<Rightarrow> bytes) \<Rightarrow> bytes list \<Rightarrow> bytes list" where
  "requests sha bs = map (\<lambda>b. Marshal (blob_request (Hasher_Hash sha b))) bs"

definition answers :: "(bytes \<Rightarrow> bytes) \<Rightarrow> bytes list \<Rightarrow> bytes list" where
  "answers sha bs = map (\<lambda>b. blob_answer (Hasher_Hash sha b) b) bs"

lemma Hasher_Hash_plain:
  assumes "length (sha b) = 48"
  shows "plain (Hasher_Hash sha b)" "length (Hasher_Hash sha b) = BlobHashHexLength"
  using Hasher_IsValid_Hash [of sha b] assms hex_chars_plain
  by (auto simp: Hasher_IsValid_def list_all_iff SHA384HexLength_def BlobHashHexLength_def)

lemma get_content_answers:
  assumes "fine E" "\<And>x. length (sha x) = 48" "list_all (\<lambda>b. ValidForSend b = None) bs" "map BlobHash bis = map sha bs"
    and "client_at (concat (answers sha bs) @ r) outs c"
  shows "\<exists>c'. get_content bis E dl c = Some (Inr bs, c') \<and> client_at r (outs @ requests sha bs) c'"
  using assms(3-5)
proof (induction bis arbitrary: bs outs c)
  case Nil
  then show ?case by (auto simp: answers_def requests_def)
next
  case (Cons bi bis)
  then obtain b bs' where b: "bs = b # bs'" "BlobHash bi = sha b" "map BlobHash bis = map sha bs'" by (cases bs) auto
  have v: "b \<noteq> []" "length b \<le> MaxBlobSize" using Cons.prems(1) b(1) by (auto simp: ValidForSend_def split: if_splits)
  have at: "client_at (blob_answer (Hasher_Hash sha b) b @ concat (answers sha bs') @ r) outs c"
    using Cons.prems(3) b(1) by (simp add: answers_def)
  obtain c1 where c1: "client_ctx E c = (None, c1)" "client_at (blob_answer (Hasher_Hash sha b) b @ concat (answers sha bs') @ r) outs c1"
    using client_ctx_fine [OF assms(1) at] by blast
  obtain c2 where c2: "GetBlob (Hasher_Hash sha b) E dl c1 = Some (Inr b, c2)"
      "client_at (concat (answers sha bs') @ r) (outs @ [Marshal (blob_request (Hasher_Hash sha b))]) c2"
    using GetBlob_answer [OF assms(1) Hasher_Hash_plain [where sha = sha, OF assms(2)] v c1(2)] by blast
  obtain c3 where "get_content bis E dl c2 = Some (Inr bs', c3)"
      "client_at r ((outs @ [Marshal (blob_request (Hasher_Hash sha b))]) @ requests sha bs') c3"
    using Cons.IH [OF _ b(3) c2(2)] Cons.prems(1) b(1) by auto
  then show ?case using c1(1) c2(1) b by (simp add: Hasher_Hash_def requests_def)
qed

lemma GetStream_answers:
  assumes "fine E" "\<And>x. length (sha x) = 48" "list_all (\<lambda>b. ValidForSend b = None) (sdData # bs)"
    and "FromBlob okeys reg sdData = Inr sdb" "map BlobHash (butlast (BlobInfos sdb)) = map sha bs"
    and "client_at (concat (answers sha (sdData # bs))) outs c"
  shows "\<exists>c'. GetStream okeys reg (Hasher_Hash sha sdData) E dl c = Some (Inr (sdData # bs), c') \<and>
           client_at [] (outs @ requests sha (sdData # bs)) c'"
proof -
  note h = Hasher_Hash_plain [where sha = sha, OF assms(2)]
  have v: "sdData \<noteq> []" "length sdData \<le> MaxBlobSize" using assms(3) by (auto simp: ValidForSend_def split: if_splits)
  have "client_at (blob_answer (Hasher_Hash sha sdData) sdData @ concat (answers sha bs)) outs c" using assms(6) by (simp add: answers_def)
  then obtain c1 where c1: "GetBlob (Hasher_Hash sha sdData) E dl c = Some (Inr sdData, c1)"
      "client_at (concat (answers sha bs) @ []) (outs @ [Marshal (blob_request (Hasher_Hash sha sdData))]) c1"
    using GetBlob_answer [OF assms(1) h v] by fastforce
  obtain c2 where "get_content (butlast (BlobInfos sdb)) E dl c1 = Some (Inr bs, c2)"
      "client_at [] ((outs @ [Marshal (blob_request (Hasher_Hash sha sdData))]) @ requests sha bs) c2"
    using get_content_answers [OF assms(1,2) _ assms(5) c1(2)] assms(3) by auto
  then show ?thesis using c1(1) assms(4) h(2) by (simp add: GetStream_def requests_def)
qed

lemma Connect_fine:
  assumes "fine E" "concat segs = b" "[] \<notin> set segs"
  shows "\<exists>c. pc_Connect (Inr (new_conn segs ())) E dl NewPeerClient = (Inr (), c) \<and> client_at b [] c"
proof -
  obtain w where "applyContextDeadline dl (pc_timeout NewPeerClient) E (new_conn segs ()) = (Inr (), w)" "ahead b [] () w"
    using runsE [OF runs_deadline_ctx [OF assms(1)] ahead_new_conn [OF assms(2,3)]] by metis
  then show ?thesis by (auto simp: pc_Connect_def NewPeerClient_def client_at_def)
qed

text \<open>The content blobs of a new stream are those its descriptor names.\<close>

lemma New_infos:
  assumes "block_cipher enc dec" "okeys_ok okeys" "set reg = {ProfileNewSort, ProfileOldSort}"
    and "\<And>i n. length (rng i n) = n" "clean r" "length (source r) < 2 ^ 62" "New rng sha enc r = Some (Inr (sdData # bs))"
  shows "list_all (\<lambda>b. ValidForSend b = None) bs"
    and "\<exists>sdb. FromBlob okeys reg sdData = Inr sdb \<and> map BlobHash (butlast (BlobInfos sdb)) = map sha bs"
proof -
  obtain s ts iv where S: "New rng sha enc r = Some (Inr (ToBlob (stream_sd sha s ts iv) # map (snd \<circ> snd) ts))"
      "concat (map fst ts) = source r" "list_all (piece_ok enc (Key s) maxBlobDataSize) ts" "length iv = aes_BlockSize"
      "length (Key s) = 32" "StreamType s = StreamTypeLBRYFile" "StreamName s = []" "SuggestedFileName s = []" "sd_profile s = ProfileNewSort"
    by (rule New_pieces [where sha = sha, OF assms(1,4,5)])
  have bs: "sdData = ToBlob (stream_sd sha s ts iv)" "bs = map (snd \<circ> snd) ts" using assms(7) S(1) by simp_all
  have send: "ValidForSend (snd (snd t)) = None" if "t \<in> set ts" for t
    using that S(3) piece_ValidForSend [OF assms(1) _ order_refl, of "Key s" "fst t" "fst (snd t)"] by (auto simp: list_all_iff)
  then show "list_all (\<lambda>b. ValidForSend b = None) bs" using bs(2) by (auto simp: list_all_iff)
  have "BlobHash (info_of sha n t) = sha (snd (snd t))" if "t \<in> set ts" for n t
    using send [OF that] by (cases t) (auto simp: info_of_def Blob_Hash_def ValidForSend_def split: if_splits)
  then have "map BlobHash (infos sha n ts) = map (sha \<circ> (snd \<circ> snd)) ts" for n
    by (induction ts arbitrary: n) auto
  then have "map BlobHash (butlast (BlobInfos (SetProfile p (stream_sd sha s ts iv)))) = map sha bs" for p
    by (simp add: SetProfile_def stream_sd_def UpdateStreamHash_def bs(2) butlast_append map_butlast flip: map_map) (simp add: comp_def)
  then show "\<exists>sdb. FromBlob okeys reg sdData = Inr sdb \<and> map BlobHash (butlast (BlobInfos sdb)) = map sha bs"
    using FromBlob_stream_sd [OF assms(1-3) _ S(3), of sha iv] S(2,6) assms(6) StreamTypeLBRYFile_tidy bs(1) by simp
qed

section \<open>The whole way\<close>

text \<open>
  C1. A file survives publication and download: encode it, keep the descriptor and the blobs in the store of a peer
  server under their hashes, and let a client fetch the stream by the hash of the descriptor. Whatever segments
  the bytes travel in, the server's answers to the client's requests are exactly what the client
  needs, \<open>GetStream\<close> returns the stream, and decoding it gives the file back. The descriptor must fit into a
  blob, and the peer may have the blobs.
\<close>

theorem GetStream_roundtrip:
  assumes "block_cipher enc dec" "okeys_ok okeys" "set reg = {ProfileNewSort, ProfileOldSort}"
    and "\<And>i n. length (rng i n) = n" "\<And>x. length (sha x) = 48" "clean r" "source r \<noteq> []" "length (source r) < 2 ^ 62"
    and "New rng sha enc r = Some (Inr (sdData # bs))" "length sdData \<le> MaxBlobSize"
    and "store_core (ps_store P) lookup ok valid storable same ok_ctx" "ok s"
    and "\<forall>b \<in> set (sdData # bs). lookup s (Hasher_Hash sha b) = Some b \<and> \<not> isProtected P (Hasher_Hash sha b) \<and>
           \<not> denies (ps_access P) (Hasher_Hash sha b) (GetConnectionIP E)"
    and "fine E" "fine E'" "concat segs = concat (requests sha (sdData # bs))" "[] \<notin> set segs"
    and "concat segs' = concat (answers sha (sdData # bs))" "[] \<notin> set segs'"
  shows "(\<exists>w. HandlePeer P E (new_conn segs s) = Some (v_end E, w) \<and> n_out w = answers sha (sdData # bs) \<and> n_store w = s) \<and>
         (\<exists>c c' w. pc_Connect (Inr (new_conn segs' ())) E' dl NewPeerClient = (Inr (), c) \<and>
            GetStream okeys reg (Hasher_Hash sha sdData) E' dl c = Some (Inr (sdData # bs), c') \<and>
            pc_conn c' = Some w \<and> n_out w = requests sha (sdData # bs)) \<and>
         Decode sha dec okeys reg (sdData # bs) = Some (Inr (source r))"
proof (intro conjI)
  note new = New_infos [OF assms(1-4,6,8,9)]
  obtain sdb where sdb: "FromBlob okeys reg sdData = Inr sdb" "map BlobHash (butlast (BlobInfos sdb)) = map sha bs" using new(2) by blast
  then have "sdData \<noteq> []" by (auto simp: FromBlob_def json_parse_def string_of_def lex.simps [of "[]"])
  then have send: "list_all (\<lambda>b. ValidForSend b = None) (sdData # bs)" using new(1) assms(10) by (simp add: ValidForSend_def)
  show "\<exists>w. HandlePeer P E (new_conn segs s) = Some (v_end E, w) \<and> n_out w = answers sha (sdData # bs) \<and> n_store w = s"
  proof -
    let ?hs = "map (\<lambda>b. (Hasher_Hash sha b, b)) (sdData # bs)"
    have "delivers P s (GetConnectionIP E) (Hasher_Hash sha b) b" if b: "b \<in> set (sdData # bs)" for b
    proof -
      have hash: "Hasher_IsValid (Hasher_Hash sha b)" using Hasher_IsValid_Hash [of sha b] assms(5) by blast
      have look: "lookup s (Hasher_Hash sha b) = Some b" using assms(13) b by blast
      have "valid (Hasher_Hash sha b)" using store_safe.lookup_valid [OF store_core.axioms(1) [OF assms(11)] assms(12) look] by blast
      then have "Get (ps_store P) (\<lambda>_. None) s (Hasher_Hash sha b) = Inr b"
        using store_core.Get_live [OF assms(11,12)] look by simp
      moreover have "b \<noteq> []" "length b \<le> MaxBlobSize" using send b by (auto simp: list_all_iff ValidForSend_def split: if_splits)
      ultimately show ?thesis using hash assms(13) b
        by (auto simp: delivers_def Hasher_IsValid_def SHA384HexLength_def BlobHashHexLength_def)
    qed
    then have all: "list_all (\<lambda>(h, d). delivers P s (GetConnectionIP E) h d) ?hs" by (auto simp: list_all_iff)
    have "ahead (concat (map (\<lambda>(h, d). Marshal (blob_request h)) ?hs)) [] s (new_conn segs s)"
      using ahead_new_conn [OF assms(16,17)] by (simp add: requests_def comp_def)
    from serve_requests [OF assms(14) all this] show ?thesis by (auto simp: answers_def comp_def)
  qed
  show "\<exists>c c' w. pc_Connect (Inr (new_conn segs' ())) E' dl NewPeerClient = (Inr (), c) \<and>
      GetStream okeys reg (Hasher_Hash sha sdData) E' dl c = Some (Inr (sdData # bs), c') \<and>
      pc_conn c' = Some w \<and> n_out w = requests sha (sdData # bs)"
  proof -
    obtain c where c: "pc_Connect (Inr (new_conn segs' ())) E' dl NewPeerClient = (Inr (), c)" "client_at (concat (answers sha (sdData # bs))) [] c"
      using Connect_fine [OF assms(15,18,19)] by blast
    then show ?thesis using GetStream_answers [OF assms(15,5) send sdb c(2), of dl] by (auto simp: client_at_def ahead_def)
  qed
  show "Decode sha dec okeys reg (sdData # bs) = Some (Inr (source r))"
    using Decode_New_lemma [where sha = sha and rng = rng, OF assms(1-4,6-8)] assms(9) by simp
qed

definition sample_sha :: "bytes \<Rightarrow> bytes" where
  "sample_sha x = replicate 48 (if length x = 16 then 1 else 2)"

lemma length_replace_char: "length s \<le> length (replace_char c [c, x] s) \<and> length (replace_char c [c, x] s) \<le> 2 * length s"
  by (induction s) (auto simp: replace_char_def)

lemma quote_hex [simp]: "quote (hex_encode b) = hex_encode b"
  using set_hex_encode [of b] hex_chars_plain by (intro quote_plain) (auto simp: list_all_iff)

lemma sample_sd_length:
  assumes "length (Key s) = 32" "StreamType s = StreamTypeLBRYFile" "StreamName s = []" "SuggestedFileName s = []" "sd_profile s = ProfileNewSort"
    and "length b = 16" "length iv = 16" "length iv' = 16"
  shows "length (ToBlob (stream_sd sample_sha s [(d, iv, b)] iv')) \<in> {17..MaxBlobSize}"
proof -
  let ?j = "SDBlob_MarshalJSON (stream_sd sample_sha s [(d, iv, b)] iv')"
  have sha: "length (sample_sha x) = 48" for x by (simp add: sample_sha_def)
  have num: "length (Itoa 16) = 2" "length (Itoa 0) = 1" "length (Itoa 1) = 1" by (simp_all add: Itoa_def nat_text.simps)
  have "length (json_print ?j) \<in> {17..2000}"
    using assms num sha
    by (simp add: SDBlob_MarshalJSON_def marshalSDBlobNewSort_def encodeSDBlobCommon_def encodeBlobInfosAsNewSort_def toJSONBlobInfo_def
        encodeBlobInfoCommon_def jsonBlobInfoNewSort_def hash_member_def stream_sd_def UpdateStreamHash_def info_of_def term_of_def
        json_print_def Blob_Hash_def computeStreamHash_def streamHash_def StreamTypeLBRYFile_def quote_plain plain_char_def length_hex_encode hex_encode_simps bytes_of_def)
  then show ?thesis
    using length_replace_char [of "json_print ?j" "CHR '',''" "CHR '' ''"] length_replace_char [of "replace_char CHR '','' '', '' (json_print ?j)" "CHR '':''" "CHR '' ''"]
    by (auto simp: ToBlob_def MaxBlobSize_def)
qed

abbreviation sample_New :: "(error + bytes list) option" where
  "sample_New \<equiv> New (\<lambda>i n. replicate n 7) sample_sha xor_cipher [([1], Some EOF)]"

lemma sample_New: "\<exists>sdData b. sample_New = Some (Inr [sdData, b]) \<and> length b = 16 \<and> length sdData \<in> {17..MaxBlobSize}"
proof -
  obtain s ts iv where S: "sample_New = Some (Inr (ToBlob (stream_sd sample_sha s ts iv) # map (snd \<circ> snd) ts))"
      "concat (map fst ts) = source [([1], Some EOF)]" "list_all (piece_ok xor_cipher (Key s) maxBlobDataSize) ts" "length iv = aes_BlockSize"
      "length (Key s) = 32" "StreamType s = StreamTypeLBRYFile" "StreamName s = []" "SuggestedFileName s = []" "sd_profile s = ProfileNewSort"
    by (rule New_pieces [where sha = sample_sha and rng = "\<lambda>i n. replicate n 7" and r = "[([1], Some EOF)]", OF block_cipher_xor]) simp_all
  have one: "concat (map fst ts) = [1]" using S(2) by (simp add: source_def)
  obtain d iv' b where ts: "ts = [(d, iv', b)]"
  proof -
    obtain t ts' where t: "ts = t # ts'" using one by (cases ts) auto
    moreover have "fst x \<noteq> []" if "x \<in> set ts" for x using that S(3) by (auto simp: list_all_iff piece_ok_def)
    ultimately have "ts' = []" using one by (cases ts') (auto simp: append_eq_Cons_conv)
    then show ?thesis using t that by (cases t) auto
  qed
  have p: "piece_ok xor_cipher (Key s) maxBlobDataSize (d, iv', b)" using S(3) ts by simp
  have "length b = 16 * (length d div 16 + 1)" using NewBlob_length [OF block_cipher_xor] p by (auto simp: piece_ok_def)
  then have "length b = 16" using one ts by simp
  moreover have "length iv' = 16" "length iv = 16" using p S(4) by (simp_all add: piece_ok_def aes_BlockSize_def)
  ultimately show ?thesis using S(1) sample_sd_length [OF S(5-9), of b iv' iv d] by (simp add: ts)
qed

theorem GetStream_roundtrip_witness:
  "\<exists>sdData b s w c c'. sample_New = Some (Inr [sdData, b]) \<and>
     HandlePeer (NewPeerServer (memory_store sample_cid_lib) sample_cid_lib) sample_netenv (new_conn (requests sample_sha [sdData, b]) s) =
       Some (error.EOF, w) \<and> n_out w = answers sample_sha [sdData, b] \<and>
     pc_Connect (Inr (new_conn (answers sample_sha [sdData, b]) ())) sample_netenv False NewPeerClient = (Inr (), c) \<and>
     GetStream sample_okeys [ProfileNewSort, ProfileOldSort] (Hasher_Hash sample_sha sdData) sample_netenv False c = Some (Inr [sdData, b], c') \<and>
     Decode sample_sha xor_cipher sample_okeys [ProfileNewSort, ProfileOldSort] [sdData, b] = Some (Inr [1])"
proof -
  obtain sdData b where new: "sample_New = Some (Inr [sdData, b])" "length b = 16" "length sdData \<in> {17..MaxBlobSize}" using sample_New by blast
  define s where "s = \<lparr>blobs = [(Hasher_Hash sample_sha b, b)], sdBlobs = [(Hasher_Hash sample_sha sdData, sdData)]\<rparr>"
  have sha: "length (sample_sha x) = 48" for x by (simp add: sample_sha_def)
  have neq: "Hasher_Hash sample_sha b \<noteq> Hasher_Hash sample_sha sdData"
  proof
    assume "Hasher_Hash sample_sha b = Hasher_Hash sample_sha sdData"
    then have "hd (sample_sha b) = hd (sample_sha sdData)" using hex_decode_encode unfolding Hasher_Hash_def by (metis option.inject)
    then show False using new(2,3) by (simp add: sample_sha_def)
  qed
  have "mem_ok sample_cid_lib s" using new(2,3) Hasher_IsValid_Hash [where sha = sample_sha, OF sha] by (auto simp: s_def mem_ok_def ValidForSend_def MaxBlobSize_def)
  moreover have "\<forall>x \<in> set [sdData, b]. mem_lookup s (Hasher_Hash sample_sha x) = Some x"
    using neq by (auto simp: s_def mem_lookup_def)
  moreover have "fine sample_netenv" by (simp add: fine_def sample_netenv_def)
  moreover have "[] \<notin> set (requests sample_sha [sdData, b])" "[] \<notin> set (answers sample_sha [sdData, b])"
    using new(2,3) by (auto simp: requests_def answers_def blob_answer_def Marshal_def bytes_of_def json_print_def json_CompositeRequest_def)
  ultimately show ?thesis
    using GetStream_roundtrip [OF block_cipher_xor sample_okeys_ok _ _ sha, where reg = "[ProfileNewSort, ProfileOldSort]"
        and rng = "\<lambda>i n. replicate n 7" and r = "[([1], Some EOF)]" and sdData = sdData and bs = "[b]"
        and P = "NewPeerServer (memory_store sample_cid_lib) sample_cid_lib" and lookup = mem_lookup and ok = "mem_ok sample_cid_lib"
        and valid = "ValidateHash sample_cid_lib" and storable = "\<lambda>d. ValidForSend d = None" and same = "(=)" and ok_ctx = "\<lambda>_. True"
        and s = s and E = sample_netenv and E' = sample_netenv and dl = False
        and segs = "requests sample_sha [sdData, b]" and segs' = "answers sample_sha [sdData, b]"]
      new memst.store_core_axioms [of sample_cid_lib]
    by (force simp: source_def NewPeerServer_def isProtected_def denies_def sample_netenv_def)
qed

end
