(* ===== verification/StreamClient.thy ===== *)
theory StreamClient
  imports StreamReading Download
begin

text \<open>
  The stream client with a store behind an acquirer, which provides the interface \<open>content_source\<close>: reading a stream that
  the encoder made gives its content, however large the buffers are and whatever the prefetcher and the background writes do in
  between; and what verification guarantees when the store and the network may answer anything.
\<close>

section \<open>A store behind an acquirer\<close>

text \<open>The client's store is the one its acquirer fills; the contexts of the calls stay live. \<open>st\<close> tells whether the client was given the store.\<close>

definition acquirer_services :: "'s BlobStore \<Rightarrow> transfer option list \<Rightarrow> bool \<Rightarrow> 's services" where
  "acquirer_services B ts st =
     \<lparr>sv_Has = (\<lambda>s h. (Has B (\<lambda>_. None) s h, s)), sv_Get = (\<lambda>s h. (Get B (\<lambda>_. None) s h, s)), sv_Put = Put B (\<lambda>_. None),
      sv_Acquire = (\<lambda>s h. case Acquire B (\<lambda>_ _. None) \<lparr>transfers = ts, store = Some s\<rparr> h of (r, ba) \<Rightarrow> (r, the (store ba))),
      sv_store = st\<rparr>"

text \<open>Every blob of \<open>content\<close> is in the store or comes from a transfer, and no transfer answers with anything else.\<close>

definition serves ::
    "('s \<Rightarrow> string \<Rightarrow> bytes option) \<Rightarrow> ('s \<Rightarrow> bool) \<Rightarrow> (string \<Rightarrow> bool) \<Rightarrow> (bytes \<Rightarrow> bool) \<Rightarrow> transfer option list \<Rightarrow>
     (string \<Rightarrow> bytes option) \<Rightarrow> 's \<Rightarrow> bool" where
  "serves lookup ok valid storable ts content s \<longleftrightarrow> ok s \<and>
     (\<forall>h d. content h = Some d \<longrightarrow> valid h \<and> storable d \<and>
        (lookup s h = Some d \<or> lookup s h = None \<and> (\<exists>t. Some t \<in> set ts \<and> t h = Inr d)) \<and>
        (\<forall>t d'. Some t \<in> set ts \<longrightarrow> t h = Inr d' \<longrightarrow> d' = d))"

lemma serves_D:
  "serves lookup ok valid storable ts content s \<Longrightarrow> content h = Some d \<Longrightarrow>
     valid h \<and> storable d \<and> (lookup s h = Some d \<or> lookup s h = None \<and> (\<exists>t. Some t \<in> set ts \<and> t h = Inr d)) \<and>
     (\<forall>t d'. Some t \<in> set ts \<longrightarrow> t h = Inr d' \<longrightarrow> d' = d)"
  by (simp add: serves_def)

lemma serves_valid:
  "serves lookup ok valid storable ts content s \<Longrightarrow> content h = Some d \<Longrightarrow> valid h \<and> (lookup s h = Some d \<or> lookup s h = None)"
  by (drule serves_D) auto

lemma serves_update:
  assumes "serves lookup ok valid storable ts content s" "content h = Some d" "ok s'" "lookup s' = (lookup s)(h \<mapsto> d)"
  shows "serves lookup ok valid storable ts content s'"
  using assms by (auto simp: serves_def)

sublocale store_core \<subseteq> stored: content_source "acquirer_services B ts st" "serves lookup inv valid_hash storable ts content" content
  for ts st content
proof
  let ?S = "acquirer_services B ts st" and ?ok = "serves lookup inv valid_hash storable ts content"
  have acq: "fst (sv_Acquire ?S s h) = Inr d \<and> ?ok (snd (sv_Acquire ?S s h))" if ok: "?ok s" and c: "content h = Some d" for s h d
  proof -
    have inv: "inv s" and v: "valid_hash h" using ok c by (auto simp: serves_def)
    obtain d' ba' where a: "Acquire B (\<lambda>_ _. None) \<lparr>transfers = ts, store = Some s\<rparr> h = (Inr d', ba')"
    proof (cases "lookup s h")
      case None
      then obtain t where t: "Some t \<in> set ts" "t h = Inr d" using serves_D [OF ok c] by auto
      moreover have "\<forall>t d'. Some t \<in> set ts \<longrightarrow> t h = Inr d' \<longrightarrow> storable d'" using ok c by (auto simp: serves_def)
      ultimately show ?thesis using Acquire_complete [of s "\<lambda>_ _. None" h ts t d] inv v that by auto
    qed (use Acquire_stored [of s h _ "\<lambda>_ _. None" ts] inv that in auto)
    then obtain s' where s': "ba' = \<lparr>transfers = ts, store = Some s'\<rparr>" "inv s'" "lookup s' = (lookup s)(h \<mapsto> d')" and
      "lookup s h = Some d' \<or> (\<exists>n t. n < length ts \<and> ts ! n = Some t \<and> t h = Inr d')"
      using Acquire_ok [OF inv _ a] live_ok by auto
    then have "d' = d" using serves_D [OF ok c] by (metis nth_mem option.distinct(1) option.inject)
    then show ?thesis using a s' serves_update [OF ok c] by (simp add: acquirer_services_def)
  qed
  show "?ok s \<Longrightarrow> ?ok (snd (sv_Has ?S s h))" "?ok s \<Longrightarrow> ?ok (snd (sv_Get ?S s h))" for s h by (simp_all add: acquirer_services_def)
  show "?ok s \<Longrightarrow> content h = Some d \<Longrightarrow> ?ok (snd (sv_Acquire ?S s h))" "?ok s \<Longrightarrow> content h = Some d \<Longrightarrow> fst (sv_Acquire ?S s h) = Inr d" for s h d
    using acq by blast+
  show "?ok (snd (sv_Put ?S s h d))" if "?ok s" "content h = Some d" for s h d
  proof -
    obtain e s' where p: "Put B (\<lambda>_. None) s h d = (e, s')" by fastforce
    have inv: "inv s" and c: "ok_ctx (\<lambda>_. None)" using that live_ok by (auto simp: serves_def)
    have "?ok s'"
    proof (cases e)
      case None
      then show ?thesis using Put_ok [OF inv c] p serves_update [OF that] by simp
    next
      case (Some x)
      then have "inv s' \<and> lookup s' = lookup s" using Put_error [OF inv c] p same_ok [OF inv] by blast
      then show ?thesis using that(1) by (simp add: serves_def)
    qed
    then show ?thesis using p by (simp add: acquirer_services_def)
  qed
  show "\<exists>b. fst (sv_Has ?S s h) = Inr b" if "?ok s" "content h = Some d" for s h d
    using Has_live [of s "\<lambda>_. None" h] that by (auto simp: acquirer_services_def serves_def)
  show "fst (sv_Get ?S (snd (sv_Has ?S s h)) h) = Inr d" if "?ok s" "content h = Some d" "fst (sv_Has ?S s h) = Inr True" for s h d
  proof -
    have "inv s" using that(1) by (simp add: serves_def)
    moreover have v: "valid_hash h" "lookup s h = Some d \<or> lookup s h = None" using that(1,2) by (auto dest: serves_valid)
    moreover from calculation have "Has B (\<lambda>_. None) s h = Inr (lookup s h \<noteq> None)" by (intro Has_live) simp_all
    ultimately show ?thesis using that(3) Get_live [of s "\<lambda>_. None" h d] by (auto simp: acquirer_services_def)
  qed
qed

context store_core
begin

lemma acquirer_content: "content_source (acquirer_services B ts st) (serves lookup inv valid_hash storable ts content) content"
  by (rule stored.content_source_axioms)

end

section \<open>The streams of the encoder\<close>

lemma total_size_Length: "map Length bis = map Length bis' \<Longrightarrow> total_size bis acc = total_size bis' acc"
proof (induction bis arbitrary: bis' acc)
  case (Cons bi bis)
  then obtain bi' bs' where b: "bis' = bi' # bs'" "Length bi' = Length bi" "map Length bis = map Length bs'" by (cases bis') auto
  have "bs' = [] \<longleftrightarrow> bis = []" using b(3) by (metis map_is_Nil_conv)
  moreover have "total_size bis a = total_size bs' a" for a using Cons.IH [OF b(3)] .
  ultimately show ?case using b(1,2) by (cases "bis = []") simp_all
qed simp

text \<open>Each encrypted blob is longer than its plaintext, by at most a block.\<close>

lemma total_size_pieces:
  assumes "block_cipher enc dec" "list_all (piece_ok enc key k) ts" "0 \<le> acc" "acc + 17 * int (length (concat (map fst ts))) < 2 ^ 63"
  shows "acc + int (length (concat (map fst ts))) + int (length ts) \<le> total_size (infos sha n ts @ [term_of m iv]) acc \<and>
         total_size (infos sha n ts @ [term_of m iv]) acc \<le> acc + 17 * int (length (concat (map fst ts)))"
  using assms(2-4)
proof (induction ts arbitrary: n acc)
  case Nil
  then show ?case by (simp add: term_of_def)
next
  case (Cons t ts)
  obtain d v b where t: "t = (d, v, b)" by (cases t)
  have p: "NewBlob enc d key v = Inr b" "d \<noteq> []" using Cons.prems(1) t by (auto simp: piece_ok_def)
  have "length b = 16 * (length d div 16 + 1)" using NewBlob_length [OF assms(1) p(1)] .
  then have b: "length d + 1 \<le> length b" "length b \<le> length d + 16" by presburger+
  have d: "1 \<le> length d" using p(2) by (simp add: Suc_le_eq)
  have "i64 (acc + int (length b)) = acc + int (length b)" using Cons.prems(2,3) b d t by (simp add: i64_id in_i64_def)
  moreover have "Length (info_of sha n t) = int (length b)" by (simp add: info_of_def t)
  ultimately have "total_size (infos sha n (t # ts) @ [term_of m iv]) acc = total_size (infos sha (Suc n) ts @ [term_of m iv]) (acc + int (length b))"
    by simp
  moreover note Cons.IH [of "acc + int (length b)" "Suc n"]
  ultimately show ?case using Cons.prems b d t by simp
qed

lemma pieces_ready:
  assumes "block_cipher enc dec" "list_all (piece_ok enc (Key s) k) ts" "valid_key_size (Key s)" "\<And>x. length (sha x) = 48"
    and "length (concat (map fst ts)) < 2 ^ 58" "\<forall>b \<in> set (map (snd \<circ> snd) ts). content (Hasher_Hash sha b) = Some b"
  shows "ready content sha dec (SetProfile p (stream_sd sha s ts iv)) (map fst ts)"
proof -
  let ?sd = "SetProfile p (stream_sd sha s ts iv)"
  have bis: "BlobInfos ?sd = map (\<lambda>bi. bi\<lparr>bi_profile := p\<rparr>) (infos sha 0 ts @ [term_of (length ts) iv])"
    by (simp add: SetProfile_def stream_sd_def UpdateStreamHash_def)
  have "total_size (BlobInfos ?sd) 0 = total_size (infos sha 0 ts @ [term_of (length ts) iv]) 0"
    by (rule total_size_Length) (simp add: bis comp_def)
  then have T: "int (length (concat (map fst ts))) + int (length ts) \<le> total_size (BlobInfos ?sd) 0"
    "total_size (BlobInfos ?sd) 0 \<le> 17 * int (length (concat (map fst ts)))"
    using total_size_pieces [OF assms(1,2), of 0 sha 0 "length ts" iv] assms(5) by simp_all
  have "available content sha dec ?sd i (map fst ts ! i)" if i: "i < length ts" for i
  proof -
    obtain d v b where t: "ts ! i = (d, v, b)" by (cases "ts ! i")
    have ok: "piece_ok enc (Key s) k (d, v, b)" using assms(2) i t by (metis list_all_length)
    have "length b = 16 * (length d div 16 + 1)" using NewBlob_length [OF assms(1)] ok by (auto simp: piece_ok_def)
    then have b: "Blob_Hash sha b = sha b" "b \<noteq> []" by (auto simp: Blob_Hash_def)
    have "BlobInfos ?sd ! i = (info_of sha i (d, v, b))\<lparr>bi_profile := p\<rparr>" using i t by (simp add: bis nth_append nth_infos)
    then have bi: "BlobHash (BlobInfos ?sd ! i) = sha b" "IV (BlobInfos ?sd ! i) = v" using b(1) by (simp_all add: info_of_def)
    have "content (hex_encode (sha b)) = Some b" using assms(6) i t nth_mem [of i ts] by (force simp: Hasher_Hash_def)
    moreover have "sha b \<noteq> []" using assms(4) [of b] by auto
    moreover have "VerifyBlobHash sha b (hex_encode (sha b)) = None" using b by (simp add: VerifyBlobHash_iff hex_decode_encode)
    moreover have "Blob_Plaintext dec b (Key ?sd) v = Inr d" using piece_decrypts [OF assms(1) ok assms(3)]
      by (simp add: SetProfile_def stream_sd_def UpdateStreamHash_def)
    ultimately show ?thesis using bi i t by (simp add: available_def)
  qed
  moreover have "BlobHash (BlobInfos ?sd ! length ts) = []" "Length (BlobInfos ?sd ! length ts) = 0" "length (BlobInfos ?sd) = Suc (length ts)"
    by (simp_all add: bis nth_append term_of_def)
  moreover have "if map fst ts = [] then total_size (BlobInfos ?sd) 0 = 0 else int (length (concat (map fst ts))) < total_size (BlobInfos ?sd) 0"
    using T by (cases ts) auto
  moreover have "total_size (BlobInfos ?sd) 0 < 2 ^ 63" using T(2) assms(5) by simp
  ultimately show ?thesis by (simp add: ready_def)
qed

text \<open>A stream of the encoder has a valid descriptor, and when its blobs are there it is ready to be read.\<close>

lemma New_ready:
  assumes "block_cipher enc dec" "okeys_ok okeys" "set reg = {ProfileNewSort, ProfileOldSort}"
    and "\<And>i n. length (rng i n) = n" "\<And>x. length (sha x) = 48" "clean r" "length (source r) < 2 ^ 58"
    and "New rng sha enc r = Some (Inr (sdData # bs))" "\<forall>b \<in> set (sdData # bs). content (Hasher_Hash sha b) = Some b"
  obtains sdb ps where "FromBlob okeys reg sdData = Inr sdb" "BlobInfos sdb \<noteq> []" "ready content sha dec sdb ps" "concat ps = source r" "length ps = length bs"
    "verifyAndValidateSDBlob \<lparr>x_sha = sha, x_lib = L, x_okeys = okeys, x_reg = reg\<rparr> sdData (Hasher_Hash sha sdData) v = None"
proof -
  obtain sd0 tp iv where S: "New rng sha enc r = Some (Inr (ToBlob (stream_sd sha sd0 tp iv) # map (snd \<circ> snd) tp))"
      "concat (map fst tp) = source r" "list_all (piece_ok enc (Key sd0) maxBlobDataSize) tp" "length iv = aes_BlockSize"
      "length (Key sd0) = 32" "StreamType sd0 = StreamTypeLBRYFile" "StreamName sd0 = []" "SuggestedFileName sd0 = []" "sd_profile sd0 = ProfileNewSort"
    by (rule New_pieces [where sha = sha, OF assms(1,4,6)])
  have bs: "sdData = ToBlob (stream_sd sha sd0 tp iv)" "bs = map (snd \<circ> snd) tp" using assms(8) S(1) by simp_all
  define sdb where "sdb = SetProfile (sd_profile (stream_sd sha sd0 tp iv)) (stream_sd sha sd0 tp iv)"
  have len: "length (concat (map fst tp)) < 2 ^ 62" using S(2) assms(7) by simp
  have sdb: "FromBlob okeys reg sdData = Inr sdb" unfolding sdb_def bs(1)
    using FromBlob_stream_sd [OF assms(1-3) _ S(3) len] S(6) StreamTypeLBRYFile_tidy by simp
  have rdy: "ready content sha dec sdb (map fst tp)" unfolding sdb_def
    using pieces_ready [where sha = sha, OF assms(1) S(3) _ assms(5)] S(2,5) assms(7,9) bs(2) by (simp add: valid_key_size_def)
  note v = stream_sd_bytes_valid(1,2) [where sha = sha, OF assms(1-3,5) S(6,5,4,3) len, folded bs(1)]
    stream_sd_bytes_valid(3) [where sha = sha and L = L, OF assms(1-3,5) S(6,5,4,3) len, folded bs(1)]
  have "VerifyBlobHash sha sdData (Hasher_Hash sha sdData) = None" using v(2) by (simp add: VerifyBlobHash_iff Hasher_Hash_def Blob_Hash_def)
  with v have "verifyAndValidateSDBlob \<lparr>x_sha = sha, x_lib = L, x_okeys = okeys, x_reg = reg\<rparr> sdData (Hasher_Hash sha sdData) v = None"
    by (simp add: verifyAndValidateSDBlob_def)
  moreover have "BlobInfos sdb \<noteq> []" using rdy by (auto simp: ready_def)
  ultimately show thesis using that [OF sdb _ rdy] S(2) bs(2) by simp
qed

lemma ValidateBlobHash_Hasher: "length (sha data) = 48 \<Longrightarrow> client_ValidateBlobHash L (Hasher_Hash sha data) = None"
  using Hasher_IsValid_Hash [of sha data]
  by (simp add: client_ValidateBlobHash_def ValidateBlobHash_def Hasher_IsValid_def SHA384HexLength_def BlobHashHexLength_def)

section \<open>A sample world\<close>

text \<open>A memory store with the descriptor, and a transfer that delivers the only content blob.\<close>

definition sample_env :: sd_env where
  "sample_env = \<lparr>x_sha = sample_sha, x_lib = sample_cid_lib, x_okeys = sample_okeys, x_reg = [ProfileNewSort, ProfileOldSort]\<rparr>"

definition sample_transfer :: "bytes \<Rightarrow> transfer option list" where
  "sample_transfer b = [Some (\<lambda>h. if h = Hasher_Hash sample_sha b then Inr b else Inl (Sentinel ErrBlobNotFound))]"

definition sample_world :: "bytes \<Rightarrow> MemoryStore" where
  "sample_world data = \<lparr>blobs = [], sdBlobs = [(Hasher_Hash sample_sha data, data)]\<rparr>"

abbreviation sample_services :: "bytes \<Rightarrow> MemoryStore services" where
  "sample_services b \<equiv> acquirer_services (memory_store sample_cid_lib) (sample_transfer b) True"

abbreviation sample_serves :: "bytes \<Rightarrow> (string \<Rightarrow> bytes option) \<Rightarrow> MemoryStore \<Rightarrow> bool" where
  "sample_serves b \<equiv> serves mem_lookup (mem_ok sample_cid_lib) (ValidateHash sample_cid_lib) (\<lambda>d. ValidForSend d = None) (sample_transfer b)"

lemma length_sample_sha: "length (sample_sha x) = 48"
  by (simp add: sample_sha_def)

lemma sample_stream:
  obtains sdData b content where "sample_New = Some (Inr [sdData, b])" "mem_lookup (sample_world sdData) (Hasher_Hash sample_sha b) = None"
    "sample_serves b content (sample_world sdData)" "\<forall>x \<in> set [sdData, b]. content (Hasher_Hash sample_sha x) = Some x"
proof -
  obtain sdData b where new: "sample_New = Some (Inr [sdData, b])" "length b = 16" "length sdData \<in> {17..MaxBlobSize}" using sample_New by blast
  have neq: "Hasher_Hash sample_sha b \<noteq> Hasher_Hash sample_sha sdData"
  proof
    assume "Hasher_Hash sample_sha b = Hasher_Hash sample_sha sdData"
    then have "hd (sample_sha b) = hd (sample_sha sdData)" using hex_decode_encode unfolding Hasher_Hash_def by (metis option.inject)
    then show False using new(2,3) by (simp add: sample_sha_def)
  qed
  define content where "content = [Hasher_Hash sample_sha b \<mapsto> b, Hasher_Hash sample_sha sdData \<mapsto> sdData]"
  have valid: "ValidateHash sample_cid_lib (Hasher_Hash sample_sha x)" for x
    using Hasher_IsValid_Hash [where sha = sample_sha, OF length_sample_sha] by simp
  have "mem_ok sample_cid_lib (sample_world sdData)" using new(3) valid by (auto simp: sample_world_def mem_ok_def ValidForSend_def)
  moreover have "ValidForSend b = None" "ValidForSend sdData = None" using new(2,3) by (auto simp: ValidForSend_def MaxBlobSize_def)
  ultimately have "sample_serves b content (sample_world sdData)"
    using neq valid by (auto simp: serves_def content_def sample_world_def sample_transfer_def mem_lookup_def split: if_splits)
  then show thesis using that [OF new(1)] neq by (simp add: content_def sample_world_def mem_lookup_def)
qed

lemma sample_content: "content_source (sample_services b) (sample_serves b content) content"
  by (rule memst.acquirer_content)

section \<open>Properties\<close>

text \<open>
  C3. A file that was encoded can be read back through the stream client. The blobs are in the store, or an acquirer gets them
  from a transfer; whatever the options, with or without verification and store, opening the stream by the hash of its
  descriptor succeeds. Every sequence of reads, with whatever prefetching and background writing between them, runs without
  a panic and delivers the file from its start; the only error is \<open>EOF\<close>, when the whole file has been delivered; and
  more reads than the file has bytes and blobs deliver it completely.
\<close>

theorem StreamReader_roundtrip:
  assumes "block_cipher enc dec" "okeys_ok okeys" "set reg = {ProfileNewSort, ProfileOldSort}"
    and "\<And>i n. length (rng i n) = n" "\<And>x. length (sha x) = 48" "clean r" "length (source r) < 2 ^ 58"
    and "New rng sha enc r = Some (Inr (sdData # bs))" "X = \<lparr>x_sha = sha, x_lib = L, x_okeys = okeys, x_reg = reg\<rparr>"
    and "store_core B lookup ok valid storable same ok_ctx" "serves lookup ok valid storable ts content s"
    and "\<forall>b \<in> set (sdData # bs). content (Hasher_Hash sha b) = Some b" "retry_live rt" "list_all in_order as"
  shows "\<exists>rd s1 xs rd' s2 rest. sa_GetStream X (acquirer_services B ts st) rt (Hasher_Hash sha sdData) opts s = (Inr rd, s1) \<and>
    rop_run sha dec (acquirer_services B ts st) rt as rd s1 = Some (xs, rd', s2) \<and> delivered xs @ rest = source r \<and>
    (\<forall>e. Inl e \<in> set xs \<longrightarrow> e = error.EOF \<and> rest = []) \<and>
    (reads as > length (source r) + length bs + 1 \<longrightarrow> Inl error.EOF \<in> set xs)"
proof -
  let ?S = "acquirer_services B ts st" and ?ok = "serves lookup ok valid storable ts content"
  have cs: "content_source ?S ?ok content" by (rule store_core.acquirer_content [OF assms(10)])
  obtain sdb ps where sdb: "FromBlob okeys reg sdData = Inr sdb" "BlobInfos sdb \<noteq> []" "ready content sha dec sdb ps" "concat ps = source r"
    "length ps = length bs" "verifyAndValidateSDBlob X sdData (Hasher_Hash sha sdData) (ac_VerificationEnabled (apply_opts opts)) = None"
    unfolding assms(9) by (rule New_ready [where sha = sha, OF assms(1-8,12)])
  then obtain os s1 where rd: "sa_GetStream X ?S rt (Hasher_Hash sha sdData) opts s = (Inr (newStreamReader sdb os), s1)" "?ok s1"
    using content_source.fetch_sd_content [OF cs assms(11,13) _ sdb(6), of sdb True "OperationError ''parse_sd_blob''"
        "OperationError ''validate_sd_blob'' SDBlob.ErrInvalidSDBlob"] ValidateBlobHash_Hasher [where sha = sha, OF assms(5)] assms(9,12)
    by (auto simp: sa_GetStream_def Let_def)
  from content_source.read_all [OF cs sdb(3) assms(13,14) rd(2), of os] obtain xs rd' s2 rest where
    "rop_run sha dec ?S rt as (newStreamReader sdb os) s1 = Some (xs, rd', s2)" "delivered xs @ rest = source r"
    "\<forall>e. Inl e \<in> set xs \<longrightarrow> e = error.EOF \<and> rest = []" "reads as > length (source r) + length bs + 1 \<longrightarrow> Inl error.EOF \<in> set xs"
    using sdb(4,5) by auto
  with rd(1) show ?thesis by blast
qed

theorem StreamReader_roundtrip_witness:
  "\<exists>sdData b rd s1 xs rd' s2. sample_New = Some (Inr [sdData, b]) \<and> mem_lookup (sample_world sdData) (Hasher_Hash sample_sha b) = None \<and>
     sa_GetStream sample_env (sample_services b) once (Hasher_Hash sample_sha sdData) [] (sample_world sdData) = (Inr rd, s1) \<and>
     rop_run sample_sha xor_cipher (sample_services b) once [RRead 1, RPrefetch, RRead 5, RStore, RRead 1, RRead 1] rd s1 = Some (xs, rd', s2) \<and>
     delivered xs = [1] \<and> Inl error.EOF \<in> set xs"
proof -
  obtain sdData b content where w: "sample_New = Some (Inr [sdData, b])" "mem_lookup (sample_world sdData) (Hasher_Hash sample_sha b) = None"
    "sample_serves b content (sample_world sdData)" "\<forall>x \<in> set [sdData, b]. content (Hasher_Hash sample_sha x) = Some x" by (rule sample_stream)
  define as where "as = [RRead 1, RPrefetch, RRead 5, RStore, RRead 1, RRead 1]"
  have as: "list_all in_order as" "reads as = 4" by (simp_all add: as_def reads_def)
  have "\<exists>rd s1 xs rd' s2 rest. sa_GetStream sample_env (sample_services b) once (Hasher_Hash sample_sha sdData) [] (sample_world sdData) = (Inr rd, s1) \<and>
    rop_run sample_sha xor_cipher (sample_services b) once as rd s1 = Some (xs, rd', s2) \<and>
    delivered xs @ rest = source [([1], Some EOF)] \<and> (\<forall>e. Inl e \<in> set xs \<longrightarrow> e = error.EOF \<and> rest = []) \<and>
    (reads as > length (source [([1], Some EOF)]) + length [b] + 1 \<longrightarrow> Inl error.EOF \<in> set xs)"
    by (rule StreamReader_roundtrip [OF block_cipher_xor sample_okeys_ok _ _ length_sample_sha _ _ w(1) sample_env_def memst.store_core_axioms w(3,4)
          once_ok(2) as(1)]) (simp_all add: source_def)
  then obtain rd s1 xs rd' s2 rest where
    "sa_GetStream sample_env (sample_services b) once (Hasher_Hash sample_sha sdData) [] (sample_world sdData) = (Inr rd, s1)"
    "rop_run sample_sha xor_cipher (sample_services b) once as rd s1 = Some (xs, rd', s2)"
    and xs: "delivered xs @ rest = source [([1], Some EOF)]" "\<forall>e. Inl e \<in> set xs \<longrightarrow> e = error.EOF \<and> rest = []"
    "reads as > length (source [([1], Some EOF)]) + length [b] + 1 \<longrightarrow> Inl error.EOF \<in> set xs" by blast
  moreover have "Inl error.EOF \<in> set xs" using xs(3) as(2) by (simp add: source_def)
  moreover from this have "delivered xs = [1]" using xs(1,2) by (auto simp: source_def)
  ultimately show ?thesis using w(1,2) unfolding as_def by blast
qed

lemma fetch_sd_Inr:
  assumes "fetch_sd X S rt ex pe ee v h w = (Inr (sdb, data), w')"
  shows "verifyAndValidateSDBlob X data h v = None" "FromBlob (x_okeys X) (x_reg X) data = Inr sdb"
  using assms by (auto simp: fetch_sd_def split: prod.splits sum.splits option.splits if_splits)

lemma verified_sd:
  assumes "verifyAndValidateSDBlob X data h v = None"
  shows "v \<Longrightarrow> VerifyBlobHash (x_sha X) data h = None" "ValidateSDBlobBytes (x_sha X) (x_lib X) (x_okeys X) (x_reg X) data = None"
  using assms by (auto simp: verifyAndValidateSDBlob_def split: if_splits option.splits)

lemma acquired_verified:
  "acquireBlobWithFallback X S True h w = (Inr d, w') \<Longrightarrow> VerifyBlobHash (x_sha X) d h = None"
  by (auto simp: acquireBlobWithFallback_def from_network_def split: prod.splits sum.splits bool.splits option.splits if_splits)

lemma fetched_verified:
  assumes "fetch_blobs X S v bis w = (Inr ds, w')"
  shows "map snd ds = map (\<lambda>bi. (hex_encode (BlobHash bi), Length bi)) (filter (\<lambda>bi. Length bi \<noteq> 0) bis) \<and>
    (v \<longrightarrow> list_all (\<lambda>(d, h, n). VerifyBlobHash (x_sha X) d h = None) ds)"
  using assms
proof (induction bis arbitrary: w ds)
  case (Cons bi bis)
  show ?case
  proof (cases "Length bi = 0")
    case False
    then obtain d w1 ds' where "acquireBlobWithFallback X S v (hex_encode (BlobHash bi)) w = (Inr d, w1)" "fetch_blobs X S v bis w1 = (Inr ds', w')"
      "ds = (d, hex_encode (BlobHash bi), Length bi) # ds'" using Cons.prems by (auto simp: Let_def split: prod.splits sum.splits)
    then show ?thesis using Cons.IH acquired_verified [of X S "hex_encode (BlobHash bi)" w d w1] False by auto
  qed (use Cons in auto)
qed simp

text \<open>
  C8. A whole stream fetched with verification is the one that was asked for, whatever the store and the network answer: the
  descriptor has the requested hash and is valid, and the content blobs are those it lists, in order, each with its hash.
\<close>

theorem GetStreamResult_verified:
  assumes "GetStreamResult X S rt h opts w = (Inr res, w')" "ac_VerificationEnabled (apply_opts opts)" "ac_Recursive (apply_opts opts)"
  defines "bis \<equiv> filter (\<lambda>bi. Length bi \<noteq> 0) (BlobInfos (res_SDBlob res))"
  shows "VerifyBlobHash (x_sha X) (res_SDBlobData res) h = None \<and>
    FromBlob (x_okeys X) (x_reg X) (res_SDBlobData res) = Inr (res_SDBlob res) \<and>
    ValidateSDBlobBytes (x_sha X) (x_lib X) (x_okeys X) (x_reg X) (res_SDBlobData res) = None \<and>
    res_ContentHashes res = map (\<lambda>bi. hex_encode (BlobHash bi)) bis \<and> res_ChunkSizes res = map Length bis \<and>
    res_TotalChunks res = int (length bis) \<and>
    list_all2 (\<lambda>d bi. VerifyBlobHash (x_sha X) d (hex_encode (BlobHash bi)) = None) (res_ContentBlobs res) bis"
proof -
  obtain sdb data w1 ds where f: "fetch_sd X S rt False (Wrapped ''failed to parse SD blob'') (Plain ''invalid SD blob: no blob infos found'') True h w =
      (Inr (sdb, data), w1)" "fetch_blobs X S True (BlobInfos sdb) w1 = (Inr ds, w')"
    and res: "res_SDBlob res = sdb" "res_SDBlobData res = data" "res_ContentBlobs res = map fst ds" "res_ContentHashes res = map (fst \<circ> snd) ds"
      "res_TotalChunks res = int (length ds)" "res_ChunkSizes res = map (snd \<circ> snd) ds"
    using assms(1-3) by (auto simp: GetStreamResult_def Let_def split: prod.splits sum.splits)
  note v = verified_sd [OF fetch_sd_Inr(1) [OF f(1)]] fetch_sd_Inr(2) [OF f(1)]
  from fetched_verified [OF f(2)] have ds: "map snd ds = map (\<lambda>bi. (hex_encode (BlobHash bi), Length bi)) bis"
    "list_all (\<lambda>(d, h, n). VerifyBlobHash (x_sha X) d h = None) ds" by (simp_all add: bis_def res(1))
  have "length ds = length bis" using arg_cong [OF ds(1), of length] by simp
  moreover have "map (fst \<circ> snd) ds = map (\<lambda>bi. hex_encode (BlobHash bi)) bis" "map (snd \<circ> snd) ds = map Length bis"
    using arg_cong [OF ds(1), of "map fst"] arg_cong [OF ds(1), of "map snd"] by (simp_all add: comp_def)
  moreover have "list_all2 (\<lambda>d bi. VerifyBlobHash (x_sha X) d (hex_encode (BlobHash bi)) = None) (map fst ds) bis"
  proof (rule list_all2_all_nthI)
    fix n assume "n < length (map fst ds)"
    then show "VerifyBlobHash (x_sha X) (map fst ds ! n) (hex_encode (BlobHash (bis ! n))) = None"
      using arg_cong [OF ds(1), of "\<lambda>l. l ! n"] ds(2) \<open>length ds = length bis\<close> by (cases "ds ! n") (auto simp: list_all_length)
  qed (simp add: \<open>length ds = length bis\<close>)
  ultimately show ?thesis using v res by simp
qed

lemma sample_fetch:
  assumes "sample_New = Some (Inr [sdData, b])" "sample_serves b content (sample_world sdData)"
    and "\<forall>x \<in> set [sdData, b]. content (Hasher_Hash sample_sha x) = Some x"
  shows "\<exists>sdb ps w1. fetch_sd sample_env (sample_services b) once ex pe ee v (Hasher_Hash sample_sha sdData) (sample_world sdData) = (Inr (sdb, sdData), w1) \<and>
    sample_serves b content w1 \<and> ready content sample_sha xor_cipher sdb ps"
proof -
  have fx: "set [ProfileNewSort, ProfileOldSort] = {ProfileNewSort, ProfileOldSort}" "\<And>i n. length ((\<lambda>i n. replicate n 7 :: bytes) i n) = n"
    "clean [([1], Some EOF)]" "length (source [([1], Some EOF)]) < 2 ^ 58" by (simp_all add: source_def)
  obtain sdb ps where sdb: "FromBlob sample_okeys [ProfileNewSort, ProfileOldSort] sdData = Inr sdb" "BlobInfos sdb \<noteq> []" "ready content sample_sha xor_cipher sdb ps"
    "concat ps = source [([1], Some EOF)]" "length ps = length [b]" "verifyAndValidateSDBlob sample_env sdData (Hasher_Hash sample_sha sdData) v = None"
    unfolding sample_env_def
    by (rule New_ready [where sha = sample_sha and L = sample_cid_lib and v = v, OF block_cipher_xor sample_okeys_ok fx(1,2) length_sample_sha fx(3,4) assms(1,3)])
  have "FromBlob (x_okeys sample_env) (x_reg sample_env) sdData = Inr sdb" using sdb(1) by (simp add: sample_env_def)
  from content_source.fetch_sd_content [OF sample_content assms(2) once_ok(2) _ sdb(6) this sdb(2), of ex pe ee] assms(3) sdb(3) show ?thesis by auto
qed

lemma sample_result:
  assumes "sample_New = Some (Inr [sdData, b])" "sample_serves b content (sample_world sdData)"
    and "\<forall>x \<in> set [sdData, b]. content (Hasher_Hash sample_sha x) = Some x"
  shows "\<exists>res w'. GetStreamResult sample_env (sample_services b) once (Hasher_Hash sample_sha sdData) [WithAcquireRecursive True, WithAcquireVerification True]
    (sample_world sdData) = (Inr res, w')"
proof -
  obtain sdb ps w1 where w1: "fetch_sd sample_env (sample_services b) once False (Wrapped ''failed to parse SD blob'')
      (Plain ''invalid SD blob: no blob infos found'') True (Hasher_Hash sample_sha sdData) (sample_world sdData) = (Inr (sdb, sdData), w1)"
    "sample_serves b content w1" "ready content sample_sha xor_cipher sdb ps" using sample_fetch [OF assms] by blast
  have "\<exists>ds w2. fetch_blobs sample_env (sample_services b) True (BlobInfos sdb) w1 = (Inr ds, w2)"
    using ready_content [OF w1(3)] by (intro content_source.fetch_content [OF sample_content _ w1(2)]) (simp add: sample_env_def)
  then show ?thesis using w1(1)
    by (auto simp: GetStreamResult_def Let_def apply_opts_def baseAcquireConfig_def WithAcquireRecursive_def WithAcquireVerification_def)
qed

theorem GetStreamResult_verified_witness:
  "\<exists>sdData b res w'. sample_New = Some (Inr [sdData, b]) \<and>
     GetStreamResult sample_env (sample_services b) once (Hasher_Hash sample_sha sdData) [WithAcquireRecursive True, WithAcquireVerification True]
       (sample_world sdData) = (Inr res, w') \<and>
     list_all2 (\<lambda>d bi. VerifyBlobHash sample_sha d (hex_encode (BlobHash bi)) = None) (res_ContentBlobs res)
       (filter (\<lambda>bi. Length bi \<noteq> 0) (BlobInfos (res_SDBlob res)))"
proof -
  obtain sdData b content where w: "sample_New = Some (Inr [sdData, b])" "mem_lookup (sample_world sdData) (Hasher_Hash sample_sha b) = None"
    "sample_serves b content (sample_world sdData)" "\<forall>x \<in> set [sdData, b]. content (Hasher_Hash sample_sha x) = Some x" by (rule sample_stream)
  from sample_result [OF w(1,3,4)] obtain res w' where r: "GetStreamResult sample_env (sample_services b) once (Hasher_Hash sample_sha sdData)
      [WithAcquireRecursive True, WithAcquireVerification True] (sample_world sdData) = (Inr res, w')" by blast
  have "x_sha sample_env = sample_sha" by (simp add: sample_env_def)
  then show ?thesis using GetStreamResult_verified [OF r] w(1) r
    by (auto simp: apply_opts_def baseAcquireConfig_def WithAcquireRecursive_def WithAcquireVerification_def)
qed

text \<open>
  C23. The reader that \<open>GetStream\<close> opens verifies its blobs exactly when verification is switched on for the call, whatever the stream
  options say; then the descriptor was verified too. Without options it is off.
\<close>

theorem GetStream_verification:
  assumes "sa_GetStream X S rt h opts w = (Inr rd, w')"
  shows "VerificationEnabled (sr_config rd) = ac_VerificationEnabled (apply_opts opts) \<and>
    (VerificationEnabled (sr_config rd) \<longrightarrow>
       (\<exists>data. VerifyBlobHash (x_sha X) data h = None \<and> FromBlob (x_okeys X) (x_reg X) data = Inr (sr_sd rd))) \<and>
    VerificationEnabled DefaultStreamConfig \<and> \<not> ac_VerificationEnabled (apply_opts [])"
proof -
  let ?cf = "apply_opts opts"
  obtain sdb data where f: "fetch_sd X S rt True (OperationError ''parse_sd_blob'') (OperationError ''validate_sd_blob'' SDBlob.ErrInvalidSDBlob)
      (ac_VerificationEnabled ?cf) h w = (Inr (sdb, data), w')"
    and rd: "rd = newStreamReader sdb (ac_StreamOptions ?cf @ [WithStreamVerification (ac_VerificationEnabled ?cf)])"
    using assms by (auto simp: sa_GetStream_def Let_def split: option.splits prod.splits sum.splits)
  have "VerificationEnabled (sr_config rd) = ac_VerificationEnabled ?cf" "sr_sd rd = sdb"
    by (simp_all add: rd newStreamReader_def WithStreamVerification_def)
  then show ?thesis using verified_sd(1) [OF fetch_sd_Inr(1) [OF f]] fetch_sd_Inr(2) [OF f]
    by (auto simp: apply_opts_def baseAcquireConfig_def DefaultStreamConfig_def)
qed


theorem GetStream_verification_witness:
  "\<exists>sdData b rd w'. sample_New = Some (Inr [sdData, b]) \<and>
     sa_GetStream sample_env (sample_services b) once (Hasher_Hash sample_sha sdData) [WithAcquireVerification True] (sample_world sdData) = (Inr rd, w') \<and>
     VerificationEnabled (sr_config rd)"
proof -
  obtain sdData b content where w: "sample_New = Some (Inr [sdData, b])" "mem_lookup (sample_world sdData) (Hasher_Hash sample_sha b) = None"
    "sample_serves b content (sample_world sdData)" "\<forall>x \<in> set [sdData, b]. content (Hasher_Hash sample_sha x) = Some x" by (rule sample_stream)
  let ?os = "[WithAcquireVerification True]"
  have on: "ac_VerificationEnabled (apply_opts ?os)" by (simp add: apply_opts_def WithAcquireVerification_def)
  obtain sdb w1 where "fetch_sd sample_env (sample_services b) once True (OperationError ''parse_sd_blob'')
      (OperationError ''validate_sd_blob'' SDBlob.ErrInvalidSDBlob) (ac_VerificationEnabled (apply_opts ?os)) (Hasher_Hash sample_sha sdData)
      (sample_world sdData) = (Inr (sdb, sdData), w1)" using sample_fetch [OF w(1,3,4)] by blast
  then obtain rd w' where r: "sa_GetStream sample_env (sample_services b) once (Hasher_Hash sample_sha sdData) ?os (sample_world sdData) = (Inr rd, w')"
    using ValidateBlobHash_Hasher [of sample_sha sdData] length_sample_sha by (simp add: sa_GetStream_def Let_def)
  from GetStream_verification [OF r] on have "VerificationEnabled (sr_config rd)" by blast
  with w(1) r show ?thesis by blast
qed

end
