(* ===== verification/Spec2Isabelle.thy ===== *)
theory Spec2Isabelle
  imports CoinSelect_Strategies Errors Memory Disk_Store Stream_Roundtrip Claim Account
    Upload Peer_Safety PeerTransfer StreamClient
begin

text \<open>
  A model of liblbry, the Go library of the LBRY network, and the properties that make it correct.

  \<^bold>\<open>The program.\<close> liblbry turns files into streams of encrypted blobs and back (\<open>stream/\<close>, \<open>blob/\<close>,
  \<open>crypto/\<close>), keeps blobs in memory or on disk behind one interface (\<open>storage/\<close>), fetches missing ones
  through transfers (\<open>acquirer.go\<close>, \<open>blob/transfer/\<close>), and exchanges them with other nodes (\<open>protocol/\<close>:
  uploads to a reflector, downloads from peers, discovery by a DHT). Around that it publishes claims: it
  selects coins (\<open>coinselect/\<close>), builds claim scripts and transactions (\<open>chain/\<close>), encodes and signs claim
  values (\<open>claim/\<close>), and derives keys and addresses from a seed phrase (\<open>wallet/\<close>).

  \<^bold>\<open>How the theories follow the code.\<close> Every record, datatype and function of the model carries the name of
  the Go item it translates, and its branches are those of the code in their order.

  \<^item> \<open>Prelude\<close>, \<open>Hex\<close>, \<open>Json\<close>, \<open>Scanner\<close>: the parts of Go's language and standard library that the code
    uses. Go's \<open>int\<close> and \<open>int64\<close> are \<^typ>\<open>int\<close> with the wrap-around \<open>i64\<close> written out where a sum can
    overflow; bytes are \<^typ>\<open>8 word\<close>; strings are lists of characters. \<open>Json\<close> is \<open>encoding/json\<close> with its
    decoding of struct fields, \<open>Scanner\<close> its byte-wise scanner, which decides where a message ends.
  \<^item> \<open>Errors\<close>: \<open>errors/common.go\<close>; errors are values of one datatype, with wrapping, joining and \<open>errors.Is\<close>.
  \<^item> \<open>CoinSelect\<close>, \<open>CoinSelect_Search\<close>, \<open>CoinSelect_Strategies\<close>: \<open>coinselect/coinselect.go\<close>. The branch and
    bound loop is a step function on a state record; the search theory shows that pruning loses nothing.
  \<^item> \<open>Hash\<close>, \<open>Blob\<close>: \<open>crypto/\<close>, \<open>stream/multihash.go\<close>, \<open>blob/blob.go\<close>; CBC chaining and padding are modelled,
    the block cipher and SHA-384 are parameters.
  \<^item> \<open>Store\<close>: \<open>storage/blob.go\<close>, \<open>storage/access.go\<close>, \<open>acquirer.go\<close>. The interface is the locale
    \<open>store_safe\<close>, which holds whether calls succeed or fail, extended by \<open>store_core\<close> (calls succeed under a live context),
    \<open>blob_store\<close> and \<open>sd_store\<close>; the acquirer, both servers and the stream reader are verified against them. \<open>Memory\<close> (\<open>storage/memory/memory.go\<close>) and \<open>Disk_Store\<close> (over \<open>Effect\<close>, \<open>FileSystem\<close> and \<open>Disk\<close>:
    \<open>storage/disk/disk.go\<close>) interpret them: a disk with failing system calls is \<open>disk_io\<close>, a store of the first kind only.
  \<^item> \<open>SDBlob\<close>, \<open>Encoder\<close>, \<open>Stream_Roundtrip\<close>: \<open>stream/\<close>: descriptors and their two serialisations, the encoder
    and decoder, stream creation and manifests.
  \<^item> \<open>Chain\<close>, \<open>Claim\<close>: \<open>chain/\<close> and \<open>claim/\<close>. \<open>Wordlist\<close>, \<open>Mnemonic\<close>, \<open>Wallet\<close>, \<open>Account\<close>: \<open>wallet/\<close>.
  \<^item> \<open>Effect\<close>: stateful code with errors as functions of an environment and a state; its Hoare triples and
    frame rules carry the proofs about the disk and the network. \<open>Net\<close>: connections, buffered readers and
    the JSON decoder's reads, with every failing call and every segmentation of the input explicit.
  \<^item> \<open>Reflector\<close>, \<open>Reflector_Safety\<close>, \<open>ReflectorClient\<close>, \<open>Upload\<close>: \<open>protocol/reflector*.go\<close>.
    \<open>Peer\<close>, \<open>Peer_Safety\<close>: \<open>protocol/peer.go\<close>, \<open>protocol/peer_messages.go\<close>, \<open>protocol/protector.go\<close>. \<open>PeerClient\<close>:
    \<open>protocol/peer_client.go\<close>; \<open>Wire\<close> and \<open>Download\<close> put client and server together.
  \<^item> \<open>Coordinator\<close>, \<open>Race\<close>, \<open>Race_Safety\<close>, \<open>Race_Progress\<close>, \<open>PeerTransfer\<close>: \<open>blob/transfer/peer_transfer/\<close>. The shared
    requests live in a heap; calls and peer tasks are program counters of one system, and a run is any sequence of
    their actions, with the answers of peers and of the discovery among them.
  \<^item> \<open>StreamReader\<close>, \<open>StreamReader_Safety\<close>, \<open>StreamAcquirer\<close>, \<open>StreamReading\<close>, \<open>StreamClient\<close>: \<open>client/errors.go\<close> and
    \<open>client/stream_acquirer.go\<close>. The reader with its cache is a record whose operations, prefetching and background
    writes included, interleave in any order. What it reads from is the locale \<open>content_source\<close>, which every
    store of \<open>store_core\<close> with an acquirer provides.

  \<^bold>\<open>What the theorems show.\<close> Coin selection: what each strategy returns covers the target from the given
  outputs, and is optimal, closest or smallest as documented. Blobs and streams: padding, encryption,
  descriptors and whole streams round-trip, and streams made by the encoder pass the validator. Stores: the
  memory store is a map, the disk store simulates it on a working disk, and on a failing one every write is
  all or nothing and never leaves its directory. Claims: identifiers, scripts, values and signatures
  round-trip, transactions are built and signed as asked. Wallets: mnemonics round-trip, keys derived along
  any path are well-formed and public derivation agrees with private derivation, the address manager keeps its
  gap. Protocols: a reflector always returns and stores only verified blobs, an upload between the client and
  the server leaves the blob in the server's store, a peer server answers each message it receives with what that
  message may be told and never sends a protected or denied blob, and a stream that a peer client downloads from a peer
  server decodes to the original data. Transfers: in every interleaving the data a call returns is the blob it asked for, all
  calls that share a request agree, and when waiting ends and when it does not. Streams: what a verifying reader
  returns belongs to the descriptor, its cache stays bounded, and reading in order returns the plaintext.

  \<^bold>\<open>Termination.\<close> Loops over data are structural or have a measure. Connection loops are the
  \<open>partial_function\<close> \<open>loopE\<close>, whose absent result is non-termination; it ends whenever an iteration that
  returns has consumed input. Loops that draw random numbers until one fits (\<open>find_seed\<close>) take the number of draws as fuel, and the
  theorem about them states that the first fitting draw is returned.

  \<^bold>\<open>Parameters.\<close> Code outside the repository is an argument of the definitions that use it: AES and the hash
  functions, the CID library, Unicode tables, the curve, key codecs and Base58 of lbcd and btcec, its script
  templates and signing, the protobuf codec, IP address parsing, clocks as failing deadlines. What a theorem needs of
  them is a named hypothesis (\<open>block_cipher\<close>, \<open>cid_lib_ok\<close>, \<open>lbcd_ok\<close>, \<open>prims_ok\<close>, \<open>unicode_ok\<close>, \<open>okeys_ok\<close>,
  \<open>retry_ok\<close> and \<open>retry_live\<close> for the retry library),
  each with a concrete instance in the witnesses. Contexts are functions from the number of a check to the
  error it reports. Panics are the absent value of an option.

  \<^bold>\<open>Not modelled.\<close> Logging, metrics and progress callbacks; mutexes (the operations on shared state are atomic
  steps, also \<open>TrackFailedPeer\<close>, \<open>ResetForNewPhase\<close> and \<open>GetRequestState\<close>, which the code makes of several); shared memory
  that is overwritten in place when a wallet is wiped; the DHT with its announcer, crawler and watchdog
  (\<open>protocol/dht*.go\<close>, \<open>protocol/watchdog/\<close>), which wraps a third-party node; discovery, host resolution and the
  connection pool of the peer transfer, whose answers are chosen by the actions; \<open>server/\<close> and the builders, which wire
  components; the electrum client; the generated protobuf code and mocks.
\<close>

end
